(* ===== verification/Heyaki_Prelude.thy ===== *)
theory Heyaki_Prelude
  imports
    Main
    "HOL-Library.Word"
    "HOL-Library.Char_ord"
    "HOL-Library.List_Lexorder"
    "HOL-Library.Product_Lexorder"
    "HOL-Library.Option_ord"
begin

text \<open>
  The vocabulary every component theory of the development shares:
  machine integers and the lemmas that move them to \<^typ>\<open>nat\<close>, the ordered map that
  stands for \<open>std::map\<close>, clock values, and the locale in which an invariant that every
  operation keeps is lifted to whole runs of a component.
\<close>

unbundle bit_operations_syntax

section \<open>Types\<close>

type_synonym byte = "8 word"
type_synonym u16 = "16 word"
type_synonym u32 = "32 word"
type_synonym u64 = "64 word"
type_synonym bytes = "byte list"

text \<open>
  A \<open>std::chrono::steady_clock::time_point\<close> is a number of nanoseconds; a
  \<open>std::chrono::milliseconds\<close> value is a number of milliseconds.
\<close>

type_synonym time_point = int
type_synonym milliseconds = int

abbreviation ms_to_ns :: "milliseconds \<Rightarrow> int" where
  "ms_to_ns d \<equiv> d * 1000000"

named_theorems word_nat \<open>rules that read a machine word as a natural number\<close>
named_theorems om_simps \<open>lookup, size and key-order rules of the ordered map\<close>

section \<open>Machine words as natural numbers\<close>

lemma unat_byte_bound: "unat (b :: byte) < 256"
  using unsigned_less [of b] by simp

lemma unat_u32_bound: "unat (w :: u32) < 4294967296"
  using unsigned_less [of w] by simp

lemma unat_u64_bound: "unat (w :: u64) < 18446744073709551616"
  using unsigned_less [of w] by simp

lemma unat_push_bit [word_nat]:
  "unat (push_bit k x :: 'a::len word) = (2 ^ k * unat x) mod 2 ^ LENGTH('a)"
  by (subst unsigned_push_bit_eq) (simp add: push_bit_eq_mult take_bit_eq_mod mult.commute)

lemma unat_drop_bit [word_nat]: "unat (drop_bit k x :: 'a::len word) = unat x div 2 ^ k"
  by (subst unat_drop_bit_eq) (simp add: drop_bit_eq_div)

lemma unat_ucast [word_nat]:
  "unat (ucast (x :: 'b::len word) :: 'a::len word) = unat x mod 2 ^ LENGTH('a)"
  by (simp add: unsigned_ucast_eq take_bit_eq_mod)

lemma unat_and_mask: "unat (w AND mask k :: 'a::len word) = unat w mod 2 ^ k"
proof -
  have "unat (w AND mask k) = unat (take_bit k w)"
    by (simp only: take_bit_eq_mask)
  then show ?thesis
    by (subst (asm) unsigned_take_bit_eq) (simp add: take_bit_eq_mod)
qed

lemma unat_and_7f [word_nat]: "unat (w AND 0x7f :: 'a::len word) = unat w mod 128"
  using unat_and_mask [of w 7] by (simp add: mask_eq_exp_minus_1)

lemma unat_and_1f [word_nat]: "unat (w AND 0x1f :: 'a::len word) = unat w mod 32"
  using unat_and_mask [of w 5] by (simp add: mask_eq_exp_minus_1)

lemma unat_and_ff [word_nat]: "unat (w AND 0xff :: 'a::len word) = unat w mod 256"
  using unat_and_mask [of w 8] by (simp add: mask_eq_exp_minus_1)

lemma and_exp_eq_0_unat: "(w AND 2 ^ k :: 'a::len word) = 0 \<longleftrightarrow> even (unat w div 2 ^ k)"
proof -
  have "bit w k \<longleftrightarrow> bit (unat w) k"
    by (simp add: bit_unsigned_iff)
  then show ?thesis
    by (simp add: and_exp_eq_0_iff_not_bit bit_nat_def)
qed

lemma and_80_eq_0 [word_nat]: "(b AND 0x80 :: byte) = 0 \<longleftrightarrow> unat b < 128"
proof -
  have *: "(0x80 :: byte) = 2 ^ 7" by simp
  have "unat b div 2 ^ 7 < 2" using unat_byte_bound [of b] by auto
  then have "even (unat b div 2 ^ 7) \<longleftrightarrow> unat b div 2 ^ 7 = 0" by (auto elim: evenE)
  also have "\<dots> \<longleftrightarrow> unat b < 128" by auto
  finally show ?thesis by (simp only: * and_exp_eq_0_unat)
qed

lemma nat_and_disjoint:
  assumes "(m::nat) < 2 ^ k" and "2 ^ k dvd n"
  shows "m AND n = 0"
proof (rule bit_eqI)
  fix i
  from assms(2) obtain q where q: "n = push_bit k q"
    by (auto simp: push_bit_eq_mult mult.commute)
  have m: "m = take_bit k m" using assms(1) by (simp add: take_bit_nat_eq_self)
  show "bit (m AND n) i \<longleftrightarrow> bit (0::nat) i"
    by (subst m, subst q) (auto simp: bit_simps)
qed

lemma unat_or_disjoint:
  fixes v x :: "'a::len word"
  assumes "unat v < 2 ^ k" and "2 ^ k dvd unat x"
  shows "unat (v OR x) = unat v + unat x"
  using nat_and_disjoint [OF assms] by (simp add: unsigned_or_eq disjunctive_add_eq_or)

text \<open>Shifting an accumulator that has room and filling the low bits.\<close>

lemma unat_shift_in:
  assumes "unat (a :: u32) < 2 ^ n" "n + k < 32" "unat x < 2 ^ k"
  shows "unat (push_bit k a OR x) = unat a * 2 ^ k + unat x"
proof -
  have "2 ^ k * unat a < 2 ^ k * 2 ^ n" using assms(1) by simp
  also have "\<dots> \<le> 2 ^ 31"
    unfolding power_add [symmetric] using assms(2) by (intro power_increasing) auto
  finally have "unat (push_bit k a) = 2 ^ k * unat a" by (simp add: word_nat)
  then show ?thesis using unat_or_disjoint [OF assms(3), of "push_bit k a"]
    by (simp add: or.commute mult.commute)
qed

text \<open>The high bit of an octet is set by \<open>OR 0x80\<close>.\<close>

lemma unat_or_80: "unat (b :: byte) < 128 \<Longrightarrow> unat (b OR 0x80) = unat b + 128"
  using unat_or_disjoint [of b 7 "0x80"] by simp

text \<open>Word arithmetic that stays within its width, read as integers.\<close>

lemma uint_of_int_small: "0 \<le> i \<Longrightarrow> i < 2 ^ LENGTH('a) \<Longrightarrow> uint (of_int i :: 'a::len word) = i"
  by (simp add: uint_word_of_int_eq take_bit_int_eq_self)

lemma uint_mult_small: "uint a * uint b < 2 ^ LENGTH('a) \<Longrightarrow>
   uint (a * b :: 'a::len word) = uint a * uint b"
  by (simp add: uint_word_arith_bintrs take_bit_int_eq_self)

lemma uint_add_small: "uint a + uint b < 2 ^ LENGTH('a) \<Longrightarrow>
   uint (a + b :: 'a::len word) = uint a + uint b"
  by (simp add: uint_word_arith_bintrs take_bit_int_eq_self)

lemma uint_min: "uint (min x y) = min (uint x) (uint y)"
  by (simp add: min_def word_le_def)

lemma zdiv_mult_le: "0 < w \<Longrightarrow> (a::int) div w * w \<le> a"
  by (simp add: minus_mod_eq_div_mult [symmetric])

section \<open>Positional notation\<close>

primrec radix :: "nat \<Rightarrow> nat list \<Rightarrow> nat" where
  "radix r [] = 0"
| "radix r (d # ds) = d * r ^ length ds + radix r ds"

lemma radix_append: "radix r (xs @ ys) = radix r xs * r ^ length ys + radix r ys"
  by (induction xs) (simp_all add: algebra_simps power_add)

lemma radix_bound: "0 < r \<Longrightarrow> \<forall>d \<in> set ds. d < r \<Longrightarrow> radix r ds < r ^ length ds"
proof (induction ds)
  case (Cons d ds)
  then have "radix r ds < r ^ length ds" "Suc d \<le> r" by auto
  then have "d * r ^ length ds + radix r ds < Suc d * r ^ length ds" by simp
  also have "\<dots> \<le> r * r ^ length ds" using \<open>Suc d \<le> r\<close> by (rule mult_le_mono1)
  finally show ?case by simp
qed simp

lemma radix_inject:
  assumes "0 < r" "length xs = length ys" "radix r xs = radix r ys"
    "\<forall>d \<in> set xs. d < r" "\<forall>d \<in> set ys. d < r"
  shows "xs = ys"
  using assms(2-5)
proof (induction xs ys rule: list_induct2)
  case (Cons x xs y ys)
  let ?m = "r ^ length xs"
  have b: "radix r xs < ?m" "radix r ys < ?m"
    using radix_bound [OF assms(1), of xs] radix_bound [OF assms(1), of ys] Cons by auto
  have e: "x * ?m + radix r xs = y * ?m + radix r ys" using Cons by simp
  have "(x * ?m + radix r xs) div ?m = x" "(y * ?m + radix r ys) div ?m = y"
    using b assms(1) by (simp_all add: div_mult_self3)
  then have "x = y" using e by metis
  with e Cons show ?case by simp
qed simp

section \<open>The ordered map\<close>

text \<open>
  \<open>std::map\<close> is a list of key/value pairs in strictly increasing key order, so that
  \<open>find\<close> is \<^const>\<open>map_of\<close>, \<open>size()\<close> is \<^const>\<open>length\<close> and a range-for loop visits the
  pairs in the list's order.
\<close>

type_synonym ('k, 'v) omap = "('k \<times> 'v) list"

definition om_wf :: "('k::linorder, 'v) omap \<Rightarrow> bool" where
  "om_wf m \<longleftrightarrow> sorted_wrt (<) (map fst m)"

definition om_put :: "'k::linorder \<Rightarrow> 'v \<Rightarrow> ('k, 'v) omap \<Rightarrow> ('k, 'v) omap" where
  "om_put k v m = takeWhile (\<lambda>e. fst e < k) m @ (k, v) # dropWhile (\<lambda>e. fst e \<le> k) m"

definition om_del :: "'k \<Rightarrow> ('k, 'v) omap \<Rightarrow> ('k, 'v) omap" where
  "om_del k m = filter (\<lambda>e. fst e \<noteq> k) m"

lemma om_wf_Nil [simp]: "om_wf []"
  by (simp add: om_wf_def)

lemma om_wf_Cons: "om_wf (e # m) \<longleftrightarrow> (\<forall>x \<in> set m. fst e < fst x) \<and> om_wf m"
  by (auto simp: om_wf_def)

lemma om_wf_distinct: "om_wf m \<Longrightarrow> distinct (map fst m)"
  by (simp add: om_wf_def strict_sorted_iff)

lemma om_wf_filter [simp, intro]: "om_wf m \<Longrightarrow> om_wf (filter P m)"
  by (induction m) (auto simp: om_wf_Cons)

lemma om_wf_del [simp, intro]: "om_wf m \<Longrightarrow> om_wf (om_del k m)"
  by (simp add: om_del_def)

lemma om_put_Cons:
  "om_wf (e # m) \<Longrightarrow> om_put k v (e # m) =
     (if fst e < k then e # om_put k v m else if fst e = k then (k, v) # m else (k, v) # e # m)"
proof -
  assume wf: "om_wf (e # m)"
  have "dropWhile (\<lambda>e. fst e \<le> k) m = m" if "k \<le> fst e"
    using wf that by (cases m) (auto simp: om_wf_Cons)
  then show ?thesis by (auto simp: om_put_def)
qed

lemma set_om_put: "om_wf m \<Longrightarrow> set (om_put k v m) = insert (k, v) {e \<in> set m. fst e \<noteq> k}"
proof (induction m)
  case Nil
  then show ?case by (simp add: om_put_def)
next
  case (Cons e m)
  then have "om_wf m" and "\<forall>x \<in> set m. fst e < fst x" by (auto simp: om_wf_Cons)
  then show ?case using Cons by (cases e) (auto simp: om_put_Cons)
qed

lemma om_wf_put [simp, intro]: "om_wf m \<Longrightarrow> om_wf (om_put k v m)"
proof (induction m)
  case Nil
  then show ?case by (simp add: om_put_def om_wf_def)
next
  case (Cons e m)
  then have m: "om_wf m" "\<forall>x \<in> set m. fst e < fst x" by (auto simp: om_wf_Cons)
  then show ?case using Cons by (cases e) (auto simp: om_put_Cons om_wf_Cons set_om_put)
qed

lemma map_of_om_put [om_simps]: "om_wf m \<Longrightarrow> map_of (om_put k v m) = (map_of m)(k \<mapsto> v)"
proof (induction m)
  case Nil
  then show ?case by (simp add: om_put_def)
next
  case (Cons e m)
  then have m: "om_wf m" "\<forall>x \<in> set m. fst e < fst x" by (auto simp: om_wf_Cons)
  then show ?case using Cons by (cases e) (auto simp: om_put_Cons)
qed

lemma map_of_om_del [om_simps]: "map_of (om_del k m) = (map_of m)(k := None)"
  by (induction m) (auto simp: om_del_def fun_eq_iff)

lemma map_of_filter [om_simps]:
  "om_wf m \<Longrightarrow> map_of (filter P m) k =
     (case map_of m k of None \<Rightarrow> None | Some v \<Rightarrow> if P (k, v) then Some v else None)"
proof (induction m)
  case Nil
  then show ?case by simp
next
  case (Cons e m)
  then have m: "om_wf m" "\<forall>x \<in> set m. fst e < fst x" by (auto simp: om_wf_Cons)
  then have "map_of m (fst e) = None" by (auto simp: map_of_eq_None_iff)
  then show ?case using Cons m by (cases e) auto
qed

lemma length_om_put [om_simps]:
  "om_wf m \<Longrightarrow> length (om_put k v m) = (if map_of m k = None then Suc (length m) else length m)"
proof (induction m)
  case Nil
  then show ?case by (simp add: om_put_def)
next
  case (Cons e m)
  then have m: "om_wf m" "\<forall>x \<in> set m. fst e < fst x" by (auto simp: om_wf_Cons)
  then have "\<not> fst e < k \<Longrightarrow> map_of m k = None" by (force simp: map_of_eq_None_iff)
  then show ?case using Cons m by (cases e) (auto simp: om_put_Cons)
qed

lemma om_del_absent: "map_of m k = None \<Longrightarrow> om_del k m = m"
  by (auto simp: om_del_def map_of_eq_None_iff filter_id_conv)

lemma length_om_del [om_simps]:
  "om_wf m \<Longrightarrow> length (om_del k m) = (if map_of m k = None then length m else length m - 1)"
proof (induction m)
  case Nil
  then show ?case by (simp add: om_del_def)
next
  case (Cons e m)
  then have m: "om_wf m" "\<forall>x \<in> set m. fst e < fst x" by (auto simp: om_wf_Cons)
  show ?case
  proof (cases "fst e = k")
    case True
    then have "map_of m k = None" using m by (auto simp: map_of_eq_None_iff)
    then have "om_del k m = m" by (rule om_del_absent)
    then show ?thesis using True by (cases e) (simp add: om_del_def)
  next
    case False
    then have "length (om_del k (e # m)) = Suc (length (om_del k m))" by (simp add: om_del_def)
    moreover have "map_of m k \<noteq> None \<Longrightarrow> 0 < length m" by (cases m) auto
    ultimately show ?thesis using Cons m False by (cases e) auto
  qed
qed

lemma length_om_del_le: "length (om_del k m) \<le> length m"
  by (simp add: om_del_def)

lemma om_mem_iff: "om_wf m \<Longrightarrow> (k, v) \<in> set m \<longleftrightarrow> map_of m k = Some v"
  by (simp add: om_wf_distinct)

lemma om_ext:
  "om_wf m \<Longrightarrow> om_wf m' \<Longrightarrow> set m = set m' \<Longrightarrow> m = m'"
proof (induction m arbitrary: m')
  case (Cons e m)
  then obtain f n where m': "m' = f # n" by (cases m') auto
  have "e = f" using Cons.prems unfolding m' om_wf_Cons by (metis insert_iff list.simps(15) order.asym)
  moreover have "set m = set n" using Cons.prems calculation unfolding m' om_wf_Cons
    by (metis insert_ident list.simps(15) order.irrefl)
  ultimately show ?case using Cons m' by (simp add: om_wf_Cons)
qed simp

lemma om_put_not_Nil [simp]: "om_put k v m \<noteq> []"
  by (simp add: om_put_def)

lemma list_all_om_put:
  "om_wf m \<Longrightarrow> list_all P m \<Longrightarrow> P (k, v) \<Longrightarrow> list_all P (om_put k v m)"
  by (auto simp: list_all_iff set_om_put)

lemma list_all_om_del: "list_all P m \<Longrightarrow> list_all P (om_del k m)"
  by (auto simp: list_all_iff om_del_def)

lemma list_all_filter: "list_all P m \<Longrightarrow> list_all P (filter Q m)"
  by (auto simp: list_all_iff)

lemma om_put_map: "om_put k (f v) (map (map_prod id f) m) = map (map_prod id f) (om_put k v m)"
  by (simp add: om_put_def takeWhile_map dropWhile_map comp_def)

lemma om_put_same: "om_wf m \<Longrightarrow> map_of m k = Some v \<Longrightarrow> om_put k v m = m"
  by (rule om_ext) (auto simp: set_om_put om_mem_iff dest: map_of_SomeD)

lemma om_put_put: "om_wf m \<Longrightarrow> om_put k v (om_put k w m) = om_put k v m"
  by (rule om_ext) (auto simp: set_om_put)

lemma om_wf_map [simp]: "om_wf (map (map_prod id f) m) = om_wf m"
  by (simp add: om_wf_def comp_def)

lemma map_of_map_prod: "map_of (map (map_prod id f) m) k = map_option f (map_of m k)"
  by (induction m) auto

lemma om_del_put: "om_wf m \<Longrightarrow> om_del k (om_put k v m) = om_del k m"
  by (rule om_ext) (auto simp: om_del_def set_om_put)

section \<open>Canonical codecs\<close>

text \<open>
  An encoder that may refuse a value and a decoder that may reject an input are inverse partial
  functions.  Every wire format of the program promises this of its pair of functions; its
  consequences are stated once.
\<close>

locale canonical_codec =
  fixes encode :: "'a \<Rightarrow> 'b option"
    and decode :: "'b \<Rightarrow> 'a option"
  assumes codec: "decode b = Some a \<longleftrightarrow> encode a = Some b"
begin

lemma decode_unique: "decode b = Some a \<Longrightarrow> decode c = Some a \<Longrightarrow> b = c"
  by (simp add: codec)

lemma encode_unique: "encode a = Some b \<Longrightarrow> encode a' = Some b \<Longrightarrow> a = a'"
  by (metis codec option.inject)

lemma accepted_iff: "decode b \<noteq> None \<longleftrightarrow> (\<exists>a. encode a = Some b)"
  by (auto simp: codec [symmetric])

end

section \<open>Invariants of whole runs\<close>

text \<open>
  A component is a state, the set of its initial states and one total function per operation.
  An invariant that holds initially and that every operation keeps holds after any finite
  sequence of operations, in any order.
\<close>

definition run :: "('op \<Rightarrow> 's \<Rightarrow> 's) \<Rightarrow> 'op list \<Rightarrow> 's \<Rightarrow> 's" where
  "run step ops s = fold step ops s"

lemma run_Nil [simp]: "run step [] s = s"
  by (simp add: run_def)

lemma run_Cons [simp]: "run step (x # xs) s = run step xs (step x s)"
  by (simp add: run_def)

lemma run_append: "run step (xs @ ys) s = run step ys (run step xs s)"
  by (simp add: run_def)

locale invariant_machine =
  fixes init :: "'s \<Rightarrow> bool"
    and step :: "'op \<Rightarrow> 's \<Rightarrow> 's"
    and inv :: "'s \<Rightarrow> bool"
  assumes inv_init: "init s \<Longrightarrow> inv s"
    and inv_step: "inv s \<Longrightarrow> inv (step x s)"
begin

lemma inv_run: "inv s \<Longrightarrow> inv (run step xs s)"
  by (induction xs arbitrary: s) (auto intro: inv_step)

lemma inv_reachable: "init s \<Longrightarrow> inv (run step xs s)"
  by (blast intro: inv_init inv_run)

end

text \<open>
  Some operations keep an invariant only when they are called the way the component's clients
  call them; a guard on the operation says how.
\<close>

locale guarded_machine =
  fixes init :: "'s \<Rightarrow> bool"
    and ok :: "'op \<Rightarrow> bool"
    and step :: "'op \<Rightarrow> 's \<Rightarrow> 's"
    and inv :: "'s \<Rightarrow> bool"
  assumes guarded_init: "init s \<Longrightarrow> inv s"
    and guarded_step: "ok x \<Longrightarrow> inv s \<Longrightarrow> inv (step x s)"
begin

lemma guarded_run: "list_all ok xs \<Longrightarrow> inv s \<Longrightarrow> inv (run step xs s)"
  by (induction xs arbitrary: s) (auto intro: guarded_step)

lemma guarded_reachable: "init s \<Longrightarrow> list_all ok xs \<Longrightarrow> inv (run step xs s)"
  by (blast intro: guarded_init guarded_run)

end

sublocale invariant_machine \<subseteq> guarded_machine init "\<lambda>_. True" step inv
  by unfold_locales (auto intro: inv_init inv_step)

section \<open>Sizes\<close>

text \<open>
  A \<open>std::size_t\<close> counter is a natural number below \<open>2\<^sup>6\<^sup>4\<close>; addition and decrement wrap.
\<close>

definition sz_add :: "nat \<Rightarrow> nat \<Rightarrow> nat" where
  "sz_add a b = (a + b) mod 2 ^ 64"

definition sz_dec :: "nat \<Rightarrow> nat" where
  "sz_dec n = (if n = 0 then 2 ^ 64 - 1 else n - 1)"

lemma sz_add_small [simp]: "a + b < 2 ^ 64 \<Longrightarrow> sz_add a b = a + b"
  by (simp add: sz_add_def)

lemma sz_dec_pos [simp]: "0 < n \<Longrightarrow> sz_dec n = n - 1"
  by (simp add: sz_dec_def)

lemma map_of_om_put_same [simp]: "map_of (om_put k v m) k = Some v"
  by (auto simp: om_put_def map_add_def dest!: map_of_SomeD set_takeWhileD split: option.splits)

end
