(* ===== verification/Heyaki_Core.thy ===== *)
theory Heyaki_Core
  imports Heyaki_Prelude
begin

text \<open>
  The leaf modules of \<open>src/core\<close> every other part depends on: error values
  (\<open>error.cpp\<close>), resource limits (\<open>limits.cpp\<close>), version and capability negotiation and the
  LAN datagram envelope (\<open>protocol.cpp\<close>), operation states (\<open>operation.cpp\<close>) and the security
  policy checks (\<open>security.cpp\<close>).
\<close>

section \<open>Errors\<close>

datatype ErrorCode =
    EC_configuration | EC_identity | EC_authentication | EC_permission | EC_not_registered
  | EC_enrollment_revoked | EC_profile_locked | EC_pairing_required | EC_pairing_denied
  | EC_pairing_rate_limited | EC_peer_offline | EC_endpoint_offline | EC_signaling
  | EC_nat_traversal | EC_relay_unavailable | EC_transport | EC_protocol | EC_timeout
  | EC_cancelled | EC_would_block | EC_resource_exhausted | EC_remote_error
  | EC_outcome_unknown | EC_internal | EC_secret_unavailable | EC_secret_backend_degraded
  | EC_profile_permissions | EC_profile_corrupt | EC_schema_too_new | EC_storage

record Error =
  err_code :: ErrorCode
  err_underlying_code :: "int option"
  err_peer_id :: "bytes option"
  err_operation_id :: "bytes option"
  err_component :: string
  err_safe_detail :: string

type_synonym 'a result = "Error + 'a"

fun value_if :: "'a result \<Rightarrow> 'a option" where
  "value_if (Inl e) = None"
| "value_if (Inr v) = Some v"

lemma value_if_eq_Some [simp]: "value_if r = Some v \<longleftrightarrow> r = Inr v"
  by (cases r) auto

definition max_safe_detail_bytes :: nat where
  "max_safe_detail_bytes = 64"

definition is_safe_detail_char :: "char \<Rightarrow> bool" where
  "is_safe_detail_char c \<longleftrightarrow>
     (CHR ''a'' \<le> c \<and> c \<le> CHR ''z'') \<or> (CHR ''0'' \<le> c \<and> c \<le> CHR ''9'') \<or>
     c = CHR ''_'' \<or> c = CHR ''-'' \<or> c = CHR ''.''"

definition is_safe_detail_token :: "string \<Rightarrow> bool" where
  "is_safe_detail_token value \<longleftrightarrow>
     \<not> (value = [] \<or> length value > max_safe_detail_bytes) \<and> list_all is_safe_detail_char value"

definition mk_Error ::
  "ErrorCode \<Rightarrow> string \<Rightarrow> string \<Rightarrow> int option \<Rightarrow> bytes option \<Rightarrow> bytes option \<Rightarrow> Error" where
  "mk_Error code component safe_detail underlying_code peer_id operation_id =
     \<lparr>err_code = code, err_underlying_code = underlying_code, err_peer_id = peer_id,
      err_operation_id = operation_id,
      err_component =
        (if is_safe_detail_token component then component else ''invalid_component''),
      err_safe_detail =
        (if is_safe_detail_token safe_detail then safe_detail else ''invalid_safe_detail'')\<rparr>"

text \<open>The three-argument constructor call: the other arguments default to \<open>nullopt\<close>.\<close>

abbreviation err :: "ErrorCode \<Rightarrow> string \<Rightarrow> string \<Rightarrow> Error" where
  "err code component safe_detail \<equiv> mk_Error code component safe_detail None None None"

fun error_code_name :: "ErrorCode \<Rightarrow> string" where
  "error_code_name EC_configuration = ''configuration''"
| "error_code_name EC_identity = ''identity''"
| "error_code_name EC_authentication = ''authentication''"
| "error_code_name EC_permission = ''permission''"
| "error_code_name EC_not_registered = ''not_registered''"
| "error_code_name EC_enrollment_revoked = ''enrollment_revoked''"
| "error_code_name EC_profile_locked = ''profile_locked''"
| "error_code_name EC_pairing_required = ''pairing_required''"
| "error_code_name EC_pairing_denied = ''pairing_denied''"
| "error_code_name EC_pairing_rate_limited = ''pairing_rate_limited''"
| "error_code_name EC_peer_offline = ''peer_offline''"
| "error_code_name EC_endpoint_offline = ''endpoint_offline''"
| "error_code_name EC_signaling = ''signaling''"
| "error_code_name EC_nat_traversal = ''nat_traversal''"
| "error_code_name EC_relay_unavailable = ''relay_unavailable''"
| "error_code_name EC_transport = ''transport''"
| "error_code_name EC_protocol = ''protocol''"
| "error_code_name EC_timeout = ''timeout''"
| "error_code_name EC_cancelled = ''cancelled''"
| "error_code_name EC_would_block = ''would_block''"
| "error_code_name EC_resource_exhausted = ''resource_exhausted''"
| "error_code_name EC_remote_error = ''remote_error''"
| "error_code_name EC_outcome_unknown = ''outcome_unknown''"
| "error_code_name EC_internal = ''internal''"
| "error_code_name EC_secret_unavailable = ''secret_unavailable''"
| "error_code_name EC_secret_backend_degraded = ''secret_backend_degraded''"
| "error_code_name EC_profile_permissions = ''profile_permissions''"
| "error_code_name EC_profile_corrupt = ''profile_corrupt''"
| "error_code_name EC_schema_too_new = ''schema_too_new''"
| "error_code_name EC_storage = ''storage''"

section \<open>Limits\<close>

record Limits =
  max_frame_bytes :: nat
  max_control_frame_bytes :: nat
  max_message_bytes :: nat
  max_rpc_payload_bytes :: nat
  max_event_payload_bytes :: nat
  max_send_queue_messages :: nat
  max_send_queue_bytes :: nat
  max_receive_window_frames :: nat
  max_receive_window_bytes :: nat
  max_file_bytes :: nat
  max_expanded_file_bytes :: nat
  max_file_chunk_bytes :: nat
  max_concurrent_operations :: nat
  max_pairing_payload_bytes :: nat
  max_pairing_attempts_per_session :: nat
  max_endpoint_manifest_bytes :: nat
  max_diagnostic_events :: nat
  max_shell_data_bytes :: nat
  max_shell_control_bytes :: nat

definition default_limits :: Limits where
  "default_limits = \<lparr>
     max_frame_bytes = 2 * 1024 * 1024,
     max_control_frame_bytes = 64 * 1024,
     max_message_bytes = 1024 * 1024,
     max_rpc_payload_bytes = 1024 * 1024,
     max_event_payload_bytes = 256 * 1024,
     max_send_queue_messages = 1024,
     max_send_queue_bytes = 8 * 1024 * 1024,
     max_receive_window_frames = 256,
     max_receive_window_bytes = 4 * 1024 * 1024,
     max_file_bytes = 16 * 1024 * 1024 * 1024,
     max_expanded_file_bytes = 16 * 1024 * 1024 * 1024,
     max_file_chunk_bytes = 256 * 1024,
     max_concurrent_operations = 256,
     max_pairing_payload_bytes = 8 * 1024,
     max_pairing_attempts_per_session = 5,
     max_endpoint_manifest_bytes = 64 * 1024,
     max_diagnostic_events = 2048,
     max_shell_data_bytes = 32 * 1024,
     max_shell_control_bytes = 2 * 1024\<rparr>"

definition invalid_limit :: "string \<Rightarrow> unit result" where
  "invalid_limit name = Inl (err EC_configuration ''limits'' name)"

definition outside :: "nat \<Rightarrow> nat \<Rightarrow> nat \<Rightarrow> bool" where
  "outside v minimum maximum \<longleftrightarrow> v < minimum \<or> v > maximum"

definition validate_limits :: "Limits \<Rightarrow> unit result" where
  "validate_limits limits =
    (let kib = 1024; mib = 1024 * kib; gib = 1024 * mib;
         max_file_limit = 16 * 1024 * 1024 * 1024 * 1024
     in if outside (max_frame_bytes limits) 256 (64 * mib) then
       invalid_limit ''max_frame_bytes''
     else if outside (max_control_frame_bytes limits) 256 (1024 * kib) \<or>
             max_control_frame_bytes limits > max_frame_bytes limits then
       invalid_limit ''max_control_frame_bytes''
     else if outside (max_message_bytes limits) 1 (16 * mib) \<or>
             max_message_bytes limits > max_frame_bytes limits then
       invalid_limit ''max_message_bytes''
     else if outside (max_rpc_payload_bytes limits) 1 (16 * mib) \<or>
             max_rpc_payload_bytes limits > max_frame_bytes limits then
       invalid_limit ''max_rpc_payload_bytes''
     else if outside (max_event_payload_bytes limits) 1 (16 * mib) \<or>
             max_event_payload_bytes limits > max_frame_bytes limits then
       invalid_limit ''max_event_payload_bytes''
     else if outside (max_send_queue_messages limits) 1 65536 then
       invalid_limit ''max_send_queue_messages''
     else if outside (max_send_queue_bytes limits) (max_frame_bytes limits) gib then
       invalid_limit ''max_send_queue_bytes''
     else if outside (max_receive_window_frames limits) 1 65536 then
       invalid_limit ''max_receive_window_frames''
     else if outside (max_receive_window_bytes limits) (max_frame_bytes limits) gib then
       invalid_limit ''max_receive_window_bytes''
     else if max_file_bytes limits < max_file_chunk_bytes limits \<or>
             max_file_bytes limits > max_file_limit then
       invalid_limit ''max_file_bytes''
     else if outside (max_expanded_file_bytes limits) (max_file_chunk_bytes limits)
               max_file_limit then
       invalid_limit ''max_expanded_file_bytes''
     else if outside (max_file_chunk_bytes limits) (4 * kib) (1024 * kib) \<or>
             max_file_chunk_bytes limits > max_frame_bytes limits then
       invalid_limit ''max_file_chunk_bytes''
     else if outside (max_concurrent_operations limits) 1 65536 then
       invalid_limit ''max_concurrent_operations''
     else if outside (max_pairing_payload_bytes limits) 256 (64 * kib) \<or>
             max_pairing_payload_bytes limits > max_control_frame_bytes limits then
       invalid_limit ''max_pairing_payload_bytes''
     else if outside (max_pairing_attempts_per_session limits) 1 20 then
       invalid_limit ''max_pairing_attempts_per_session''
     else if outside (max_endpoint_manifest_bytes limits) 256 (1024 * kib) \<or>
             max_endpoint_manifest_bytes limits > max_frame_bytes limits then
       invalid_limit ''max_endpoint_manifest_bytes''
     else if outside (max_diagnostic_events limits) 16 (1024 * 1024) then
       invalid_limit ''max_diagnostic_events''
     else if outside (max_shell_data_bytes limits) 256 (1024 * kib) \<or>
             max_shell_data_bytes limits + 28 > max_frame_bytes limits then
       invalid_limit ''max_shell_data_bytes''
     else if outside (max_shell_control_bytes limits) 256 (64 * kib) \<or>
             max_shell_control_bytes limits > max_frame_bytes limits then
       invalid_limit ''max_shell_control_bytes''
     else Inr ())"

section \<open>Version and capability negotiation\<close>

record ProtocolVersion =
  ver_major :: u32
  ver_minor :: u32

datatype Capability =
    Cap_enrollment | Cap_signaling | Cap_session | Cap_pairing | Cap_message | Cap_unary_rpc
  | Cap_event | Cap_byte_stream | Cap_file | Cap_shell | Cap_lan_discovery_v1
  | Cap_lan_signaling_v1 | Cap_session_restart_v1 | Cap_gateway_v1 | Cap_pairing_approval_v1
  | Cap_relay_enrollment_password_v1 | Cap_relay_ice_config_v1

fun capability_bit :: "Capability \<Rightarrow> u64" where
  "capability_bit Cap_enrollment = push_bit 0 1"
| "capability_bit Cap_signaling = push_bit 1 1"
| "capability_bit Cap_session = push_bit 2 1"
| "capability_bit Cap_pairing = push_bit 3 1"
| "capability_bit Cap_message = push_bit 4 1"
| "capability_bit Cap_unary_rpc = push_bit 5 1"
| "capability_bit Cap_event = push_bit 6 1"
| "capability_bit Cap_byte_stream = push_bit 7 1"
| "capability_bit Cap_file = push_bit 8 1"
| "capability_bit Cap_shell = push_bit 9 1"
| "capability_bit Cap_lan_discovery_v1 = push_bit 10 1"
| "capability_bit Cap_lan_signaling_v1 = push_bit 11 1"
| "capability_bit Cap_session_restart_v1 = push_bit 12 1"
| "capability_bit Cap_gateway_v1 = push_bit 13 1"
| "capability_bit Cap_pairing_approval_v1 = push_bit 14 1"
| "capability_bit Cap_relay_enrollment_password_v1 = push_bit 15 1"
| "capability_bit Cap_relay_ice_config_v1 = push_bit 16 1"

definition protocol_1_0_capability_bits :: u64 where
  "protocol_1_0_capability_bits =
     capability_bit Cap_enrollment OR capability_bit Cap_signaling OR
     capability_bit Cap_session OR capability_bit Cap_pairing OR
     capability_bit Cap_message OR capability_bit Cap_unary_rpc OR
     capability_bit Cap_event OR capability_bit Cap_byte_stream OR
     capability_bit Cap_file OR capability_bit Cap_shell"

definition protocol_1_1_capability_bits :: u64 where
  "protocol_1_1_capability_bits =
     protocol_1_0_capability_bits OR capability_bit Cap_lan_discovery_v1 OR
     capability_bit Cap_lan_signaling_v1"

definition protocol_1_2_capability_bits :: u64 where
  "protocol_1_2_capability_bits =
     protocol_1_1_capability_bits OR capability_bit Cap_session_restart_v1"

definition protocol_1_3_capability_bits :: u64 where
  "protocol_1_3_capability_bits =
     protocol_1_2_capability_bits OR capability_bit Cap_gateway_v1 OR
     capability_bit Cap_pairing_approval_v1 OR
     capability_bit Cap_relay_enrollment_password_v1 OR capability_bit Cap_relay_ice_config_v1"

definition known_capability_bits :: u64 where
  "known_capability_bits = protocol_1_3_capability_bits"

definition current_protocol_version :: ProtocolVersion where
  "current_protocol_version = \<lparr>ver_major = 1, ver_minor = 3\<rparr>"

record CapabilitySet =
  cap_bits :: u64

definition cap_has :: "CapabilitySet \<Rightarrow> Capability \<Rightarrow> bool" where
  "cap_has s c \<longleftrightarrow> cap_bits s AND capability_bit c \<noteq> 0"

definition cap_contains :: "CapabilitySet \<Rightarrow> CapabilitySet \<Rightarrow> bool" where
  "cap_contains s required \<longleftrightarrow> cap_bits s AND cap_bits required = cap_bits required"

record ProtocolHello =
  hello_version :: ProtocolVersion
  hello_supported :: CapabilitySet
  hello_required :: CapabilitySet

record NegotiatedProtocol =
  neg_version :: ProtocolVersion
  neg_capabilities :: CapabilitySet

definition negotiation_error :: "string \<Rightarrow> NegotiatedProtocol result" where
  "negotiation_error detail = Inl (err EC_protocol ''negotiation'' detail)"

definition capabilities_for_version :: "ProtocolVersion \<Rightarrow> u64" where
  "capabilities_for_version version =
     (if ver_major version \<noteq> ver_major current_protocol_version then 0
      else if ver_minor version = 0 then protocol_1_0_capability_bits
      else if ver_minor version = 1 then protocol_1_1_capability_bits
      else if ver_minor version = 2 then protocol_1_2_capability_bits
      else protocol_1_3_capability_bits)"

definition negotiate_protocol ::
  "ProtocolHello \<Rightarrow> ProtocolHello \<Rightarrow> NegotiatedProtocol result" where
  "negotiate_protocol local remote =
    (if (cap_bits (hello_required local) OR cap_bits (hello_required remote))
          AND NOT known_capability_bits \<noteq> 0 then
       negotiation_error ''unknown_required_capability''
     else if \<not> cap_contains (hello_supported local) (hello_required local) \<or>
             \<not> cap_contains (hello_supported remote) (hello_required remote) then
       negotiation_error ''invalid_required_capabilities''
     else if ver_major (hello_version local) \<noteq> ver_major (hello_version remote) then
       negotiation_error ''incompatible_major_version''
     else
       let negotiated_version =
             \<lparr>ver_major = ver_major (hello_version local),
              ver_minor = min (ver_minor (hello_version local))
                              (ver_minor (hello_version remote))\<rparr>;
           negotiated_capabilities =
             \<lparr>cap_bits = cap_bits (hello_supported local) AND cap_bits (hello_supported remote)
                AND capabilities_for_version negotiated_version\<rparr>
       in if \<not> cap_contains negotiated_capabilities (hello_required local) \<or>
             \<not> cap_contains negotiated_capabilities (hello_required remote) then
            negotiation_error ''required_capability_unavailable''
          else Inr \<lparr>neg_version = negotiated_version,
                    neg_capabilities = negotiated_capabilities\<rparr>)"

section \<open>The LAN datagram envelope\<close>

datatype LanDatagramType = LanDatagram_presence | LanDatagram_other byte

text \<open>
  The enumeration has one enumerator, \<open>presence = 1\<close>; a value cast from any other octet is
  \<^const>\<open>LanDatagram_other\<close>.
\<close>

fun lan_datagram_type_value :: "LanDatagramType \<Rightarrow> byte" where
  "lan_datagram_type_value LanDatagram_presence = 1"
| "lan_datagram_type_value (LanDatagram_other b) = b"

definition lan_datagram_magic :: bytes where
  "lan_datagram_magic = [0x48, 0x59, 0x4c, 0x44]"

definition lan_datagram_envelope_version :: byte where
  "lan_datagram_envelope_version = 1"

definition lan_datagram_header_bytes :: nat where
  "lan_datagram_header_bytes = 8"

definition max_lan_datagram_bytes :: nat where
  "max_lan_datagram_bytes = 1200"

definition max_lan_datagram_payload_bytes :: nat where
  "max_lan_datagram_payload_bytes = max_lan_datagram_bytes - lan_datagram_header_bytes"

datatype LanDatagramParseResult =
    LanParsed LanDatagramType bytes
  | LanIncomplete
  | LanMalformed
  | LanUnsupported

fun lan_datagram_of :: "LanDatagramParseResult \<Rightarrow> (LanDatagramType \<times> bytes) option" where
  "lan_datagram_of (LanParsed t p) = Some (t, p)"
| "lan_datagram_of _ = None"

definition parse_lan_datagram :: "bytes \<Rightarrow> LanDatagramParseResult" where
  "parse_lan_datagram bs =
    (if length bs < lan_datagram_header_bytes then LanIncomplete
     else if length bs > max_lan_datagram_bytes \<or> take 4 bs \<noteq> lan_datagram_magic \<or>
             bs ! 4 \<noteq> lan_datagram_envelope_version then LanMalformed
     else
       let payload_size = (push_bit 8 (unat (bs ! 6))) OR unat (bs ! 7)
       in if payload_size \<noteq> length bs - lan_datagram_header_bytes then LanMalformed
          else if bs ! 5 \<noteq> lan_datagram_type_value LanDatagram_presence then LanUnsupported
          else LanParsed LanDatagram_presence (drop lan_datagram_header_bytes bs))"

definition encode_lan_datagram :: "LanDatagramType \<Rightarrow> bytes \<Rightarrow> bytes result" where
  "encode_lan_datagram type payload =
    (if type \<noteq> LanDatagram_presence then
       Inl (err EC_protocol ''lan_discovery'' ''unsupported_datagram_type'')
     else if length payload > max_lan_datagram_payload_bytes \<or> length payload > 65535 then
       Inl (err EC_resource_exhausted ''lan_discovery'' ''datagram_too_large'')
     else
       Inr (lan_datagram_magic @
            [lan_datagram_envelope_version, lan_datagram_type_value type,
             of_nat (drop_bit 8 (length payload) AND 0xff), of_nat (length payload AND 0xff)] @
            payload))"

section \<open>Operation states\<close>

datatype OperationState = Op_pending | Op_success | Op_error | Op_cancelled | Op_outcome_unknown

record OperationStatus =
  op_id :: bytes
  op_epoch :: u64
  op_state :: OperationState
  op_error :: "Error option"

definition next_epoch :: "u64 \<Rightarrow> u64 option" where
  "next_epoch e = (if e = - 1 then None else Some (e + 1))"

definition invalid_transition :: "OperationStatus \<Rightarrow> string \<Rightarrow> OperationStatus result" where
  "invalid_transition current detail =
     Inl (mk_Error EC_protocol ''operation'' detail None None (Some (op_id current)))"

definition transition_operation ::
  "OperationStatus \<Rightarrow> OperationState \<Rightarrow> Error option \<Rightarrow> OperationStatus result" where
  "transition_operation current nxt e =
    (if op_epoch current = 0 then invalid_transition current ''zero_session_epoch''
     else if op_state current \<noteq> Op_pending then
       (if op_state current = nxt \<and> e = None then Inr current
        else invalid_transition current ''terminal_state_transition'')
     else if nxt = Op_pending then invalid_transition current ''pending_to_pending''
     else if nxt = Op_success \<and> e \<noteq> None then invalid_transition current ''success_with_error''
     else if nxt = Op_error \<and> e = None then invalid_transition current ''error_without_detail''
     else
       let e1 = (if nxt = Op_cancelled \<and> e = None
                 then Some (mk_Error EC_cancelled ''operation'' ''cancelled'' None None
                              (Some (op_id current)))
                 else e);
           e2 = (if nxt = Op_outcome_unknown \<and> e1 = None
                 then Some (mk_Error EC_outcome_unknown ''operation'' ''connection_lost'' None
                              None (Some (op_id current)))
                 else e1)
       in Inr (current\<lparr>op_state := nxt, op_error := e2\<rparr>))"

text \<open>
  A status is well formed when the error is absent exactly while the operation runs or after it
  succeeded.
\<close>

definition op_wf :: "OperationStatus \<Rightarrow> bool" where
  "op_wf s \<longleftrightarrow> (op_error s = None \<longleftrightarrow> op_state s = Op_pending \<or> op_state s = Op_success)"

fun operation_state_name :: "OperationState \<Rightarrow> string" where
  "operation_state_name Op_pending = ''pending''"
| "operation_state_name Op_success = ''success''"
| "operation_state_name Op_error = ''error''"
| "operation_state_name Op_cancelled = ''cancelled''"
| "operation_state_name Op_outcome_unknown = ''outcome_unknown''"

section \<open>Security policy\<close>

datatype LogDataClass =
    Log_public_value | Log_operational | Log_identifier | Log_secret_key | Log_token
  | Log_password | Log_verifier | Log_payload | Log_terminal_content

definition is_safe_log_class :: "LogDataClass \<Rightarrow> bool" where
  "is_safe_log_class c \<longleftrightarrow> c = Log_public_value \<or> c = Log_operational \<or> c = Log_identifier"

definition value_for_log :: "LogDataClass \<Rightarrow> string \<Rightarrow> string" where
  "value_for_log c v = (if is_safe_log_class c then v else ''[REDACTED]'')"

definition replay_cache_ttl_milliseconds :: nat where
  "replay_cache_ttl_milliseconds = 10 * 60 * 1000"

definition maximum_signed_validity_milliseconds :: nat where
  "maximum_signed_validity_milliseconds = 5 * 60 * 1000"

definition maximum_expiry_clock_skew_milliseconds :: nat where
  "maximum_expiry_clock_skew_milliseconds = 30 * 1000"

datatype ReplayCacheFullPolicy = FullPolicy_reject

record ReplayCachePolicy =
  rp_ttl_milliseconds :: nat
  rp_capacity :: nat
  rp_per_peer_capacity :: nat
  rp_full_policy :: ReplayCacheFullPolicy

definition default_replay_policy :: ReplayCachePolicy where
  "default_replay_policy = \<lparr>rp_ttl_milliseconds = replay_cache_ttl_milliseconds,
     rp_capacity = 4096, rp_per_peer_capacity = 256, rp_full_policy = FullPolicy_reject\<rparr>"

record PasswordSecurityPolicy =
  pw_verifier_format_version :: nat
  pw_minimum_unicode_scalars :: nat
  pw_maximum_utf8_bytes :: nat
  pw_generated_entropy_bits :: nat
  pw_argon2_target_milliseconds :: nat
  pw_argon2_minimum_memory_kib :: nat
  pw_argon2_maximum_memory_kib :: nat
  pw_argon2_minimum_operations :: nat
  pw_argon2_maximum_operations :: nat

definition default_password_policy :: PasswordSecurityPolicy where
  "default_password_policy = \<lparr>pw_verifier_format_version = 1, pw_minimum_unicode_scalars = 8,
     pw_maximum_utf8_bytes = 256, pw_generated_entropy_bits = 128,
     pw_argon2_target_milliseconds = 500, pw_argon2_minimum_memory_kib = 64 * 1024,
     pw_argon2_maximum_memory_kib = 512 * 1024, pw_argon2_minimum_operations = 2,
     pw_argon2_maximum_operations = 6\<rparr>"

definition validate_security_policy ::
  "ReplayCachePolicy \<Rightarrow> PasswordSecurityPolicy \<Rightarrow> unit result" where
  "validate_security_policy replay password =
    (if rp_ttl_milliseconds replay \<noteq> replay_cache_ttl_milliseconds then
       Inl (err EC_configuration ''security'' ''replay_ttl'')
     else if rp_capacity replay < 64 \<or> rp_capacity replay > 1024 * 1024 then
       Inl (err EC_configuration ''security'' ''replay_capacity'')
     else if rp_per_peer_capacity replay < 16 \<or>
             rp_per_peer_capacity replay > rp_capacity replay then
       Inl (err EC_configuration ''security'' ''replay_per_peer_capacity'')
     else if pw_verifier_format_version password \<noteq> 1 \<or>
             pw_minimum_unicode_scalars password < 8 \<or>
             pw_maximum_utf8_bytes password < pw_minimum_unicode_scalars password \<or>
             pw_maximum_utf8_bytes password > 256 \<or>
             pw_generated_entropy_bits password < 128 \<or>
             pw_argon2_target_milliseconds password < 250 \<or>
             pw_argon2_target_milliseconds password > 750 \<or>
             pw_argon2_minimum_memory_kib password < 64 * 1024 \<or>
             pw_argon2_maximum_memory_kib password < pw_argon2_minimum_memory_kib password \<or>
             pw_argon2_maximum_memory_kib password > 512 * 1024 \<or>
             pw_argon2_minimum_operations password < 2 \<or>
             pw_argon2_maximum_operations password < pw_argon2_minimum_operations password \<or>
             pw_argon2_maximum_operations password > 6 then
       Inl (err EC_configuration ''security'' ''password_policy'')
     else Inr ())"

definition validate_signed_expiry :: "u64 \<Rightarrow> u64 \<Rightarrow> unit result" where
  "validate_signed_expiry expires now =
    (let skew = of_nat maximum_expiry_clock_skew_milliseconds;
         validity = of_nat maximum_signed_validity_milliseconds;
         earliest = (if now > skew then now - skew else 0);
         latest = (if now > - 1 - validity then - 1 else now + validity)
     in if expires < earliest then
          Inl (err EC_authentication ''security'' ''signed_object_expired'')
        else if expires > latest then
          Inl (err EC_authentication ''security'' ''signed_expiry_too_far'')
        else Inr ())"

section \<open>Errors carry only safe tokens\<close>

lemma safe_literals [simp]:
  "is_safe_detail_token ''invalid_component''" "is_safe_detail_token ''invalid_safe_detail''"
  by (simp_all add: is_safe_detail_token_def is_safe_detail_char_def max_safe_detail_bytes_def
    less_eq_char_def)

text \<open>
  Whatever the caller passes, the component and the detail an \<open>Error\<close> stores are safe tokens.
\<close>

lemma error_fields_safe:
  "is_safe_detail_token (err_component (mk_Error c co d u p i)) \<and>
   is_safe_detail_token (err_safe_detail (mk_Error c co d u p i))"
  by (simp add: mk_Error_def)

lemma err_code_mk [simp]: "err_code (mk_Error c co d u p i) = c"
  by (simp add: mk_Error_def)

section \<open>Limits\<close>

lemma limit_step: "(if b then invalid_limit n else r) = Inr () \<longleftrightarrow> \<not> b \<and> r = Inr ()"
  by (simp add: invalid_limit_def)

text \<open>
  \<open>validate_limits\<close> accepts a configuration exactly when every limit lies in its documented
  range and the ranges nest: payload, control, manifest and shell limits fit in a frame, both
  queues hold at least one frame, and a file chunk fits in a file.
\<close>

theorem validate_limits_iff:
  "validate_limits l = Inr () \<longleftrightarrow>
     256 \<le> max_frame_bytes l \<and> max_frame_bytes l \<le> 67108864 \<and>
     256 \<le> max_control_frame_bytes l \<and>
     max_control_frame_bytes l \<le> 1048576 \<and> max_control_frame_bytes l \<le> max_frame_bytes l \<and>
     1 \<le> max_message_bytes l \<and> max_message_bytes l \<le> 16777216 \<and> max_message_bytes l \<le> max_frame_bytes l \<and>
     1 \<le> max_rpc_payload_bytes l \<and>
     max_rpc_payload_bytes l \<le> 16777216 \<and> max_rpc_payload_bytes l \<le> max_frame_bytes l \<and>
     1 \<le> max_event_payload_bytes l \<and>
     max_event_payload_bytes l \<le> 16777216 \<and> max_event_payload_bytes l \<le> max_frame_bytes l \<and>
     1 \<le> max_send_queue_messages l \<and> max_send_queue_messages l \<le> 65536 \<and>
     max_frame_bytes l \<le> max_send_queue_bytes l \<and> max_send_queue_bytes l \<le> 1073741824 \<and>
     1 \<le> max_receive_window_frames l \<and> max_receive_window_frames l \<le> 65536 \<and>
     max_frame_bytes l \<le> max_receive_window_bytes l \<and>
     max_receive_window_bytes l \<le> 1073741824 \<and>
     max_file_chunk_bytes l \<le> max_file_bytes l \<and> max_file_bytes l \<le> 17592186044416 \<and>
     max_file_chunk_bytes l \<le> max_expanded_file_bytes l \<and>
     max_expanded_file_bytes l \<le> 17592186044416 \<and>
     4096 \<le> max_file_chunk_bytes l \<and>
     max_file_chunk_bytes l \<le> 1048576 \<and> max_file_chunk_bytes l \<le> max_frame_bytes l \<and>
     1 \<le> max_concurrent_operations l \<and> max_concurrent_operations l \<le> 65536 \<and>
     256 \<le> max_pairing_payload_bytes l \<and>
     max_pairing_payload_bytes l \<le> 65536 \<and> max_pairing_payload_bytes l \<le> max_control_frame_bytes l \<and>
     1 \<le> max_pairing_attempts_per_session l \<and> max_pairing_attempts_per_session l \<le> 20 \<and>
     256 \<le> max_endpoint_manifest_bytes l \<and>
     max_endpoint_manifest_bytes l \<le> 1048576 \<and> max_endpoint_manifest_bytes l \<le> max_frame_bytes l \<and>
     16 \<le> max_diagnostic_events l \<and> max_diagnostic_events l \<le> 1048576 \<and>
     256 \<le> max_shell_data_bytes l \<and>
     max_shell_data_bytes l \<le> 1048576 \<and>
     max_shell_data_bytes l + 28 \<le> max_frame_bytes l \<and>
     256 \<le> max_shell_control_bytes l \<and>
     max_shell_control_bytes l \<le> 65536 \<and> max_shell_control_bytes l \<le> max_frame_bytes l"
  unfolding validate_limits_def Let_def limit_step outside_def
  by (simp only: de_Morgan_disj not_less conj_assoc) simp

lemma default_limits_sel [simp]:
  "max_frame_bytes default_limits = 2097152" "max_control_frame_bytes default_limits = 65536"
  "max_message_bytes default_limits = 1048576" "max_pairing_payload_bytes default_limits = 8192"
  by (simp_all add: default_limits_def)

lemma default_limits_valid [simp]: "validate_limits default_limits = Inr ()"
  by (simp add: validate_limits_def default_limits_def outside_def)

section \<open>Negotiation\<close>

lemmas capability_bits_defs = protocol_1_0_capability_bits_def protocol_1_1_capability_bits_def
  protocol_1_2_capability_bits_def protocol_1_3_capability_bits_def known_capability_bits_def
  current_protocol_version_def

text \<open>The minor version of protocol 1 that introduced each capability.\<close>

fun introduced_in :: "Capability \<Rightarrow> nat" where
  "introduced_in c =
    (if c = Cap_lan_discovery_v1 \<or> c = Cap_lan_signaling_v1 then 1
     else if c = Cap_session_restart_v1 then 2
     else if c = Cap_gateway_v1 \<or> c = Cap_pairing_approval_v1 \<or>
             c = Cap_relay_enrollment_password_v1 \<or> c = Cap_relay_ice_config_v1 then 3
     else 0)"

lemma u32_below_3: "(v :: u32) < 3 \<longleftrightarrow> v = 0 \<or> v = 1 \<or> v = 2"
  by (simp add: word_less_nat_alt word_unat_eq_iff) arith

lemma u32_minor_cases: "(v :: u32) = 0 \<or> v = 1 \<or> v = 2 \<or> 3 \<le> v"
  using u32_below_3 [of v] by (auto simp: not_less)

lemma version_bits:
  assumes "ver_major v = 1"
  shows "ver_minor v = 0 \<Longrightarrow> capabilities_for_version v = 0x3FF"
    and "ver_minor v = 1 \<Longrightarrow> capabilities_for_version v = 0xFFF"
    and "ver_minor v = 2 \<Longrightarrow> capabilities_for_version v = 0x1FFF"
    and "3 \<le> ver_minor v \<Longrightarrow> capabilities_for_version v = 0x1FFFF"
  using assms u32_below_3 [of "ver_minor v"]
  by (auto simp: capabilities_for_version_def capability_bits_defs simp flip: not_less)

lemma version_capability:
  assumes "ver_major v = 1"
  shows "cap_has \<lparr>cap_bits = capabilities_for_version v\<rparr> c \<longleftrightarrow> introduced_in c \<le> unat (ver_minor v)"
  using u32_minor_cases [of "ver_minor v"]
proof (elim disjE)
  assume v: "3 \<le> ver_minor v"
  have "introduced_in c \<le> 3" by simp
  also have "3 \<le> unat (ver_minor v)" using v by (simp add: word_le_nat_alt)
  finally have "introduced_in c \<le> unat (ver_minor v)" .
  moreover have "cap_has \<lparr>cap_bits = capabilities_for_version v\<rparr> c"
    unfolding version_bits(4) [OF assms v] by (cases c) (simp_all add: cap_has_def)
  ultimately show ?thesis by blast
next
  assume v: "ver_minor v = 0"
  show ?thesis unfolding version_bits(1) [OF assms v] v by (cases c) (simp_all add: cap_has_def)
next
  assume v: "ver_minor v = 1"
  show ?thesis unfolding version_bits(2) [OF assms v] v by (cases c) (simp_all add: cap_has_def)
next
  assume v: "ver_minor v = 2"
  show ?thesis unfolding version_bits(3) [OF assms v] v by (cases c) (simp_all add: cap_has_def)
qed

lemma version_capability_major:
  "ver_major v \<noteq> 1 \<Longrightarrow> \<not> cap_has \<lparr>cap_bits = capabilities_for_version v\<rparr> c"
  by (simp add: cap_has_def capabilities_for_version_def current_protocol_version_def)

lemma version_known: "capabilities_for_version v AND NOT known_capability_bits = 0"
  by (simp add: capabilities_for_version_def capability_bits_defs)

lemma capability_bit_power: "\<exists>k. capability_bit c = 2 ^ k"
proof -
  have "\<exists>k. capability_bit c = push_bit k 1" by (cases c) (simp only: capability_bit.simps, blast)+
  then show ?thesis by (auto simp: push_bit_eq_mult)
qed

lemma cap_has_eta [simp]: "cap_has \<lparr>cap_bits = cap_bits s\<rparr> c = cap_has s c"
  by (simp add: cap_has_def)

lemma cap_has_and: "cap_has \<lparr>cap_bits = x AND y\<rparr> c \<longleftrightarrow> cap_has \<lparr>cap_bits = x\<rparr> c \<and> cap_has \<lparr>cap_bits = y\<rparr> c"
proof -
  obtain k where "capability_bit c = 2 ^ k" using capability_bit_power by blast
  then show ?thesis by (simp add: cap_has_def and_exp_eq_0_iff_not_bit bit_and_iff)
qed

text \<open>Both ends compute the same outcome, error included.\<close>

lemma negotiate_protocol_sym: "negotiate_protocol a b = negotiate_protocol b a"
  by (auto simp: negotiate_protocol_def Let_def or.commute and.commute and.left_commute
    and.assoc min.commute)

text \<open>
  C22: a successful negotiation runs the common major and the lower minor version; its capability
  set contains what either end requires and holds a capability exactly when both ends offer it and
  the agreed version is a version 1 in which it had been introduced; no unknown bit is ever set.
\<close>

theorem negotiate_protocol_sound:
  assumes "negotiate_protocol l r = Inr n"
  shows "ver_major (neg_version n) = ver_major (hello_version l) \<and>
    ver_major (neg_version n) = ver_major (hello_version r) \<and>
    ver_minor (neg_version n) = min (ver_minor (hello_version l)) (ver_minor (hello_version r)) \<and>
    cap_contains (hello_supported l) (neg_capabilities n) \<and>
    cap_contains (hello_supported r) (neg_capabilities n) \<and>
    cap_contains (neg_capabilities n) (hello_required l) \<and>
    cap_contains (neg_capabilities n) (hello_required r) \<and>
    (\<forall>c. cap_has (neg_capabilities n) c \<longleftrightarrow>
       cap_has (hello_supported l) c \<and> cap_has (hello_supported r) c \<and>
       ver_major (neg_version n) = 1 \<and> introduced_in c \<le> unat (ver_minor (neg_version n))) \<and>
    cap_bits (neg_capabilities n) AND NOT known_capability_bits = 0"
proof -
  define v where "v = \<lparr>ver_major = ver_major (hello_version l), ver_minor = min (ver_minor (hello_version l)) (ver_minor (hello_version r))\<rparr>"
  define c where "c = cap_bits (hello_supported l) AND cap_bits (hello_supported r) AND capabilities_for_version v"
  from assms have n: "n = \<lparr>neg_version = v, neg_capabilities = \<lparr>cap_bits = c\<rparr>\<rparr>"
    and maj: "ver_major (hello_version l) = ver_major (hello_version r)"
    and req: "cap_contains \<lparr>cap_bits = c\<rparr> (hello_required l)" "cap_contains \<lparr>cap_bits = c\<rparr> (hello_required r)"
    unfolding v_def c_def
    by (auto simp: negotiate_protocol_def negotiation_error_def Let_def split: if_splits)
  have h: "cap_has \<lparr>cap_bits = c\<rparr> x \<longleftrightarrow> cap_has (hello_supported l) x \<and> cap_has (hello_supported r) x \<and>
      ver_major v = 1 \<and> introduced_in x \<le> unat (ver_minor v)" for x
    using version_capability [of v x] version_capability_major [of v x]
    by (cases "ver_major v = 1") (simp_all add: c_def cap_has_and del: introduced_in.simps)
  have k: "c AND NOT known_capability_bits = 0"
    using version_known [of v] by (simp add: c_def and.assoc)
  have "cap_contains (hello_supported l) \<lparr>cap_bits = c\<rparr>" "cap_contains (hello_supported r) \<lparr>cap_bits = c\<rparr>"
    by (simp_all add: cap_contains_def c_def and.left_commute)
  with n maj req h k show ?thesis by (simp add: v_def del: introduced_in.simps)
qed

text \<open>
  Two current endpoints, one of which requires sessions and both of which offer the gateway.
\<close>

theorem negotiate_protocol_sound_witness:
  "let h = \<lparr>hello_version = current_protocol_version,
            hello_supported = \<lparr>cap_bits = known_capability_bits\<rparr>,
            hello_required = \<lparr>cap_bits = capability_bit Cap_session\<rparr>\<rparr>;
       n = \<lparr>neg_version = current_protocol_version,
            neg_capabilities = \<lparr>cap_bits = known_capability_bits\<rparr>\<rparr>
   in negotiate_protocol h h = Inr n \<and> cap_contains (neg_capabilities n) (hello_required h)"
proof -
  let ?h = "\<lparr>hello_version = current_protocol_version,
            hello_supported = \<lparr>cap_bits = known_capability_bits\<rparr>,
            hello_required = \<lparr>cap_bits = capability_bit Cap_session\<rparr>\<rparr>"
  let ?n = "\<lparr>neg_version = current_protocol_version,
            neg_capabilities = \<lparr>cap_bits = known_capability_bits\<rparr>\<rparr>"
  have "negotiate_protocol ?h ?h = Inr ?n"
    by (simp add: negotiate_protocol_def cap_contains_def capabilities_for_version_def
      capability_bits_defs)
  with negotiate_protocol_sound [OF this] show ?thesis by simp
qed

section \<open>LAN datagrams\<close>

lemma payload_size_bytes:
  assumes "n < 65536"
  shows "push_bit 8 (unat (of_nat (drop_bit 8 n AND 0xff) :: byte)) OR unat (of_nat (n AND 0xff) :: byte) = n"
proof -
  have m: "(0xff :: nat) = mask 8" by (simp add: mask_eq_exp_minus_1)
  have a: "unat (of_nat (n AND 0xff) :: byte) = n mod 256"
    by (simp add: m unat_of_nat flip: take_bit_eq_mask) (simp add: take_bit_eq_mod)
  have b: "unat (of_nat (drop_bit 8 n AND 0xff) :: byte) = n div 256"
    using assms by (simp add: m unat_of_nat drop_bit_eq_div flip: take_bit_eq_mask) (simp add: take_bit_eq_mod)
  have "(n mod 256) AND (2 ^ 8 * (n div 256)) = 0"
    by (rule nat_and_disjoint [where k = 8]) auto
  then have "(2 ^ 8 * (n div 256)) OR (n mod 256) = 2 ^ 8 * (n div 256) + n mod 256"
    by (simp add: and.commute disjunctive_add_eq_or)
  then show ?thesis by (simp add: a b push_bit_eq_mult mult.commute)
qed

lemma list_8_split: "8 \<le> length bs \<Longrightarrow> \<exists>a b c d e f g h r. bs = a # b # c # d # e # f # g # h # r"
  by (auto simp: Suc_le_length_iff numeral_eq_Suc)

lemma payload_size_split:
  fixes x y :: byte
  assumes "push_bit 8 (unat x) OR unat y = n"
  shows "of_nat (drop_bit 8 n AND 0xff) = x" "of_nat (n AND 0xff) = y"
proof -
  have "unat y AND (2 ^ 8 * unat x) = 0"
    using unat_byte_bound [of y] by (intro nat_and_disjoint [where k = 8]) auto
  then have "(2 ^ 8 * unat x) OR unat y = 2 ^ 8 * unat x + unat y"
    by (simp add: and.commute disjunctive_add_eq_or)
  then have n: "n = 256 * unat x + unat y"
    using assms by (simp add: push_bit_eq_mult mult.commute)
  have m: "(0xff :: nat) = mask 8" by (simp add: mask_eq_exp_minus_1)
  have "n AND 0xff = unat y"
    using unat_byte_bound [of y] by (simp add: m n flip: take_bit_eq_mask) (simp add: take_bit_eq_mod)
  then show "of_nat (n AND 0xff) = y" by simp
  have "drop_bit 8 n AND 0xff = unat x"
    using unat_byte_bound [of x] unat_byte_bound [of y]
    by (simp add: m n drop_bit_eq_div flip: take_bit_eq_mask) (simp add: take_bit_eq_mod)
  then show "of_nat (drop_bit 8 n AND 0xff) = x" by simp
qed

lemma lan_encode_parse:
  assumes "encode_lan_datagram t p = Inr bs"
  shows "parse_lan_datagram bs = LanParsed t p"
proof -
  have t: "t = LanDatagram_presence" and len: "length p \<le> 1192"
    and bs: "bs = lan_datagram_magic @
            [lan_datagram_envelope_version, lan_datagram_type_value t,
             of_nat (drop_bit 8 (length p) AND 0xff), of_nat (length p AND 0xff)] @ p"
    using assms by (auto simp: encode_lan_datagram_def max_lan_datagram_payload_bytes_def
     max_lan_datagram_bytes_def lan_datagram_header_bytes_def split: if_splits)
  have "push_bit 8 (unat (bs ! 6)) OR unat (bs ! 7) = length p"
    using payload_size_bytes [of "length p"] len by (simp add: bs lan_datagram_magic_def)
  then show ?thesis
    using len by (simp add: parse_lan_datagram_def max_lan_datagram_payload_bytes_def Let_def t bs
     max_lan_datagram_bytes_def lan_datagram_header_bytes_def lan_datagram_magic_def)
qed

lemma lan_parse_encode:
  assumes "parse_lan_datagram bs = LanParsed t p"
  shows "encode_lan_datagram t p = Inr bs"
proof -
  have len: "8 \<le> length bs"
    using assms by (auto simp: parse_lan_datagram_def lan_datagram_header_bytes_def split: if_splits)
  then obtain a b c d e f g h r where bs: "bs = a # b # c # d # e # f # g # h # r"
    using list_8_split by blast
  with assms show ?thesis
    by (auto simp: parse_lan_datagram_def encode_lan_datagram_def lan_datagram_header_bytes_def
      max_lan_datagram_payload_bytes_def max_lan_datagram_bytes_def lan_datagram_magic_def Let_def
      payload_size_split split: if_splits)
qed

lemma lan_codec: "parse_lan_datagram bs = LanParsed t p \<longleftrightarrow> encode_lan_datagram t p = Inr bs"
  by (auto intro: lan_parse_encode lan_encode_parse)

lemma lan_datagram_of_eq_Some [simp]: "lan_datagram_of r = Some (t, p) \<longleftrightarrow> r = LanParsed t p"
  by (cases r) auto

interpretation lan_envelope: canonical_codec
  "\<lambda>(t, p). value_if (encode_lan_datagram t p)"
  "\<lambda>bs. lan_datagram_of (parse_lan_datagram bs)"
  by unfold_locales (auto simp: lan_codec)

text \<open>
  The LAN datagram codec is a bijection between encodable datagrams and accepted inputs: an
  octet string parses as a datagram exactly when it is what the encoder emits for it.
\<close>

theorem lan_datagram_codec:
  "parse_lan_datagram bs = LanParsed t p \<longleftrightarrow> encode_lan_datagram t p = Inr bs"
  using lan_envelope.codec [of bs "(t, p)"] by simp

section \<open>Operations and signed expiry\<close>

text \<open>
  a transition keeps the identity and the epoch of the operation, ends in the requested
  state, keeps the error field consistent with it, and leaves a finished operation untouched.
\<close>

theorem transition_operation_wf:
  assumes "op_wf s" and "transition_operation s n e = Inr t"
  shows "op_wf t \<and> op_id t = op_id s \<and> op_epoch t = op_epoch s \<and> op_state t = n \<and>
     (op_state s \<noteq> Op_pending \<longrightarrow> t = s)"
  using assms
  by (cases n) (auto simp: op_wf_def transition_operation_def invalid_transition_def Let_def
    split: if_splits)

theorem transition_operation_wf_witness:
  "let s = \<lparr>op_id = replicate 16 1, op_epoch = 7, op_state = Op_pending, op_error = None\<rparr>;
       t = s\<lparr>op_state := Op_outcome_unknown,
            op_error := Some (mk_Error EC_outcome_unknown ''operation'' ''connection_lost'' None
              None (Some (replicate 16 1)))\<rparr>
   in transition_operation s Op_outcome_unknown None = Inr t \<and> op_wf t"
  using transition_operation_wf
    [of "\<lparr>op_id = replicate 16 1, op_epoch = 7, op_state = Op_pending, op_error = None\<rparr>"
        Op_outcome_unknown None]
  by (simp add: transition_operation_def op_wf_def)

lemma signed_expiry_earliest:
  "(expires :: u64) < (if now > 30000 then now - 30000 else 0) \<longleftrightarrow> unat expires + 30000 < unat now"
proof (cases "now > 30000")
  case True
  then have "unat (now - 30000) = unat now - 30000"
    by (simp add: unat_sub_if_size word_less_nat_alt word_le_nat_alt)
  then show ?thesis using True by (simp add: word_less_nat_alt) arith
next
  case False
  then show ?thesis by (simp add: word_less_nat_alt)
qed

lemma signed_expiry_latest:
  "(expires :: u64) > (if now > - 1 - 300000 then - 1 else now + 300000) \<longleftrightarrow>
     unat now + 300000 < unat expires"
proof (cases "now > - 1 - 300000")
  case True
  then have "18446744073709551615 - 300000 < unat now"
    by (simp add: word_less_nat_alt)
  moreover have "\<not> expires > - 1" by (simp add: not_less)
  ultimately show ?thesis using True unat_u64_bound [of expires] by simp
next
  case False
  then have "unat now \<le> 18446744073709551615 - 300000"
    by (simp add: word_less_nat_alt)
  then have "unat (now + 300000) = unat now + 300000"
    by (simp add: unat_plus_if_size word_size)
  then show ?thesis using False by (simp add: word_less_nat_alt)
qed

text \<open>
  The signed-expiry check, written with saturating 64-bit arithmetic, accepts exactly the
  timestamps from 30 seconds before to five minutes after the current time, also at both ends of
  the 64-bit range.
\<close>

theorem validate_signed_expiry_iff:
  "validate_signed_expiry expires now = Inr () \<longleftrightarrow>
     unat now \<le> unat expires + 30000 \<and> unat expires \<le> unat now + 300000"
  using signed_expiry_earliest [of expires now] signed_expiry_latest [of now expires]
  by (simp add: validate_signed_expiry_def Let_def maximum_expiry_clock_skew_milliseconds_def
    maximum_signed_validity_milliseconds_def split del: if_split)
     auto

end
