(* ===== verification/Heyaki_Ids.thy ===== *)
theory Heyaki_Ids
  imports Heyaki_Core
begin

text \<open>
  Identifiers (\<open>ids.hpp\<close>, \<open>ids.cpp\<close>): fixed-size octet arrays and their prefixed lower-case
  base32 text form.  An identifier is its octet list; the size of its kind is an argument of the
  codec, as \<open>Id::size_bytes\<close> is a template constant in the source.
\<close>

section \<open>Identifiers\<close>

datatype IdentifierKind =
    Kind_device | Kind_endpoint | Kind_session | Kind_operation | Kind_message | Kind_request
  | Kind_transfer | Kind_grant | Kind_shell

fun size_bytes :: "IdentifierKind \<Rightarrow> nat" where
  "size_bytes k = (if k = Kind_device then 32 else 16)"

type_synonym id_bytes = bytes

fun id_is_zero :: "id_bytes \<Rightarrow> bool" where
  "id_is_zero [] \<longleftrightarrow> True"
| "id_is_zero (b # bs) \<longleftrightarrow> (if b \<noteq> 0 then False else id_is_zero bs)"

text \<open>The explicit byte-by-byte three-way comparison, on arrays of one size.\<close>

datatype strong_ordering = Ord_less | Ord_equal | Ord_greater

fun id_compare :: "id_bytes \<Rightarrow> id_bytes \<Rightarrow> strong_ordering" where
  "id_compare (a # as) (b # bs) =
     (if a \<noteq> b then (if a < b then Ord_less else Ord_greater) else id_compare as bs)"
| "id_compare _ _ = Ord_equal"

datatype IdentifierDecodeError =
    IdErr_none | IdErr_invalid_prefix | IdErr_invalid_length | IdErr_invalid_character
  | IdErr_non_canonical

record IdentifierDecodeResult =
  idr_value :: "id_bytes option"
  idr_error :: IdentifierDecodeError

section \<open>The base32 codec\<close>

definition base32_alphabet :: string where
  "base32_alphabet = ''abcdefghijklmnopqrstuvwxyz234567''"

text \<open>\<open>accumulator &= bits == 0 ? 0 : ((1 << bits) - 1)\<close>\<close>

definition keep_low_bits :: "u32 \<Rightarrow> nat \<Rightarrow> u32" where
  "keep_low_bits accumulator bits =
     accumulator AND (if bits = 0 then 0 else push_bit bits 1 - 1)"

fun emit_digits :: "u32 \<Rightarrow> nat \<Rightarrow> string \<times> nat" where
  "emit_digits accumulator bits =
     (if bits \<ge> 5 then
        let bits' = bits - 5;
            (rest, left) = emit_digits accumulator bits'
        in (base32_alphabet ! unat (drop_bit bits' accumulator AND 0x1f) # rest, left)
      else ([], bits))"

declare emit_digits.simps [simp del]

fun encode_loop :: "bytes \<Rightarrow> u32 \<Rightarrow> nat \<Rightarrow> string" where
  "encode_loop [] accumulator bits =
     (if bits \<noteq> 0 then [base32_alphabet ! unat (push_bit (5 - bits) accumulator AND 0x1f)] else [])"
| "encode_loop (b # bs) accumulator bits =
     (let accumulator' = push_bit 8 accumulator OR ucast b;
          (digits, left) = emit_digits accumulator' (bits + 8)
      in digits @ encode_loop bs (keep_low_bits accumulator' left) left)"

definition encode_identifier :: "id_bytes \<Rightarrow> string \<Rightarrow> string" where
  "encode_identifier ident prefix = prefix @ encode_loop ident 0 0"

definition decode_base32_character :: "char \<Rightarrow> int" where
  "decode_base32_character c =
     (if CHR ''a'' \<le> c \<and> c \<le> CHR ''z'' then of_char c - of_char CHR ''a''
      else if CHR ''2'' \<le> c \<and> c \<le> CHR ''7'' then of_char c - of_char CHR ''2'' + 26
      else - 1)"

fun decode_loop ::
  "nat \<Rightarrow> string \<Rightarrow> bytes \<Rightarrow> u32 \<Rightarrow> nat \<Rightarrow> IdentifierDecodeError + (bytes \<times> u32 \<times> nat)" where
  "decode_loop sz [] output accumulator bits = Inr (output, accumulator, bits)"
| "decode_loop sz (c # cs) output accumulator bits =
     (if CHR ''A'' \<le> c \<and> c \<le> CHR ''Z'' then Inl IdErr_non_canonical
      else
        let v = decode_base32_character c
        in if v < 0 then Inl IdErr_invalid_character
           else
             let accumulator' = push_bit 5 accumulator OR of_int v;
                 bits' = bits + 5
             in if bits' \<ge> 8 then
                  (if length output \<ge> sz then Inl IdErr_invalid_length
                   else decode_loop sz cs
                          (output @ [ucast (drop_bit (bits' - 8) accumulator' AND 0xff)])
                          (keep_low_bits accumulator' (bits' - 8)) (bits' - 8))
                else decode_loop sz cs output (keep_low_bits accumulator' bits') bits')"

definition encoded_size :: "nat \<Rightarrow> nat" where
  "encoded_size sz = (sz * 8 + 4) div 5"

definition id_failure :: "IdentifierDecodeError \<Rightarrow> IdentifierDecodeResult" where
  "id_failure e = \<lparr>idr_value = None, idr_error = e\<rparr>"

definition decode_identifier :: "nat \<Rightarrow> string \<Rightarrow> string \<Rightarrow> IdentifierDecodeResult" where
  "decode_identifier sz txt prefix =
     (if take (length prefix) txt \<noteq> prefix then id_failure IdErr_invalid_prefix
      else if length txt \<noteq> length prefix + encoded_size sz then id_failure IdErr_invalid_length
      else case decode_loop sz (drop (length prefix) txt) [] 0 0 of
          Inl e \<Rightarrow> id_failure e
        | Inr (output, accumulator, bits) \<Rightarrow>
            if length output \<noteq> sz then id_failure IdErr_invalid_length
            else if bits \<noteq> 0 \<and> accumulator \<noteq> 0 then id_failure IdErr_non_canonical
            else \<lparr>idr_value = Some output, idr_error = IdErr_none\<rparr>)"

fun id_prefix :: "IdentifierKind \<Rightarrow> string" where
  "id_prefix Kind_device = ''hy1_''"
| "id_prefix Kind_endpoint = ''hye1_''"
| "id_prefix Kind_session = ''hys1_''"
| "id_prefix Kind_operation = ''hyo1_''"
| "id_prefix Kind_message = ''hym1_''"
| "id_prefix Kind_request = ''hyr1_''"
| "id_prefix Kind_transfer = ''hyt1_''"
| "id_prefix Kind_grant = ''hyg1_''"
| "id_prefix Kind_shell = ''hysh1_''"

definition id_to_string :: "IdentifierKind \<Rightarrow> id_bytes \<Rightarrow> string" where
  "id_to_string k ident = encode_identifier ident (id_prefix k)"

text \<open>
  The source has a parser for every kind but \<^const>\<open>Kind_shell\<close>, whose identifiers it only prints;
  for that kind \<open>parse_id\<close> is the decoder template at its size and prefix, which nothing calls.
\<close>

definition parse_id :: "IdentifierKind \<Rightarrow> string \<Rightarrow> IdentifierDecodeResult" where
  "parse_id k txt = decode_identifier (size_bytes k) txt (id_prefix k)"

fun identifier_decode_error_name :: "IdentifierDecodeError \<Rightarrow> string" where
  "identifier_decode_error_name IdErr_none = ''none''"
| "identifier_decode_error_name IdErr_invalid_prefix = ''invalid_prefix''"
| "identifier_decode_error_name IdErr_invalid_length = ''invalid_length''"
| "identifier_decode_error_name IdErr_invalid_character = ''invalid_character''"
| "identifier_decode_error_name IdErr_non_canonical = ''non_canonical''"

section \<open>Comparison\<close>

lemma id_is_zero_iff: "id_is_zero bs \<longleftrightarrow> bs = replicate (length bs) 0"
  by (induction bs) auto

text \<open>
  The hand-written comparison is the lexicographic order of the octets, which orders the
  associative containers keyed by identifiers.
\<close>

lemma id_compare_lexicographic:
  "length as = length bs \<Longrightarrow>
     id_compare as bs = (if as < bs then Ord_less else if as = bs then Ord_equal else Ord_greater)"
  by (induction as bs rule: list_induct2) auto

section \<open>Loop invariants of the base32 codec\<close>

lemma unat_keep_low_bits [word_nat]: "unat (keep_low_bits a n) = unat a mod 2 ^ n"
proof (cases "n = 0")
  case False
  then have "keep_low_bits a n = a AND mask n"
    by (simp add: keep_low_bits_def mask_eq_exp_minus_1 push_bit_eq_mult)
  then show ?thesis by (simp add: unat_and_mask)
qed (simp add: keep_low_bits_def)

definition digit32 :: "char \<Rightarrow> nat" where
  "digit32 c = nat (decode_base32_character c)"

abbreviation val32 :: "string \<Rightarrow> nat" where
  "val32 s \<equiv> radix 32 (map digit32 s)"

abbreviation val256 :: "bytes \<Rightarrow> nat" where
  "val256 s \<equiv> radix 256 (map unat s)"

lemma alphabet_digit: "n < 32 \<Longrightarrow> decode_base32_character (base32_alphabet ! n) = int n"
proof -
  have "\<forall>n \<in> set [0..<32]. decode_base32_character (base32_alphabet ! n) = int n" by code_simp
  then show "n < 32 \<Longrightarrow> ?thesis" by simp
qed

lemma decode_base32_code:
  "decode_base32_character c =
     (let n = of_char c :: nat
      in if 97 \<le> n \<and> n \<le> 122 then int n - 97 else if 50 \<le> n \<and> n \<le> 55 then int n - 24 else - 1)"
  by (simp add: decode_base32_character_def less_eq_char_def Let_def of_nat_of_char)

lemma decode_base32_inj:
  "0 \<le> decode_base32_character c \<Longrightarrow> decode_base32_character c = decode_base32_character d \<Longrightarrow> c = d"
  by (auto simp: decode_base32_code Let_def less_eq_char_def simp del: of_nat_of_char split: if_splits)

lemma digit_alphabet:
  assumes "0 \<le> decode_base32_character c"
  shows "digit32 c < 32" "base32_alphabet ! digit32 c = c" "\<not> (CHR ''A'' \<le> c \<and> c \<le> CHR ''Z'')"
proof -
  show *: "digit32 c < 32"
    using assms by (auto simp: digit32_def decode_base32_code Let_def less_eq_char_def simp del: of_nat_of_char split: if_splits)
  then have "decode_base32_character (base32_alphabet ! digit32 c) = decode_base32_character c"
    using alphabet_digit [of "digit32 c"] assms by (simp add: digit32_def)
  then show "base32_alphabet ! digit32 c = c" by (metis assms decode_base32_inj)
  show "\<not> (CHR ''A'' \<le> c \<and> c \<le> CHR ''Z'')"
    using assms by (auto simp: decode_base32_code Let_def less_eq_char_def simp del: of_nat_of_char split: if_splits)
qed

lemma digit32_alphabet [simp]: "n < 32 \<Longrightarrow> digit32 (base32_alphabet ! n) = n"
  by (simp add: digit32_def alphabet_digit)


lemma pow_32: "(32::nat) ^ n = 2 ^ (5 * n)" by (simp add: power_mult)
lemma pow_256: "(256::nat) ^ n = 2 ^ (8 * n)" by (simp add: power_mult)

lemma emit_digits_spec:
  "emit_digits a n = (s, r) \<Longrightarrow>
     r < 5 \<and> n = 5 * length s + r \<and> val32 s = (unat a div 2 ^ r) mod 32 ^ length s"
proof (induction a n arbitrary: s rule: emit_digits.induct)
  case (1 a n)
  show ?case
  proof (cases "n \<ge> 5")
    case True
    obtain s' where e: "emit_digits a (n - 5) = (s', r)"
      and s: "s = base32_alphabet ! unat (drop_bit (n - 5) a AND 0x1f) # s'"
      using 1 (2) True by (subst (asm) emit_digits.simps) (auto simp: Let_def split: prod.splits)
    have h: "r < 5" "n - 5 = 5 * length s' + r" "val32 s' = (unat a div 2 ^ r) mod 32 ^ length s'"
      using 1 (1) [OF True refl e] by auto
    let ?x = "unat a div 2 ^ r" and ?m = "32 ^ length s' :: nat"
    have "(2::nat) ^ (n - 5) = 2 ^ r * ?m" by (simp add: h power_add pow_32)
    then have "unat (drop_bit (n - 5) a AND 0x1f) = ?x div ?m mod 32"
      by (simp add: word_nat div_mult2_eq)
    then have "val32 s = (?x div ?m mod 32) * ?m + ?x mod ?m" by (simp add: s h)
    also have "\<dots> = ?x mod (?m * 32)" by (simp only: mod_mult2_eq mult.commute [of ?m "_ mod 32"])
    finally show ?thesis using h True by (simp add: s mult.commute)
  next
    case False
    then show ?thesis using 1 (2) by (subst (asm) emit_digits.simps) auto
  qed
qed

lemma encode_loop_spec:
  "unat a < 2 ^ n \<Longrightarrow> n < 5 \<Longrightarrow>
   (\<exists>p < 5. 5 * length (encode_loop bs a n) = n + 8 * length bs + p \<and>
      val32 (encode_loop bs a n) = (unat a * 256 ^ length bs + val256 bs) * 2 ^ p)"
proof (induction bs arbitrary: a n)
  case Nil
  show ?case
  proof (cases "n = 0")
    case True
    then show ?thesis using Nil by auto
  next
    case False
    have "unat (push_bit (5 - n) a) = 2 ^ (5 - n) * unat a" "2 ^ (5 - n) * unat a < 32"
    proof -
      have "2 ^ (5 - n) * unat a < 2 ^ (5 - n) * 2 ^ n" using Nil by simp
      also have "\<dots> = 32" using Nil by (simp flip: power_add)
      finally show "2 ^ (5 - n) * unat a < 32" .
      then show "unat (push_bit (5 - n) a) = 2 ^ (5 - n) * unat a" by (simp add: word_nat)
    qed
    then have "val32 (encode_loop [] a n) = unat a * 2 ^ (5 - n)"
      using False by (simp add: word_nat mult.commute)
    then show ?thesis using False Nil by (intro exI [of _ "5 - n"]) auto
  qed
next
  case (Cons b bs)
  let ?a = "push_bit 8 a OR ucast b :: u32"
  obtain s r where e: "emit_digits ?a (n + 8) = (s, r)" by fastforce
  have h: "r < 5" "n + 8 = 5 * length s + r" "val32 s = (unat ?a div 2 ^ r) mod 32 ^ length s"
    using emit_digits_spec [OF e] by auto
  have a: "unat ?a = unat a * 256 + unat b"
    using unat_shift_in [of a n 8 "ucast b"] Cons.prems unat_byte_bound [of b]
    by (simp add: word_nat)
  have "unat ?a < 2 ^ n * 256" using Cons.prems unat_byte_bound [of b] a by simp
  also have "\<dots> = 2 ^ (5 * length s + r)" using h(2) [symmetric] by (simp add: power_add)
  finally have lt: "unat ?a < 32 ^ length s * 2 ^ r" by (simp add: power_add power_mult)
  then have "unat ?a div 2 ^ r < 32 ^ length s" by (simp add: less_mult_imp_div_less)
  then have v: "val32 s = unat ?a div 2 ^ r" by (simp add: h(3))
  let ?k = "keep_low_bits ?a r"
  have k: "unat ?k = unat ?a mod 2 ^ r" by (simp add: word_nat)
  obtain p where p: "p < 5" "5 * length (encode_loop bs ?k r) = r + 8 * length bs + p"
    "val32 (encode_loop bs ?k r) = (unat ?k * 256 ^ length bs + val256 bs) * 2 ^ p"
    using Cons.IH [of ?k r] k h(1) by auto
  have enc: "encode_loop (b # bs) a n = s @ encode_loop bs ?k r" using e by (simp add: Let_def)
  have "(32::nat) ^ length (encode_loop bs ?k r) = 2 ^ r * 256 ^ length bs * 2 ^ p"
    using p(2) by (metis power_add power_mult pow_32 pow_256)
  then have "val32 (encode_loop (b # bs) a n) =
    ((val32 s * 2 ^ r + unat ?k) * 256 ^ length bs + val256 bs) * 2 ^ p"
    by (subst enc) (simp add: radix_append p(3) algebra_simps)
  also have "val32 s * 2 ^ r + unat ?k = unat ?a" unfolding v k by (rule div_mult_mod_eq)
  also have "unat ?a = unat a * 256 + unat b" by (rule a)
  finally have v': "val32 (encode_loop (b # bs) a n) =
      (unat a * 256 ^ length (b # bs) + val256 (b # bs)) * 2 ^ p"
    by (simp add: algebra_simps del: encode_loop.simps)
  have "5 * length (encode_loop (b # bs) a n) = n + 8 * length (b # bs) + p"
    using p(2) h(2) by (subst enc) simp
  with v' p(1) show ?case by blast
qed

lemma unat_low_byte: "unat (ucast (w AND 0xff :: u32) :: byte) = unat w mod 256"
  by (simp add: word_nat)

lemma decode_loop_spec:
  "decode_loop sz cs out a n = Inr (out', a', n') \<Longrightarrow> unat a < 2 ^ n \<Longrightarrow> n < 8 \<Longrightarrow>
     unat a' < 2 ^ n' \<and> n' < 8 \<and> (\<forall>c \<in> set cs. 0 \<le> decode_base32_character c) \<and>
     8 * length out' + n' = 8 * length out + n + 5 * length cs \<and>
     val256 out' * 2 ^ n' + unat a' = (val256 out * 2 ^ n + unat a) * 32 ^ length cs + val32 cs"
proof (induction sz cs out a n rule: decode_loop.induct)
  case (2 sz c cs out a n)
  let ?v = "decode_base32_character c"
  let ?a = "push_bit 5 a OR of_int ?v :: u32"
  have v: "0 \<le> ?v" and u: "\<not> (CHR ''A'' \<le> c \<and> c \<le> CHR ''Z'')"
    using 2 (3) by (auto simp: Let_def split: if_splits)
  have d: "digit32 c < 32" using digit_alphabet v by blast
  have "unat (of_int ?v :: u32) = digit32 c"
  proof -
    have "(of_int ?v :: u32) = of_nat (digit32 c)" using v by (simp add: digit32_def)
    then show ?thesis using d by (simp add: unat_of_nat)
  qed
  then have a: "unat ?a = unat a * 32 + digit32 c"
    using unat_shift_in [of a n 5 "of_int ?v"] 2 (4,5) d by simp
  have lt: "unat ?a < 2 ^ (n + 5)" using a d 2 (4) by (simp add: power_add)
  show ?case
  proof (cases "n + 5 \<ge> 8")
    case True
    let ?m = "n + 5 - 8"
    let ?o = "out @ [ucast (drop_bit ?m ?a AND 0xff)] :: bytes"
    have "8 + ?m = n + 5" using True by simp
    then have "unat ?a < 2 ^ (8 + ?m)" using lt by metis
    then have "unat ?a < 256 * 2 ^ ?m" by (simp add: power_add)
    then have "unat ?a div 2 ^ ?m < 256" by (simp add: less_mult_imp_div_less)
    then have o: "unat (ucast (drop_bit ?m ?a AND 0xff) :: byte) = unat ?a div 2 ^ ?m"
      by (simp only: unat_low_byte unat_drop_bit mod_less)
    have r: "decode_loop sz cs ?o (keep_low_bits ?a ?m) ?m = Inr (out', a', n')"
      and ln: "\<not> sz \<le> length out"
      using 2 (3) True u v by (auto simp: Let_def split: if_splits)
    have "n = ?m + 3" using True by simp
    then have "(2::nat) ^ n = 2 ^ ?m * 2 ^ 3" by (metis power_add)
    then have p: "(2::nat) ^ n * 32 = 256 * 2 ^ ?m" by simp
    have e: "val256 ?o * 2 ^ ?m + unat (keep_low_bits ?a ?m) = (val256 out * 2 ^ n + unat a) * 32 + digit32 c"
    proof -
      have snoc: "val256 (out @ [x]) = val256 out * 256 + unat x" for x by (simp add: radix_append)
      have "val256 ?o * 2 ^ ?m = val256 out * (256 * 2 ^ ?m) + unat ?a div 2 ^ ?m * 2 ^ ?m"
        unfolding snoc o by (simp only: algebra_simps)
      then have "val256 ?o * 2 ^ ?m + unat (keep_low_bits ?a ?m) = val256 out * (2 ^ n * 32) + unat ?a"
        unfolding p unat_keep_low_bits by (simp only: add.assoc div_mult_mod_eq)
      then show ?thesis by (simp add: a algebra_simps)
    qed
    have "unat (keep_low_bits ?a ?m) < 2 ^ ?m" by (simp add: unat_keep_low_bits)
    then have ih: "unat a' < 2 ^ n' \<and> n' < 8 \<and> (\<forall>c\<in>set cs. 0 \<le> decode_base32_character c) \<and>
     8 * length out' + n' = 8 * length ?o + ?m + 5 * length cs \<and>
     val256 out' * 2 ^ n' + unat a' = (val256 ?o * 2 ^ ?m + unat (keep_low_bits ?a ?m)) * 32 ^ length cs + val32 cs"
      using 2 (1) [OF u refl _ refl refl True ln r] v 2 (5) by auto
    then show ?thesis using v True unfolding e by (simp add: algebra_simps)
  next
    case False
    have r: "decode_loop sz cs out (keep_low_bits ?a (n + 5)) (n + 5) = Inr (out', a', n')"
      using 2 (3) False u v by (auto simp: Let_def split: if_splits)
    have k: "unat (keep_low_bits ?a (n + 5)) = unat a * 32 + digit32 c" using lt a by (simp add: unat_keep_low_bits)
    have "unat (keep_low_bits ?a (n + 5)) < 2 ^ (n + 5)" by (simp add: unat_keep_low_bits)
    then show ?thesis
      using 2 (2) [OF u refl _ refl refl False r] v k False by (simp add: power_add algebra_simps)
  qed
qed simp

lemma decode_loop_total:
  "unat a < 2 ^ n \<Longrightarrow> n < 8 \<Longrightarrow> \<forall>c \<in> set cs. 0 \<le> decode_base32_character c \<Longrightarrow>
    n + 5 * length cs + 8 * length out < 8 * sz + 8 \<Longrightarrow>
    \<exists>r. decode_loop sz cs out a n = Inr r"
proof (induction sz cs out a n rule: decode_loop.induct)
  case (2 sz c cs out a n)
  have u: "\<not> (CHR ''A'' \<le> c \<and> c \<le> CHR ''Z'')" using digit_alphabet 2 by auto
  have v: "\<not> decode_base32_character c < 0" using 2 by auto
  show ?case
  proof (cases "n + 5 \<ge> 8")
    case True
    then have "\<not> sz \<le> length out" using 2 by auto
    moreover have "\<exists>r. decode_loop sz cs (out @ [ucast (drop_bit (n + 5 - 8) (push_bit 5 a OR of_int (decode_base32_character c)) AND 0xff)])
       (keep_low_bits (push_bit 5 a OR of_int (decode_base32_character c)) (n + 5 - 8)) (n + 5 - 8) = Inr r"
      using True 2 (4-6) by (intro 2 (1) [OF u refl v refl refl True calculation]) (auto simp: unat_keep_low_bits)
    ultimately show ?thesis using u v True by (simp add: Let_def)
  next
    case False
    have "\<exists>r. decode_loop sz cs out (keep_low_bits (push_bit 5 a OR of_int (decode_base32_character c)) (n + 5)) (n + 5) = Inr r"
      using False 2 (4-6) by (intro 2 (2) [OF u refl v refl refl False]) (auto simp: unat_keep_low_bits)
    then show ?thesis using u v False by (simp add: Let_def)
  qed
qed simp

lemma encode_loop_digits:
  "unat a < 2 ^ n \<Longrightarrow> n < 5 \<Longrightarrow> \<forall>c \<in> set (encode_loop bs a n). 0 \<le> decode_base32_character c"
proof (induction bs arbitrary: a n)
  case Nil
  then show ?case by (simp add: alphabet_digit word_nat)
next
  case (Cons b bs)
  have e: "\<forall>c \<in> set s. 0 \<le> decode_base32_character c" if "emit_digits w m = (s, r)" for w m s r
    using that
  proof (induction w m arbitrary: s rule: emit_digits.induct)
    case (1 w m)
    show ?case
    proof (cases "m \<ge> 5")
      case True
      obtain s' where e: "emit_digits w (m - 5) = (s', r)"
        and s: "s = base32_alphabet ! unat (drop_bit (m - 5) w AND 0x1f) # s'"
        using 1 (2) True by (subst (asm) emit_digits.simps) (auto simp: Let_def split: prod.splits)
      show ?thesis using 1 (1) [OF True refl e] by (simp add: s alphabet_digit word_nat)
    next
      case False
      then show ?thesis using 1 (2) by (subst (asm) emit_digits.simps) auto
    qed
  qed
  obtain s r where er: "emit_digits (push_bit 8 a OR ucast b) (n + 8) = (s, r)" by fastforce
  then have "r < 5" using emit_digits_spec by blast
  then have "\<forall>c \<in> set (encode_loop bs (keep_low_bits (push_bit 8 a OR ucast b) r) r). 0 \<le> decode_base32_character c"
    by (intro Cons.IH) (auto simp: unat_keep_low_bits)
  with e [OF er] er show ?case by (auto simp: Let_def)
qed

lemma length_encode_loop: "length (encode_loop bs 0 0) = encoded_size (length bs)"
  using encode_loop_spec [of 0 0 bs] by (auto simp: encoded_size_def)

lemma map_unat_bytes_inj: "map unat (xs :: bytes) = map unat ys \<Longrightarrow> xs = ys"
  by (rule map_injective) (auto intro!: injI unsigned_word_eqI)

lemma bytes_digits: "\<forall>d \<in> set (map unat (xs :: bytes)). d < 256"
  using unat_byte_bound by auto

lemma decode_encode_identifier:
  assumes "length ident = sz"
  shows "decode_identifier sz (encode_identifier ident p) p = \<lparr>idr_value = Some ident, idr_error = IdErr_none\<rparr>"
proof -
  let ?cs = "encode_loop ident 0 0"
  obtain q where q: "q < 5" "5 * length ?cs = 8 * sz + q" "val32 ?cs = val256 ident * 2 ^ q"
    using encode_loop_spec [of 0 0 ident] assms by auto
  obtain out a n where r: "decode_loop sz ?cs [] 0 0 = Inr (out, a, n)"
    using decode_loop_total [of 0 0 ?cs "[]" sz] encode_loop_digits [of 0 0 ident] q by auto
  have s: "unat a < 2 ^ n" "n < 8" "8 * length out + n = 8 * sz + q"
    "val256 out * 2 ^ n + unat a = val256 ident * 2 ^ q"
    using decode_loop_spec [OF r] q by auto
  have len: "length out = sz" and n: "n = q" using s q(1) by arith+
  have "(val256 out * 2 ^ n + unat a) mod 2 ^ n = 0" using s(4) n by simp
  then have a: "unat a = 0" using s(1) by simp
  then have "val256 out = val256 ident" using s(4) n by simp
  then have "map unat out = map unat ident"
    using len assms by (intro radix_inject [of 256]) (auto simp: unat_byte_bound)
  then have "out = ident" by (rule map_unat_bytes_inj)
  then show ?thesis
    using r len a assms by (simp add: decode_identifier_def encode_identifier_def length_encode_loop unat_eq_0)
qed

lemma encode_decode_identifier:
  assumes "idr_value (decode_identifier sz txt p) = Some ident"
  shows "length ident = sz \<and> encode_identifier ident p = txt"
proof -
  let ?cs = "drop (length p) txt"
  obtain a n where r: "decode_loop sz ?cs [] 0 0 = Inr (ident, a, n)" and len: "length ident = sz"
    and pad: "n = 0 \<or> a = 0" and tx: "take (length p) txt = p" "length txt = length p + encoded_size sz"
    using assms by (auto simp: decode_identifier_def id_failure_def split: if_splits sum.splits)
  have s: "unat a < 2 ^ n" "n < 8" "8 * sz + n = 5 * length ?cs" "\<forall>c \<in> set ?cs. 0 \<le> decode_base32_character c"
    "val256 ident * 2 ^ n + unat a = val32 ?cs"
    using decode_loop_spec [OF r] len by auto
  have a: "unat a = 0" using pad s(1) by auto
  obtain q where q: "q < 5" "5 * length (encode_loop ident 0 0) = 8 * sz + q" "val32 (encode_loop ident 0 0) = val256 ident * 2 ^ q"
    using encode_loop_spec [of 0 0 ident] len by auto
  have lc: "length ?cs = length (encode_loop ident 0 0)" using tx len by (simp add: length_encode_loop)
  then have "n = q" using s(3) q(2) by simp
  then have "val32 (encode_loop ident 0 0) = val32 ?cs" using s(5) q(3) a by simp
  then have "map digit32 (encode_loop ident 0 0) = map digit32 ?cs"
    using lc s(4) encode_loop_digits [of 0 0 ident] digit_alphabet(1)
    by (intro radix_inject [of 32]) auto
  then have "map (\<lambda>c. base32_alphabet ! digit32 c) (encode_loop ident 0 0) = map (\<lambda>c. base32_alphabet ! digit32 c) ?cs"
    by (drule_tac f = "map (\<lambda>d. base32_alphabet ! d)" in arg_cong) (simp add: comp_def)
  moreover have "map (\<lambda>c. base32_alphabet ! digit32 c) cs = cs" if "\<forall>c \<in> set cs. 0 \<le> decode_base32_character c" for cs
    using that by (induction cs) (auto simp: digit_alphabet(2))
  ultimately have "encode_loop ident 0 0 = ?cs" using s(4) encode_loop_digits [of 0 0 ident] by auto
  then have "encode_identifier ident p = p @ ?cs" by (simp add: encode_identifier_def)
  also have "\<dots> = txt" using tx(1) append_take_drop_id [of "length p" "txt"] by simp
  finally show ?thesis using len by simp
qed

section \<open>The text form is canonical\<close>

lemma parse_id_iff:
  "idr_value (parse_id k s) = Some ident \<longleftrightarrow>
     length ident = size_bytes k \<and> id_to_string k ident = s"
  using decode_encode_identifier [of ident "size_bytes k" "id_prefix k"]
    encode_decode_identifier [of "size_bytes k" s "id_prefix k" ident]
  by (auto simp: parse_id_def id_to_string_def simp del: size_bytes.simps)

interpretation id_text: canonical_codec
  "\<lambda>ident. if length ident = size_bytes k then Some (id_to_string k ident) else None"
  "\<lambda>s. idr_value (parse_id k s)" for k
  by unfold_locales (auto simp: parse_id_iff simp del: size_bytes.simps)

text \<open>
  C36: for every identifier kind, a text parses to an identifier exactly when it is the text that
  identifier prints as; so printing and parsing are inverse, no identifier has a second accepted
  spelling (other case, other padding bits, other length), and no two identifiers of a kind
  print alike.
\<close>

theorem identifier_text_codec:
  "(idr_value (parse_id k s) = Some ident \<longleftrightarrow>
      length ident = size_bytes k \<and> id_to_string k ident = s) \<and>
   (length a = size_bytes k \<and> length b = size_bytes k \<longrightarrow>
      (id_to_string k a = id_to_string k b \<longleftrightarrow> a = b))"
  using parse_id_iff [of k s ident] id_text.encode_unique [where k = k and a = a and a' = b and b = "id_to_string k a"]
  by (auto simp del: size_bytes.simps)

theorem identifier_text_codec_witness:
  "idr_value (parse_id Kind_device (id_to_string Kind_device (replicate 32 7))) =
     Some (replicate 32 7) \<and>
   id_to_string Kind_device (replicate 32 7) \<noteq> id_to_string Kind_device (replicate 32 8)"
  using identifier_text_codec [of Kind_device "id_to_string Kind_device (replicate 32 7)"
      "replicate 32 7" "replicate 32 7" "replicate 32 8"]
  by simp

end
