(* ===== verification/Heyaki_Varint.thy ===== *)
theory Heyaki_Varint
  imports Heyaki_Prelude
begin

text \<open>
  The base-128 variable-length integers of the wire formats.  The sources hold three copies of the
  encoder and three of the decoder loop (\<open>wire.cpp\<close>, \<open>frame_stream.cpp\<close> for 32 bits,
  \<open>proto_codec.hpp\<close> for 64 bits).  The locale states the recursion equations the copies share,
  with the integer width and the last admissible octet index as parameters, and derives the round
  trip and the uniqueness of the accepted spelling once; each copy is an interpretation.
\<close>

datatype 'v leb_outcome = LDone 'v nat | LMore | LBad

lemma and_not_mask_eq_0: "(w AND NOT (mask k) :: 'a::len word) = 0 \<longleftrightarrow> unat w < 2 ^ k"
proof -
  have "w AND NOT (mask k) = 0 \<longleftrightarrow> w AND mask k = w"
    by (simp add: bit_eq_iff bit_simps) blast
  also have "\<dots> \<longleftrightarrow> unat w mod 2 ^ k = unat w"
    by (simp add: word_unat_eq_iff unat_and_mask)
  also have "\<dots> \<longleftrightarrow> unat w < 2 ^ k"
    by (metis mod_less mod_less_divisor zero_less_numeral zero_less_power)
  finally show ?thesis .
qed

lemma and_f0_eq_0 [word_nat]: "(b AND 0xf0 :: byte) = 0 \<longleftrightarrow> unat b < 16"
proof -
  have "(0xf0 :: byte) = NOT (mask 4)" by (simp add: mask_eq_exp_minus_1 word_unat_eq_iff)
  then show ?thesis by (simp only: and_not_mask_eq_0) simp
qed

lemma and_fe_eq_0 [word_nat]: "(b AND 0xfe :: byte) = 0 \<longleftrightarrow> unat b < 2"
proof -
  have "(0xfe :: byte) = NOT (mask 1)" by (simp add: mask_eq_exp_minus_1 word_unat_eq_iff)
  then show ?thesis by (simp only: and_not_mask_eq_0) simp
qed

lemma pow7: "(2::nat) ^ (7 * Suc i) = 128 * 2 ^ (7 * i)"
  by (simp add: power_add)

lemma unat_or_push_bit:
  fixes a x :: "'w::len word"
  assumes "unat a < 2 ^ k" and "unat x * 2 ^ k < 2 ^ LENGTH('w)"
  shows "unat (a OR push_bit k x) = unat a + unat x * 2 ^ k"
proof -
  have "unat (push_bit k x) = unat x * 2 ^ k"
    using assms(2) by (simp add: unat_push_bit mult.commute)
  then show ?thesis using unat_or_disjoint [OF assms(1), of "push_bit k x"] by simp
qed

locale leb128 =
  fixes enc :: "'w::len word \<Rightarrow> bytes"
    and step :: "bytes \<Rightarrow> nat \<Rightarrow> 'w word \<Rightarrow> 'w word leb_outcome"
    and last_index :: nat
  assumes enc_rec: "enc v =
      (if drop_bit 7 v \<noteq> 0 then (ucast (v AND 0x7f) OR 0x80) # enc (drop_bit 7 v)
       else [ucast (v AND 0x7f)])"
    and step_Nil: "i \<le> last_index \<Longrightarrow> step [] i a = LMore"
    and step_Cons: "i \<le> last_index \<Longrightarrow> step (b # bs) i a =
      (if i = last_index \<and> 2 ^ (LENGTH('w) - 7 * last_index) \<le> unat b then LBad
       else if b AND 0x80 = 0 then
         (if 0 < i \<and> b AND 0x7f = 0 then LBad
          else LDone (a OR push_bit (7 * i) (ucast (b AND 0x7f))) (i + 1))
       else step bs (i + 1) (a OR push_bit (7 * i) (ucast (b AND 0x7f))))"
    and width: "7 * last_index < LENGTH('w)" "LENGTH('w) \<le> 7 * last_index + 7" "8 \<le> LENGTH('w)"
begin

abbreviation low7 :: "byte \<Rightarrow> 'w word" where
  "low7 b \<equiv> ucast (b AND 0x7f)"

lemma unat_low7: "unat (low7 b) = unat b mod 128"
proof -
  have "(2::nat) ^ 8 \<le> 2 ^ LENGTH('w)" using width(3) by (rule power_increasing) simp
  moreover have "unat b mod 128 < 128" by simp
  ultimately show ?thesis by (simp add: word_nat)
qed

lemma unat_add_low7:
  assumes "unat a < 2 ^ (7 * i)" and "unat b mod 128 * 2 ^ (7 * i) < 2 ^ LENGTH('w)"
  shows "unat (a OR push_bit (7 * i) (low7 b)) = unat a + unat b mod 128 * 2 ^ (7 * i)"
  using unat_or_push_bit [OF assms(1), of "low7 b"] assms(2) by (simp only: unat_low7)

lemma low_lt:
  assumes "unat a < 2 ^ (7 * i)"
  shows "unat a + unat (b::byte) mod 128 * 2 ^ (7 * i) < 2 ^ (7 * Suc i)"
proof -
  have "unat b mod 128 * 2 ^ (7 * i) \<le> 127 * 2 ^ (7 * i)" by (rule mult_le_mono1) simp
  then show ?thesis using assms unfolding pow7 by linarith
qed

lemma more_room:
  assumes "128 \<le> unat (v :: 'w word)" "unat v * 2 ^ (7 * i) < 2 ^ LENGTH('w)"
  shows "i < last_index"
proof -
  have "128 * 2 ^ (7 * i) \<le> unat v * 2 ^ (7 * i)" using assms(1) by simp
  then have "(2::nat) ^ (7 * Suc i) < 2 ^ LENGTH('w)" using assms(2) unfolding pow7 by linarith
  then have "7 * Suc i < LENGTH('w)" by (rule power_less_imp_less_exp [rotated]) simp
  then show ?thesis using width(2) by simp
qed

lemma enc_small: "unat v < 128 \<Longrightarrow> enc v = [ucast v]"
proof -
  assume v: "unat v < 128"
  then have "drop_bit 7 v = 0" by (simp add: word_unat_eq_iff word_nat)
  moreover have "v AND 0x7f = v" using v by (simp add: word_unat_eq_iff word_nat)
  ultimately show ?thesis by (subst enc_rec) simp
qed

lemma enc_large:
  assumes "128 \<le> unat v"
  obtains b where "enc v = b # enc (drop_bit 7 v)" "unat b = unat v mod 128 + 128"
proof
  have "drop_bit 7 v \<noteq> 0"
  proof
    assume "drop_bit 7 v = 0"
    then have "unat v div 2 ^ 7 = 0" using unat_drop_bit [of 7 v] by simp
    with assms show False by simp
  qed
  then show "enc v = (ucast (v AND 0x7f) OR 0x80) # enc (drop_bit 7 v)" by (subst enc_rec) simp
  have "unat (ucast (v AND 0x7f) :: byte) = unat v mod 128" by (simp add: word_nat)
  then show "unat (ucast (v AND 0x7f) OR 0x80 :: byte) = unat v mod 128 + 128"
    using unat_or_80 [of "ucast (v AND 0x7f)"] by simp
qed

lemma merge_digit:
  fixes a x :: "'w word" and b :: byte
  assumes "unat a < 2 ^ (7 * i)" "unat x * 2 ^ (7 * i) < 2 ^ LENGTH('w)"
    "unat b mod 128 = unat x mod 128"
  shows "unat (a OR push_bit (7 * i) (low7 b)) < 2 ^ (7 * Suc i)"
    "unat (drop_bit 7 x) * 2 ^ (7 * Suc i) < 2 ^ LENGTH('w)"
    "(a OR push_bit (7 * i) (low7 b)) OR push_bit (7 * Suc i) (drop_bit 7 x) =
       a OR push_bit (7 * i) x"
proof -
  let ?a = "a OR push_bit (7 * i) (low7 b)" and ?x = "drop_bit 7 x"
  have "unat x mod 128 * 2 ^ (7 * i) \<le> unat x * 2 ^ (7 * i)" by (rule mult_le_mono1) simp
  then have "unat b mod 128 * 2 ^ (7 * i) < 2 ^ LENGTH('w)" unfolding assms(3) using assms(2) by (rule le_less_trans)
  then have ua: "unat ?a = unat a + unat b mod 128 * 2 ^ (7 * i)"
    by (rule unat_add_low7 [OF assms(1)])
  then show lt: "unat ?a < 2 ^ (7 * Suc i)" using low_lt [OF assms(1), of b] by simp
  have ux: "unat ?x = unat x div 128" by (simp add: word_nat)
  have "unat x mod 128 * 2 ^ (7 * i) + unat ?x * 2 ^ (7 * Suc i) =
      (unat x mod 128 + unat x div 128 * 128) * 2 ^ (7 * i)"
    unfolding ux pow7 by (simp only: add_mult_distrib mult.assoc)
  then have split: "unat x mod 128 * 2 ^ (7 * i) + unat ?x * 2 ^ (7 * Suc i) = unat x * 2 ^ (7 * i)"
    by simp
  then show fit: "unat ?x * 2 ^ (7 * Suc i) < 2 ^ LENGTH('w)" using assms(2) by linarith
  have "unat (?a OR push_bit (7 * Suc i) ?x) = unat a + unat x * 2 ^ (7 * i)"
    using unat_or_push_bit [OF lt fit] ua split assms(3) by simp
  then show "?a OR push_bit (7 * Suc i) ?x = a OR push_bit (7 * i) x"
    using unat_or_push_bit [OF assms(1,2)] by (simp add: word_unat_eq_iff)
qed

text \<open>The spelling of an encoding is unique: a continuation octet before the encoding of \<open>w\<close>.\<close>

lemma enc_Cons:
  fixes w :: "'w word" and b :: byte
  assumes "128 \<le> unat b" "w \<noteq> 0" "unat w * 2 ^ 7 < 2 ^ LENGTH('w)"
  defines "x \<equiv> low7 b OR push_bit 7 w"
  shows "drop_bit 7 x = w" "enc x = b # enc w" "unat x = unat b mod 128 + unat w * 128" "x \<noteq> 0"
proof -
  show ux: "unat x = unat b mod 128 + unat w * 128"
    using unat_or_push_bit [of "low7 b" 7 w] assms(3) by (simp add: x_def unat_low7)
  have "1 \<le> unat w" using assms(2) by (simp add: word_unat_eq_iff)
  then have x128: "128 \<le> unat x" using ux by linarith
  then show "x \<noteq> 0" by auto
  show d: "drop_bit 7 x = w" using ux by (simp add: word_unat_eq_iff word_nat)
  obtain c where c: "enc x = c # enc (drop_bit 7 x)" "unat c = unat x mod 128 + 128"
    using enc_large [OF x128] by blast
  have "unat x mod 128 = unat b mod 128" using ux by simp
  moreover have "unat b mod 128 + 128 = unat b"
    using assms(1) unat_byte_bound [of b] by (simp add: le_mod_geq mod_less)
  ultimately have "c = b" using c(2) by (simp add: word_unat_eq_iff)
  then show "enc x = b # enc w" using c(1) d by simp
qed

lemma step_enc:
  assumes "unat a < 2 ^ (7 * i)" "unat v * 2 ^ (7 * i) < 2 ^ LENGTH('w)"
    "v \<noteq> 0 \<or> i = 0" "i \<le> last_index"
  shows "step (enc v @ rest) i a = LDone (a OR push_bit (7 * i) v) (i + length (enc v))"
  using assms
proof (induction "unat v" arbitrary: v i a rule: less_induct)
  case less
  show ?case
  proof (cases "unat v < 128")
    case True
    have "unat v < 2 ^ (LENGTH('w) - 7 * last_index)" if "i = last_index"
    proof -
      have "unat v * 2 ^ (7 * i) < 2 ^ (LENGTH('w) - 7 * i) * 2 ^ (7 * i)"
        using less.prems(2) width(1) that by (simp flip: power_add)
      with that show ?thesis by simp
    qed
    moreover have u: "unat (ucast v :: byte) = unat v" using True by (simp add: word_nat)
    moreover have "(ucast v :: byte) AND 0x80 = 0" using True u by (simp add: and_80_eq_0)
    moreover have "low7 (ucast v) = v" using True u by (simp add: word_unat_eq_iff unat_low7)
    moreover have "ucast v AND (0x7f :: byte) = 0 \<longleftrightarrow> v = 0"
      using True u by (simp add: word_unat_eq_iff unat_and_7f)
    ultimately show ?thesis
      using less.prems True by (auto simp: enc_small step_Cons not_le)
  next
    case False
    then have v: "128 \<le> unat v" by simp
    then obtain b where b: "enc v = b # enc (drop_bit 7 v)" "unat b = unat v mod 128 + 128"
      by (rule enc_large)
    have i: "i < last_index" using v less.prems(2) by (rule more_room)
    note m = merge_digit [OF less.prems(1,2), of b]
    have "unat (drop_bit 7 v) < unat v" "drop_bit 7 v \<noteq> 0"
      using v by (auto simp: word_nat word_unat_eq_iff)
    then have "step (enc (drop_bit 7 v) @ rest) (Suc i) (a OR push_bit (7 * i) (low7 b)) =
        LDone (a OR push_bit (7 * i) v) (Suc i + length (enc (drop_bit 7 v)))"
      using less.hyps [of "drop_bit 7 v" "a OR push_bit (7 * i) (low7 b)" "Suc i"] m b(2) i
      by simp
    moreover have "b AND 0x80 \<noteq> 0" using b(2) by (simp add: and_80_eq_0)
    ultimately show ?thesis using i by (simp add: b(1) step_Cons)
  qed
qed

lemma step_digit_room:
  assumes "i \<le> last_index" "unat a < 2 ^ (7 * i)"
    "\<not> (i = last_index \<and> 2 ^ (LENGTH('w) - 7 * last_index) \<le> unat (b :: byte))"
  shows "unat b mod 128 * 2 ^ (7 * i) < 2 ^ LENGTH('w)"
proof (cases "i = last_index")
  case True
  then have "unat b mod 128 < 2 ^ (LENGTH('w) - 7 * i)"
    using assms(3) by (meson le_less_trans mod_less_eq_dividend not_le)
  then have "unat b mod 128 * 2 ^ (7 * i) < 2 ^ (LENGTH('w) - 7 * i) * 2 ^ (7 * i)" by simp
  then show ?thesis using width(1) True by (simp flip: power_add)
next
  case False
  have "unat b mod 128 * 2 ^ (7 * i) < 2 ^ (7 * Suc i)" using low_lt [OF assms(2), of b] by simp
  also have "\<dots> \<le> 2 ^ LENGTH('w)"
    using False assms(1) width(1) by (intro power_increasing) auto
  finally show ?thesis .
qed

lemma last_octet_ends:
  assumes "\<not> (i = last_index \<and> 2 ^ (LENGTH('w) - 7 * last_index) \<le> unat (b :: byte))"
    "128 \<le> unat b"
  shows "i \<noteq> last_index"
proof
  assume "i = last_index"
  then have "unat b < 2 ^ (LENGTH('w) - 7 * last_index)" using assms(1) by simp
  also have "\<dots> \<le> 2 ^ 7" using width(2) by (intro power_increasing) auto
  finally show False using assms(2) by simp
qed

lemma enc_step:
  assumes "step bs i a = LDone v n" "unat a < 2 ^ (7 * i)" "i \<le> last_index"
  shows "\<exists>w. v = a OR push_bit (7 * i) w \<and> unat w * 2 ^ (7 * i) < 2 ^ LENGTH('w) \<and>
    (w \<noteq> 0 \<or> i = 0) \<and> n = i + length (enc w) \<and> take (length (enc w)) bs = enc w"
  using assms
proof (induction bs arbitrary: i a)
  case Nil
  then show ?case by (simp add: step_Nil)
next
  case (Cons b bs)
  let ?a = "a OR push_bit (7 * i) (low7 b)"
  have nb: "\<not> (i = last_index \<and> 2 ^ (LENGTH('w) - 7 * last_index) \<le> unat b)"
    using Cons.prems by (auto simp: step_Cons)
  note room = step_digit_room [OF Cons.prems(3,2) nb]
  show ?case
  proof (cases "b AND 0x80 = 0")
    case True
    then have b: "unat b < 128" by (simp add: and_80_eq_0)
    then have l: "unat (low7 b) = unat b" by (simp add: unat_low7)
    have "(ucast (low7 b) :: byte) = b"
      using l unat_byte_bound [of b] by (simp add: word_unat_eq_iff unat_ucast)
    then have e: "enc (low7 b) = [b]" using b l by (simp add: enc_small)
    have "v = ?a" "n = i + 1" "\<not> (0 < i \<and> b AND 0x7f = 0)"
      using Cons.prems True nb by (auto simp: step_Cons split: if_splits)
    moreover have "b AND 0x7f = 0 \<longleftrightarrow> low7 b = 0"
      using l b by (simp add: word_unat_eq_iff unat_and_7f)
    ultimately show ?thesis using e l room b by (intro exI [of _ "low7 b"]) auto
  next
    case False
    then have b: "128 \<le> unat b" by (simp add: and_80_eq_0)
    note i = last_octet_ends [OF nb b]
    have st: "step bs (Suc i) ?a = LDone v n" using Cons.prems False i by (simp add: step_Cons)
    have ua: "unat ?a = unat a + unat b mod 128 * 2 ^ (7 * i)"
      by (rule unat_add_low7 [OF Cons.prems(2) room])
    have lt: "unat ?a < 2 ^ (7 * Suc i)" using low_lt [OF Cons.prems(2), of b] ua by simp
    obtain w where w: "v = ?a OR push_bit (7 * Suc i) w" "unat w * 2 ^ (7 * Suc i) < 2 ^ LENGTH('w)"
      "w \<noteq> 0" "n = Suc i + length (enc w)" "take (length (enc w)) bs = enc w"
      using Cons.IH [OF st lt] i Cons.prems(3) by auto
    have "unat w * 2 ^ 7 \<le> unat w * 2 ^ (7 * Suc i)" by (intro mult_le_mono2 power_increasing) auto
    then have "unat w * 2 ^ 7 < 2 ^ LENGTH('w)" using w(2) by linarith
    then obtain x where x: "drop_bit 7 x = w" "enc x = b # enc w"
      "unat x = unat b mod 128 + unat w * 128" "x \<noteq> 0"
      using enc_Cons [OF b w(3)] by blast
    have "unat x * 2 ^ (7 * i) = unat b mod 128 * 2 ^ (7 * i) + unat w * 2 ^ (7 * Suc i)"
      unfolding x(3) pow7 by (simp only: add_mult_distrib mult.assoc)
    then have fit: "unat x * 2 ^ (7 * i) < 2 ^ LENGTH('w)"
      using unat_or_push_bit [OF lt w(2), folded w(1)] ua unsigned_less [of v, where 'a = nat]
      by linarith
    have "unat b mod 128 = unat x mod 128" by (simp add: x(3))
    from merge_digit(3) [OF Cons.prems(2) fit this] have "v = a OR push_bit (7 * i) x"
      by (simp only: x(1) w(1))
    with fit show ?thesis using x(2,4) w(4,5) by (intro exI [of _ x]) simp
  qed
qed

lemma step_prefix:
  assumes "k < length (enc v)" "unat v * 2 ^ (7 * i) < 2 ^ LENGTH('w)" "i \<le> last_index"
  shows "step (take k (enc v)) i a = LMore"
  using assms
proof (induction "unat v" arbitrary: v i a k rule: less_induct)
  case less
  show ?case
  proof (cases k)
    case 0
    then show ?thesis using less.prems by (simp add: step_Nil)
  next
    case (Suc j)
    then have v: "128 \<le> unat v" using less.prems(1) by (metis enc_small length_Cons list.size(3) not_less_eq not_le less_one One_nat_def zero_less_Suc)
    then obtain b where b: "enc v = b # enc (drop_bit 7 v)" "unat b = unat v mod 128 + 128"
      using enc_large by blast
    have uv: "unat (drop_bit 7 v) = unat v div 128" by (simp add: word_nat)
    have i: "i < last_index" using v less.prems(2) by (rule more_room)
    have "unat (drop_bit 7 v) * 2 ^ (7 * Suc i) = unat v div 128 * 128 * 2 ^ (7 * i)" by (simp only: uv pow7 mult.assoc)
    also have "\<dots> \<le> unat v * 2 ^ (7 * i)" by (rule mult_le_mono1) simp
    finally have fit: "unat (drop_bit 7 v) * 2 ^ (7 * Suc i) < 2 ^ LENGTH('w)" using less.prems(2) by linarith
    have "b AND 0x80 \<noteq> 0" using b(2) by (simp add: and_80_eq_0)
    then show ?thesis
      using less.hyps [of "drop_bit 7 v" j "Suc i"] uv v i fit less.prems(1)
      by (simp add: Suc b(1) step_Cons)
  qed
qed

lemma step_length: "step bs i a = LDone v n \<Longrightarrow> i \<le> last_index \<Longrightarrow> n \<le> last_index + 1"
proof (induction bs arbitrary: i a)
  case (Cons b bs)
  have nb: "\<not> (i = last_index \<and> 2 ^ (LENGTH('w) - 7 * last_index) \<le> unat b)"
    using Cons.prems by (auto simp: step_Cons)
  show ?case
  proof (cases "b AND 0x80 = 0")
    case True
    then show ?thesis using Cons.prems nb by (auto simp: step_Cons split: if_splits)
  next
    case False
    then have "i \<noteq> last_index" using last_octet_ends [OF nb] by (simp add: and_80_eq_0)
    then show ?thesis using Cons False by (auto simp: step_Cons)
  qed
qed (simp add: step_Nil)

lemma length_enc_pos: "0 < length (enc v)"
  by (subst enc_rec) simp

text \<open>The statements the decoders use: a whole integer read from the start of an input.\<close>

lemma decode_encode: "step (enc v @ rest) 0 0 = LDone v (length (enc v))"
  using step_enc [of 0 0 v rest] unsigned_less [of v] by simp

lemma decode_canonical: "step bs 0 0 = LDone v n \<Longrightarrow> n = length (enc v) \<and> take n bs = enc v"
  using enc_step [of bs 0 0 v n] by auto

lemma decode_truncated: "k < length (enc v) \<Longrightarrow> step (take k (enc v)) 0 0 = LMore"
  using step_prefix [of k v 0] unsigned_less [of v] by simp

lemma length_enc_le: "length (enc v) \<le> last_index + 1"
  using step_length [OF decode_encode [of v "[]"]] by simp

end

end
