(* ===== verification/Heyaki_Wire.thy ===== *)
theory Heyaki_Wire
  imports Heyaki_Core Heyaki_Ids Heyaki_Varint
begin

text \<open>
  The frame codec of \<open>wire.hpp\<close> and \<open>wire.cpp\<close>: canonical 32-bit varints, the frame-type and
  channel rules, the per-type payload limits, \<open>encode_frame\<close> and \<open>parse_frame\<close>.
\<close>

section \<open>Varints\<close>

datatype VarintResult = VParsed u32 nat | VNeedMore | VInvalid string

text \<open>
  The body of the decoding loop over the at most five available octets; \<^const>\<open>None\<close> when the
  loop runs off the end without returning.
\<close>

fun decode_varint_loop :: "bytes \<Rightarrow> nat \<Rightarrow> u32 \<Rightarrow> u32 \<Rightarrow> VarintResult option" where
  "decode_varint_loop [] index v maximum = None"
| "decode_varint_loop (b # bs) index v maximum =
     (if index = 4 \<and> b AND 0xf0 \<noteq> 0 then Some (VInvalid ''varint_overflow'')
      else
        let v' = v OR push_bit (7 * index) (ucast (b AND 0x7f))
        in if b AND 0x80 = 0 then
             (if index > 0 \<and> b AND 0x7f = 0 then Some (VInvalid ''non_canonical_varint'')
              else if v' > maximum then Some (VInvalid ''varint_limit'')
              else Some (VParsed v' (index + 1)))
           else decode_varint_loop bs (index + 1) v' maximum)"

definition max_varint_bytes :: nat where
  "max_varint_bytes = 5"

definition decode_varint :: "bytes \<Rightarrow> u32 \<Rightarrow> VarintResult" where
  "decode_varint input maximum =
     (case decode_varint_loop (take max_varint_bytes input) 0 0 maximum of
        Some r \<Rightarrow> r
      | None \<Rightarrow> if length input \<ge> max_varint_bytes then VInvalid ''varint_overflow'' else VNeedMore)"

function append_varint :: "u32 \<Rightarrow> bytes" where
  "append_varint v =
     (let b = ucast (v AND 0x7f) :: byte; v' = drop_bit 7 v
      in if v' \<noteq> 0 then (b OR 0x80) # append_varint v' else [b])"
  by auto
termination
proof (relation "measure unat", goal_cases)
  case (2 v b v')
  then have "unat v div 128 \<noteq> 0" by (simp add: word_unat_eq_iff unat_drop_bit)
  then show ?case using 2 by (simp add: unat_drop_bit)
qed simp

declare append_varint.simps [simp del]

function varint_size :: "u32 \<Rightarrow> nat" where
  "varint_size v = (if v \<ge> 0x80 then Suc (varint_size (drop_bit 7 v)) else 1)"
  by auto
termination
  by (relation "measure unat") (auto simp: unat_drop_bit word_le_nat_alt)

declare varint_size.simps [simp del]

section \<open>Frames\<close>

abbreviation (input) "ft_session_hello \<equiv> (0x01 :: byte)"
abbreviation (input) "ft_protocol_close \<equiv> (0x02 :: byte)"
abbreviation (input) "ft_ping \<equiv> (0x03 :: byte)"
abbreviation (input) "ft_pong \<equiv> (0x04 :: byte)"
abbreviation (input) "ft_cancel \<equiv> (0x05 :: byte)"
abbreviation (input) "ft_session_restart_offer \<equiv> (0x06 :: byte)"
abbreviation (input) "ft_session_restart_answer \<equiv> (0x07 :: byte)"
abbreviation (input) "ft_session_restart_candidate \<equiv> (0x08 :: byte)"
abbreviation (input) "ft_pairing_request \<equiv> (0x10 :: byte)"
abbreviation (input) "ft_pairing_result \<equiv> (0x11 :: byte)"
abbreviation (input) "ft_pairing_approval_request \<equiv> (0x12 :: byte)"
abbreviation (input) "ft_message \<equiv> (0x20 :: byte)"
abbreviation (input) "ft_message_ack \<equiv> (0x21 :: byte)"
abbreviation (input) "ft_rpc_request \<equiv> (0x30 :: byte)"
abbreviation (input) "ft_rpc_response \<equiv> (0x31 :: byte)"
abbreviation (input) "ft_rpc_cancel \<equiv> (0x32 :: byte)"
abbreviation (input) "ft_event_subscribe \<equiv> (0x40 :: byte)"
abbreviation (input) "ft_event_item \<equiv> (0x41 :: byte)"
abbreviation (input) "ft_event_unsubscribe \<equiv> (0x42 :: byte)"
abbreviation (input) "ft_stream_open \<equiv> (0x50 :: byte)"
abbreviation (input) "ft_stream_data \<equiv> (0x51 :: byte)"
abbreviation (input) "ft_stream_window_update \<equiv> (0x52 :: byte)"
abbreviation (input) "ft_stream_fin \<equiv> (0x53 :: byte)"
abbreviation (input) "ft_stream_reset \<equiv> (0x54 :: byte)"
abbreviation (input) "ft_file_manifest \<equiv> (0x60 :: byte)"
abbreviation (input) "ft_file_accept \<equiv> (0x61 :: byte)"
abbreviation (input) "ft_file_chunk \<equiv> (0x62 :: byte)"
abbreviation (input) "ft_file_complete \<equiv> (0x63 :: byte)"
abbreviation (input) "ft_file_reject \<equiv> (0x64 :: byte)"
abbreviation (input) "ft_shell_open \<equiv> (0x70 :: byte)"
abbreviation (input) "ft_shell_input \<equiv> (0x71 :: byte)"
abbreviation (input) "ft_shell_output \<equiv> (0x72 :: byte)"
abbreviation (input) "ft_shell_resize \<equiv> (0x73 :: byte)"
abbreviation (input) "ft_shell_signal \<equiv> (0x74 :: byte)"
abbreviation (input) "ft_shell_exit \<equiv> (0x75 :: byte)"
abbreviation (input) "ft_shell_eof \<equiv> (0x76 :: byte)"
abbreviation (input) "ft_shell_error \<equiv> (0x77 :: byte)"
abbreviation (input) "ft_shell_close \<equiv> (0x78 :: byte)"

text \<open>The enumerators of \<open>FrameType\<close>, in the order of the declaration.\<close>

definition FrameType_values :: "byte list" where
  "FrameType_values =
     [ft_session_hello, ft_protocol_close, ft_ping, ft_pong, ft_cancel,
      ft_session_restart_offer, ft_session_restart_answer, ft_session_restart_candidate,
      ft_pairing_request, ft_pairing_result, ft_pairing_approval_request,
      ft_message, ft_message_ack, ft_rpc_request, ft_rpc_response, ft_rpc_cancel,
      ft_event_subscribe, ft_event_item, ft_event_unsubscribe,
      ft_stream_open, ft_stream_data, ft_stream_window_update, ft_stream_fin, ft_stream_reset,
      ft_file_manifest, ft_file_accept, ft_file_chunk, ft_file_complete, ft_file_reject,
      ft_shell_open, ft_shell_input, ft_shell_output, ft_shell_resize, ft_shell_signal,
      ft_shell_exit, ft_shell_eof, ft_shell_error, ft_shell_close]"

definition is_known_frame_type :: "byte \<Rightarrow> bool" where
  "is_known_frame_type type \<longleftrightarrow> List.member FrameType_values type"

definition frame_flag_required :: byte where
  "frame_flag_required = 0x01"

definition frame_known_flags :: byte where
  "frame_known_flags = frame_flag_required"

record Frame =
  fr_type :: byte
  fr_flags :: byte
  fr_channel_id :: u32
  fr_message_id :: id_bytes
  fr_payload :: bytes

datatype UnknownFrameAction = UFA_process | UFA_skip | UFA_close_channel

text \<open>
  \<open>FrameView\<close> has the fields of \<open>Frame\<close> with the payload as a span of the input; a parsed result
  carries the number of consumed octets.
\<close>

datatype FrameParseResult = FParsed nat Frame | FNeedMore | FInvalid Error

definition wire_error :: "string \<Rightarrow> Error" where
  "wire_error detail = err EC_protocol ''wire'' detail"

definition invalid_frame :: "string \<Rightarrow> FrameParseResult" where
  "invalid_frame detail = FInvalid (wire_error detail)"

definition is_control_type :: "byte \<Rightarrow> bool" where
  "is_control_type type \<longleftrightarrow> type < 0x20"

definition requires_control_channel :: "byte \<Rightarrow> bool" where
  "requires_control_channel type \<longleftrightarrow>
     (type \<ge> ft_session_hello \<and> type \<le> ft_pong) \<or> type = ft_pairing_request \<or>
     type = ft_pairing_result \<or> type = ft_pairing_approval_request"

definition requires_business_channel :: "byte \<Rightarrow> bool" where
  "requires_business_channel type \<longleftrightarrow> type \<ge> ft_message \<and> is_known_frame_type type"

definition channel_error :: "byte \<Rightarrow> u32 \<Rightarrow> string option" where
  "channel_error type channel_id =
     (if requires_control_channel type \<and> channel_id \<noteq> 0 then Some ''control_channel_required''
      else if requires_business_channel type \<and> channel_id = 0 then
        Some ''business_channel_required''
      else None)"

definition payload_limit_error :: "byte \<Rightarrow> nat \<Rightarrow> Limits \<Rightarrow> string option" where
  "payload_limit_error type payload_size limits =
    (let file_chunk_header_bytes = 60; shell_data_header_bytes = 28;
         shell_control = (type = ft_shell_open \<or> type = ft_shell_resize \<or>
           type = ft_shell_signal \<or> type = ft_shell_exit \<or> type = ft_shell_eof \<or>
           type = ft_shell_error \<or> type = ft_shell_close)
     in if (type = ft_message \<or> type = ft_message_ack) \<and> payload_size > max_message_bytes limits
        then Some ''message_payload_limit''
        else if type \<ge> ft_rpc_request \<and> type \<le> ft_rpc_cancel \<and>
                payload_size > max_rpc_payload_bytes limits
        then Some ''rpc_payload_limit''
        else if type \<ge> ft_event_subscribe \<and> type \<le> ft_event_unsubscribe \<and>
                payload_size > max_event_payload_bytes limits
        then Some ''event_payload_limit''
        else if ((type \<ge> ft_pairing_request \<and> type \<le> ft_pairing_result) \<or>
                 type = ft_pairing_approval_request) \<and>
                payload_size > max_pairing_payload_bytes limits
        then Some ''pairing_payload_limit''
        else if type = ft_file_chunk \<and> payload_size > file_chunk_header_bytes \<and>
                payload_size - file_chunk_header_bytes > max_file_chunk_bytes limits
        then Some ''file_chunk_limit''
        else if (type = ft_shell_input \<or> type = ft_shell_output) \<and>
                payload_size > shell_data_header_bytes \<and>
                payload_size - shell_data_header_bytes > max_shell_data_bytes limits
        then Some ''shell_data_limit''
        else if shell_control \<and> payload_size > max_shell_control_bytes limits
        then Some ''shell_control_limit''
        else None)"

definition unknown_frame_action :: "Frame \<Rightarrow> UnknownFrameAction" where
  "unknown_frame_action frame =
     (if is_known_frame_type (fr_type frame) then UFA_process
      else if fr_flags frame AND frame_flag_required = 0 then UFA_skip else UFA_close_channel)"

definition fixed_body_size :: nat where
  "fixed_body_size = 1 + 1 + 16"

definition encode_frame :: "Frame \<Rightarrow> Limits \<Rightarrow> bytes result" where
  "encode_frame frame limits =
    (case validate_limits limits of Inl e \<Rightarrow> Inl e | Inr _ \<Rightarrow>
     if fr_flags frame AND NOT frame_known_flags \<noteq> 0 then Inl (wire_error ''reserved_frame_flags'')
     else if id_is_zero (fr_message_id frame) then Inl (wire_error ''zero_message_id'')
     else case channel_error (fr_type frame) (fr_channel_id frame) of
       Some detail \<Rightarrow> Inl (wire_error detail)
     | None \<Rightarrow>
       let channel_size = varint_size (fr_channel_id frame);
           payload_size = length (fr_payload frame)
       in if payload_size > max_frame_bytes limits \<or>
             fixed_body_size + channel_size > max_frame_bytes limits - payload_size then
            Inl (wire_error ''frame_length_limit'')
          else case payload_limit_error (fr_type frame) payload_size limits of
            Some detail \<Rightarrow> Inl (wire_error detail)
          | None \<Rightarrow>
            let body_size = fixed_body_size + channel_size + payload_size
            in if body_size > 4294967295 then Inl (wire_error ''frame_length_overflow'')
               else if is_control_type (fr_type frame) \<and>
                       body_size > max_control_frame_bytes limits then
                 Inl (wire_error ''control_frame_limit'')
               else Inr (append_varint (of_nat body_size) @ [fr_type frame, fr_flags frame] @
                         append_varint (fr_channel_id frame) @ fr_message_id frame @
                         fr_payload frame))"

definition minimum_body_size :: nat where
  "minimum_body_size = 1 + 1 + 1 + 16"

text \<open>The part of \<open>parse_frame\<close> after the whole body is available.\<close>

definition parse_body :: "bytes \<Rightarrow> nat \<Rightarrow> Limits \<Rightarrow> FrameParseResult" where
  "parse_body body total_size limits =
    (let type = body ! 0; flags = body ! 1
     in if flags AND NOT frame_known_flags \<noteq> 0 then invalid_frame ''reserved_frame_flags''
        else case decode_varint (drop 2 body) (- 1) of
          VInvalid detail \<Rightarrow> invalid_frame detail
        | VNeedMore \<Rightarrow> invalid_frame ''channel_varint_truncated''
        | VParsed channel channel_bytes \<Rightarrow>
          let message_offset = 2 + channel_bytes
          in if message_offset + 16 > length body then invalid_frame ''frame_header_truncated''
             else
               let message_bytes = take 16 (drop message_offset body)
               in if id_is_zero message_bytes then invalid_frame ''zero_message_id''
                  else case channel_error type channel of
                    Some detail \<Rightarrow> invalid_frame detail
                  | None \<Rightarrow>
                    let payload = drop (message_offset + 16) body
                    in case payload_limit_error type (length payload) limits of
                         Some detail \<Rightarrow> invalid_frame detail
                       | None \<Rightarrow>
                         FParsed total_size
                           \<lparr>fr_type = type, fr_flags = flags, fr_channel_id = channel,
                            fr_message_id = message_bytes, fr_payload = payload\<rparr>)"

definition parse_frame :: "bytes \<Rightarrow> Limits \<Rightarrow> FrameParseResult" where
  "parse_frame input limits =
    (case validate_limits limits of Inl e \<Rightarrow> FInvalid e | Inr _ \<Rightarrow>
     case decode_varint input (of_nat (min (max_frame_bytes limits) 4294967295)) of
       VNeedMore \<Rightarrow> FNeedMore
     | VInvalid detail \<Rightarrow> invalid_frame detail
     | VParsed len len_bytes \<Rightarrow>
       if unat len < minimum_body_size then invalid_frame ''frame_header_truncated''
       else if length input > len_bytes \<and> is_control_type (input ! len_bytes) \<and>
               unat len > max_control_frame_bytes limits then
         invalid_frame ''control_frame_limit''
       else
         let total_size = len_bytes + unat len
         in if length input < total_size then FNeedMore
            else parse_body (take (unat len) (drop len_bytes input)) total_size limits)"

fun parsed_whole :: "bytes \<Rightarrow> FrameParseResult \<Rightarrow> Frame option" where
  "parsed_whole bs (FParsed n f) = (if n = length bs then Some f else None)"
| "parsed_whole bs _ = None"

text \<open>The decoder loop as an instance of the shared varint contract.\<close>

fun varint_outcome :: "VarintResult option \<Rightarrow> u32 leb_outcome" where
  "varint_outcome (Some (VParsed v n)) = LDone v n"
| "varint_outcome (Some VNeedMore) = LBad"
| "varint_outcome (Some (VInvalid d)) = LBad"
| "varint_outcome None = LMore"

text \<open>The conditions under which a frame has an encoding.\<close>

definition body_of :: "Frame \<Rightarrow> bytes" where
  "body_of f = [fr_type f, fr_flags f] @ append_varint (fr_channel_id f) @ fr_message_id f @ fr_payload f"

definition encodable :: "Frame \<Rightarrow> Limits \<Rightarrow> bool" where
  "encodable f l \<longleftrightarrow> validate_limits l = Inr () \<and> fr_flags f AND NOT frame_known_flags = 0 \<and>
     \<not> id_is_zero (fr_message_id f) \<and> channel_error (fr_type f) (fr_channel_id f) = None \<and>
     payload_limit_error (fr_type f) (length (fr_payload f)) l = None \<and>
     length (body_of f) \<le> max_frame_bytes l \<and>
     (is_control_type (fr_type f) \<longrightarrow> length (body_of f) \<le> max_control_frame_bytes l)"

section \<open>Varints are canonical\<close>

lemma decode_varint_loop_width:
  "b AND 0xf0 \<noteq> 0 \<longleftrightarrow> 2 ^ (LENGTH(32) - 7 * 4) \<le> unat (b :: byte)"
  by (simp add: word_nat not_less)

interpretation wire_varint: leb128 append_varint
  "\<lambda>bs i a. varint_outcome (decode_varint_loop bs i a (- 1))" 4
proof (unfold_locales, goal_cases)
  case (1 v)
  then show ?case by (subst append_varint.simps) (simp add: Let_def)
next
  case (3 i b bs a)
  then show ?case by (simp add: Let_def decode_varint_loop_width del: power_Suc)
qed simp_all

lemma decode_varint_loop_limit:
  "decode_varint_loop bs i v m =
     (case decode_varint_loop bs i v (- 1) of
        Some (VParsed w n) \<Rightarrow> if w > m then Some (VInvalid ''varint_limit'') else Some (VParsed w n)
      | r \<Rightarrow> r)"
  by (induction bs arbitrary: i v) (auto simp: Let_def)

lemma decode_varint_loop_take:
  "i < 5 \<Longrightarrow> decode_varint_loop (take (5 - i) bs) i v m = decode_varint_loop bs i v m"
proof (induction bs arbitrary: i v)
  case (Cons b bs)
  obtain k where k: "5 - i = Suc k" "k = 5 - Suc i" using Cons.prems by (cases "5 - i") auto
  have "b AND 0x80 = 0" if "b AND 0xf0 = 0" using that by (simp add: word_nat)
  then show ?case using Cons.IH [of "Suc i"] Cons.prems k by (cases "i = 4") (auto simp: Let_def)
qed simp

lemma decode_varint_eq:
  "decode_varint input m = (case decode_varint_loop input 0 0 m of
     Some r \<Rightarrow> r
   | None \<Rightarrow> if length input \<ge> 5 then VInvalid ''varint_overflow'' else VNeedMore)"
  using decode_varint_loop_take [of 0 input 0 m]
  by (simp add: decode_varint_def max_varint_bytes_def)

lemma decode_varint_loop_never_more: "decode_varint_loop bs i v m \<noteq> Some VNeedMore"
  by (induction bs arbitrary: i v) (auto simp: Let_def)

lemma decode_append_varint:
  "decode_varint (append_varint v @ rest) m =
     (if v \<le> m then VParsed v (length (append_varint v)) else VInvalid ''varint_limit'')"
proof -
  have "decode_varint_loop (append_varint v @ rest) 0 0 (- 1) = Some (VParsed v (length (append_varint v)))"
    using wire_varint.decode_encode [of v rest]
    by (cases "(append_varint v @ rest, 0 :: nat, 0 :: u32, - 1 :: u32)" rule: decode_varint_loop.cases)
       (auto elim: varint_outcome.elims)
  then show ?thesis by (simp add: decode_varint_eq decode_varint_loop_limit [of _ _ _ m] not_le)
qed

lemma decode_varint_canonical:
  assumes "decode_varint input m = VParsed v n"
  shows "v \<le> m \<and> n = length (append_varint v) \<and> take n input = append_varint v \<and> n \<le> length input"
proof -
  have *: "decode_varint_loop input 0 0 (- 1) = Some (VParsed v n)" "v \<le> m"
    using assms
    by (auto simp: decode_varint_eq decode_varint_loop_limit [of _ _ _ m]
        decode_varint_loop_never_more split: option.splits VarintResult.splits if_splits)
  then have c: "n = length (append_varint v)" "take n input = append_varint v"
    using wire_varint.decode_canonical [of input v n] by auto
  then have "n \<le> length input" by (metis length_take min.absorb_iff2 min.commute)
  with * c show ?thesis by simp
qed

lemma varint_outcome_LMore [simp]: "varint_outcome r = LMore \<longleftrightarrow> r = None"
  by (cases r rule: varint_outcome.cases) auto

lemma decode_varint_prefix:
  assumes "k < length (append_varint v)"
  shows "decode_varint (take k (append_varint v)) m = VNeedMore"
proof -
  have "decode_varint_loop (take k (append_varint v)) 0 0 (- 1) = None"
    using wire_varint.decode_truncated [OF assms] by simp
  moreover have "k < 5" using assms wire_varint.length_enc_le [of v] by simp
  ultimately show ?thesis by (simp add: decode_varint_eq decode_varint_loop_limit [of _ _ _ m])
qed

lemma varint_size_length: "varint_size v = length (append_varint v)"
proof (induction v rule: varint_size.induct)
  case (1 v)
  have d: "drop_bit 7 v \<noteq> 0 \<longleftrightarrow> v \<ge> 0x80"
    by (auto simp: word_unat_eq_iff unat_drop_bit word_le_nat_alt)
  show ?case
    using 1 by (subst varint_size.simps, subst append_varint.simps) (simp add: Let_def d)
qed

lemma varint_size_bounds: "1 \<le> varint_size v" "varint_size v \<le> 5"
  using wire_varint.length_enc_le [of v] wire_varint.length_enc_pos [of v]
  by (simp_all add: varint_size_length Suc_le_eq)


section \<open>Frames\<close>

lemma valid_max_frame: "validate_limits l = Inr () \<Longrightarrow> max_frame_bytes l \<le> 67108864"
  unfolding validate_limits_def Let_def limit_step outside_def by simp

lemma length_body_of:
  "length (fr_message_id f) = 16 \<Longrightarrow>
     length (body_of f) = fixed_body_size + varint_size (fr_channel_id f) + length (fr_payload f)"
  by (simp add: body_of_def fixed_body_size_def varint_size_length)

lemma encode_frame_iff:
  assumes "length (fr_message_id f) = 16"
  shows "encode_frame f l = Inr bs \<longleftrightarrow>
    encodable f l \<and> bs = append_varint (of_nat (length (body_of f))) @ body_of f"
proof (cases "validate_limits l = Inr ()")
  case True
  note m = valid_max_frame [OF this]
  have "payload > max_frame_bytes l \<or> a > max_frame_bytes l - payload \<longleftrightarrow> a + payload > max_frame_bytes l"
    if "0 < a" for a payload
    using that by arith
  then show ?thesis
    using True m assms unfolding encode_frame_def encodable_def length_body_of [OF assms]
    by (auto simp: Let_def fixed_body_size_def body_of_def split: option.splits)
next
  case False
  then obtain e where "validate_limits l = Inl e" by (cases "validate_limits l") auto
  then show ?thesis by (simp add: encode_frame_def encodable_def)
qed

lemma parse_body_of:
  assumes "encodable f l" "length (fr_message_id f) = 16"
  shows "parse_body (body_of f) n l = FParsed n f"
proof -
  have d: "drop 2 (body_of f) = append_varint (fr_channel_id f) @ fr_message_id f @ fr_payload f"
    by (simp add: body_of_def)
  have "decode_varint (drop 2 (body_of f)) (- 1) = VParsed (fr_channel_id f) (length (append_varint (fr_channel_id f)))"
    unfolding d decode_append_varint by simp
  moreover have "drop (18 + length (append_varint (fr_channel_id f))) (body_of f) = fr_payload f"
  proof -
    have "drop (18 + length (append_varint (fr_channel_id f))) (body_of f) =
        drop (16 + length (append_varint (fr_channel_id f))) (drop 2 (body_of f))"
      by simp
    also have "\<dots> = fr_payload f" unfolding d using assms(2) by simp
    finally show ?thesis .
  qed
  moreover have "take 16 (drop (2 + length (append_varint (fr_channel_id f))) (body_of f)) = fr_message_id f"
    using assms(2) by (simp add: body_of_def)
  moreover have "body_of f ! 0 = fr_type f" "body_of f ! Suc 0 = fr_flags f"
    "length (body_of f) = 18 + length (append_varint (fr_channel_id f)) + length (fr_payload f)"
    using assms(2) by (simp_all add: body_of_def)
  ultimately show ?thesis
    using assms(1) by (simp add: parse_body_def Let_def encodable_def add.commute)
qed

lemma parse_body_sound:
  assumes "parse_body b n l = FParsed m f" "19 \<le> length b" "validate_limits l = Inr ()"
    "length b \<le> max_frame_bytes l" "is_control_type (b ! 0) \<longrightarrow> length b \<le> max_control_frame_bytes l"
  shows "m = n \<and> body_of f = b \<and> length (fr_message_id f) = 16 \<and> encodable f l"
proof -
  obtain ch k where d: "decode_varint (drop 2 b) (- 1) = VParsed ch k"
    and len: "2 + k + 16 \<le> length b"
    and f: "f = \<lparr>fr_type = b ! 0, fr_flags = b ! 1, fr_channel_id = ch,
      fr_message_id = take 16 (drop (2 + k) b), fr_payload = drop (2 + k + 16) b\<rparr>"
    and ok: "m = n" "b ! 1 AND NOT frame_known_flags = 0" "\<not> id_is_zero (take 16 (drop (2 + k) b))"
      "channel_error (b ! 0) ch = None" "payload_limit_error (b ! 0) (length (drop (2 + k + 16) b)) l = None"
    using assms(1) by (auto simp: parse_body_def invalid_frame_def Let_def
        split: if_splits VarintResult.splits option.splits)
  have k: "take k (drop 2 b) = append_varint ch" using decode_varint_canonical [OF d] by blast
  obtain t u r where b: "b = t # u # r" using assms(2)
    by (metis Suc_le_length_iff numeral_eq_Suc Suc_le_eq eval_nat_numeral(3))
  have "body_of f = t # u # take k r @ take 16 (drop k r) @ drop (k + 16) r"
    using k by (simp add: f body_of_def b drop_Cons' add.commute)
  also have "drop (k + 16) r = drop 16 (drop k r)" by (simp add: add.commute)
  also have "t # u # take k r @ take 16 (drop k r) @ drop 16 (drop k r) = b"
    unfolding append_take_drop_id by (simp add: b)
  finally have bo: "body_of f = b" .
  have "length (fr_message_id f) = 16" using len by (simp add: f)
  then show ?thesis using bo ok assms(3-5) by (simp add: encodable_def f)
qed

lemma minimum_body: "length (fr_message_id f) = 16 \<Longrightarrow> minimum_body_size \<le> length (body_of f)"
  using varint_size_bounds(1) [of "fr_channel_id f"]
  by (simp add: length_body_of fixed_body_size_def minimum_body_size_def)

lemma body_nth_0: "body_of f ! 0 = fr_type f"
  by (simp add: body_of_def)

lemma frame_length_word:
  assumes "encodable f l"
  shows "unat (of_nat (length (body_of f)) :: u32) = length (body_of f)"
    "(of_nat (length (body_of f)) :: u32) \<le> of_nat (min (max_frame_bytes l) 4294967295)"
proof -
  have *: "length (body_of f) \<le> max_frame_bytes l" "max_frame_bytes l \<le> 67108864"
    using assms valid_max_frame by (auto simp: encodable_def)
  then show "unat (of_nat (length (body_of f)) :: u32) = length (body_of f)"
    by (simp add: unat_of_nat)
  moreover have "unat (of_nat (min (max_frame_bytes l) 4294967295) :: u32) = max_frame_bytes l"
    using * by (simp add: unat_of_nat)
  ultimately show "(of_nat (length (body_of f)) :: u32) \<le> of_nat (min (max_frame_bytes l) 4294967295)"
    using * by (simp add: word_le_nat_alt)
qed

lemma parse_encoded:
  assumes "encodable f l" "length (fr_message_id f) = 16"
  defines "p \<equiv> append_varint (of_nat (length (body_of f)))"
  shows "parse_frame (p @ body_of f @ rest) l = FParsed (length (p @ body_of f)) f"
proof -
  note w = frame_length_word [OF assms(1)]
  have "decode_varint (p @ body_of f @ rest) (of_nat (min (max_frame_bytes l) 4294967295)) =
      VParsed (of_nat (length (body_of f))) (length p)"
    unfolding p_def decode_append_varint using w(2) by simp
  moreover have "\<not> (is_control_type (fr_type f) \<and> length (body_of f) > max_control_frame_bytes l)"
    using assms(1) by (auto simp: encodable_def)
  moreover have "0 < length (body_of f)" by (simp add: body_of_def)
  ultimately show ?thesis
    using w(1) assms(1) minimum_body [OF assms(2)] parse_body_of [OF assms(1,2)]
    by (auto simp: parse_frame_def encodable_def not_less nth_append body_nth_0 [simplified])
qed

lemma parse_frame_sound:
  assumes "parse_frame input l = FParsed n f"
  shows "n \<le> length input \<and> length (fr_message_id f) = 16 \<and> encode_frame f l = Inr (take n input)"
proof -
  obtain len k where v: "validate_limits l = Inr ()"
    and d: "decode_varint input (of_nat (min (max_frame_bytes l) 4294967295)) = VParsed len k"
    and c: "minimum_body_size \<le> unat len"
      "length input > k \<and> is_control_type (input ! k) \<longrightarrow> unat len \<le> max_control_frame_bytes l"
      "k + unat len \<le> length input"
      "parse_body (take (unat len) (drop k input)) (k + unat len) l = FParsed n f"
    using assms by (auto simp: parse_frame_def invalid_frame_def Let_def not_less
        split: sum.splits VarintResult.splits if_splits)
  let ?b = "take (unat len) (drop k input)"
  have lb: "length ?b = unat len" using c(3) by simp
  have "len \<le> of_nat (min (max_frame_bytes l) 4294967295)" using decode_varint_canonical [OF d] by simp
  then have "unat len \<le> unat (of_nat (min (max_frame_bytes l) 4294967295) :: u32)" by (simp add: word_le_nat_alt)
  then have m: "unat len \<le> max_frame_bytes l" using valid_max_frame [OF v] by (simp add: unat_of_nat)
  have "?b ! 0 = input ! k" "k < length input" using c(1,3) by (auto simp: minimum_body_size_def)
  then have s: "n = k + unat len" "body_of f = ?b" "length (fr_message_id f) = 16" "encodable f l"
    using parse_body_sound [OF c(4) _ v] c(1,2) m lb by (auto simp: minimum_body_size_def)
  have "k = length (append_varint len)" "take k input = append_varint len"
    using decode_varint_canonical [OF d] by auto
  then have "take n input = append_varint (of_nat (length (body_of f))) @ body_of f"
    using s lb by (simp add: take_add)
  then show ?thesis using s c(3) by (simp add: encode_frame_iff)
qed

lemma parse_frame_iff:
  "parse_frame input l = FParsed n f \<longleftrightarrow>
     n \<le> length input \<and> length (fr_message_id f) = 16 \<and> encode_frame f l = Inr (take n input)"
proof
  assume r: "n \<le> length input \<and> length (fr_message_id f) = 16 \<and> encode_frame f l = Inr (take n input)"
  then have e: "encodable f l" "take n input = append_varint (of_nat (length (body_of f))) @ body_of f"
    by (auto simp: encode_frame_iff)
  then have "input = append_varint (of_nat (length (body_of f))) @ body_of f @ drop n input"
    by (metis append_take_drop_id append_assoc)
  moreover have "length (append_varint (of_nat (length (body_of f))) @ body_of f) = n"
    using r e(2) by (metis length_take min.absorb2)
  ultimately show "parse_frame input l = FParsed n f"
    using parse_encoded [OF e(1), of "drop n input"] r by metis
qed (rule parse_frame_sound)

lemma parse_frame_prefix:
  assumes "encode_frame f l = Inr bs" "length (fr_message_id f) = 16" "k < length bs"
  shows "parse_frame (take k bs) l = FNeedMore"
proof -
  let ?p = "append_varint (of_nat (length (body_of f))) :: bytes"
  have e: "encodable f l" and bs: "bs = ?p @ body_of f" using assms by (auto simp: encode_frame_iff)
  note w = frame_length_word [OF e]
  have v: "validate_limits l = Inr ()" using e by (simp add: encodable_def)
  show ?thesis
  proof (cases "k < length ?p")
    case True
    then show ?thesis using decode_varint_prefix [OF True] v by (simp add: parse_frame_def bs)
  next
    case False
    then have t: "take k bs = ?p @ take (k - length ?p) (body_of f)" by (simp add: bs)
    have "decode_varint (take k bs) (of_nat (min (max_frame_bytes l) 4294967295)) =
      VParsed (of_nat (length (body_of f))) (length ?p)"
      unfolding t decode_append_varint using w(2) by simp
    moreover have "\<not> (is_control_type (take k bs ! length ?p) \<and> length (body_of f) > max_control_frame_bytes l)"
      if "length ?p < length (take k bs)"
    proof -
      have "take k bs ! length ?p = fr_type f" using that by (simp add: bs nth_append body_nth_0 [simplified])
      then show ?thesis using e by (auto simp: encodable_def)
    qed
    ultimately show ?thesis
      using w(1) v minimum_body [OF assms(2)] assms(3)
      by (auto simp: parse_frame_def Let_def not_less bs)
  qed
qed

interpretation frame_codec: canonical_codec
  "\<lambda>f. if length (fr_message_id f) = 16 then value_if (encode_frame f l) else None"
  "\<lambda>bs. parsed_whole bs (parse_frame bs l)" for l
proof (unfold_locales, goal_cases)
  case (1 bs f)
  have "parsed_whole bs (parse_frame bs l) = Some f \<longleftrightarrow> parse_frame bs l = FParsed (length bs) f"
    by (cases "parse_frame bs l") auto
  then show ?case by (auto simp: parse_frame_iff)
qed

section \<open>Properties\<close>

text \<open>
  C28: the 32-bit varint decoder accepts exactly the encoder's output: it returns a value and a
  length exactly when the value is within the bound and the input starts with that value's
  encoding.  So no second spelling of a number is accepted and no bit is lost to overflow.
\<close>

theorem varint_codec:
  "decode_varint input m = VParsed v n \<longleftrightarrow>
     v \<le> m \<and> n = varint_size v \<and> take n input = append_varint v"
proof
  assume a: "v \<le> m \<and> n = varint_size v \<and> take n input = append_varint v"
  then have "input = append_varint v @ drop n input" by (metis append_take_drop_id)
  then show "decode_varint input m = VParsed v n"
    using decode_append_varint [of v "drop n input" m] a by (simp add: varint_size_length)
qed (auto dest: decode_varint_canonical simp: varint_size_length)

text \<open>
  C2: \<open>parse_frame\<close> is the exact inverse of \<open>encode_frame\<close>: it reports a frame of \<open>n\<close> octets
  exactly when the first \<open>n\<close> octets are what the encoder emits for that frame under the same
  limits.  Every accepted frame therefore satisfies the flag, message-id, channel and size rules
  the sender is held to, and has one spelling.
\<close>

theorem frame_codec_exact:
  "parse_frame input l = FParsed n f \<longleftrightarrow>
     n \<le> length input \<and> length (fr_message_id f) = 16 \<and> encode_frame f l = Inr (take n input)"
  by (rule parse_frame_iff)

text \<open>
  C5: frames are self-delimiting: an encoded frame is recovered whatever follows it, and every
  proper prefix of it is reported as incomplete, never as malformed.
\<close>

theorem frame_incremental:
  assumes "encode_frame f l = Inr bs" and "length (fr_message_id f) = 16"
  shows "parse_frame (bs @ rest) l = FParsed (length bs) f \<and>
    (\<forall>k < length bs. parse_frame (take k bs) l = FNeedMore)"
  using assms parse_frame_prefix by (auto simp: parse_frame_iff)

theorem frame_incremental_witness:
  "let f = \<lparr>fr_type = ft_ping, fr_flags = 1, fr_channel_id = 0, fr_message_id = replicate 16 9,
            fr_payload = []\<rparr>;
       bs = [0x13, 0x03, 1, 0] @ replicate 16 9
   in encode_frame f default_limits = Inr bs \<and>
      parse_frame (bs @ [0xff]) default_limits = FParsed 20 f \<and>
      (\<forall>k < length bs. parse_frame (take k bs) default_limits = FNeedMore)"
proof -
  let ?f = "\<lparr>fr_type = ft_ping, fr_flags = 1, fr_channel_id = 0, fr_message_id = replicate 16 9,
            fr_payload = []\<rparr>"
  let ?bs = "[0x13, 0x03, 1, 0] @ replicate 16 9 :: bytes"
  have b: "body_of ?f = [0x03, 1, 0] @ replicate 16 9"
    by (simp add: body_of_def append_varint.simps)
  have "encodable ?f default_limits"
    unfolding encodable_def b
    by (simp add: default_limits_valid frame_known_flags_def frame_flag_required_def
      id_is_zero_iff channel_error_def requires_business_channel_def payload_limit_error_def)
  then have "encode_frame ?f default_limits = Inr ?bs"
    by (subst encode_frame_iff) (simp_all add: b append_varint.simps)
  with frame_incremental [OF this, of "[0xff]"] show ?thesis by simp
qed

end
