(* ===== verification/Heyaki_Frame_Stream.thy ===== *)
theory Heyaki_Frame_Stream
  imports Heyaki_Wire
begin

text \<open>
  The incremental framing codec of \<open>frame_stream.hpp\<close> and \<open>frame_stream.cpp\<close>: a decoder that is
  fed arbitrary chunks and hands out whole frames, and an encoder that appends headers to an output
  buffer.  The decoder's own copies of the varint and channel rules are modelled separately from
  those of \<open>wire.cpp\<close> and compared with them.
\<close>

section \<open>Decoder\<close>

definition frame_stream_error :: "ErrorCode \<Rightarrow> string \<Rightarrow> Error" where
  "frame_stream_error code detail = err code ''frame_stream'' detail"

definition max_frame_length_varint_bytes :: nat where
  "max_frame_length_varint_bytes = 5"

datatype LengthVarint = LvParsed u32 nat | LvNeedMore | LvInvalid string

fun decode_length_loop :: "bytes \<Rightarrow> nat \<Rightarrow> u32 \<Rightarrow> u32 \<Rightarrow> LengthVarint option" where
  "decode_length_loop [] index v maximum = None"
| "decode_length_loop (b # bs) index v maximum =
     (if index = 4 \<and> b AND 0xf0 \<noteq> 0 then Some (LvInvalid ''varint_overflow'')
      else
        let v' = v OR push_bit (7 * index) (ucast (b AND 0x7f))
        in if b AND 0x80 = 0 then
             (if index > 0 \<and> b AND 0x7f = 0 then Some (LvInvalid ''non_canonical_varint'')
              else if v' > maximum then Some (LvInvalid ''varint_limit'')
              else Some (LvParsed v' (index + 1)))
           else decode_length_loop bs (index + 1) v' maximum)"

definition decode_length_varint :: "bytes \<Rightarrow> u32 \<Rightarrow> LengthVarint" where
  "decode_length_varint input maximum =
     (case decode_length_loop (take max_frame_length_varint_bytes input) 0 0 maximum of
        Some r \<Rightarrow> r
      | None \<Rightarrow> if length input \<ge> max_frame_length_varint_bytes then LvInvalid ''varint_overflow''
                else LvNeedMore)"

definition minimum_frame_body_bytes :: nat where
  "minimum_frame_body_bytes = 1 + 1 + 1 + 16"

record FrameStreamDecoder =
  fsd_limits :: Limits
  fsd_buffer :: bytes
  fsd_offset :: nat
  fsd_last_view_end :: "nat option"
  fsd_poisoned :: bool

definition fsd_new :: "Limits \<Rightarrow> FrameStreamDecoder" where
  "fsd_new limits = \<lparr>fsd_limits = limits, fsd_buffer = [], fsd_offset = 0,
     fsd_last_view_end = None, fsd_poisoned = False\<rparr>"

definition fsd_append :: "FrameStreamDecoder \<Rightarrow> bytes \<Rightarrow> unit result \<times> FrameStreamDecoder" where
  "fsd_append d bs =
    (if fsd_poisoned d then (Inl (frame_stream_error EC_protocol ''decoder_poisoned''), d)
     else case validate_limits (fsd_limits d) of
       Inl e \<Rightarrow> (Inl e, d\<lparr>fsd_poisoned := True\<rparr>)
     | Inr _ \<Rightarrow>
       let d1 = (if fsd_offset d > 0 \<and> fsd_offset d = length (fsd_buffer d)
                 then d\<lparr>fsd_buffer := [], fsd_offset := 0\<rparr>
                 else if fsd_offset d > 0
                 then d\<lparr>fsd_buffer := drop (fsd_offset d) (fsd_buffer d), fsd_offset := 0\<rparr>
                 else d)
       in (Inr (), d1\<lparr>fsd_last_view_end := None, fsd_buffer := fsd_buffer d1 @ bs\<rparr>))"

text \<open>
  \<open>FS_undefined\<close> is the outcome of \<open>next_view\<close> when it indexes \<open>pending\<close> at its own size, which
  the source does when the buffered octets are exactly a length varint: an out-of-bounds read.
\<close>

datatype FrameStreamStep = FS_parsed Frame | FS_need_more | FS_invalid Error | FS_undefined

definition fs_requires_control :: "byte \<Rightarrow> bool" where
  "fs_requires_control type \<longleftrightarrow>
     (type \<ge> ft_session_hello \<and> type \<le> ft_pong) \<or> type = ft_pairing_request \<or>
     type = ft_pairing_result"

text \<open>The checks on a whole body: the frame, or the detail of the error that poisons the decoder.\<close>

definition view_body :: "bytes \<Rightarrow> Limits \<Rightarrow> string + Frame" where
  "view_body body limits =
    (let type = body ! 0; flags = body ! 1
     in if flags AND NOT frame_known_flags \<noteq> 0 then Inl ''reserved_frame_flags''
        else case decode_length_varint (drop 2 body) (- 1) of
          LvInvalid detail \<Rightarrow> Inl detail
        | LvNeedMore \<Rightarrow> Inl ''channel_varint_truncated''
        | LvParsed channel channel_bytes \<Rightarrow>
          let message_offset = 2 + channel_bytes
          in if message_offset + 16 > length body then Inl ''frame_header_truncated''
             else
               let message_bytes = take 16 (drop message_offset body)
               in if id_is_zero message_bytes then Inl ''zero_message_id''
                  else
                    let payload = drop (message_offset + 16) body;
                        view = \<lparr>fr_type = type, fr_flags = flags, fr_channel_id = channel,
                                fr_message_id = message_bytes, fr_payload = payload\<rparr>
                    in if unknown_frame_action view = UFA_process then
                         (if fs_requires_control type \<and> channel \<noteq> 0 then
                            Inl ''control_channel_required''
                          else if type \<ge> ft_message \<and> channel = 0 then
                            Inl ''business_channel_required''
                          else case payload_limit_error type (length payload) limits of
                              Some detail \<Rightarrow> Inl detail
                            | None \<Rightarrow> Inr view)
                       else Inr view)"

definition poison :: "FrameStreamDecoder \<Rightarrow> string \<Rightarrow> FrameStreamStep \<times> FrameStreamDecoder" where
  "poison d detail =
     (FS_invalid (frame_stream_error EC_protocol detail), d\<lparr>fsd_poisoned := True\<rparr>)"

definition next_view :: "FrameStreamDecoder \<Rightarrow> FrameStreamStep \<times> FrameStreamDecoder" where
  "next_view d =
    (if fsd_poisoned d then
       (FS_invalid (frame_stream_error EC_protocol ''decoder_poisoned''), d)
     else case validate_limits (fsd_limits d) of
       Inl e \<Rightarrow> (FS_invalid e, d\<lparr>fsd_poisoned := True\<rparr>)
     | Inr _ \<Rightarrow>
       let pending = drop (fsd_offset d) (fsd_buffer d);
           maximum = min (max_frame_bytes (fsd_limits d)) 4294967295
       in case decode_length_varint pending (of_nat maximum) of
            LvNeedMore \<Rightarrow> (FS_need_more, d)
          | LvInvalid detail \<Rightarrow> poison d detail
          | LvParsed len len_bytes \<Rightarrow>
            if unat len < minimum_frame_body_bytes then poison d ''frame_header_truncated''
            else if length pending \<le> len_bytes then (FS_undefined, d)
            else if is_control_type (pending ! len_bytes) \<and>
                    unat len > max_control_frame_bytes (fsd_limits d) then
              poison d ''control_frame_limit''
            else
              let total = len_bytes + unat len
              in if length pending < total then
                   (if length pending > max_frame_length_varint_bytes + maximum then
                      poison d ''frame_length_limit''
                    else (FS_need_more, d))
                 else case view_body (take (unat len) (drop len_bytes pending)) (fsd_limits d) of
                     Inl detail \<Rightarrow> poison d detail
                   | Inr view \<Rightarrow>
                     (FS_parsed view, d\<lparr>fsd_last_view_end := Some (fsd_offset d + total)\<rparr>))"

definition consume_view :: "FrameStreamDecoder \<Rightarrow> unit result \<times> FrameStreamDecoder" where
  "consume_view d =
    (case fsd_last_view_end d of
       None \<Rightarrow> (Inl (frame_stream_error EC_configuration ''no_frame_to_consume''), d)
     | Some e \<Rightarrow>
       (Inr (), if e = length (fsd_buffer d)
                then d\<lparr>fsd_last_view_end := None, fsd_buffer := [], fsd_offset := 0\<rparr>
                else d\<lparr>fsd_last_view_end := None, fsd_offset := e\<rparr>))"

datatype TakeFrame = TF_frame Frame | TF_none | TF_error Error | TF_undefined

definition take_frame :: "FrameStreamDecoder \<Rightarrow> TakeFrame \<times> FrameStreamDecoder" where
  "take_frame d =
    (case next_view d of
       (FS_need_more, d1) \<Rightarrow> (TF_none, d1)
     | (FS_invalid e, d1) \<Rightarrow> (TF_error e, d1)
     | (FS_undefined, d1) \<Rightarrow> (TF_undefined, d1)
     | (FS_parsed view, d1) \<Rightarrow>
       (case consume_view d1 of
          (Inl e, d2) \<Rightarrow> (TF_error e, d2)
        | (Inr _, d2) \<Rightarrow> (TF_frame view, d2)))"

definition buffered_bytes :: "FrameStreamDecoder \<Rightarrow> nat" where
  "buffered_bytes d = length (fsd_buffer d) - fsd_offset d"

definition fsd_reset :: "FrameStreamDecoder \<Rightarrow> FrameStreamDecoder" where
  "fsd_reset d = d\<lparr>fsd_buffer := [], fsd_offset := 0, fsd_last_view_end := None,
     fsd_poisoned := False\<rparr>"

section \<open>Encoder\<close>

definition stream_encoded_size :: "Limits \<Rightarrow> u32 \<Rightarrow> nat \<Rightarrow> nat result" where
  "stream_encoded_size limits channel_id payload_size =
    (let body_size = (1 + 1 + 16) + varint_size channel_id + payload_size
     in if payload_size > max_frame_bytes limits \<or> body_size > max_frame_bytes limits \<or>
           body_size > 4294967295 then
          Inl (frame_stream_error EC_protocol ''frame_length_limit'')
        else Inr (varint_size (of_nat body_size) + body_size))"

text \<open>Both operations return the extended output buffer beside the offset they report.\<close>

definition encode_header ::
  "Limits \<Rightarrow> bytes \<Rightarrow> byte \<Rightarrow> byte \<Rightarrow> u32 \<Rightarrow> id_bytes \<Rightarrow> nat \<Rightarrow> (nat \<times> bytes) result" where
  "encode_header limits output type flags channel_id message_id payload_size =
    (case validate_limits limits of Inl e \<Rightarrow> Inl e | Inr _ \<Rightarrow>
     if flags AND NOT frame_known_flags \<noteq> 0 then
       Inl (frame_stream_error EC_protocol ''reserved_frame_flags'')
     else if id_is_zero message_id then Inl (frame_stream_error EC_protocol ''zero_message_id'')
     else if fs_requires_control type \<and> channel_id \<noteq> 0 then
       Inl (frame_stream_error EC_protocol ''control_channel_required'')
     else if (type \<ge> ft_message \<and> is_known_frame_type type) \<and> channel_id = 0 then
       Inl (frame_stream_error EC_protocol ''business_channel_required'')
     else case stream_encoded_size limits channel_id payload_size of
       Inl e \<Rightarrow> Inl e
     | Inr size_value \<Rightarrow>
       if is_control_type type \<and> size_value > max_control_frame_bytes limits then
         Inl (frame_stream_error EC_protocol ''control_frame_limit'')
       else
         let body_size = (1 + 1 + 16) + varint_size channel_id + payload_size;
             output1 = output @ append_varint (of_nat body_size);
             payload_offset = length output1
         in Inr (payload_offset,
                 output1 @ [type, flags] @ append_varint channel_id @ message_id))"

definition stream_encode :: "Limits \<Rightarrow> bytes \<Rightarrow> Frame \<Rightarrow> (nat \<times> bytes) result" where
  "stream_encode limits output view =
    (case encode_header limits output (fr_type view) (fr_flags view) (fr_channel_id view)
            (fr_message_id view) (length (fr_payload view)) of
       Inl e \<Rightarrow> Inl e
     | Inr (header, output1) \<Rightarrow>
       Inr (header + length (fr_payload view), output1 @ fr_payload view))"

section \<open>Specification vocabulary\<close>

abbreviation pending_of :: "FrameStreamDecoder \<Rightarrow> bytes" where
  "pending_of d \<equiv> drop (fsd_offset d) (fsd_buffer d)"

definition fsd_inv :: "FrameStreamDecoder \<Rightarrow> bool" where
  "fsd_inv d \<longleftrightarrow> fsd_offset d \<le> length (fsd_buffer d) \<and>
     (\<forall>e. fsd_last_view_end d = Some e \<longrightarrow> fsd_offset d < e \<and> e \<le> length (fsd_buffer d))"

text \<open>
  A client that drains the decoder after every chunk: the frames it sees and the final decoder, or
  \<^const>\<open>None\<close> when a drain ended in an error or in the out-of-bounds read.
\<close>

fun drain :: "nat \<Rightarrow> FrameStreamDecoder \<Rightarrow> (Frame list \<times> FrameStreamDecoder) option" where
  "drain 0 d = None"
| "drain (Suc n) d =
    (case take_frame d of
       (TF_none, d1) \<Rightarrow> Some ([], d1)
     | (TF_frame f, d1) \<Rightarrow> map_option (\<lambda>(fs, d2). (f # fs, d2)) (drain n d1)
     | _ \<Rightarrow> None)"

fun feed :: "bytes list \<Rightarrow> FrameStreamDecoder \<Rightarrow> (Frame list \<times> FrameStreamDecoder) option" where
  "feed [] d = Some ([], d)"
| "feed (c # cs) d =
    (case fsd_append d c of
       (Inl e, d1) \<Rightarrow> None
     | (Inr _, d1) \<Rightarrow>
       (case drain (Suc (buffered_bytes d1)) d1 of
          None \<Rightarrow> None
        | Some (fs, d2) \<Rightarrow> map_option (\<lambda>(gs, d3). (fs @ gs, d3)) (feed cs d2)))"

text \<open>
  Absolute positions in the received octets: the ends of the chunks, and the ends of the length
  varints of the frames that start at a given position.
\<close>

fun chunk_ends :: "nat \<Rightarrow> bytes list \<Rightarrow> nat list" where
  "chunk_ends pos [] = []"
| "chunk_ends pos (c # cs) = (pos + length c) # chunk_ends (pos + length c) cs"

fun varint_ends :: "nat \<Rightarrow> Frame list \<Rightarrow> nat list" where
  "varint_ends pos [] = []"
| "varint_ends pos (f # fs) =
     (let n = varint_size (of_nat (length (body_of f)))
      in (pos + n) # varint_ends (pos + n + length (body_of f)) fs)"

fun lv_of :: "VarintResult \<Rightarrow> LengthVarint" where
  "lv_of (VParsed v n) = LvParsed v n"
| "lv_of VNeedMore = LvNeedMore"
| "lv_of (VInvalid d) = LvInvalid d"

abbreviation frame_max :: "Limits \<Rightarrow> u32" where
  "frame_max l \<equiv> of_nat (min (max_frame_bytes l) 4294967295)"

definition live :: "FrameStreamDecoder \<Rightarrow> bool" where
  "live d \<longleftrightarrow> \<not> fsd_poisoned d \<and> validate_limits (fsd_limits d) = Inr ()"

definition frame_bytes :: "Frame \<Rightarrow> bytes" where
  "frame_bytes f = append_varint (of_nat (length (body_of f))) @ body_of f"

definition sendable :: "Limits \<Rightarrow> Frame \<Rightarrow> bool" where
  "sendable l f \<longleftrightarrow> encodable f l \<and> length (fr_message_id f) = 16"

datatype FsdOp = FsdAppend bytes | FsdNextView | FsdConsumeView | FsdTakeFrame | FsdReset

fun fsd_step :: "FsdOp \<Rightarrow> FrameStreamDecoder \<Rightarrow> FrameStreamDecoder" where
  "fsd_step (FsdAppend bs) d = snd (fsd_append d bs)"
| "fsd_step FsdNextView d = snd (next_view d)"
| "fsd_step FsdConsumeView d = snd (consume_view d)"
| "fsd_step FsdTakeFrame d = snd (take_frame d)"
| "fsd_step FsdReset d = fsd_reset d"

section \<open>Agreement with the one-shot parser\<close>

lemma decode_length_loop_eq: "decode_length_loop bs i v m = map_option lv_of (decode_varint_loop bs i v m)"
  by (induction bs arbitrary: i v) (auto simp: Let_def)

lemma decode_length_varint_eq: "decode_length_varint p m = lv_of (decode_varint p m)"
  by (auto simp: decode_length_varint_def decode_varint_def decode_length_loop_eq
    max_frame_length_varint_bytes_def max_varint_bytes_def split: option.splits)

lemma frame_type_ranges:
  "b \<ge> ft_session_hello \<and> b \<le> ft_pong \<longleftrightarrow> b = 1 \<or> b = 2 \<or> b = 3 \<or> b = 4"
  "b \<ge> ft_rpc_request \<and> b \<le> ft_rpc_cancel \<longleftrightarrow> b = 0x30 \<or> b = 0x31 \<or> b = 0x32"
  "b \<ge> ft_event_subscribe \<and> b \<le> ft_event_unsubscribe \<longleftrightarrow> b = 0x40 \<or> b = 0x41 \<or> b = 0x42"
  "b \<ge> ft_pairing_request \<and> b \<le> ft_pairing_result \<longleftrightarrow> b = 0x10 \<or> b = 0x11"
  by (auto simp: word_le_nat_alt word_unat_eq_iff)

lemma unknown_type_rules:
  assumes "\<not> is_known_frame_type t"
  shows "channel_error t c = None" "payload_limit_error t n l = None" "\<not> fs_requires_control t"
proof -
  have k: "t \<notin> set FrameType_values" using assms by (simp add: is_known_frame_type_def)
  show "channel_error t c = None" 
    using k assms unfolding channel_error_def requires_control_channel_def requires_business_channel_def frame_type_ranges
    by (auto simp: FrameType_values_def)
  show "payload_limit_error t n l = None"
  proof -
    have "\<not> (t \<ge> ft_rpc_request \<and> t \<le> ft_rpc_cancel)"
      "\<not> (t \<ge> ft_event_subscribe \<and> t \<le> ft_event_unsubscribe)"
      "\<not> (t \<ge> ft_pairing_request \<and> t \<le> ft_pairing_result)"
      using k unfolding frame_type_ranges by (auto simp: FrameType_values_def)
    then show ?thesis using k by (auto simp: payload_limit_error_def Let_def FrameType_values_def)
  qed
  show "\<not> fs_requires_control t"
    using k unfolding fs_requires_control_def frame_type_ranges
    by (auto simp: FrameType_values_def)
qed

lemma parse_body_view:
  assumes "b ! 0 \<noteq> ft_pairing_approval_request"
  shows "parse_body b n l = (case view_body b l of Inl d \<Rightarrow> invalid_frame d | Inr f \<Rightarrow> FParsed n f)"
proof -
  have r: "requires_control_channel (b ! 0) = fs_requires_control (b ! 0)"
    using assms by (simp add: requires_control_channel_def fs_requires_control_def)
  show ?thesis
  proof (cases "is_known_frame_type (b ! 0)")
    case True
    then show ?thesis using r
      by (auto simp: parse_body_def view_body_def decode_length_varint_eq Let_def
        unknown_frame_action_def channel_error_def requires_business_channel_def
        split: VarintResult.splits option.splits)
  next
    case False
    then show ?thesis using r unknown_type_rules [OF False]
      by (auto simp: parse_body_def view_body_def decode_length_varint_eq Let_def
        unknown_frame_action_def
        split: VarintResult.splits option.splits)
  qed
qed

lemma parse_body_view_parsed: "parse_body b n l = FParsed n f \<Longrightarrow> view_body b l = Inr f"
proof (cases "b ! 0 = ft_pairing_approval_request")
  case True
  assume "parse_body b n l = FParsed n f"
  then show ?thesis using True
      by (auto simp: parse_body_def view_body_def decode_length_varint_eq Let_def invalid_frame_def
        unknown_frame_action_def channel_error_def requires_control_channel_def fs_requires_control_def
        requires_business_channel_def
        split: VarintResult.splits option.splits if_splits)
next
  case False
  assume "parse_body b n l = FParsed n f"
  then show ?thesis using parse_body_view [OF False, of n l] by (auto simp: invalid_frame_def split: sum.splits)
qed

lemma minimum_body_eq: "minimum_frame_body_bytes = minimum_body_size"
  by (simp add: minimum_frame_body_bytes_def minimum_body_size_def)


lemma next_view_parsed:
  assumes "live d" "parse_frame (pending_of d) (fsd_limits d) = FParsed n f"
  shows "next_view d = (FS_parsed f, d\<lparr>fsd_last_view_end := Some (fsd_offset d + n)\<rparr>)"
proof -
  let ?p = "pending_of d" and ?l = "fsd_limits d"
  obtain len k where d: "decode_varint ?p (frame_max ?l) = VParsed len k"
    and c: "minimum_body_size \<le> unat len"
      "length ?p > k \<and> is_control_type (?p ! k) \<longrightarrow> unat len \<le> max_control_frame_bytes ?l"
      "k + unat len \<le> length ?p"
      "parse_body (take (unat len) (drop k ?p)) (k + unat len) ?l = FParsed n f"
    using assms by (auto simp: live_def parse_frame_def invalid_frame_def Let_def not_less
        split: sum.splits VarintResult.splits if_splits)
  have n: "n = k + unat len" using c(4)
    by (auto simp: parse_body_def Let_def invalid_frame_def split: if_splits VarintResult.splits option.splits)
  have "k < length ?p" using c(1,3) by (simp add: minimum_body_size_def)
  then show ?thesis
    using assms(1) d c n parse_body_view_parsed [OF c(4) [unfolded n]]
    by (auto simp: next_view_def live_def decode_length_varint_eq minimum_body_eq Let_def not_less not_le)
qed

text \<open>The out-of-bounds read happens exactly when the buffered octets are one length varint.\<close>

lemma next_view_undefined_iff:
  "fst (next_view d) = FS_undefined \<longleftrightarrow>
     live d \<and> (\<exists>len. decode_varint (pending_of d) (frame_max (fsd_limits d)) = VParsed len (length (pending_of d)) \<and>
       minimum_body_size \<le> unat len)"
proof (cases "live d")
  case True
  show ?thesis
  proof (cases "decode_varint (pending_of d) (frame_max (fsd_limits d))")
    case (VParsed len k)
    have "k \<le> length (pending_of d)" using decode_varint_canonical [OF VParsed] by simp
    with True VParsed show ?thesis
      by (auto simp: next_view_def live_def decode_length_varint_eq minimum_body_eq poison_def Let_def
        not_le not_less split: sum.splits)
  qed (use True in \<open>auto simp: next_view_def live_def decode_length_varint_eq poison_def Let_def\<close>)
next
  case False
  then show ?thesis by (auto simp: next_view_def live_def split: sum.splits)
qed

lemma next_view_need_more:
  assumes "live d" "parse_frame (pending_of d) (fsd_limits d) = FNeedMore"
  shows "next_view d = (if fst (next_view d) = FS_undefined then (FS_undefined, d) else (FS_need_more, d))"
proof (cases "decode_varint (pending_of d) (frame_max (fsd_limits d))")
  case (VParsed len k)
  let ?p = "pending_of d" and ?l = "fsd_limits d"
  have v: "validate_limits ?l = Inr ()" using assms(1) by (simp add: live_def)
  have c: "minimum_body_size \<le> unat len" "length ?p < k + unat len"
      "length ?p > k \<and> is_control_type (?p ! k) \<longrightarrow> unat len \<le> max_control_frame_bytes ?l"
    using assms VParsed by (auto simp: live_def parse_frame_def parse_body_def invalid_frame_def Let_def
        split: if_splits VarintResult.splits option.splits)
  have "len \<le> frame_max ?l" "k \<le> 5" using decode_varint_canonical [OF VParsed] wire_varint.length_enc_le [of len] by auto
  then have "unat len \<le> min (max_frame_bytes ?l) 4294967295"
    using valid_max_frame [OF v] by (simp add: word_le_nat_alt unat_of_nat)
  then have "\<not> max_frame_length_varint_bytes + min (max_frame_bytes ?l) 4294967295 < length ?p"
    using c(2) \<open>k \<le> 5\<close> unfolding max_frame_length_varint_bytes_def by linarith
  then show ?thesis
    using assms(1) VParsed c
    by (auto simp: next_view_def live_def decode_length_varint_eq minimum_body_eq Let_def not_less not_le)
qed (use assms in \<open>auto simp: next_view_def live_def decode_length_varint_eq parse_frame_def invalid_frame_def\<close>)

lemma next_view_invalid:
  assumes "live d" "parse_frame (pending_of d) (fsd_limits d) = FInvalid e"
  shows "(\<exists>detail. next_view d = poison d detail) \<or>
    (\<exists>f n. next_view d = (FS_parsed f, d\<lparr>fsd_last_view_end := Some n\<rparr>) \<and>
       fr_type f = ft_pairing_approval_request \<and> fr_channel_id f \<noteq> 0)"
proof (cases "decode_varint (pending_of d) (frame_max (fsd_limits d))")
  case (VParsed len k)
  let ?p = "pending_of d" and ?l = "fsd_limits d"
  let ?b = "take (unat len) (drop k ?p)"
  have kp: "k \<le> length ?p" using decode_varint_canonical [OF VParsed] by simp
  show ?thesis
  proof (cases "unat len < minimum_body_size \<or> (is_control_type (?p ! k) \<and> max_control_frame_bytes ?l < unat len)")
    case True
    then show ?thesis using assms VParsed kp
      by (auto simp: next_view_def live_def decode_length_varint_eq minimum_body_eq Let_def parse_frame_def
         invalid_frame_def not_le split: if_splits)
  next
    case False
    then have b: "k + unat len \<le> length ?p" "parse_body ?b (k + unat len) ?l = FInvalid e"
      using assms VParsed by (auto simp: live_def parse_frame_def Let_def invalid_frame_def split: if_splits)
    have nv: "next_view d = (case view_body ?b ?l of Inl detail \<Rightarrow> poison d detail
        | Inr view \<Rightarrow> (FS_parsed view, d\<lparr>fsd_last_view_end := Some (fsd_offset d + (k + unat len))\<rparr>))"
      using assms(1) VParsed False b(1)
      by (auto simp: next_view_def live_def decode_length_varint_eq minimum_body_eq Let_def not_le not_less
         minimum_body_size_def)
    show ?thesis
    proof (cases "view_body ?b ?l")
      case (Inr f)
      have "?b ! 0 = ft_pairing_approval_request"
        using parse_body_view [of ?b "k + unat len" ?l] b(2) Inr by auto
      then have "fr_type f = ft_pairing_approval_request \<and> fr_channel_id f \<noteq> 0"
        using Inr b(2) by (auto simp: view_body_def parse_body_def decode_length_varint_eq Let_def
          unknown_frame_action_def channel_error_def requires_control_channel_def fs_requires_control_def
          requires_business_channel_def is_known_frame_type_def FrameType_values_def
          split: if_splits VarintResult.splits option.splits)
      then show ?thesis using nv Inr by auto
    qed (use nv in auto)
  qed
qed (use assms in \<open>auto simp: next_view_def live_def decode_length_varint_eq parse_frame_def invalid_frame_def\<close>)

section \<open>Delivery of chunked frames\<close>

lemma take_frame_parsed:
  assumes "live d" "parse_frame (pending_of d) (fsd_limits d) = FParsed n f"
  obtains d' where "take_frame d = (TF_frame f, d')" "live d'" "fsd_limits d' = fsd_limits d"
    "pending_of d' = drop n (pending_of d)"
proof -
  note nv = next_view_parsed [OF assms]
  have n: "n \<le> length (pending_of d)" using parse_frame_sound [OF assms(2)] by blast
  let ?d = "d\<lparr>fsd_last_view_end := Some (fsd_offset d + n)\<rparr>"
  have "fst (consume_view ?d) = Inr ()" by (simp add: consume_view_def)
  then have "take_frame d = (TF_frame f, snd (consume_view ?d))"
    by (simp add: take_frame_def nv case_prod_beta)
  then show ?thesis using that [of "snd (consume_view ?d)"] assms(1) n
    by (auto simp: consume_view_def live_def add.commute)
qed

lemma sendable_encode: "sendable l f \<Longrightarrow> encode_frame f l = Inr (frame_bytes f)"
  by (simp add: sendable_def encode_frame_iff frame_bytes_def)

lemma parse_sendable: "sendable l f \<Longrightarrow> parse_frame (frame_bytes f @ rest) l = FParsed (length (frame_bytes f)) f"
  using parse_encoded [of f l rest] by (simp add: sendable_def frame_bytes_def)

lemma take_frame_partial:
  assumes "live d" "sendable (fsd_limits d) f" "pending_of d = take k (frame_bytes f)"
    "k < length (frame_bytes f)" "k \<noteq> varint_size (of_nat (length (body_of f)))"
  shows "take_frame d = (TF_none, d)"
proof -
  let ?p = "append_varint (of_nat (length (body_of f))) :: bytes"
  have e: "encodable f (fsd_limits d)" "length (fr_message_id f) = 16" using assms(2) by (auto simp: sendable_def)
  have "parse_frame (pending_of d) (fsd_limits d) = FNeedMore"
    using parse_frame_prefix [OF sendable_encode [OF assms(2)] e(2) assms(4)] assms(3) by simp
  moreover have "fst (next_view d) \<noteq> FS_undefined"
  proof
    assume "fst (next_view d) = FS_undefined"
    then obtain len where v: "decode_varint (pending_of d) (frame_max (fsd_limits d)) = VParsed len (length (pending_of d))"
      by (auto simp: next_view_undefined_iff)
    have lk: "length (pending_of d) = k" using assms(3,4) by (simp del: length_drop)
    show False
    proof (cases "k < length ?p")
      case True
      then have "pending_of d = take k ?p" using assms(3) by (simp add: frame_bytes_def)
      then show False using v decode_varint_prefix [OF True] by (simp del: length_drop)
    next
      case False
      then have p: "pending_of d = ?p @ take (k - length ?p) (body_of f)" using assms(3) by (simp add: frame_bytes_def)
      have "decode_varint (pending_of d) (frame_max (fsd_limits d)) = VParsed (of_nat (length (body_of f))) (length ?p)"
        by (simp only: p decode_append_varint frame_length_word(2) [OF e(1)] if_True)
      then show False using v lk assms(5) by (simp add: varint_size_length del: length_drop)
    qed
  qed
  ultimately have "next_view d = (FS_need_more, d)" using next_view_need_more [OF assms(1)] by simp
  then show ?thesis by (simp add: take_frame_def)
qed

lemma take_frame_empty: "live d \<Longrightarrow> pending_of d = [] \<Longrightarrow> take_frame d = (TF_none, d)"
  by (simp add: take_frame_def next_view_def live_def decode_length_varint_def
    max_frame_length_varint_bytes_def)

lemma length_frame_bytes: "length (frame_bytes f) = varint_size (of_nat (length (body_of f))) + length (body_of f)"
  by (simp add: frame_bytes_def varint_size_length)

lemma frame_bytes_nonempty: "frame_bytes f \<noteq> []"
  by (simp add: frame_bytes_def body_of_def)

lemma drain_frames:
  assumes "live d" "fsd_limits d = l" "\<forall>f \<in> set fs. sendable l f"
    "pending_of d @ rest = concat (map frame_bytes fs)"
    "pos + length (pending_of d) \<notin> set (varint_ends pos fs)" "length (pending_of d) < n"
  shows "\<exists>k d'. k \<le> length fs \<and> drain n d = Some (take k fs, d') \<and> live d' \<and> fsd_limits d' = l \<and>
    pending_of d = concat (map frame_bytes (take k fs)) @ pending_of d' \<and>
    pending_of d' @ rest = concat (map frame_bytes (drop k fs)) \<and>
    (drop k fs \<noteq> [] \<longrightarrow> length (pending_of d') < length (frame_bytes (hd (drop k fs)))) \<and>
    set (varint_ends (pos + length (concat (map frame_bytes (take k fs)))) (drop k fs)) \<subseteq> set (varint_ends pos fs)"
  using assms
proof (induction fs arbitrary: d pos n)
  case Nil
  then obtain m where "n = Suc m" by (cases n) auto
  then show ?case using Nil take_frame_empty [of d] by (intro exI [of _ 0] exI [of _ d]) auto
next
  case (Cons f fs)
  then obtain m where n: "n = Suc m" by (cases n) auto
  have f: "sendable l f" using Cons.prems by simp
  obtain p where p: "pending_of d = p" by blast
  let ?b = "frame_bytes f"
  have e: "p @ rest = ?b @ concat (map frame_bytes fs)" using Cons.prems(4) p by simp
  show ?case
  proof (cases "length p < length ?b")
    case True
    have "take (length p) (p @ rest) = take (length p) (?b @ concat (map frame_bytes fs))"
      using e by simp
    then have "p = take (length p) ?b" using True by simp
    moreover have "length p \<noteq> varint_size (of_nat (length (body_of f)))"
      using Cons.prems(5) p by (auto simp: Let_def simp del: length_drop)
    ultimately have "take_frame d = (TF_none, d)"
      using take_frame_partial [of d f "length p"] Cons.prems(1,2) f True p by simp
    then show ?thesis using n Cons.prems True p e
      by (intro exI [of _ 0] exI [of _ d]) (auto simp del: length_drop)
  next
    case False
    define q where "q = drop (length ?b) p"
    have "take (length ?b) (p @ rest) = ?b" using e by simp
    then have "take (length ?b) p = ?b" using False by simp
    then have pq: "p = ?b @ q" unfolding q_def by (metis append_take_drop_id)
    then have "parse_frame (pending_of d) (fsd_limits d) = FParsed (length ?b) f"
      using parse_sendable [OF f] Cons.prems(2) p by simp
    then obtain d1 where d1: "take_frame d = (TF_frame f, d1)" "live d1" "fsd_limits d1 = l"
      "pending_of d1 = q"
      using take_frame_parsed [OF Cons.prems(1)] Cons.prems(2) p q_def by metis
    have lq: "length p = length ?b + length q" using pq by (metis length_append)
    have "q @ rest = concat (map frame_bytes fs)" using e pq by simp
    moreover have "pos + length ?b + length q \<notin> set (varint_ends (pos + length ?b) fs)"
      using Cons.prems(5) lq p by (auto simp: Let_def length_frame_bytes add.assoc simp del: length_drop)
    moreover have "length q < m"
      using Cons.prems(6) lq n p frame_bytes_nonempty [of f] by (cases ?b) (auto simp del: length_drop)
    ultimately obtain k d' where k: "k \<le> length fs" "drain m d1 = Some (take k fs, d')" "live d'"
      "fsd_limits d' = l" "q = concat (map frame_bytes (take k fs)) @ pending_of d'"
      "pending_of d' @ rest = concat (map frame_bytes (drop k fs))"
      "drop k fs \<noteq> [] \<longrightarrow> length (pending_of d') < length (frame_bytes (hd (drop k fs)))"
      "set (varint_ends (pos + length ?b + length (concat (map frame_bytes (take k fs)))) (drop k fs))
         \<subseteq> set (varint_ends (pos + length ?b) fs)"
      using Cons.IH [of d1 "pos + length ?b" m] d1 Cons.prems(3) by auto
    have "drain n d = Some (take (Suc k) (f # fs), d')" using n d1(1) k(2) by simp
    moreover have "p = concat (map frame_bytes (take (Suc k) (f # fs))) @ pending_of d'"
      using pq k(5) by simp
    moreover have "set (varint_ends (pos + length (concat (map frame_bytes (take (Suc k) (f # fs)))))
        (drop (Suc k) (f # fs))) \<subseteq> set (varint_ends pos (f # fs))"
      using k(8) by (auto simp: Let_def length_frame_bytes add.assoc)
    ultimately show ?thesis
      using k p by (intro exI [of _ "Suc k"] exI [of _ d']) (simp del: length_drop)
  qed
qed

lemma fsd_append_live:
  assumes "live d"
  obtains d' where "fsd_append d c = (Inr (), d')" "live d'" "fsd_limits d' = fsd_limits d"
    "pending_of d' = pending_of d @ c" "buffered_bytes d' = length (pending_of d) + length c"
  using assms that [of "snd (fsd_append d c)"]
  by (auto simp: fsd_append_def live_def Let_def buffered_bytes_def)

lemma feed_frames:
  assumes "live d" "fsd_limits d = l" "\<forall>f \<in> set fs. sendable l f"
    "pending_of d @ concat cs = concat (map frame_bytes fs)"
    "set (chunk_ends (pos + length (pending_of d)) cs) \<inter> set (varint_ends pos fs) = {}"
    "fs \<noteq> [] \<longrightarrow> length (pending_of d) < length (frame_bytes (hd fs))"
  shows "\<exists>d'. feed cs d = Some (fs, d') \<and> live d' \<and> pending_of d' = []"
  using assms
proof (induction cs arbitrary: d pos fs)
  case Nil
  then have "fs = []" by (cases fs) (auto simp del: length_drop)
  then show ?case using Nil by auto
next
  case (Cons c cs)
  obtain d1 where d1: "fsd_append d c = (Inr (), d1)" "live d1" "fsd_limits d1 = l"
    "pending_of d1 = pending_of d @ c" "buffered_bytes d1 = length (pending_of d) + length c"
    using fsd_append_live [OF Cons.prems(1)] Cons.prems(2) by metis
  have "pending_of d1 @ concat cs = concat (map frame_bytes fs)" using Cons.prems(4) d1(4) by simp
  moreover have "pos + length (pending_of d1) \<notin> set (varint_ends pos fs)"
    using Cons.prems(5) d1(4) by (auto simp: add.assoc)
  ultimately obtain k d2 where k: "k \<le> length fs" "drain (Suc (buffered_bytes d1)) d1 = Some (take k fs, d2)"
    "live d2" "fsd_limits d2 = l" "pending_of d1 = concat (map frame_bytes (take k fs)) @ pending_of d2"
    "pending_of d2 @ concat cs = concat (map frame_bytes (drop k fs))"
    "drop k fs \<noteq> [] \<longrightarrow> length (pending_of d2) < length (frame_bytes (hd (drop k fs)))"
    "set (varint_ends (pos + length (concat (map frame_bytes (take k fs)))) (drop k fs)) \<subseteq> set (varint_ends pos fs)"
    using drain_frames [OF d1(2,3) Cons.prems(3), of "concat cs" pos "Suc (buffered_bytes d1)"] d1(4,5) by auto
  have "\<exists>d'. feed cs d2 = Some (drop k fs, d') \<and> live d' \<and> pending_of d' = []"
  proof -
    have len: "length (pending_of d) + length c = length (concat (map frame_bytes (take k fs))) + length (pending_of d2)"
      using k(5) d1(4) by (metis length_append)
    show ?thesis
    proof (rule Cons.IH [OF k(3,4), of _ "pos + length (concat (map frame_bytes (take k fs)))"])
      show "\<forall>f\<in>set (drop k fs). sendable l f" using Cons.prems(3) by (meson in_set_dropD)
      show "set (chunk_ends (pos + length (concat (map frame_bytes (take k fs))) + length (pending_of d2)) cs) \<inter>
        set (varint_ends (pos + length (concat (map frame_bytes (take k fs)))) (drop k fs)) = {}"
        using Cons.prems(5) k(8) len by (auto simp: add.assoc)
    qed (use k in auto)
  qed
  then show ?case using d1(1) k(2) by (auto simp del: drain.simps)
qed

section \<open>Encoder\<close>

lemma fs_requires_control_channel:
  "requires_control_channel t \<longleftrightarrow> fs_requires_control t \<or> t = ft_pairing_approval_request"
  by (auto simp: requires_control_channel_def fs_requires_control_def)

lemma stream_encode_iff:
  assumes "length (fr_message_id f) = 16"
  shows "stream_encode l out f = Inr (r, out') \<longleftrightarrow>
    validate_limits l = Inr () \<and> fr_flags f AND NOT frame_known_flags = 0 \<and>
    \<not> id_is_zero (fr_message_id f) \<and> \<not> (fs_requires_control (fr_type f) \<and> fr_channel_id f \<noteq> 0) \<and>
    \<not> (requires_business_channel (fr_type f) \<and> fr_channel_id f = 0) \<and>
    length (body_of f) \<le> max_frame_bytes l \<and>
    (is_control_type (fr_type f) \<longrightarrow> length (frame_bytes f) \<le> max_control_frame_bytes l) \<and>
    out' = out @ frame_bytes f \<and>
    r = length out + varint_size (of_nat (length (body_of f))) + length (fr_payload f)"
proof (cases "validate_limits l = Inr ()")
  case True
  note m = valid_max_frame [OF True]
  have b: "length (body_of f) = 18 + varint_size (fr_channel_id f) + length (fr_payload f)"
    by (simp add: length_body_of [OF assms] fixed_body_size_def)
  have fb: "frame_bytes f = append_varint (of_nat (length (body_of f))) @ [fr_type f, fr_flags f] @
      append_varint (fr_channel_id f) @ fr_message_id f @ fr_payload f"
    by (simp add: frame_bytes_def body_of_def)
  show ?thesis
    unfolding length_frame_bytes unfolding fb b
    using True m
    by (auto simp: stream_encode_def encode_header_def stream_encoded_size_def Let_def
      requires_business_channel_def varint_size_length)
next
  case False
  then show ?thesis by (auto simp: stream_encode_def encode_header_def split: sum.splits)
qed

section \<open>Invariant\<close>

lemma fsd_inv_append: "fsd_inv d \<Longrightarrow> fsd_inv (snd (fsd_append d bs))"
  by (auto simp: fsd_inv_def fsd_append_def Let_def split: sum.splits)

lemma fsd_inv_next: "fsd_inv d \<Longrightarrow> fsd_inv (snd (next_view d))"
  by (auto simp: fsd_inv_def next_view_def poison_def Let_def minimum_frame_body_bytes_def
    split: sum.splits LengthVarint.splits)

lemma fsd_inv_consume: "fsd_inv d \<Longrightarrow> fsd_inv (snd (consume_view d))"
  by (auto simp: fsd_inv_def consume_view_def split: option.splits)

lemma fsd_inv_take: "fsd_inv d \<Longrightarrow> fsd_inv (snd (take_frame d))"
  using fsd_inv_next [of d] fsd_inv_consume [of "snd (next_view d)"]
  by (auto simp: take_frame_def split: prod.splits FrameStreamStep.splits sum.splits)

lemma fsd_inv_reset: "fsd_inv (fsd_reset d)"
  by (simp add: fsd_inv_def fsd_reset_def)

interpretation fsd_machine: invariant_machine "\<lambda>d. \<exists>l. d = fsd_new l" fsd_step fsd_inv
proof (unfold_locales, goal_cases)
  case (1 d)
  then show ?case by (auto simp: fsd_inv_def fsd_new_def)
next
  case (2 d x)
  then show ?case
    by (cases x) (simp_all add: fsd_inv_append fsd_inv_next fsd_inv_consume fsd_inv_take
      fsd_inv_reset)
qed

section \<open>Properties\<close>

text \<open>
  C1: chunked delivery: whatever the sizes of the chunks in which the encodings of a sequence of
  frames arrive, a client that drains the decoder after each chunk receives exactly those frames
  in order and the decoder ends empty and usable, provided no chunk ends right behind a length
  varint, where the decoder reads past its buffer.
\<close>

theorem frame_stream_delivery:
  assumes "map (\<lambda>f. encode_frame f l) fs = map Inr bss"
    and "\<forall>f \<in> set fs. length (fr_message_id f) = 16"
    and "validate_limits l = Inr ()"
    and "concat chunks = concat bss"
    and "set (chunk_ends 0 chunks) \<inter> set (varint_ends 0 fs) = {}"
  shows "\<exists>d. feed chunks (fsd_new l) = Some (fs, d) \<and> buffered_bytes d = 0 \<and> \<not> fsd_poisoned d"
proof -
  have "\<forall>f \<in> set fs. sendable l f" "bss = map frame_bytes fs"
    using assms(1,2)
    by (induction fs arbitrary: bss) (auto simp: sendable_def encode_frame_iff frame_bytes_def
      Cons_eq_map_conv)
  then show ?thesis
    using feed_frames [of "fsd_new l" l fs chunks 0] assms(3-5) frame_bytes_nonempty
    by (auto simp: fsd_new_def live_def buffered_bytes_def)
qed

text \<open>Two pings in two chunks, the boundary inside the first frame's message identifier.\<close>

theorem frame_stream_delivery_witness:
  "let f = \<lparr>fr_type = ft_ping, fr_flags = 1, fr_channel_id = 0, fr_message_id = replicate 16 9,
            fr_payload = []\<rparr>;
       bs = [0x13, 0x03, 1, 0] @ replicate 16 9
   in \<exists>d. feed [take 7 bs, drop 7 bs @ bs] (fsd_new default_limits) = Some ([f, f], d) \<and>
        buffered_bytes d = 0"
proof -
  let ?f = "\<lparr>fr_type = ft_ping, fr_flags = 1, fr_channel_id = 0, fr_message_id = replicate 16 9,
            fr_payload = []\<rparr>"
  let ?bs = "[0x13, 0x03, 1, 0] @ replicate 16 9 :: bytes"
  have v: "varint_size 19 = 1" "append_varint 0 = [0]" "append_varint 19 = [19]"
    by (simp_all add: varint_size.simps append_varint.simps)
  have b: "body_of ?f = [0x03, 1, 0] @ replicate 16 9" by (simp add: body_of_def v)
  have "encodable ?f default_limits"
    unfolding encodable_def b
    by (simp add: frame_known_flags_def frame_flag_required_def id_is_zero_iff channel_error_def
      requires_business_channel_def payload_limit_error_def)
  then have e: "encode_frame ?f default_limits = Inr ?bs"
    by (subst encode_frame_iff) (simp_all add: b v)
  have "set (chunk_ends 0 [take 7 ?bs, drop 7 ?bs @ ?bs]) \<inter> set (varint_ends 0 [?f, ?f]) = {}"
    by (simp add: b v)
  moreover have "replicate 3 9 @ replicate 13 9 = (replicate 16 9 :: bytes)"
    by (simp flip: replicate_add)
  ultimately show ?thesis
    using frame_stream_delivery [of default_limits "[?f, ?f]" "[?bs, ?bs]"
      "[take 7 ?bs, drop 7 ?bs @ ?bs]"] e
    by (simp add: Let_def del: feed.simps) blast
qed

text \<open>The buffered octets are one complete length varint of an admissible length and no more.\<close>

definition only_length :: "FrameStreamDecoder \<Rightarrow> bool" where
  "only_length d \<longleftrightarrow>
    (case decode_varint (pending_of d) (of_nat (min (max_frame_bytes (fsd_limits d)) 4294967295)) of
       VParsed len n \<Rightarrow> n = length (pending_of d) \<and> minimum_body_size \<le> unat len
     | _ \<Rightarrow> False)"

lemma only_length_undefined: "live d \<Longrightarrow> only_length d \<longleftrightarrow> fst (next_view d) = FS_undefined"
  unfolding next_view_undefined_iff only_length_def by (auto split: VarintResult.split)

text \<open>
  C14: on a usable decoder \<open>next_view\<close> agrees with \<open>parse_frame\<close> on the buffered octets with two
  exceptions.  It hands out the same frame.  When the one-shot parser waits it waits, except that it
  reads one octet past its buffer exactly when the buffer ends right after an admissible length.
  When the one-shot parser rejects it is poisoned, except for a pairing-approval request on a
  business channel, which the stream decoder lets through.
\<close>

theorem stream_decoder_agrees:
  assumes "\<not> fsd_poisoned d" and "validate_limits (fsd_limits d) = Inr ()"
  shows "case parse_frame (pending_of d) (fsd_limits d) of
      FParsed n f \<Rightarrow> next_view d = (FS_parsed f, d\<lparr>fsd_last_view_end := Some (fsd_offset d + n)\<rparr>)
    | FNeedMore \<Rightarrow> next_view d = (if only_length d then FS_undefined else FS_need_more, d)
    | FInvalid e \<Rightarrow> (\<exists>detail. next_view d = poison d detail) \<or>
        (\<exists>f n. next_view d = (FS_parsed f, d\<lparr>fsd_last_view_end := Some n\<rparr>) \<and>
           fr_type f = ft_pairing_approval_request \<and> fr_channel_id f \<noteq> 0)"
proof -
  have l: "live d" using assms by (simp add: live_def)
  show ?thesis
    using next_view_parsed [OF l] next_view_need_more [OF l] next_view_invalid [OF l]
      only_length_undefined [OF l]
    by (auto split: FrameParseResult.split if_splits)
qed

text \<open>A decoder that holds a whole ping.\<close>

theorem stream_decoder_agrees_witness:
  "let f = \<lparr>fr_type = ft_ping, fr_flags = 1, fr_channel_id = 0, fr_message_id = replicate 16 9,
            fr_payload = []\<rparr>;
       d = (fsd_new default_limits)\<lparr>fsd_buffer := [0x13, 0x03, 1, 0] @ replicate 16 9\<rparr>
   in next_view d = (FS_parsed f, d\<lparr>fsd_last_view_end := Some 20\<rparr>)"
proof -
  let ?f = "\<lparr>fr_type = ft_ping, fr_flags = 1, fr_channel_id = 0, fr_message_id = replicate 16 9,
            fr_payload = []\<rparr>"
  let ?bs = "[0x13, 0x03, 1, 0] @ replicate 16 9 :: bytes"
  have v: "append_varint 0 = [0]" "append_varint 19 = [19]"
    by (simp_all add: append_varint.simps)
  have b: "body_of ?f = [0x03, 1, 0] @ replicate 16 9" by (simp add: body_of_def v)
  have "encodable ?f default_limits"
    unfolding encodable_def b
    by (simp add: frame_known_flags_def frame_flag_required_def id_is_zero_iff channel_error_def
      requires_business_channel_def payload_limit_error_def)
  then have "parse_frame ?bs default_limits = FParsed 20 ?f"
    using parse_encoded [of ?f default_limits "[]"] by (simp add: b v)
  then show ?thesis
    using stream_decoder_agrees [of "(fsd_new default_limits)\<lparr>fsd_buffer := ?bs\<rparr>"]
    by (simp add: fsd_new_def)
qed

text \<open>
  \<open>next_view\<close> reads one octet past its buffer exactly when the decoder is usable and the
  buffered octets are one complete length varint of an admissible length.
\<close>

theorem next_view_out_of_bounds:
  "fst (next_view d) = FS_undefined \<longleftrightarrow>
     \<not> fsd_poisoned d \<and> validate_limits (fsd_limits d) = Inr () \<and>
     (\<exists>len. decode_varint (pending_of d) (of_nat (min (max_frame_bytes (fsd_limits d)) 4294967295)) =
              VParsed len (length (pending_of d)) \<and> minimum_body_size \<le> unat len)"
  by (simp add: next_view_undefined_iff live_def)

text \<open>
  C40: what the stream encoder appends for a frame whose payload is within its type's limit, other
  than a pairing-approval request on a business channel, is the frame's one-shot encoding; the
  number it returns lies before the end of the output by the length of the frame header.
\<close>

theorem stream_encoder_agrees:
  assumes "stream_encode l out f = Inr (r, out')" and "length (fr_message_id f) = 16"
    and "payload_limit_error (fr_type f) (length (fr_payload f)) l = None"
    and "fr_type f \<noteq> ft_pairing_approval_request \<or> fr_channel_id f = 0"
  shows "take (length out) out' = out \<and> encode_frame f l = Inr (drop (length out) out') \<and>
    r + (18 + varint_size (fr_channel_id f)) = length out'"
proof -
  note e = assms(1) [unfolded stream_encode_iff [OF assms(2)]]
  have "encodable f l"
    using e assms(3,4)
    by (auto simp: encodable_def channel_error_def fs_requires_control_channel length_frame_bytes)
  then have "encode_frame f l = Inr (frame_bytes f)"
    using assms(2) by (simp add: encode_frame_iff frame_bytes_def)
  moreover have "length (body_of f) = 18 + varint_size (fr_channel_id f) + length (fr_payload f)"
    by (simp add: length_body_of [OF assms(2)] fixed_body_size_def)
  ultimately show ?thesis using e length_frame_bytes [of f] by simp
qed

theorem stream_encoder_agrees_witness:
  "let f = \<lparr>fr_type = ft_pairing_approval_request, fr_flags = 0, fr_channel_id = 0,
            fr_message_id = replicate 16 1, fr_payload = [7]\<rparr>;
       out = [0x14, 0x12, 0, 0] @ replicate 16 1 @ [7]
   in stream_encode default_limits [] f = Inr (2, out) \<and>
      encode_frame f default_limits = Inr out \<and> 2 + (18 + 1) = length out"
proof -
  let ?f = "\<lparr>fr_type = ft_pairing_approval_request, fr_flags = 0, fr_channel_id = 0,
            fr_message_id = replicate 16 1, fr_payload = [7]\<rparr>"
  let ?out = "[0x14, 0x12, 0, 0] @ replicate 16 1 @ [7] :: bytes"
  have v: "varint_size 0 = 1" "varint_size 20 = 1" "append_varint 0 = [0]" "append_varint 20 = [20]"
    by (simp_all add: varint_size.simps append_varint.simps)
  have b: "body_of ?f = [0x12, 0, 0] @ replicate 16 1 @ [7]" by (simp add: body_of_def v)
  have "stream_encode default_limits [] ?f = Inr (2, ?out)"
    by (subst stream_encode_iff)
       (simp_all add: length_frame_bytes frame_bytes_def b v id_is_zero_iff
         requires_business_channel_def)
  with stream_encoder_agrees [OF this] show ?thesis
    by (simp add: payload_limit_error_def v)
qed

text \<open>
  After any sequence of decoder operations the read offset stays inside the buffer and a
  pending view ends inside it, so \<open>buffered_bytes\<close> never underflows.
\<close>

theorem frame_stream_invariant:
  "let d = run fsd_step ops (fsd_new l)
   in fsd_inv d \<and> buffered_bytes d + fsd_offset d = length (fsd_buffer d)"
proof -
  have "fsd_inv (run fsd_step ops (fsd_new l))" by (rule fsd_machine.inv_reachable) blast
  then show ?thesis by (simp add: Let_def buffered_bytes_def fsd_inv_def)
qed

end
