(* ===== verification/Heyaki_Proto_Codec.thy ===== *)
theory Heyaki_Proto_Codec
  imports Heyaki_Core Heyaki_Varint
begin

text \<open>
  The hand-rolled Protobuf wire codec of \<open>proto_codec.hpp\<close> that every protocol payload is built
  from: the appending helpers and the field reader.  The reader is its unread suffix of the input
  and the component its errors carry.
\<close>

section \<open>Writers\<close>

definition protocol_error :: "string \<Rightarrow> string \<Rightarrow> Error" where
  "protocol_error detail component = err EC_protocol component detail"

function append_varint64 :: "u64 \<Rightarrow> bytes" where
  "append_varint64 v =
     (let b = ucast (v AND 0x7f) :: byte; v' = drop_bit 7 v
      in if v' \<noteq> 0 then (b OR 0x80) # append_varint64 v' else [b])"
  by auto
termination
proof (relation "measure unat", goal_cases)
  case (2 v b v')
  then have "unat v div 128 \<noteq> 0" by (simp add: word_unat_eq_iff unat_drop_bit)
  then show ?case using 2 by (simp add: unat_drop_bit)
qed simp

declare append_varint64.simps [simp del]

definition append_tag :: "u32 \<Rightarrow> byte \<Rightarrow> bytes" where
  "append_tag field wire_type = append_varint64 (push_bit 3 (ucast field) OR ucast wire_type)"

definition append_uint :: "u32 \<Rightarrow> u64 \<Rightarrow> bytes" where
  "append_uint field v = append_tag field 0 @ append_varint64 v"

definition append_bytes :: "u32 \<Rightarrow> bytes \<Rightarrow> bytes" where
  "append_bytes field v = append_tag field 2 @ append_varint64 (of_nat (length v)) @ v"

definition char_bytes :: "string \<Rightarrow> bytes" where
  "char_bytes s = map (\<lambda>c. of_char c) s"

text \<open>\<open>ProtoReader::text\<close>: the octets of a field as characters.\<close>

definition text_of :: "bytes \<Rightarrow> string" where
  "text_of bs = map (\<lambda>b. char_of (unat b)) bs"

definition append_text :: "u32 \<Rightarrow> string \<Rightarrow> bytes" where
  "append_text field v = append_bytes field (char_bytes v)"

section \<open>Reader\<close>

record ProtoField =
  pf_number :: u32
  pf_wire_type :: byte
  pf_integer :: u64
  pf_bytes :: bytes

record ProtoReader =
  pr_rest :: bytes
  pr_component :: string

definition reader_done :: "ProtoReader \<Rightarrow> bool" where
  "reader_done r \<longleftrightarrow> pr_rest r = []"

text \<open>The outcome of the varint loop together with the octets it left unread.\<close>

fun read_varint_loop :: "bytes \<Rightarrow> nat \<Rightarrow> u64 \<Rightarrow> (string + u64) \<times> bytes" where
  "read_varint_loop [] index v =
     (if index \<ge> 10 then (Inl ''protobuf_varint_overflow'', [])
      else (Inl ''protobuf_varint_truncated'', []))"
| "read_varint_loop (b # bs) index v =
     (if index \<ge> 10 then (Inl ''protobuf_varint_overflow'', b # bs)
      else if index = 9 \<and> b AND 0xfe \<noteq> 0 then (Inl ''protobuf_varint_overflow'', bs)
      else
        let v' = v OR push_bit (7 * index) (ucast (b AND 0x7f))
        in if b AND 0x80 = 0 then
             (if index > 0 \<and> b AND 0x7f = 0 then (Inl ''protobuf_varint_noncanonical'', bs)
              else (Inr v', bs))
           else read_varint_loop bs (index + 1) v')"

definition read_varint :: "ProtoReader \<Rightarrow> u64 result \<times> ProtoReader" where
  "read_varint r =
     (case read_varint_loop (pr_rest r) 0 0 of
        (Inl detail, rest) \<Rightarrow> (Inl (protocol_error detail (pr_component r)), r\<lparr>pr_rest := rest\<rparr>)
      | (Inr v, rest) \<Rightarrow> (Inr v, r\<lparr>pr_rest := rest\<rparr>))"

definition next_field :: "ProtoReader \<Rightarrow> ProtoField result \<times> ProtoReader" where
  "next_field r =
    (case read_varint r of
       (Inl e, r1) \<Rightarrow> (Inl e, r1)
     | (Inr tag, r1) \<Rightarrow>
       if tag = 0 \<or> drop_bit 3 tag > 536870911 then
         (Inl (protocol_error ''protobuf_tag_invalid'' (pr_component r)), r1)
       else
         let field = \<lparr>pf_number = ucast (drop_bit 3 tag), pf_wire_type = ucast (tag AND 0x07),
                      pf_integer = 0, pf_bytes = []\<rparr>
         in if pf_wire_type field = 0 then
              (case read_varint r1 of
                 (Inl e, r2) \<Rightarrow> (Inl e, r2)
               | (Inr v, r2) \<Rightarrow> (Inr (field\<lparr>pf_integer := v\<rparr>), r2))
            else if pf_wire_type field = 2 then
              (case read_varint r1 of
                 (Inl e, r2) \<Rightarrow>
                   (Inl (protocol_error ''protobuf_length_invalid'' (pr_component r)), r2)
               | (Inr len, r2) \<Rightarrow>
                   if unat len > length (pr_rest r2) then
                     (Inl (protocol_error ''protobuf_length_invalid'' (pr_component r)), r2)
                   else (Inr (field\<lparr>pf_bytes := take (unat len) (pr_rest r2)\<rparr>),
                         r2\<lparr>pr_rest := drop (unat len) (pr_rest r2)\<rparr>))
            else (Inl (protocol_error ''protobuf_wire_type_unsupported'' (pr_component r)), r1))"

definition copy_exact :: "bytes \<Rightarrow> nat \<Rightarrow> string \<Rightarrow> string \<Rightarrow> bytes result" where
  "copy_exact source size_value detail component =
     (if length source \<noteq> size_value then Inl (protocol_error detail component) else Inr source)"

section \<open>Specification vocabulary\<close>

text \<open>The fields the reader can return, and the octets a writer emits for one.\<close>

definition field_wf :: "ProtoField \<Rightarrow> bool" where
  "field_wf f \<longleftrightarrow> unat (pf_number f) \<le> 536870911 \<and>
     ((pf_wire_type f = 0 \<and> pf_number f \<noteq> 0 \<and> pf_bytes f = []) \<or>
      (pf_wire_type f = 2 \<and> pf_integer f = 0 \<and> length (pf_bytes f) < 2 ^ 64))"

definition field_bytes :: "ProtoField \<Rightarrow> bytes" where
  "field_bytes f = (if pf_wire_type f = 0 then append_uint (pf_number f) (pf_integer f)
     else append_bytes (pf_number f) (pf_bytes f))"

fun read_outcome :: "nat \<Rightarrow> bytes \<Rightarrow> (string + u64) \<times> bytes \<Rightarrow> u64 leb_outcome" where
  "read_outcome index bs (Inr v, rest) = LDone v (index + (length bs - length rest))"
| "read_outcome index bs (Inl d, rest) =
     (if d = ''protobuf_varint_truncated'' then LMore else LBad)"

abbreviation uint_field :: "u32 \<Rightarrow> u64 \<Rightarrow> ProtoField" where
  "uint_field n v \<equiv> \<lparr>pf_number = n, pf_wire_type = 0, pf_integer = v, pf_bytes = []\<rparr>"

abbreviation bytes_field :: "u32 \<Rightarrow> bytes \<Rightarrow> ProtoField" where
  "bytes_field n bs \<equiv> \<lparr>pf_number = n, pf_wire_type = 2, pf_integer = 0, pf_bytes = bs\<rparr>"

definition tag_of :: "u32 \<Rightarrow> byte \<Rightarrow> u64" where
  "tag_of n w = push_bit 3 (ucast n) OR ucast w"

section \<open>Varints\<close>

lemma read_varint_loop_rest: "snd (read_varint_loop bs i v) = drop (length bs - length (snd (read_varint_loop bs i v))) bs
   \<and> length (snd (read_varint_loop bs i v)) \<le> length bs"
proof (induction bs arbitrary: i v)
  case (Cons b bs)
  show ?case using Cons.IH [of "i + 1" "v OR push_bit (7 * i) (ucast (b AND 0x7f))"]
    by (auto simp: Let_def Suc_diff_le)
qed simp

lemma proto_loop_width: "b AND 0xfe \<noteq> 0 \<longleftrightarrow> 2 ^ (LENGTH(64) - 7 * 9) \<le> unat (b :: byte)"
  by (simp add: word_nat not_less)

interpretation proto_varint: leb128 append_varint64
  "\<lambda>bs i a. read_outcome i bs (read_varint_loop bs i a)" 9
proof (unfold_locales, goal_cases)
  case (1 v)
  then show ?case by (subst append_varint64.simps) (simp add: Let_def)
next
  case (3 i b bs a)
  let ?a = "a OR push_bit (7 * i) (ucast (b AND 0x7f))"
  have "read_outcome i (b # bs) (read_varint_loop bs (i + 1) ?a) = read_outcome (i + 1) bs (read_varint_loop bs (i + 1) ?a)"
    using read_varint_loop_rest [of bs "i + 1" ?a]
    by (cases "read_varint_loop bs (i + 1) ?a" rule: read_outcome.cases [of "(i, bs, _)"]) (auto simp: Suc_diff_le)
  then show ?case using 3 by (auto simp: Let_def proto_loop_width)
qed simp_all

lemma read_append_varint: "read_varint_loop (append_varint64 v @ rest) 0 0 = (Inr v, rest)"
proof -
  let ?r = "read_varint_loop (append_varint64 v @ rest) 0 0"
  have "read_outcome 0 (append_varint64 v @ rest) ?r = LDone v (length (append_varint64 v))"
    by (rule proto_varint.decode_encode)
  then obtain r where r: "?r = (Inr v, r)" "length (append_varint64 v @ rest) - length r = length (append_varint64 v)"
    by (cases ?r; cases "fst ?r") (auto split: if_splits)
  then show ?thesis using read_varint_loop_rest [of "append_varint64 v @ rest" 0 0] by auto
qed

lemma read_varint_canonical:
  assumes "read_varint_loop bs 0 0 = (Inr v, rest)"
  shows "bs = append_varint64 v @ rest"
proof -
  have "read_outcome 0 bs (read_varint_loop bs 0 0) = LDone v (length bs - length rest)" using assms by simp
  then have "take (length bs - length rest) bs = append_varint64 v" 
    using proto_varint.decode_canonical by blast
  moreover have "rest = drop (length bs - length rest) bs"
    using read_varint_loop_rest [of bs 0 0] assms by simp
  ultimately show ?thesis by (metis append_take_drop_id)
qed

lemma read_varint_append: "pr_rest r = append_varint64 v @ rest \<Longrightarrow> read_varint r = (Inr v, r\<lparr>pr_rest := rest\<rparr>)"
  by (simp add: read_varint_def read_append_varint)

lemma read_varint_ok: "read_varint r = (Inr v, r1) \<Longrightarrow> \<exists>rest. pr_rest r = append_varint64 v @ rest \<and> r1 = r\<lparr>pr_rest := rest\<rparr>"
  by (auto simp: read_varint_def dest: read_varint_canonical split: prod.splits sum.splits)

section \<open>Fields\<close>

lemma unat_tag: "unat w < 8 \<Longrightarrow> unat (tag_of n w) = unat n * 8 + unat w"
proof -
  assume w: "unat w < 8"
  have "unat (ucast n :: u64) = unat n" using unat_u32_bound [of n] by (simp add: unat_ucast)
  moreover have "unat (ucast w :: u64) = unat w" using w by (simp add: unat_ucast)
  moreover have "unat (push_bit 3 (ucast n) :: u64) = 8 * unat n"
    using calculation unat_u32_bound [of n] by (simp add: unat_push_bit)
  ultimately show ?thesis
    using unat_or_disjoint [of "ucast w :: u64" 3 "push_bit 3 (ucast n)"] w
    by (simp add: tag_of_def or.commute)
qed

lemma unat_and_07 [word_nat]: "unat (w AND 0x07 :: 'a::len word) = unat w mod 8"
  using unat_and_mask [of w 3] by (simp add: mask_eq_exp_minus_1)

lemma tag_split:
  assumes "unat w < 8"
  shows "ucast (drop_bit 3 (tag_of n w)) = n" "ucast (tag_of n w AND 0x07) = w"
    "drop_bit 3 (tag_of n w) > 536870911 \<longleftrightarrow> unat n > 536870911" "tag_of n w = 0 \<longleftrightarrow> n = 0 \<and> w = 0"
  using assms unat_u32_bound [of n]
  by (auto simp: word_unat_eq_iff word_less_nat_alt unat_tag word_nat)

lemma tag_join:
  assumes "drop_bit 3 t \<le> (536870911 :: u64)"
  shows "t = tag_of (ucast (drop_bit 3 t)) (ucast (t AND 0x07))" "unat (ucast (drop_bit 3 t) :: u32) \<le> 536870911"
proof -
  have d: "unat t div 8 \<le> 536870911" using assms by (simp add: word_le_nat_alt unat_drop_bit)
  have w: "unat (ucast (t AND 0x07) :: byte) = unat t mod 8" by (simp add: word_nat)
  have n: "unat (ucast (drop_bit 3 t) :: u32) = unat t div 8" using d by (simp add: word_nat)
  show "unat (ucast (drop_bit 3 t) :: u32) \<le> 536870911" using n d by simp
  show "t = tag_of (ucast (drop_bit 3 t)) (ucast (t AND 0x07))"
    using unat_tag [of "ucast (t AND 0x07)" "ucast (drop_bit 3 t)"] w n by (simp add: word_unat_eq_iff)
qed

lemma append_tag_of: "append_tag n w = append_varint64 (tag_of n w)"
  by (simp add: append_tag_def tag_of_def)

lemma next_field_bytes:
  assumes "field_wf f" "pr_rest r = field_bytes f @ rest"
  shows "next_field r = (Inr f, r\<lparr>pr_rest := rest\<rparr>)"
proof (cases "pf_wire_type f = 0")
  case True
  then have wf: "unat (pf_number f) \<le> 536870911" "pf_number f \<noteq> 0" "pf_bytes f = []"
    using assms(1) by (auto simp: field_wf_def)
  have "pr_rest r = append_varint64 (tag_of (pf_number f) 0) @ append_varint64 (pf_integer f) @ rest"
    using assms(2) True by (simp add: field_bytes_def append_uint_def append_tag_of)
  note r = read_varint_append [OF this]
  show ?thesis using wf True tag_split [of 0 "pf_number f"]
    by (simp add: next_field_def r read_varint_append not_less Let_def)
next
  case False
  then have wf: "unat (pf_number f) \<le> 536870911" "pf_wire_type f = 2" "pf_integer f = 0" "length (pf_bytes f) < 2 ^ 64"
    using assms(1) by (auto simp: field_wf_def)
  have "pr_rest r = append_varint64 (tag_of (pf_number f) 2) @ append_varint64 (of_nat (length (pf_bytes f))) @ pf_bytes f @ rest"
    using assms(2) wf(2) by (simp add: field_bytes_def append_bytes_def append_tag_of)
  note r = read_varint_append [OF this]
  have "unat (of_nat (length (pf_bytes f)) :: u64) = length (pf_bytes f)" using wf(4) by (simp add: unat_of_nat)
  then show ?thesis using wf tag_split [of 2 "pf_number f"]
    by (simp add: next_field_def r read_varint_append not_less Let_def)
qed

lemma next_field_canonical:
  assumes "next_field r = (Inr f, r1)"
  shows "field_wf f \<and> (\<exists>rest. pr_rest r = field_bytes f @ rest \<and> r1 = r\<lparr>pr_rest := rest\<rparr>)"
proof -
  obtain t r2 where t: "read_varint r = (Inr t, r2)" "t \<noteq> 0" "\<not> drop_bit 3 t > 536870911"
    using assms by (auto simp: next_field_def split: prod.splits sum.splits if_splits)
  obtain rest where rest: "pr_rest r = append_varint64 t @ rest" "r2 = r\<lparr>pr_rest := rest\<rparr>"
    using read_varint_ok [OF t(1)] by blast
  define n w where "n = (ucast (drop_bit 3 t) :: u32)" and "w = (ucast (t AND 0x07) :: byte)"
  have j: "t = tag_of n w" "unat n \<le> 536870911" using tag_join [of t] t(3) by (simp_all add: n_def w_def)
  have nf: "next_field r =
      (if w = 0 then (case read_varint r2 of (Inl e, r3) \<Rightarrow> (Inl e, r3)
         | (Inr v, r3) \<Rightarrow> (Inr \<lparr>pf_number = n, pf_wire_type = w, pf_integer = v, pf_bytes = []\<rparr>, r3))
       else if w = 2 then (case read_varint r2 of
           (Inl e, r3) \<Rightarrow> (Inl (protocol_error ''protobuf_length_invalid'' (pr_component r)), r3)
         | (Inr len, r3) \<Rightarrow>
           if unat len > length (pr_rest r3) then
             (Inl (protocol_error ''protobuf_length_invalid'' (pr_component r)), r3)
           else (Inr \<lparr>pf_number = n, pf_wire_type = w, pf_integer = 0,
                      pf_bytes = take (unat len) (pr_rest r3)\<rparr>,
                 r3\<lparr>pr_rest := drop (unat len) (pr_rest r3)\<rparr>))
       else (Inl (protocol_error ''protobuf_wire_type_unsupported'' (pr_component r)), r2))"
    using t by (auto simp: next_field_def n_def w_def Let_def split: prod.splits sum.splits)
  show ?thesis
  proof (cases "w = 0")
    case True
    then obtain v where v: "read_varint r2 = (Inr v, r1)" "f = \<lparr>pf_number = n, pf_wire_type = 0, pf_integer = v, pf_bytes = []\<rparr>"
      using assms t by (auto simp: nf split: prod.splits sum.splits)
    then have "n \<noteq> 0" using t(2) j(1) True tag_split(4) [of 0 n] by auto
    moreover obtain rest' where "rest = append_varint64 v @ rest'" "r1 = r\<lparr>pr_rest := rest'\<rparr>"
      using read_varint_ok [OF v(1)] rest by auto
    ultimately show ?thesis
      using v(2) rest j True by (simp add: field_wf_def field_bytes_def append_uint_def append_tag_of)
  next
    case False
    then obtain len r3 where w2: "w = 2" and v: "read_varint r2 = (Inr len, r3)" "unat len \<le> length (pr_rest r3)"
      "f = \<lparr>pf_number = n, pf_wire_type = 2, pf_integer = 0, pf_bytes = take (unat len) (pr_rest r3)\<rparr>"
      "r1 = r3\<lparr>pr_rest := drop (unat len) (pr_rest r3)\<rparr>"
      using assms t by (auto simp: nf split: prod.splits sum.splits if_splits)
    obtain rest' where r3: "rest = append_varint64 len @ rest'" "r3 = r\<lparr>pr_rest := rest'\<rparr>"
      using read_varint_ok [OF v(1)] rest by auto
    have "length (take (unat len) rest') = unat len" using v(2) r3 by simp
    moreover have "length (take (unat len) rest') < 2 ^ 64" using unat_u64_bound [of len] by simp
    ultimately have "field_wf f" using v(3) r3 j(2) by (simp add: field_wf_def)
    moreover have "pr_rest r = field_bytes f @ drop (unat len) rest'"
      using v(2,3) r3 rest(1) j(1) w2 by (simp add: field_bytes_def append_bytes_def append_tag_of)
    moreover have "r1 = r\<lparr>pr_rest := drop (unat len) rest'\<rparr>" using v(4) r3 by simp
    ultimately show ?thesis by blast
  qed
qed

lemma append_varint64_nonempty [simp]: "append_varint64 v \<noteq> []"
  using proto_varint.length_enc_pos [of v] by simp

lemma field_bytes_nonempty: "field_bytes f \<noteq> []"
  by (simp add: field_bytes_def append_uint_def append_bytes_def append_tag_of)

lemma next_field_shrinks:
  "next_field r = (Inr f, r1) \<Longrightarrow> length (pr_rest r1) < length (pr_rest r)"
  using next_field_canonical [of r f r1] field_bytes_nonempty [of f] by auto

lemma field_bytes_uint [simp]: "field_bytes (uint_field n v) = append_uint n v"
  and field_bytes_bytes [simp]: "field_bytes (bytes_field n bs) = append_bytes n bs"
  by (simp_all add: field_bytes_def)

lemma length_char_bytes [simp]: "length (char_bytes s) = length s"
  by (simp add: char_bytes_def)

lemma text_of_char_bytes [simp]: "text_of (char_bytes s) = s"
proof -
  have "char_of (unat (of_char c :: byte)) = c" for c
  proof -
    have "(of_char c :: byte) = of_nat (of_char c)" by (simp add: of_nat_of_char)
    then show ?thesis using nat_of_char_less_256 [of c] by (simp add: unat_of_nat)
  qed
  then show ?thesis by (simp add: text_of_def char_bytes_def comp_def)
qed

section \<open>The decoding loop\<close>

text \<open>
  \<open>while (!reader.done()) { auto field = reader.next(); ... }\<close>: the loop every payload decoder
  runs, with its treatment of one field as a parameter.  It ends because a field takes at least
  one octet.
\<close>

function proto_loop ::
  "(ProtoField \<Rightarrow> 's \<Rightarrow> 's result) \<Rightarrow> ProtoReader \<Rightarrow> 's \<Rightarrow> 's result" where
  "proto_loop handle r s =
    (if reader_done r then Inr s
     else case next_field r of
       (Inl e, r1) \<Rightarrow> Inl e
     | (Inr f, r1) \<Rightarrow>
       (case handle f s of Inl e \<Rightarrow> Inl e | Inr s1 \<Rightarrow> proto_loop handle r1 s1))"
  by auto
termination
  by (relation "measure (\<lambda>(h, r, s). length (pr_rest r))") (auto dest: next_field_shrinks [OF sym])

declare proto_loop.simps [simp del]

definition read_all :: "(ProtoField \<Rightarrow> 's \<Rightarrow> 's result) \<Rightarrow> bytes \<Rightarrow> string \<Rightarrow> 's \<Rightarrow> 's result" where
  "read_all handle input component s =
     proto_loop handle \<lparr>pr_rest = input, pr_component = component\<rparr> s"

definition all_fields :: "bytes \<Rightarrow> string \<Rightarrow> ProtoField list result" where
  "all_fields input component = read_all (\<lambda>f fs. Inr (fs @ [f])) input component []"

fun fold_result :: "('f \<Rightarrow> 's \<Rightarrow> 's result) \<Rightarrow> 'f list \<Rightarrow> 's \<Rightarrow> 's result" where
  "fold_result handle [] s = Inr s"
| "fold_result handle (f # fs) s =
     (case handle f s of Inl e \<Rightarrow> Inl e | Inr s1 \<Rightarrow> fold_result handle fs s1)"

lemma fold_result_append:
  "fold_result h (xs @ ys) s = (case fold_result h xs s of Inl e \<Rightarrow> Inl e | Inr t \<Rightarrow> fold_result h ys t)"
  by (induction xs arbitrary: s) (auto split: sum.splits)

lemma proto_loop_encoded:
  "\<forall>f \<in> set fs. field_wf f \<Longrightarrow> pr_rest r = concat (map field_bytes fs) \<Longrightarrow>
     proto_loop handle r s = fold_result handle fs s"
proof (induction fs arbitrary: r s)
  case Nil
  then show ?case by (simp add: proto_loop.simps reader_done_def)
next
  case (Cons f fs)
  have "next_field r = (Inr f, r\<lparr>pr_rest := concat (map field_bytes fs)\<rparr>)"
    using next_field_bytes [of f r "concat (map field_bytes fs)"] Cons.prems by simp
  moreover have "\<not> reader_done r" using Cons.prems field_bytes_nonempty [of f] by (simp add: reader_done_def)
  ultimately show ?case
    using Cons.IH [of "r\<lparr>pr_rest := concat (map field_bytes fs)\<rparr>"] Cons.prems
    by (subst proto_loop.simps) (simp split: sum.split)
qed

lemma read_all_encoded:
  "\<forall>f \<in> set fs. field_wf f \<Longrightarrow>
     read_all handle (concat (map field_bytes fs)) component s = fold_result handle fs s"
  by (simp add: read_all_def proto_loop_encoded)

text \<open>Whatever a decoder does with the fields, what it accepts is a sequence of written fields.\<close>

lemma proto_loop_accepts:
  "proto_loop handle r s = Inr t \<Longrightarrow>
     \<exists>fs. (\<forall>f \<in> set fs. field_wf f) \<and> pr_rest r = concat (map field_bytes fs) \<and>
       fold_result handle fs s = Inr t"
proof (induction handle r s rule: proto_loop.induct)
  case (1 handle r s)
  show ?case
  proof (cases "reader_done r")
    case True
    then show ?thesis using 1 (2) by (intro exI [of _ "[]"]) (simp add: proto_loop.simps reader_done_def)
  next
    case False
    then obtain f r1 s1 where f: "next_field r = (Inr f, r1)" "handle f s = Inr s1"
      "proto_loop handle r1 s1 = Inr t"
      using 1 (2) by (subst (asm) proto_loop.simps) (auto split: prod.splits sum.splits)
    obtain fs where fs: "\<forall>f \<in> set fs. field_wf f" "pr_rest r1 = concat (map field_bytes fs)"
      "fold_result handle fs s1 = Inr t"
      using 1 (1) [OF False f(1) [symmetric] refl f(2) f(3)] by blast
    then show ?thesis using next_field_canonical [OF f(1)] f(2)
      by (intro exI [of _ "f # fs"]) auto
  qed
qed

lemma fold_result_collect: "fold_result (\<lambda>f fs. Inr (fs @ [f])) fs gs = Inr (gs @ fs)"
  by (induction fs arbitrary: gs) auto

lemma all_fields_iff:
  "all_fields input component = Inr fs \<longleftrightarrow>
     (\<forall>f \<in> set fs. field_wf f) \<and> input = concat (map field_bytes fs)"
proof
  assume "all_fields input component = Inr fs"
  then show "(\<forall>f \<in> set fs. field_wf f) \<and> input = concat (map field_bytes fs)"
    using proto_loop_accepts [of _ "\<lparr>pr_rest = input, pr_component = component\<rparr>"]
    by (fastforce simp: all_fields_def read_all_def fold_result_collect)
next
  assume "(\<forall>f \<in> set fs. field_wf f) \<and> input = concat (map field_bytes fs)"
  then show "all_fields input component = Inr fs"
    by (simp add: all_fields_def read_all_encoded fold_result_collect)
qed

interpretation proto_fields: canonical_codec
  "\<lambda>fs. if \<forall>f \<in> set fs. field_wf f then Some (concat (map field_bytes fs)) else None"
  "\<lambda>input. value_if (all_fields input component)" for component
  by unfold_locales (auto simp: all_fields_iff)

text \<open>
  C18: the field loop that every payload decoder runs terminates, and run to collect the fields it
  accepts an input exactly when the input is the concatenation of what the writers emit for the
  fields it returns: each field is recovered with its number, wire type and contents, and no two
  inputs yield the same fields.
\<close>

theorem proto_fields_exact:
  "all_fields input component = Inr fs \<longleftrightarrow>
     list_all field_wf fs \<and> input = concat (map field_bytes fs)"
  by (simp add: all_fields_iff list_all_iff)

end
