(* ===== verification/Heyaki_Message.thy ===== *)
theory Heyaki_Message
  imports Heyaki_Ids Heyaki_Proto_Codec
begin

text \<open>
  The message envelope and acknowledgement codecs of \<open>message.hpp\<close> and \<open>message_protocol.cpp\<close>,
  with the envelope validation shared by the send and receive paths.
\<close>

section \<open>Envelope\<close>

text \<open>An enumeration value that is neither of the two wire values is \<open>MDM_other\<close>.\<close>

datatype MessageDeliveryMode = MDM_best_effort | MDM_peer_acked | MDM_other u32

fun delivery_mode_value :: "MessageDeliveryMode \<Rightarrow> u32" where
  "delivery_mode_value MDM_best_effort = 1"
| "delivery_mode_value MDM_peer_acked = 2"
| "delivery_mode_value (MDM_other v) = v"

fun message_delivery_mode_name :: "MessageDeliveryMode \<Rightarrow> string" where
  "message_delivery_mode_name MDM_best_effort = ''best_effort''"
| "message_delivery_mode_name MDM_peer_acked = ''peer_acked''"
| "message_delivery_mode_name (MDM_other v) = ''unknown''"

datatype MessageDeliveryEvent =
    MDE_queued | MDE_send_failed | MDE_acked | MDE_peer_rejected | MDE_ack_timeout
  | MDE_session_closed

fun message_delivery_event_name :: "MessageDeliveryEvent \<Rightarrow> string" where
  "message_delivery_event_name MDE_queued = ''queued''"
| "message_delivery_event_name MDE_send_failed = ''send_failed''"
| "message_delivery_event_name MDE_acked = ''acked''"
| "message_delivery_event_name MDE_peer_rejected = ''peer_rejected''"
| "message_delivery_event_name MDE_ack_timeout = ''ack_timeout''"
| "message_delivery_event_name MDE_session_closed = ''session_closed''"

definition max_message_type_bytes :: nat where "max_message_type_bytes = 128"
definition max_message_headers :: nat where "max_message_headers = 64"
definition max_message_header_name_bytes :: nat where "max_message_header_name_bytes = 64"
definition max_message_header_value_bytes :: nat where "max_message_header_value_bytes = 256"
definition min_message_ttl_milliseconds :: u32 where "min_message_ttl_milliseconds = 1"
definition max_message_ttl_milliseconds :: u32 where "max_message_ttl_milliseconds = 600000"
definition default_message_ttl_milliseconds :: u32 where
  "default_message_ttl_milliseconds = 30000"

record MessageHeader =
  mh_name :: string
  mh_value :: bytes

record MessageEnvelope =
  me_message_id :: id_bytes
  me_type :: string
  me_schema_version :: u32
  me_ttl_milliseconds :: u32
  me_delivery_mode :: MessageDeliveryMode
  me_headers :: "MessageHeader list"
  me_payload :: bytes
  me_wall_time_unix_milliseconds :: "u64 option"

definition empty_envelope :: MessageEnvelope where
  "empty_envelope = \<lparr>me_message_id = replicate 16 0, me_type = [], me_schema_version = 1,
     me_ttl_milliseconds = default_message_ttl_milliseconds,
     me_delivery_mode = MDM_best_effort, me_headers = [], me_payload = [],
     me_wall_time_unix_milliseconds = None\<rparr>"

definition name_char :: "char \<Rightarrow> bool" where
  "name_char c \<longleftrightarrow> (CHR ''a'' \<le> c \<and> c \<le> CHR ''z'') \<or> (CHR ''A'' \<le> c \<and> c \<le> CHR ''Z'') \<or>
     (CHR ''0'' \<le> c \<and> c \<le> CHR ''9'') \<or> c = CHR ''_'' \<or> c = CHR ''-'' \<or> c = CHR ''.''"

definition name_token :: "string \<Rightarrow> bool" where
  "name_token value \<longleftrightarrow> list_all name_char value"

definition envelope_error :: "string \<Rightarrow> Error" where
  "envelope_error detail = err EC_protocol ''message'' detail"

fun validate_headers :: "MessageHeader list \<Rightarrow> unit result" where
  "validate_headers [] = Inr ()"
| "validate_headers (h # hs) =
    (if mh_name h = [] \<or> length (mh_name h) > max_message_header_name_bytes \<or>
        \<not> name_token (mh_name h) then Inl (envelope_error ''header_name_invalid'')
     else if length (mh_value h) > max_message_header_value_bytes then
       Inl (envelope_error ''header_value_oversized'')
     else validate_headers hs)"

definition validate_message_envelope :: "MessageEnvelope \<Rightarrow> Limits \<Rightarrow> unit result" where
  "validate_message_envelope envelope limits =
    (if id_is_zero (me_message_id envelope) then Inl (envelope_error ''message_id_missing'')
     else if me_type envelope = [] \<or> length (me_type envelope) > max_message_type_bytes \<or>
             \<not> name_token (me_type envelope) then Inl (envelope_error ''message_type_invalid'')
     else if me_schema_version envelope = 0 then Inl (envelope_error ''schema_version_invalid'')
     else if me_ttl_milliseconds envelope < min_message_ttl_milliseconds \<or>
             me_ttl_milliseconds envelope > max_message_ttl_milliseconds then
       Inl (envelope_error ''ttl_out_of_range'')
     else if me_delivery_mode envelope \<noteq> MDM_best_effort \<and>
             me_delivery_mode envelope \<noteq> MDM_peer_acked then
       Inl (envelope_error ''delivery_mode_invalid'')
     else if length (me_headers envelope) > max_message_headers then
       Inl (envelope_error ''header_count_exceeded'')
     else case validate_headers (me_headers envelope) of Inl e \<Rightarrow> Inl e | Inr _ \<Rightarrow>
     if length (me_payload envelope) > max_message_bytes limits then
       Inl (envelope_error ''payload_oversized'')
     else Inr ())"

definition append_header_entry :: "MessageHeader \<Rightarrow> bytes" where
  "append_header_entry h =
     append_bytes 6 (append_text 1 (mh_name h) @ append_bytes 2 (mh_value h))"

definition encode_message_envelope :: "MessageEnvelope \<Rightarrow> Limits \<Rightarrow> bytes result" where
  "encode_message_envelope envelope limits =
    (case validate_message_envelope envelope limits of Inl e \<Rightarrow> Inl e | Inr _ \<Rightarrow>
     Inr (append_bytes 1 (me_message_id envelope) @
          append_text 2 (me_type envelope) @
          append_uint 3 (ucast (me_schema_version envelope)) @
          append_uint 4 (ucast (me_ttl_milliseconds envelope)) @
          append_uint 5 (ucast (delivery_mode_value (me_delivery_mode envelope))) @
          concat (map append_header_entry (me_headers envelope)) @
          append_bytes 7 (me_payload envelope) @
          (case me_wall_time_unix_milliseconds envelope of
             None \<Rightarrow> [] | Some t \<Rightarrow> append_uint 8 t)))"

section \<open>Parsing\<close>

definition entry_field :: "ProtoField \<Rightarrow> MessageHeader \<times> bool \<Rightarrow> (MessageHeader \<times> bool) result" where
  "entry_field f s =
    (case s of (header, have_key) \<Rightarrow>
     if pf_number f = 1 \<and> pf_wire_type f = 2 then
       Inr (header\<lparr>mh_name := text_of (pf_bytes f)\<rparr>, True)
     else if pf_number f = 2 \<and> pf_wire_type f = 2 then
       Inr (header\<lparr>mh_value := pf_bytes f\<rparr>, have_key)
     else Inr (header, have_key))"

record EnvelopeParse =
  ep_envelope :: MessageEnvelope
  ep_have_id :: bool
  ep_have_type :: bool
  ep_have_ttl :: bool
  ep_have_mode :: bool
  ep_have_schema :: bool

definition envelope_field :: "ProtoField \<Rightarrow> EnvelopeParse \<Rightarrow> EnvelopeParse result" where
  "envelope_field f p =
    (let env = ep_envelope p in
     if pf_number f = 1 \<and> pf_wire_type f = 2 then
       (if length (pf_bytes f) \<noteq> 16 then Inl (envelope_error ''message_id_field_invalid'')
        else Inr (p\<lparr>ep_envelope := env\<lparr>me_message_id := pf_bytes f\<rparr>, ep_have_id := True\<rparr>))
     else if pf_number f = 2 \<and> pf_wire_type f = 2 then
       Inr (p\<lparr>ep_envelope := env\<lparr>me_type := text_of (pf_bytes f)\<rparr>, ep_have_type := True\<rparr>)
     else if pf_number f = 3 \<and> pf_wire_type f = 0 then
       Inr (p\<lparr>ep_envelope := env\<lparr>me_schema_version := ucast (pf_integer f)\<rparr>,
              ep_have_schema := True\<rparr>)
     else if pf_number f = 4 \<and> pf_wire_type f = 0 then
       Inr (p\<lparr>ep_envelope := env\<lparr>me_ttl_milliseconds := ucast (pf_integer f)\<rparr>,
              ep_have_ttl := True\<rparr>)
     else if pf_number f = 5 \<and> pf_wire_type f = 0 then
       (let mode = ucast (pf_integer f) :: u32 in
        if mode = 1 then
          Inr (p\<lparr>ep_envelope := env\<lparr>me_delivery_mode := MDM_best_effort\<rparr>, ep_have_mode := True\<rparr>)
        else if mode = 2 then
          Inr (p\<lparr>ep_envelope := env\<lparr>me_delivery_mode := MDM_peer_acked\<rparr>, ep_have_mode := True\<rparr>)
        else Inl (envelope_error ''delivery_mode_invalid''))
     else if pf_number f = 6 \<and> pf_wire_type f = 2 then
       (if length (me_headers env) \<ge> max_message_headers then
          Inl (envelope_error ''header_count_exceeded'')
        else case read_all entry_field (pf_bytes f) ''proto''
                    (\<lparr>mh_name = [], mh_value = []\<rparr>, False) of
            Inl e \<Rightarrow> Inl e
          | Inr (header, have_key) \<Rightarrow>
            if \<not> have_key then Inl (envelope_error ''header_key_missing'')
            else Inr (p\<lparr>ep_envelope := env\<lparr>me_headers := me_headers env @ [header]\<rparr>\<rparr>))
     else if pf_number f = 7 \<and> pf_wire_type f = 2 then
       Inr (p\<lparr>ep_envelope := env\<lparr>me_payload := pf_bytes f\<rparr>\<rparr>)
     else if pf_number f = 8 \<and> pf_wire_type f = 0 then
       Inr (p\<lparr>ep_envelope := env\<lparr>me_wall_time_unix_milliseconds := Some (pf_integer f)\<rparr>\<rparr>)
     else Inr p)"

definition envelope_start :: EnvelopeParse where
  "envelope_start = \<lparr>ep_envelope = empty_envelope, ep_have_id = False, ep_have_type = False,
     ep_have_ttl = False, ep_have_mode = False, ep_have_schema = False\<rparr>"

definition parse_message_envelope :: "bytes \<Rightarrow> Limits \<Rightarrow> MessageEnvelope result" where
  "parse_message_envelope payload limits =
    (if length payload > max_message_bytes limits then
       Inl (envelope_error ''envelope_oversized'')
     else case read_all envelope_field payload ''proto'' envelope_start of
       Inl e \<Rightarrow> Inl e
     | Inr p \<Rightarrow>
       if \<not> ep_have_id p \<or> \<not> ep_have_type p \<or> \<not> ep_have_schema p \<or> \<not> ep_have_ttl p \<or>
          \<not> ep_have_mode p then Inl (envelope_error ''envelope_field_missing'')
       else case validate_message_envelope (ep_envelope p) limits of
           Inl e \<Rightarrow> Inl e
         | Inr _ \<Rightarrow> Inr (ep_envelope p))"

section \<open>Acknowledgement\<close>

record MessageAckBody =
  ack_message_id :: id_bytes
  ack_protocol_accepted :: bool

definition encode_message_ack :: "MessageAckBody \<Rightarrow> bytes result" where
  "encode_message_ack ack =
    (if id_is_zero (ack_message_id ack) then Inl (envelope_error ''message_id_missing'')
     else Inr (append_bytes 1 (ack_message_id ack) @
               append_uint 2 (if ack_protocol_accepted ack then 1 else 0)))"

definition ack_field :: "ProtoField \<Rightarrow> MessageAckBody \<times> bool \<Rightarrow> (MessageAckBody \<times> bool) result" where
  "ack_field f s =
    (case s of (ack, have_id) \<Rightarrow>
     if pf_number f = 1 \<and> pf_wire_type f = 2 then
       (if length (pf_bytes f) \<noteq> 16 then Inl (envelope_error ''message_id_field_invalid'')
        else Inr (ack\<lparr>ack_message_id := pf_bytes f\<rparr>, True))
     else if pf_number f = 2 \<and> pf_wire_type f = 0 then
       Inr (ack\<lparr>ack_protocol_accepted := pf_integer f \<noteq> 0\<rparr>, have_id)
     else Inr (ack, have_id))"

definition parse_message_ack :: "bytes \<Rightarrow> MessageAckBody result" where
  "parse_message_ack payload =
    (case read_all ack_field payload ''proto''
            (\<lparr>ack_message_id = replicate 16 0, ack_protocol_accepted = False\<rparr>, False) of
       Inl e \<Rightarrow> Inl e
     | Inr (ack, have_id) \<Rightarrow>
       if \<not> have_id then Inl (envelope_error ''message_id_field_missing'')
       else if id_is_zero (ack_message_id ack) then Inl (envelope_error ''message_id_missing'')
       else Inr ack)"

section \<open>The fields a message is written as\<close>

definition header_field :: "MessageHeader \<Rightarrow> ProtoField" where
  "header_field h =
     bytes_field 6 (append_text 1 (mh_name h) @ append_bytes 2 (mh_value h))"

definition envelope_fields :: "MessageEnvelope \<Rightarrow> ProtoField list" where
  "envelope_fields env =
     [bytes_field 1 (me_message_id env), bytes_field 2 (char_bytes (me_type env)),
      uint_field 3 (ucast (me_schema_version env)),
      uint_field 4 (ucast (me_ttl_milliseconds env)),
      uint_field 5 (ucast (delivery_mode_value (me_delivery_mode env)))] @
     map header_field (me_headers env) @
     [bytes_field 7 (me_payload env)] @
     (case me_wall_time_unix_milliseconds env of None \<Rightarrow> [] | Some t \<Rightarrow> [uint_field 8 t])"

section \<open>Round trips\<close>

lemma append_header_entry_field: "append_header_entry = (\<lambda>h. field_bytes (header_field h))"
  by (simp add: fun_eq_iff append_header_entry_def header_field_def)

lemma encode_envelope_fields:
  "encode_message_envelope env l = Inr bs \<Longrightarrow>
     validate_message_envelope env l = Inr () \<and> bs = concat (map field_bytes (envelope_fields env))"
  by (auto simp: encode_message_envelope_def envelope_fields_def append_text_def comp_def
    append_header_entry_field split: sum.splits option.splits)

lemma validate_headers_all:
  "validate_headers hs = Inr () \<Longrightarrow> \<forall>h \<in> set hs. length (mh_name h) \<le> 64 \<and> length (mh_value h) \<le> 256"
  by (induction hs) (auto simp: max_message_header_name_bytes_def max_message_header_value_bytes_def split: if_splits)

lemma length_append_varint64: "length (append_varint64 v) \<le> 10"
  using proto_varint.length_enc_le [of v] by simp

lemma length_append_bytes: "length (append_bytes n bs) \<le> 20 + length bs"
  using length_append_varint64 [of "tag_of n 2"] length_append_varint64 [of "of_nat (length bs)"]
  by (simp add: append_bytes_def append_tag_of)

lemma header_field_wf: "length (mh_name h) \<le> 64 \<Longrightarrow> length (mh_value h) \<le> 256 \<Longrightarrow> field_wf (header_field h)"
  using length_append_bytes [of 1 "char_bytes (mh_name h)"] length_append_bytes [of 2 "mh_value h"]
  by (simp add: field_wf_def header_field_def append_text_def)

lemma validate_envelope_bounds:
  assumes "validate_message_envelope env l = Inr ()"
  shows "length (me_type env) \<le> 128" "length (me_headers env) \<le> 64" "length (me_payload env) \<le> max_message_bytes l"
    "validate_headers (me_headers env) = Inr ()" "me_delivery_mode env = MDM_best_effort \<or> me_delivery_mode env = MDM_peer_acked"
  using assms by (auto simp: validate_message_envelope_def max_message_type_bytes_def max_message_headers_def split: if_splits sum.splits)

lemma envelope_fields_wf:
  assumes "validate_message_envelope env l = Inr ()" "length (me_message_id env) = 16" "max_message_bytes l < 2 ^ 64"
  shows "\<forall>f \<in> set (envelope_fields env). field_wf f"
proof -
  note b = validate_envelope_bounds [OF assms(1)]
  have "\<forall>h \<in> set (me_headers env). field_wf (header_field h)"
    using validate_headers_all [OF b(4)] header_field_wf by blast
  then show ?thesis
    using b(1,3) assms(2,3) by (auto simp: envelope_fields_def field_wf_def split: option.splits)
qed

lemma entry_roundtrip:
  assumes "length (mh_name h) \<le> 64" "length (mh_value h) \<le> 256"
  shows "read_all entry_field (append_text 1 (mh_name h) @ append_bytes 2 (mh_value h)) co s = Inr (h, True)"
proof -
  let ?fs = "[bytes_field 1 (char_bytes (mh_name h)), bytes_field 2 (mh_value h)]"
  have "\<forall>f \<in> set ?fs. field_wf f" using assms by (simp add: field_wf_def)
  from read_all_encoded [OF this, of entry_field co s] show ?thesis
    by (cases s) (simp add: append_text_def entry_field_def)
qed

lemma fold_headers:
  "\<forall>h \<in> set hs. length (mh_name h) \<le> 64 \<and> length (mh_value h) \<le> 256 \<Longrightarrow>
   length (me_headers (ep_envelope p)) + length hs \<le> 64 \<Longrightarrow>
   fold_result envelope_field (map header_field hs) p =
     Inr (p\<lparr>ep_envelope := (ep_envelope p)\<lparr>me_headers := me_headers (ep_envelope p) @ hs\<rparr>\<rparr>)"
proof (induction hs arbitrary: p)
  case (Cons h hs)
  have "envelope_field (header_field h) p =
    Inr (p\<lparr>ep_envelope := (ep_envelope p)\<lparr>me_headers := me_headers (ep_envelope p) @ [h]\<rparr>\<rparr>)"
    using Cons.prems entry_roundtrip [of h] by (simp add: envelope_field_def header_field_def max_message_headers_def Let_def)
  then show ?case using Cons by simp
qed simp

lemma ucast_u32_u64 [simp]: "(ucast (ucast (v :: u32) :: u64) :: u32) = v"
  using unat_u32_bound [of v] by (simp add: word_unat_eq_iff unat_ucast)

lemma fold_envelope:
  assumes "validate_message_envelope env l = Inr ()" "length (me_message_id env) = 16"
  shows "fold_result envelope_field (envelope_fields env) envelope_start =
    Inr \<lparr>ep_envelope = env, ep_have_id = True, ep_have_type = True,
     ep_have_ttl = True, ep_have_mode = True, ep_have_schema = True\<rparr>"
proof -
  note b = validate_envelope_bounds [OF assms(1)]
  define p where "p = \<lparr>ep_envelope = env\<lparr>me_headers := [], me_payload := [], me_wall_time_unix_milliseconds := None\<rparr>,
     ep_have_id = True, ep_have_type = True, ep_have_ttl = True, ep_have_mode = True, ep_have_schema = True\<rparr>"
  have "fold_result envelope_field [bytes_field 1 (me_message_id env), bytes_field 2 (char_bytes (me_type env)),
      uint_field 3 (ucast (me_schema_version env)), uint_field 4 (ucast (me_ttl_milliseconds env)),
      uint_field 5 (ucast (delivery_mode_value (me_delivery_mode env)))] envelope_start = Inr p"
    using assms(2) b(5) by (auto simp: envelope_field_def envelope_start_def empty_envelope_def p_def Let_def)
  moreover have "fold_result envelope_field (map header_field (me_headers env)) p =
      Inr (p\<lparr>ep_envelope := (ep_envelope p)\<lparr>me_headers := me_headers env\<rparr>\<rparr>)"
    using fold_headers [of "me_headers env" p] validate_headers_all [OF b(4)] b(2) by (simp add: p_def)
  ultimately show ?thesis
    unfolding envelope_fields_def fold_result_append
    by (cases env) (auto simp: envelope_field_def p_def split: option.splits)
qed

lemma parse_encoded_envelope:
  assumes "encode_message_envelope env l = Inr bs" "length (me_message_id env) = 16" "max_message_bytes l < 2 ^ 64"
  shows "parse_message_envelope bs l =
    (if length bs \<le> max_message_bytes l then Inr env else Inl (envelope_error ''envelope_oversized''))"
  using encode_envelope_fields [OF assms(1)] envelope_fields_wf [OF _ assms(2,3)] fold_envelope [OF _ assms(2)]
  by (auto simp: parse_message_envelope_def read_all_encoded)

lemma parse_envelope_valid:
  "parse_message_envelope bs l = Inr env \<Longrightarrow> validate_message_envelope env l = Inr ()"
  by (auto simp: parse_message_envelope_def split: if_splits sum.splits)

lemma parse_encoded_ack:
  assumes "encode_message_ack ack = Inr bs" "length (ack_message_id ack) = 16"
  shows "parse_message_ack bs = Inr ack"
proof -
  let ?fs = "[bytes_field 1 (ack_message_id ack), uint_field 2 (if ack_protocol_accepted ack then 1 else 0)]"
  have bs: "bs = concat (map field_bytes ?fs)" and z: "\<not> id_is_zero (ack_message_id ack)"
    using assms(1) by (auto simp: encode_message_ack_def split: if_splits)
  have "\<forall>f \<in> set ?fs. field_wf f" using assms(2) by (simp add: field_wf_def)
  from read_all_encoded [OF this, of ack_field "''proto''", folded bs] show ?thesis
    using z assms(2) by (simp add: parse_message_ack_def ack_field_def)
qed

section \<open>Properties\<close>

text \<open>
  C19: an envelope that the sender encodes is what the receiver parses, field for field, headers in
  order, exactly when the encoding fits the message limit; otherwise the receiver rejects what the
  sender accepted, because the sender bounds the payload and the receiver the whole envelope.
\<close>

theorem message_envelope_roundtrip:
  assumes "encode_message_envelope env l = Inr bs"
    and "length (me_message_id env) = 16" and "max_message_bytes l < 2 ^ 64"
  shows "parse_message_envelope bs l =
    (if length bs \<le> max_message_bytes l then Inr env
     else Inl (envelope_error ''envelope_oversized''))"
  by (rule parse_encoded_envelope [OF assms])

theorem message_envelope_roundtrip_witness:
  "let env = empty_envelope\<lparr>me_message_id := replicate 16 3, me_type := ''chat'',
         me_delivery_mode := MDM_peer_acked,
         me_headers := [\<lparr>mh_name = ''k'', mh_value = [9]\<rparr>], me_payload := [1, 2]\<rparr>;
       bs = [0x0a, 16] @ replicate 16 3 @ [0x12, 4, 0x63, 0x68, 0x61, 0x74, 0x18, 1, 0x20, 0xb0,
         0xea, 1, 0x28, 2, 0x32, 6, 0x0a, 1, 0x6b, 0x12, 1, 9, 0x3a, 2, 1, 2]
   in encode_message_envelope env default_limits = Inr bs \<and>
      parse_message_envelope bs default_limits = Inr env"
proof -
  let ?env = "empty_envelope\<lparr>me_message_id := replicate 16 3, me_type := ''chat'',
         me_delivery_mode := MDM_peer_acked,
         me_headers := [\<lparr>mh_name = ''k'', mh_value = [9]\<rparr>], me_payload := [1, 2]\<rparr>"
  let ?bs = "[0x0a, 16] @ replicate 16 3 @ [0x12, 4, 0x63, 0x68, 0x61, 0x74, 0x18, 1, 0x20, 0xb0,
         0xea, 1, 0x28, 2, 0x32, 6, 0x0a, 1, 0x6b, 0x12, 1, 9, 0x3a, 2, 1, 2] :: bytes"
  have "validate_message_envelope ?env default_limits = Inr ()"
    by (simp add: validate_message_envelope_def empty_envelope_def id_is_zero_iff
      max_message_type_bytes_def name_token_def name_char_def less_eq_char_def
      default_message_ttl_milliseconds_def min_message_ttl_milliseconds_def
      max_message_ttl_milliseconds_def max_message_headers_def
      max_message_header_name_bytes_def max_message_header_value_bytes_def)
  then have e: "encode_message_envelope ?env default_limits = Inr ?bs"
    by (simp add: encode_message_envelope_def)
       (simp add: empty_envelope_def append_text_def append_header_entry_def append_bytes_def
         append_uint_def append_tag_def append_varint64.simps char_bytes_def
         default_message_ttl_milliseconds_def)
  with message_envelope_roundtrip [OF e] show ?thesis by (simp add: Let_def)
qed

text \<open>
  A parsed envelope satisfies every rule the sender is held to, and an encoded acknowledgement
  is parsed back unchanged.
\<close>

theorem message_parse_sound:
  "(parse_message_envelope bs l = Inr env \<longrightarrow> validate_message_envelope env l = Inr ()) \<and>
   (encode_message_ack ack = Inr as \<and> length (ack_message_id ack) = 16 \<longrightarrow>
      parse_message_ack as = Inr ack)"
  using parse_envelope_valid parse_encoded_ack by blast

theorem message_parse_sound_witness:
  "let ack = \<lparr>ack_message_id = replicate 16 3, ack_protocol_accepted = True\<rparr>
   in parse_message_ack ([0x0a, 16] @ replicate 16 3 @ [0x10, 1]) = Inr ack"
  using message_parse_sound [of "[]" default_limits empty_envelope
    "\<lparr>ack_message_id = replicate 16 3, ack_protocol_accepted = True\<rparr>"
    "[0x0a, 16] @ replicate 16 3 @ [0x10, 1]"]
  by (simp add: encode_message_ack_def append_bytes_def append_uint_def append_tag_def
    append_varint64.simps id_is_zero_iff)

end
