(* ===== verification/Heyaki_Relay_Ttl.thy ===== *)
theory Heyaki_Relay_Ttl
  imports Heyaki_Core
begin

text \<open>
  The bounded time-to-live table of \<open>relay_ttl_table.hpp\<close>, generic in key and value, that holds
  the relay's short-lived state.  A table object whose implementation pointer has been moved from
  is \<^const>\<open>None\<close>.  The locale states what a client of such a table relies on.
\<close>

section \<open>State\<close>

datatype RelayTtlUpsertOutcome = TTL_inserted | TTL_updated

record ('k, 'v) RelayTtlEntry =
  te_key :: 'k
  te_value :: 'v
  te_expires_at :: time_point

record RelayTtlDiagnostics =
  td_accepted :: u64
  td_updated :: u64
  td_capacity_rejected :: u64
  td_expired :: u64
  td_current_entries :: nat
  td_peak_entries :: nat

definition ttl_no_diagnostics :: RelayTtlDiagnostics where
  "ttl_no_diagnostics = \<lparr>td_accepted = 0, td_updated = 0, td_capacity_rejected = 0,
     td_expired = 0, td_current_entries = 0, td_peak_entries = 0\<rparr>"

record ('k, 'v) RelayTtlImpl =
  tt_capacity :: nat
  tt_entries :: "('k, ('k, 'v) RelayTtlEntry) omap"
  tt_stats :: RelayTtlDiagnostics

type_synonym ('k, 'v) RelayTtlTable = "('k, 'v) RelayTtlImpl option"

definition ttl_error :: "ErrorCode \<Rightarrow> string \<Rightarrow> Error" where
  "ttl_error code detail = err code ''relay_ttl'' detail"

section \<open>Operations\<close>

definition ttl_create :: "nat \<Rightarrow> ('k, 'v) RelayTtlTable result" where
  "ttl_create capacity =
     (if capacity = 0 then Inl (ttl_error EC_configuration ''relay_ttl_capacity_invalid'')
      else Inr (Some \<lparr>tt_capacity = capacity, tt_entries = [], tt_stats = ttl_no_diagnostics\<rparr>))"

text \<open>The sweep erases the entries in key order and counts each.\<close>

definition ttl_sweep :: "('k, 'v) RelayTtlImpl \<Rightarrow> time_point \<Rightarrow> ('k, 'v) RelayTtlImpl" where
  "ttl_sweep t now =
     (let kept = filter (\<lambda>(k, e). \<not> te_expires_at e \<le> now) (tt_entries t);
          removed = length (tt_entries t) - length kept
      in t\<lparr>tt_entries := kept,
           tt_stats := (tt_stats t)\<lparr>td_expired := td_expired (tt_stats t) + of_nat removed,
                                    td_current_entries := length kept\<rparr>\<rparr>)"

fun ttl_expire :: "('k, 'v) RelayTtlTable \<Rightarrow> time_point \<Rightarrow> ('k, 'v) RelayTtlTable" where
  "ttl_expire None now = None"
| "ttl_expire (Some t) now = Some (ttl_sweep t now)"

text \<open>The insertion at the end of \<open>upsert\<close>, once the key is known to be absent.\<close>

definition ttl_insert ::
  "('k::linorder, 'v) RelayTtlImpl \<Rightarrow> 'k \<Rightarrow> 'v \<Rightarrow> milliseconds \<Rightarrow> time_point \<Rightarrow>
     RelayTtlUpsertOutcome result \<times> ('k, 'v) RelayTtlImpl" where
  "ttl_insert t key v ttl now =
    (let t1 = (if length (tt_entries t) \<ge> tt_capacity t then ttl_sweep t now else t)
     in if length (tt_entries t1) \<ge> tt_capacity t1 then
          (Inl (ttl_error EC_resource_exhausted ''relay_ttl_capacity_exhausted''),
           t1\<lparr>tt_stats := (tt_stats t1)\<lparr>td_capacity_rejected :=
                td_capacity_rejected (tt_stats t1) + 1\<rparr>\<rparr>)
        else
          let entry = \<lparr>te_key = key, te_value = v, te_expires_at = now + ms_to_ns ttl\<rparr>;
              entries = om_put key entry (tt_entries t1)
          in (Inr TTL_inserted,
              t1\<lparr>tt_entries := entries,
                 tt_stats := (tt_stats t1)\<lparr>td_accepted := td_accepted (tt_stats t1) + 1,
                   td_current_entries := length entries,
                   td_peak_entries := max (td_peak_entries (tt_stats t1)) (length entries)\<rparr>\<rparr>))"

fun ttl_upsert ::
  "('k::linorder, 'v) RelayTtlTable \<Rightarrow> 'k \<Rightarrow> 'v \<Rightarrow> milliseconds \<Rightarrow> time_point \<Rightarrow>
     RelayTtlUpsertOutcome result \<times> ('k, 'v) RelayTtlTable" where
  "ttl_upsert None key v ttl now =
     (Inl (ttl_error EC_cancelled ''relay_ttl_not_initialized''), None)"
| "ttl_upsert (Some t) key v ttl now =
    (if ttl \<le> 0 then (Inl (ttl_error EC_configuration ''relay_ttl_ttl_invalid''), Some t)
     else case map_of (tt_entries t) key of
       None \<Rightarrow> map_prod id Some (ttl_insert t key v ttl now)
     | Some e \<Rightarrow>
       if te_expires_at e > now then
         (Inr TTL_updated,
          Some (t\<lparr>tt_entries := om_put key (e\<lparr>te_value := v, te_expires_at := now + ms_to_ns ttl\<rparr>)
                               (tt_entries t),
                  tt_stats := (tt_stats t)\<lparr>td_updated := td_updated (tt_stats t) + 1\<rparr>\<rparr>))
       else
         let entries = om_del key (tt_entries t);
             t1 = t\<lparr>tt_entries := entries,
                    tt_stats := (tt_stats t)\<lparr>td_expired := td_expired (tt_stats t) + 1,
                                             td_current_entries := length entries\<rparr>\<rparr>
         in map_prod id Some (ttl_insert t1 key v ttl now))"

fun ttl_get :: "('k, 'v) RelayTtlTable \<Rightarrow> 'k \<Rightarrow> time_point \<Rightarrow> 'v option" where
  "ttl_get None key now = None"
| "ttl_get (Some t) key now =
    (case map_of (tt_entries t) key of
       None \<Rightarrow> None
     | Some e \<Rightarrow> if te_expires_at e \<le> now then None else Some (te_value e))"

definition ttl_contains :: "('k, 'v) RelayTtlTable \<Rightarrow> 'k \<Rightarrow> time_point \<Rightarrow> bool" where
  "ttl_contains h key now \<longleftrightarrow> ttl_get h key now \<noteq> None"

fun ttl_erase :: "('k, 'v) RelayTtlTable \<Rightarrow> 'k \<Rightarrow> unit result \<times> ('k, 'v) RelayTtlTable" where
  "ttl_erase None key = (Inl (ttl_error EC_cancelled ''relay_ttl_not_initialized''), None)"
| "ttl_erase (Some t) key =
    (let entries = om_del key (tt_entries t);
         t1 = t\<lparr>tt_entries := entries\<rparr>
     in (Inr (),
         Some (if length entries < length (tt_entries t)
               then t1\<lparr>tt_stats := (tt_stats t1)\<lparr>td_current_entries := length entries\<rparr>\<rparr>
               else t1)))"

fun ttl_take ::
  "('k, 'v) RelayTtlTable \<Rightarrow> 'k \<Rightarrow> time_point \<Rightarrow> 'v option \<times> ('k, 'v) RelayTtlTable" where
  "ttl_take None key now = (None, None)"
| "ttl_take (Some t) key now =
    (case map_of (tt_entries t) key of
       None \<Rightarrow> (None, Some t)
     | Some e \<Rightarrow>
       let entries = om_del key (tt_entries t)
       in if te_expires_at e \<le> now then
            (None, Some (t\<lparr>tt_entries := entries,
               tt_stats := (tt_stats t)\<lparr>td_expired := td_expired (tt_stats t) + 1,
                                        td_current_entries := length entries\<rparr>\<rparr>))
          else
            (Some (te_value e), Some (t\<lparr>tt_entries := entries,
               tt_stats := (tt_stats t)\<lparr>td_current_entries := length entries\<rparr>\<rparr>)))"

fun ttl_snapshot :: "('k, 'v) RelayTtlTable \<Rightarrow> time_point \<Rightarrow> ('k, 'v) RelayTtlEntry list" where
  "ttl_snapshot None now = []"
| "ttl_snapshot (Some t) now = filter (\<lambda>e. te_expires_at e > now) (map snd (tt_entries t))"

fun ttl_diagnostics :: "('k, 'v) RelayTtlTable \<Rightarrow> RelayTtlDiagnostics" where
  "ttl_diagnostics None = ttl_no_diagnostics"
| "ttl_diagnostics (Some t) = tt_stats t"

section \<open>The contract of a table\<close>

text \<open>
  What a client sees of a table is which value each key has at a time.  Time never runs backwards
  from an operation to a later lookup.
\<close>

locale ttl_contract =
  fixes ok :: "'t \<Rightarrow> bool"
    and get :: "'t \<Rightarrow> 'k \<Rightarrow> time_point \<Rightarrow> 'v option"
    and upsert :: "'t \<Rightarrow> 'k \<Rightarrow> 'v \<Rightarrow> milliseconds \<Rightarrow> time_point \<Rightarrow>
      RelayTtlUpsertOutcome result \<times> 't"
    and erase :: "'t \<Rightarrow> 'k \<Rightarrow> unit result \<times> 't"
    and expire :: "'t \<Rightarrow> time_point \<Rightarrow> 't"
  assumes upsert_ok: "ok t \<Longrightarrow> ok (snd (upsert t k v d now))"
    and erase_ok: "ok t \<Longrightarrow> ok (snd (erase t k))"
    and expire_ok: "ok t \<Longrightarrow> ok (expire t now)"
    and get_upsert: "ok t \<Longrightarrow> upsert t k v d now = (Inr outcome, t') \<Longrightarrow> now \<le> later \<Longrightarrow>
      get t' k' later = (if k' = k then if later < now + ms_to_ns d then Some v else None
                         else get t k' later)"
    and upsert_outcome: "ok t \<Longrightarrow> upsert t k v d now = (Inr outcome, t') \<Longrightarrow>
      outcome = TTL_updated \<longleftrightarrow> get t k now \<noteq> None"
    and get_upsert_failed: "ok t \<Longrightarrow> upsert t k v d now = (Inl e, t') \<Longrightarrow> now \<le> later \<Longrightarrow>
      get t' k' later = get t k' later"
    and get_erase: "ok t \<Longrightarrow> get (snd (erase t k)) k' later = (if k' = k then None else get t k' later)"
    and get_expire: "ok t \<Longrightarrow> now \<le> later \<Longrightarrow> get (expire t now) k' later = get t k' later"
begin

lemma get_expire_twice: "ok t \<Longrightarrow> now \<le> later \<Longrightarrow> get (expire (expire t now) now) k later = get t k later"
  by (simp add: get_expire expire_ok)

lemma upsert_refresh:
  assumes "ok t" "upsert t k v d now = (Inr a, t')" "upsert t' k w d' later = (Inr b, t'')"
    "now \<le> later" "later < now + ms_to_ns d"
  shows "b = TTL_updated"
  using upsert_outcome [of t' k w d' later b t''] get_upsert [OF assms(1,2,4), of k]
    upsert_ok [OF assms(1), of k v d now] assms by simp

end

section \<open>Invariant vocabulary\<close>

fun ttl_ok :: "('k::linorder, 'v) RelayTtlTable \<Rightarrow> bool" where
  "ttl_ok None \<longleftrightarrow> True"
| "ttl_ok (Some t) \<longleftrightarrow> om_wf (tt_entries t) \<and> length (tt_entries t) \<le> tt_capacity t \<and>
     td_current_entries (tt_stats t) = length (tt_entries t) \<and>
     td_current_entries (tt_stats t) \<le> td_peak_entries (tt_stats t) \<and>
     td_peak_entries (tt_stats t) \<le> tt_capacity t \<and>
     list_all (\<lambda>(k, e). te_key e = k) (tt_entries t)"

datatype ('k, 'v) TtlOp =
    TtlUpsert 'k 'v milliseconds time_point | TtlErase 'k | TtlTake 'k time_point
  | TtlExpire time_point

fun ttl_step :: "('k::linorder, 'v) TtlOp \<Rightarrow> ('k, 'v) RelayTtlTable \<Rightarrow> ('k, 'v) RelayTtlTable" where
  "ttl_step (TtlUpsert k v d now) h = snd (ttl_upsert h k v d now)"
| "ttl_step (TtlErase k) h = snd (ttl_erase h k)"
| "ttl_step (TtlTake k now) h = snd (ttl_take h k now)"
| "ttl_step (TtlExpire now) h = ttl_expire h now"

section \<open>Abstract timed map\<close>

text \<open>
  The specification forgets counters, order and sweeping: a table is a partial map from keys to a
  value and the end of its life, and a key is seen while its life lasts.  What an operation answers
  is an observation.
\<close>

type_synonym ('k, 'v) timed_map = "'k \<Rightarrow> ('v \<times> time_point) option"

datatype 'v TtlOut = OutUpsert "RelayTtlUpsertOutcome option" | OutTake "'v option" | OutDone

definition spec_get :: "('k, 'v) timed_map \<Rightarrow> 'k \<Rightarrow> time_point \<Rightarrow> 'v option" where
  "spec_get m k now = (case m k of None \<Rightarrow> None | Some (v, x) \<Rightarrow> if now < x then Some v else None)"

definition spec_live :: "('k, 'v) timed_map \<Rightarrow> time_point \<Rightarrow> 'k set" where
  "spec_live m now = {k. spec_get m k now \<noteq> None}"

fun spec_step :: "nat \<Rightarrow> ('k, 'v) TtlOp \<Rightarrow> ('k, 'v) timed_map \<Rightarrow> 'v TtlOut \<times> ('k, 'v) timed_map" where
  "spec_step cap (TtlUpsert k v d now) m =
     (if 0 < d \<and> (k \<in> spec_live m now \<or> card (spec_live m now) < cap)
      then (OutUpsert (Some (if k \<in> spec_live m now then TTL_updated else TTL_inserted)),
            m(k \<mapsto> (v, now + ms_to_ns d)))
      else (OutUpsert None, m))"
| "spec_step cap (TtlErase k) m = (OutDone, m(k := None))"
| "spec_step cap (TtlTake k now) m = (OutTake (spec_get m k now), m(k := None))"
| "spec_step cap (TtlExpire now) m = (OutDone, m)"

fun ttl_observe :: "('k::linorder, 'v) TtlOp \<Rightarrow> ('k, 'v) RelayTtlTable \<Rightarrow> 'v TtlOut" where
  "ttl_observe (TtlUpsert k v d now) h =
     OutUpsert (case fst (ttl_upsert h k v d now) of Inl e \<Rightarrow> None | Inr r \<Rightarrow> Some r)"
| "ttl_observe (TtlTake k now) h = OutTake (fst (ttl_take h k now))"
| "ttl_observe _ h = OutDone"

fun ttl_op_time :: "('k, 'v) TtlOp \<Rightarrow> time_point option" where
  "ttl_op_time (TtlUpsert k v d now) = Some now"
| "ttl_op_time (TtlErase k) = None"
| "ttl_op_time (TtlTake k now) = Some now"
| "ttl_op_time (TtlExpire now) = Some now"

primrec ttl_trace :: "('k::linorder, 'v) TtlOp list \<Rightarrow> ('k, 'v) RelayTtlTable \<Rightarrow> 'v TtlOut list" where
  "ttl_trace [] h = []"
| "ttl_trace (x # xs) h = ttl_observe x h # ttl_trace xs (ttl_step x h)"

primrec spec_trace :: "nat \<Rightarrow> ('k, 'v) TtlOp list \<Rightarrow> ('k, 'v) timed_map \<Rightarrow> 'v TtlOut list" where
  "spec_trace cap [] m = []"
| "spec_trace cap (x # xs) m = fst (spec_step cap x m) # spec_trace cap xs (snd (spec_step cap x m))"

definition ttl_sim :: "nat \<Rightarrow> time_point \<Rightarrow> ('k::linorder, 'v) RelayTtlTable \<Rightarrow> ('k, 'v) timed_map \<Rightarrow> bool" where
  "ttl_sim cap t0 h m \<longleftrightarrow> (\<exists>t. h = Some t \<and> tt_capacity t = cap) \<and> ttl_ok h \<and>
     (\<forall>k later. t0 \<le> later \<longrightarrow> ttl_get h k later = spec_get m k later)"

text \<open>The operations of a run carry non-decreasing times.\<close>

primrec ttl_timed :: "time_point \<Rightarrow> ('k, 'v) TtlOp list \<Rightarrow> bool" where
  "ttl_timed t0 [] \<longleftrightarrow> True"
| "ttl_timed t0 (x # xs) \<longleftrightarrow> (case ttl_op_time x of None \<Rightarrow> ttl_timed t0 xs
     | Some now \<Rightarrow> t0 \<le> now \<and> ttl_timed now xs)"

section \<open>Lemmas\<close>

lemma ttl_sweep_simps [simp]:
  "tt_entries (ttl_sweep t now) = filter (\<lambda>(k, e). \<not> te_expires_at e \<le> now) (tt_entries t)"
  "tt_capacity (ttl_sweep t now) = tt_capacity t"
  by (simp_all add: ttl_sweep_def Let_def)

lemma ttl_sweep_ok: "ttl_ok (Some t) \<Longrightarrow> ttl_ok (Some (ttl_sweep t now))"
  using length_filter_le [of "\<lambda>(k, e). \<not> te_expires_at e \<le> now" "tt_entries t"]
  by (auto simp: ttl_sweep_def Let_def list_all_filter simp del: length_filter_le)

lemma ttl_sweep_live: "k \<in> fst ` set (tt_entries (ttl_sweep t now)) \<Longrightarrow> om_wf (tt_entries t) \<Longrightarrow> ttl_get (Some t) k now \<noteq> None"
  by (auto simp: om_mem_iff)

lemma ttl_sweep_get: "om_wf (tt_entries t) \<Longrightarrow> now \<le> later \<Longrightarrow>
   ttl_get (Some (ttl_sweep t now)) k later = ttl_get (Some t) k later"
  by (auto simp: om_simps split: option.splits)

lemma map_of_sweep_None: "om_wf m \<Longrightarrow> map_of m k = None \<Longrightarrow> map_of (filter P m) k = None"
  by (simp add: om_simps)

lemma ttl_insert_ok:
  assumes "ttl_ok (Some t)" "map_of (tt_entries t) k = None"
  shows "ttl_ok (Some (snd (ttl_insert t k v d now)))"
proof -
  let ?t = "if length (tt_entries t) \<ge> tt_capacity t then ttl_sweep t now else t"
  have ok: "ttl_ok (Some ?t)" using assms(1) ttl_sweep_ok [of t now] by (simp del: ttl_ok.simps)
  have "map_of (tt_entries ?t) k = None" using assms by (simp add: map_of_sweep_None)
  with ok show ?thesis
    unfolding ttl_insert_def Let_def
    by (auto simp: om_simps list_all_om_put simp del: ttl_sweep_simps)
qed

lemma ttl_insert_get:
  assumes "om_wf (tt_entries t)" "map_of (tt_entries t) k = None" "now \<le> later"
  shows "ttl_insert t k v d now = (Inr r, t') \<Longrightarrow> r = TTL_inserted \<and>
      ttl_get (Some t') k' later = (if k' = k then if later < now + ms_to_ns d then Some v else None
                                    else ttl_get (Some t) k' later)"
    "ttl_insert t k v d now = (Inl e, t') \<Longrightarrow> ttl_get (Some t') k' later = ttl_get (Some t) k' later"
proof -
  let ?t = "if length (tt_entries t) \<ge> tt_capacity t then ttl_sweep t now else t"
  have wf: "om_wf (tt_entries ?t)" using assms by simp
  have g: "ttl_get (Some ?t) k' later = ttl_get (Some t) k' later"
    using ttl_sweep_get [OF assms(1,3)] by (simp del: ttl_get.simps)
  show "r = TTL_inserted \<and> ttl_get (Some t') k' later = (if k' = k then if later < now + ms_to_ns d then Some v else None
                                    else ttl_get (Some t) k' later)"
    if "ttl_insert t k v d now = (Inr r, t')"
    using that wf g unfolding ttl_insert_def Let_def
    by (auto simp: om_simps simp del: ttl_sweep_simps split: if_splits)
  show "ttl_get (Some t') k' later = ttl_get (Some t) k' later" if "ttl_insert t k v d now = (Inl e, t')"
    using that g unfolding ttl_insert_def Let_def
    by (auto simp del: ttl_sweep_simps split: if_splits)
qed

text \<open>A refusal for lack of room means the table is full of live entries.\<close>

lemma ttl_insert_refused:
  assumes "om_wf (tt_entries t)" "ttl_insert t k v d now = (Inl e, t')"
  shows "e = ttl_error EC_resource_exhausted ''relay_ttl_capacity_exhausted'' \<and> tt_capacity t \<le> length (tt_entries t') \<and>
    (\<forall>k \<in> fst ` set (tt_entries t'). ttl_get (Some t) k now \<noteq> None)"
proof -
  have "tt_entries t' = tt_entries (ttl_sweep t now)" "tt_capacity t \<le> length (tt_entries t')"
    "e = ttl_error EC_resource_exhausted ''relay_ttl_capacity_exhausted''"
    using assms(2) by (auto simp: ttl_insert_def Let_def split: if_splits)
  then show ?thesis using ttl_sweep_live [OF _ assms(1), of _ now] by (auto simp del: ttl_sweep_simps ttl_get.simps)
qed

lemma ttl_stale_entry:
  assumes "ttl_ok (Some t)" "map_of (tt_entries t) k = Some e" "te_expires_at e \<le> now"
  defines "t1 \<equiv> t\<lparr>tt_entries := om_del k (tt_entries t), tt_stats := (tt_stats t)\<lparr>td_expired := td_expired (tt_stats t) + 1,
      td_current_entries := length (om_del k (tt_entries t))\<rparr>\<rparr>"
  shows "ttl_ok (Some t1)" "map_of (tt_entries t1) k = None"
    "now \<le> later \<Longrightarrow> ttl_get (Some t1) k' later = ttl_get (Some t) k' later"
  using assms length_om_del_le [of k "tt_entries t"]
  by (auto simp: t1_def om_simps list_all_om_del)

lemma ttl_upsert_cases:
  assumes "ttl_ok (Some t)"
  obtains (bad_ttl) "d \<le> 0" "ttl_upsert (Some t) k v d now = (Inl (ttl_error EC_configuration ''relay_ttl_ttl_invalid''), Some t)"
  | (live) e where "0 < d" "map_of (tt_entries t) k = Some e" "now < te_expires_at e"
     "ttl_upsert (Some t) k v d now = (Inr TTL_updated,
          Some (t\<lparr>tt_entries := om_put k (e\<lparr>te_value := v, te_expires_at := now + ms_to_ns d\<rparr>)
                               (tt_entries t),
                  tt_stats := (tt_stats t)\<lparr>td_updated := td_updated (tt_stats t) + 1\<rparr>\<rparr>))"
  | (absent) t1 where "0 < d" "ttl_ok (Some t1)" "map_of (tt_entries t1) k = None" "ttl_get (Some t) k now = None"
     "\<And>k' later. now \<le> later \<Longrightarrow> ttl_get (Some t1) k' later = ttl_get (Some t) k' later"
     "tt_capacity t1 = tt_capacity t"
     "ttl_upsert (Some t) k v d now = map_prod id Some (ttl_insert t1 k v d now)"
proof (cases "d \<le> 0")
  case True
  then show ?thesis using bad_ttl by simp
next
  case False
  then have d: "0 < d" by simp
  show ?thesis
  proof (cases "map_of (tt_entries t) k")
    case None
    then show ?thesis using d assms by (intro absent [of t]) (simp_all del: ttl_ok.simps)
  next
    case (Some e)
    show ?thesis
    proof (cases "now < te_expires_at e")
      case True
      then show ?thesis using d Some by (intro live [of e]) simp_all
    next
      case False
      then have "te_expires_at e \<le> now" by simp
      note stale = ttl_stale_entry [OF assms Some this]
      show ?thesis
        by (rule absent [OF d stale(1,2) _ stale(3)]) (use Some False d in \<open>simp_all add: Let_def\<close>)
    qed
  qed
qed

lemma ttl_upsert_ok: "ttl_ok h \<Longrightarrow> ttl_ok (snd (ttl_upsert h k v d now))"
proof (cases h)
  case (Some t)
  assume "ttl_ok h"
  then have ok: "ttl_ok (Some t)" using Some by simp
  then show ?thesis
  proof (cases rule: ttl_upsert_cases [where k = k and v = v and d = d and now = now])
    case (live e)
    moreover have "te_key e = k" using ok live by (auto simp: list_all_iff dest: map_of_SomeD)
    ultimately show ?thesis using ok Some by (auto simp: om_simps list_all_om_put)
  next
    case (absent t1)
    then show ?thesis using Some ttl_insert_ok [of t1 k v d now] by (simp del: ttl_ok.simps)
  qed (use ok Some in simp)
qed simp

lemma ttl_upsert_get:
  assumes "ttl_ok h" "now \<le> later"
  shows "ttl_upsert h k v d now = (Inr r, h') \<Longrightarrow>
      (r = TTL_updated \<longleftrightarrow> ttl_get h k now \<noteq> None) \<and>
      ttl_get h' k' later = (if k' = k then if later < now + ms_to_ns d then Some v else None
                             else ttl_get h k' later)"
    "ttl_upsert h k v d now = (Inl e, h') \<Longrightarrow> ttl_get h' k' later = ttl_get h k' later"
proof -
  show "(r = TTL_updated \<longleftrightarrow> ttl_get h k now \<noteq> None) \<and>
      ttl_get h' k' later = (if k' = k then if later < now + ms_to_ns d then Some v else None
                             else ttl_get h k' later)" if u: "ttl_upsert h k v d now = (Inr r, h')"
  proof -
    obtain t where h: "h = Some t" using u by (cases h) auto
    have ok: "ttl_ok (Some t)" using assms h by simp
    then show ?thesis
    proof (cases rule: ttl_upsert_cases [where k = k and v = v and d = d and now = now])
      case (live e)
      then show ?thesis using u ok h by (auto simp: om_simps)
    next
      case (absent t1)
      then obtain t' where i: "ttl_insert t1 k v d now = (Inr r, t')" "h' = Some t'"
        using u h by (cases "ttl_insert t1 k v d now") auto
      have "om_wf (tt_entries t1)" using absent(2) by simp
      from ttl_insert_get(1) [OF this absent(3) assms(2) i(1), of k']
      show ?thesis using h absent(4,5) assms(2) i(2) by (simp del: ttl_get.simps)
    qed (use u h in simp)
  qed
  show "ttl_get h' k' later = ttl_get h k' later" if u: "ttl_upsert h k v d now = (Inl e, h')"
  proof (cases h)
    case (Some t)
    have ok: "ttl_ok (Some t)" using assms Some by simp
    then show ?thesis
    proof (cases rule: ttl_upsert_cases [where k = k and v = v and d = d and now = now])
      case (absent t1)
      then obtain t' where i: "ttl_insert t1 k v d now = (Inl e, t')" "h' = Some t'"
        using u Some by (cases "ttl_insert t1 k v d now") auto
      have "om_wf (tt_entries t1)" using absent(2) by simp
      from ttl_insert_get(2) [OF this absent(3) assms(2) i(1), of k']
      show ?thesis using Some absent(5) assms(2) i(2) by (simp del: ttl_get.simps)
    qed (use u Some in auto)
  qed (use u in auto)
qed

lemma ttl_erase_ok: "ttl_ok h \<Longrightarrow> ttl_ok (snd (ttl_erase h k))"
proof (cases h)
  case (Some t)
  assume "ttl_ok h"
  then show ?thesis using Some length_om_del_le [of k "tt_entries t"]
    by (auto simp: Let_def list_all_om_del)
qed simp

lemma ttl_erase_get: "ttl_get (snd (ttl_erase h k)) k' later = (if k' = k then None else ttl_get h k' later)"
  by (cases h) (auto simp: Let_def om_simps)

lemma ttl_expire_ok: "ttl_ok h \<Longrightarrow> ttl_ok (ttl_expire h now)"
  using ttl_sweep_ok by (cases h) (auto simp del: ttl_ok.simps(2))

lemma ttl_expire_get: "ttl_ok h \<Longrightarrow> now \<le> later \<Longrightarrow> ttl_get (ttl_expire h now) k later = ttl_get h k later"
  using ttl_sweep_get by (cases h) (auto simp del: ttl_get.simps)

lemma ttl_take_ok: "ttl_ok h \<Longrightarrow> ttl_ok (snd (ttl_take h k now))"
proof (cases h)
  case (Some t)
  assume "ttl_ok h"
  then show ?thesis using Some length_om_del_le [of k "tt_entries t"]
    by (auto simp: Let_def list_all_om_del split: option.splits)
qed simp

lemma ttl_take_get:
  "ttl_ok h \<Longrightarrow> fst (ttl_take h k now) = ttl_get h k now \<and>
     (now \<le> later \<longrightarrow> ttl_get (snd (ttl_take h k now)) k' later = (if k' = k then None else ttl_get h k' later))"
  by (cases h) (auto simp: Let_def om_simps split: option.splits)

interpretation relay_ttl: ttl_contract ttl_ok ttl_get ttl_upsert ttl_erase ttl_expire
proof unfold_locales
  fix t :: "('a, 'b) RelayTtlTable" and k k' v d now later outcome t' e
  assume ok: "ttl_ok t"
  show "ttl_ok (snd (ttl_upsert t k v d now))" using ok by (rule ttl_upsert_ok)
  show "ttl_ok (snd (ttl_erase t k))" using ok by (rule ttl_erase_ok)
  show "ttl_ok (ttl_expire t now)" using ok by (rule ttl_expire_ok)
  show "ttl_get (snd (ttl_erase t k)) k' later = (if k' = k then None else ttl_get t k' later)"
    by (rule ttl_erase_get)
  show "ttl_get (ttl_expire t now) k' later = ttl_get t k' later" if "now \<le> later"
    using ok that by (rule ttl_expire_get)
  show "ttl_get t' k' later = (if k' = k then if later < now + ms_to_ns d then Some v else None
                         else ttl_get t k' later)"
    if "ttl_upsert t k v d now = (Inr outcome, t')" "now \<le> later"
    using ttl_upsert_get(1) [OF ok that(2,1)] by blast
  show "outcome = TTL_updated \<longleftrightarrow> ttl_get t k now \<noteq> None"
    if "ttl_upsert t k v d now = (Inr outcome, t')"
    using ttl_upsert_get(1) [OF ok order_refl that] by blast
  show "ttl_get t' k' later = ttl_get t k' later"
    if "ttl_upsert t k v d now = (Inl e, t')" "now \<le> later"
    using ok that(2,1) by (rule ttl_upsert_get(2))
qed

lemma ttl_step_ok: "ttl_ok h \<Longrightarrow> ttl_ok (ttl_step x h)"
  by (cases x) (simp_all add: ttl_upsert_ok ttl_erase_ok ttl_take_ok ttl_expire_ok)

interpretation relay_ttl_machine: invariant_machine "\<lambda>h. \<exists>c. ttl_create c = Inr h" ttl_step ttl_ok
  by unfold_locales
    (auto simp: ttl_create_def ttl_no_diagnostics_def split: if_splits intro: ttl_step_ok)

section \<open>Refinement\<close>

lemma spec_get_upd:
  "spec_get (m(k \<mapsto> (v, x))) k' now = (if k' = k then if now < x then Some v else None else spec_get m k' now)"
  "spec_get (m(k := None)) k' now = (if k' = k then None else spec_get m k' now)"
  by (simp_all add: spec_get_def)

lemma ttl_live_card:
  assumes "ttl_ok (Some t)"
  shows "card {k. ttl_get (Some t) k now \<noteq> None} = length (tt_entries (ttl_sweep t now))"
proof -
  let ?m = "tt_entries (ttl_sweep t now)"
  have wf: "om_wf ?m" "om_wf (tt_entries t)" using assms by simp_all
  have "{k. ttl_get (Some t) k now \<noteq> None} = set (map fst ?m)"
    using wf(2) by (force simp: om_mem_iff split: option.splits)
  then show ?thesis using om_wf_distinct [OF wf(1)] by (simp only: distinct_card length_map)
qed

lemma ttl_step_Some: "\<exists>t'. ttl_step x (Some t) = Some t' \<and> tt_capacity t' = tt_capacity t"
  by (cases x) (simp_all add: Let_def ttl_insert_def split: option.split)

lemma ttl_upsert_accepts_iff:
  assumes "ttl_ok (Some t)"
  shows "(\<exists>r. fst (ttl_upsert (Some t) k v d now) = Inr r) \<longleftrightarrow>
     0 < d \<and> (ttl_get (Some t) k now \<noteq> None \<or> card {k. ttl_get (Some t) k now \<noteq> None} < tt_capacity t)"
  using assms
proof (cases rule: ttl_upsert_cases [where k = k and v = v and d = d and now = now])
  case (absent t1)
  have "{k. ttl_get (Some t) k now \<noteq> None} = {k. ttl_get (Some t1) k now \<noteq> None}"
    using absent(5) [of now] by simp
  then have c: "card {k. ttl_get (Some t) k now \<noteq> None} = length (tt_entries (ttl_sweep t1 now))"
    using ttl_live_card [OF absent(2), of now] by simp
  have "length (tt_entries (ttl_sweep t1 now)) \<le> length (tt_entries t1)" by simp
  then have "(\<exists>r. fst (ttl_insert t1 k v d now) = Inr r) \<longleftrightarrow>
    length (tt_entries (ttl_sweep t1 now)) < tt_capacity t1"
    by (auto simp: ttl_insert_def Let_def not_le simp del: length_filter_le)
  then show ?thesis using absent(1,4,6,7) c by (simp del: ttl_get.simps)
qed auto

lemma ttl_sim_upsert:
  assumes sim: "ttl_sim cap t0 h m" and "t0 \<le> now"
  shows "ttl_observe (TtlUpsert k v d now) h = fst (spec_step cap (TtlUpsert k v d now) m) \<and>
    ttl_sim cap now (ttl_step (TtlUpsert k v d now) h) (snd (spec_step cap (TtlUpsert k v d now) m))"
proof -
  obtain t where h: "h = Some t" "tt_capacity t = cap" and ok: "ttl_ok h"
    and g: "\<And>k later. t0 \<le> later \<Longrightarrow> ttl_get h k later = spec_get m k later"
    using sim by (auto simp: ttl_sim_def)
  obtain r h' where u: "ttl_upsert h k v d now = (r, h')" by fastforce
  have live: "spec_live m now = {k. ttl_get h k now \<noteq> None}"
    using g [OF assms(2)] by (simp add: spec_live_def)
  have acc: "(\<exists>x. r = Inr x) \<longleftrightarrow> 0 < d \<and> (k \<in> spec_live m now \<or> card (spec_live m now) < cap)"
    using ttl_upsert_accepts_iff [OF ok [unfolded h(1)], of k v d now] u h live by simp
  have ok': "ttl_ok h'" using ttl_upsert_ok [OF ok, of k v d now] u by simp
  obtain t' where h': "h' = Some t'" and c: "tt_capacity t' = cap"
    using ttl_step_Some [of "TtlUpsert k v d now" t] u h by auto
  show ?thesis
  proof (cases r)
    case (Inl e)
    then have "\<not> (0 < d \<and> (k \<in> spec_live m now \<or> card (spec_live m now) < cap))" using acc by simp
    then show ?thesis
      using Inl u ok' h' c ttl_upsert_get(2) [OF ok, of now _ k v d e h'] g assms(2)
      by (auto simp: ttl_sim_def simp del: ttl_ok.simps ttl_get.simps)
  next
    case (Inr out)
    then have "0 < d \<and> (k \<in> spec_live m now \<or> card (spec_live m now) < cap)" using acc by simp
    moreover have "out = (if k \<in> spec_live m now then TTL_updated else TTL_inserted)"
      using ttl_upsert_get(1) [OF ok, of now now k v d out h'] u Inr live by (cases out) auto
    ultimately show ?thesis
      using Inr u ok' h' c ttl_upsert_get(1) [OF ok, of now _ k v d out h'] g assms(2)
      by (auto simp: ttl_sim_def spec_get_upd simp del: ttl_ok.simps ttl_get.simps)
  qed
qed

lemma ttl_sim_step:
  assumes sim: "ttl_sim cap t0 h m" and "\<And>now. ttl_op_time x = Some now \<Longrightarrow> t0 \<le> now"
  shows "ttl_observe x h = fst (spec_step cap x m) \<and>
    ttl_sim cap (case ttl_op_time x of None \<Rightarrow> t0 | Some now \<Rightarrow> now) (ttl_step x h) (snd (spec_step cap x m))"
proof -
  obtain t where h: "h = Some t" "tt_capacity t = cap" and ok: "ttl_ok h"
    and g: "\<And>k later. t0 \<le> later \<Longrightarrow> ttl_get h k later = spec_get m k later"
    using sim by (auto simp: ttl_sim_def)
  obtain t' where h': "ttl_step x h = Some t'" and c: "tt_capacity t' = cap"
    using ttl_step_Some [of x t] h by auto
  have ok': "ttl_ok (ttl_step x h)" using ok by (rule ttl_step_ok)
  note sim_rules = ttl_sim_def spec_get_upd
  show ?thesis
  proof (cases x)
    case (TtlUpsert k v d now)
    then show ?thesis using ttl_sim_upsert [OF sim, of now k v d] assms(2) by simp
  next
    case (TtlErase k)
    then show ?thesis using h' c ok' g ttl_erase_get [of h k]
      by (auto simp: sim_rules simp del: ttl_ok.simps ttl_get.simps)
  next
    case (TtlTake k now)
    then show ?thesis using h' c ok' g assms(2) ttl_take_get [OF ok, of k now]
      by (auto simp: sim_rules simp del: ttl_ok.simps ttl_get.simps)
  next
    case (TtlExpire now)
    then show ?thesis using h' c ok' g assms(2) ttl_expire_get [OF ok, of now]
      by (auto simp: sim_rules simp del: ttl_ok.simps ttl_get.simps)
  qed
qed

lemma ttl_sim_trace:
  "ttl_sim cap t0 h m \<Longrightarrow> ttl_timed t0 xs \<Longrightarrow> ttl_trace xs h = spec_trace cap xs m"
proof (induction xs arbitrary: t0 h m)
  case (Cons x xs)
  then have "t0 \<le> now" if "ttl_op_time x = Some now" for now using that by simp
  note step = ttl_sim_step [of cap t0 h m x, OF Cons.prems(1) this]
  show ?case
    using step Cons.prems(2) Cons.IH [of "case ttl_op_time x of None \<Rightarrow> t0 | Some now \<Rightarrow> now"]
    by (auto split: option.splits)
qed simp

section \<open>Properties\<close>

text \<open>
  C12: a freshly created table answers every run of operations with non-decreasing times exactly as
  the abstract timed map does: an insertion is refused only for a non-positive lifetime or when
  the capacity is full of other live keys, a lookup by \<open>take\<close> yields the last value stored
  for the key if its life has not ended, and sweeping is never visible.
\<close>

theorem relay_ttl_refines:
  assumes "ttl_create cap = Inr h" and "ttl_timed t0 xs"
  shows "ttl_trace xs h = spec_trace cap xs (\<lambda>k. None)"
proof -
  have "ttl_sim cap t0 h (\<lambda>k. None)"
    using assms(1) by (auto simp: ttl_sim_def ttl_create_def ttl_no_diagnostics_def spec_get_def split: if_splits)
  then show ?thesis using assms(2) by (rule ttl_sim_trace)
qed

theorem relay_ttl_refines_witness:
  "ttl_trace [TtlUpsert (1::nat) (7::nat) 1 0, TtlUpsert 2 8 1 10, TtlUpsert 2 9 1 1000000,
     TtlTake 2 1000001, TtlTake 2 1000002]
     (Some \<lparr>tt_capacity = 1, tt_entries = [], tt_stats = ttl_no_diagnostics\<rparr>) =
   spec_trace 1 [TtlUpsert (1::nat) 7 1 0, TtlUpsert 2 8 1 10, TtlUpsert 2 9 1 1000000,
     TtlTake 2 1000001, TtlTake 2 1000002] (\<lambda>k. None) \<and>
   ttl_trace [TtlUpsert (1::nat) (7::nat) 1 0, TtlUpsert 2 8 1 10, TtlUpsert 2 9 1 1000000,
     TtlTake 2 1000001, TtlTake 2 1000002]
     (Some \<lparr>tt_capacity = 1, tt_entries = [], tt_stats = ttl_no_diagnostics\<rparr>) =
   [OutUpsert (Some TTL_inserted), OutUpsert None, OutUpsert (Some TTL_inserted),
    OutTake (Some 9), OutTake None]"
proof
  show "ttl_trace [TtlUpsert (1::nat) (7::nat) 1 0, TtlUpsert 2 8 1 10, TtlUpsert 2 9 1 1000000,
     TtlTake 2 1000001, TtlTake 2 1000002]
     (Some \<lparr>tt_capacity = 1, tt_entries = [], tt_stats = ttl_no_diagnostics\<rparr>) =
   spec_trace 1 [TtlUpsert (1::nat) 7 1 0, TtlUpsert 2 8 1 10, TtlUpsert 2 9 1 1000000,
     TtlTake 2 1000001, TtlTake 2 1000002] (\<lambda>k. None)"
    by (rule relay_ttl_refines [of _ _ 0]) (simp_all add: ttl_create_def)
qed (simp add: ttl_insert_def ttl_sweep_def Let_def ttl_no_diagnostics_def om_put_def om_del_def)

text \<open>
  Whatever sequence of operations follows its creation, in any order and with any times, a
  table keeps its entries in strict key order with each entry under its own key, never holds more
  than its capacity, and its current and peak counters are the entry count and a bound on it.
\<close>

theorem relay_ttl_bounded:
  assumes "ttl_create cap = Inr h"
  shows "\<exists>t. run ttl_step xs h = Some t \<and> om_wf (tt_entries t) \<and> tt_capacity t = cap \<and>
    length (tt_entries t) \<le> td_peak_entries (tt_stats t) \<and> td_peak_entries (tt_stats t) \<le> cap \<and>
    td_current_entries (tt_stats t) = length (tt_entries t)"
proof -
  have "\<exists>t. run ttl_step xs h = Some t \<and> tt_capacity t = cap"
    using assms
  proof (induction xs rule: rev_induct)
    case Nil
    then show ?case by (auto simp: ttl_create_def split: if_splits)
  next
    case (snoc x xs)
    then obtain t where t: "run ttl_step xs h = Some t" "tt_capacity t = cap" by blast
    then show ?case using ttl_step_Some [of x t] by (simp add: run_append)
  qed
  moreover have "ttl_ok (run ttl_step xs h)"
    using assms by (intro relay_ttl_machine.inv_reachable) blast
  ultimately show ?thesis by auto
qed

theorem relay_ttl_bounded_witness:
  "\<exists>t. run ttl_step [TtlUpsert (1::nat) (7::nat) 1 0, TtlErase 1]
     (Some \<lparr>tt_capacity = 3, tt_entries = [], tt_stats = ttl_no_diagnostics\<rparr>) = Some t \<and>
     om_wf (tt_entries t) \<and> tt_capacity t = 3 \<and>
    length (tt_entries t) \<le> td_peak_entries (tt_stats t) \<and> td_peak_entries (tt_stats t) \<le> 3 \<and>
    td_current_entries (tt_stats t) = length (tt_entries t)"
  by (rule relay_ttl_bounded) (simp add: ttl_create_def)

end
