(* ===== verification/Heyaki_Relay_Rate.thy ===== *)
theory Heyaki_Relay_Rate
  imports Heyaki_Core
begin

text \<open>
  The relay's token-bucket rate limiter (\<open>relay_rate_limiter.hpp\<close> and \<open>.cpp\<close>): one bucket per
  key in each of four scopes, refilled in whole milliseconds at an integer rate of micro-tokens.
\<close>

section \<open>Policy, buckets and counters\<close>

datatype RelayRateLimitScope = RLS_connection | RLS_request | RLS_tenant | RLS_ip

record RelayRateLimitRule =
  rr_capacity :: nat
  rr_window :: milliseconds
  rr_max_keys :: nat

record RelayRateLimitPolicy =
  rp_connection :: RelayRateLimitRule
  rp_request :: RelayRateLimitRule
  rp_tenant :: RelayRateLimitRule
  rp_ip :: RelayRateLimitRule
  rp_entry_ttl :: milliseconds

record RelayRateLimitCounters =
  rc_allowed :: u64
  rc_rejected :: u64
  rc_capacity_rejected :: u64
  rc_current_keys :: nat
  rc_peak_keys :: nat

record RelayRateLimitDiagnostics =
  rd_connection :: RelayRateLimitCounters
  rd_request :: RelayRateLimitCounters
  rd_tenant :: RelayRateLimitCounters
  rd_ip :: RelayRateLimitCounters

definition rate_rule :: "nat \<Rightarrow> milliseconds \<Rightarrow> nat \<Rightarrow> RelayRateLimitRule" where
  "rate_rule c w m = \<lparr>rr_capacity = c, rr_window = w, rr_max_keys = m\<rparr>"

definition default_rate_policy :: RelayRateLimitPolicy where
  "default_rate_policy = \<lparr>rp_connection = rate_rule 16 1000 4096, rp_request = rate_rule 256 1000 1,
     rp_tenant = rate_rule 64 1000 1024, rp_ip = rate_rule 32 1000 4096, rp_entry_ttl = 60000\<rparr>"

definition rate_no_counters :: RelayRateLimitCounters where
  "rate_no_counters = \<lparr>rc_allowed = 0, rc_rejected = 0, rc_capacity_rejected = 0,
     rc_current_keys = 0, rc_peak_keys = 0\<rparr>"

definition rate_no_diagnostics :: RelayRateLimitDiagnostics where
  "rate_no_diagnostics = \<lparr>rd_connection = rate_no_counters, rd_request = rate_no_counters,
     rd_tenant = rate_no_counters, rd_ip = rate_no_counters\<rparr>"

record Bucket =
  bk_available_micro_tokens :: u64
  bk_last_refill :: time_point

record ScopeState =
  ss_rule :: RelayRateLimitRule
  ss_buckets :: "(string, Bucket) omap"

definition micro_units_per_token :: u64 where
  "micro_units_per_token = 1000000"

definition limiter_error :: "ErrorCode \<Rightarrow> string \<Rightarrow> Error" where
  "limiter_error code detail = err code ''relay_rate_limit'' detail"

definition valid_key :: "string \<Rightarrow> nat \<Rightarrow> bool" where
  "valid_key s maximum \<longleftrightarrow> s \<noteq> [] \<and> length s \<le> maximum \<and>
     list_all (\<lambda>c. (0x21 :: nat) \<le> of_char c \<and> of_char c \<le> (0x7e :: nat)) s"

definition valid_rule :: "RelayRateLimitRule \<Rightarrow> bool" where
  "valid_rule rule \<longleftrightarrow> rr_capacity rule > 0 \<and> rr_capacity rule \<le> 1000000 \<and> rr_window rule > 0 \<and>
     rr_window rule \<le> 3600000 \<and> rr_max_keys rule > 0 \<and> rr_max_keys rule \<le> 1000000"

text \<open>
  \<open>duration_cast\<close> truncates towards zero and \<open>div\<close> rounds down; under the maximum with zero
  they agree.
\<close>

definition elapsed_milliseconds :: "time_point \<Rightarrow> time_point \<Rightarrow> int" where
  "elapsed_milliseconds from to = max 0 ((to - from) div 1000000)"

section \<open>One scope\<close>

definition full_micro :: "RelayRateLimitRule \<Rightarrow> u64" where
  "full_micro rule = of_nat (rr_capacity rule) * micro_units_per_token"

definition refill :: "RelayRateLimitRule \<Rightarrow> Bucket \<Rightarrow> time_point \<Rightarrow> Bucket" where
  "refill rule bucket now =
    (let elapsed = min (elapsed_milliseconds (bk_last_refill bucket) now) (rr_window rule)
     in if elapsed \<le> 0 then bucket
        else let refill_per_millisecond = full_micro rule div of_int (rr_window rule);
                 credit = refill_per_millisecond * of_int elapsed
             in \<lparr>bk_available_micro_tokens =
                    min (full_micro rule) (bk_available_micro_tokens bucket + credit),
                 bk_last_refill = now\<rparr>)"

definition scope_prune :: "ScopeState \<Rightarrow> time_point \<Rightarrow> milliseconds \<Rightarrow> ScopeState" where
  "scope_prune st now entry_ttl =
     st\<lparr>ss_buckets := filter (\<lambda>(k, b). \<not> elapsed_milliseconds (bk_last_refill b) now \<ge> entry_ttl)
          (ss_buckets st)\<rparr>"

text \<open>The bucket of a key, made when the key is new and there is room, after a prune if necessary.\<close>

definition find_bucket ::
  "milliseconds \<Rightarrow> ScopeState \<Rightarrow> RelayRateLimitCounters \<Rightarrow> string \<Rightarrow> time_point \<Rightarrow>
     Bucket option \<times> ScopeState \<times> RelayRateLimitCounters" where
  "find_bucket entry_ttl st ct key now =
    (case map_of (ss_buckets st) key of
       Some b \<Rightarrow> (Some b, st, ct)
     | None \<Rightarrow>
       let (st1, ct1) = (if length (ss_buckets st) \<ge> rr_max_keys (ss_rule st)
             then let s = scope_prune st now entry_ttl
                  in (s, ct\<lparr>rc_current_keys := length (ss_buckets s)\<rparr>)
             else (st, ct))
       in if length (ss_buckets st1) \<ge> rr_max_keys (ss_rule st1) then
            (None, st1, ct1\<lparr>rc_capacity_rejected := rc_capacity_rejected ct1 + 1\<rparr>)
          else
            let b = \<lparr>bk_available_micro_tokens = full_micro (ss_rule st1), bk_last_refill = now\<rparr>;
                st2 = st1\<lparr>ss_buckets := om_put key b (ss_buckets st1)\<rparr>;
                n = length (ss_buckets st2)
            in (Some b, st2,
                ct1\<lparr>rc_current_keys := n, rc_peak_keys := max (rc_peak_keys ct1) n\<rparr>))"

definition scope_admit ::
  "milliseconds \<Rightarrow> ScopeState \<Rightarrow> RelayRateLimitCounters \<Rightarrow> string \<Rightarrow> time_point \<Rightarrow>
     unit result \<times> ScopeState \<times> RelayRateLimitCounters" where
  "scope_admit entry_ttl st ct key now =
    (case find_bucket entry_ttl st ct key now of
       (None, st1, ct1) \<Rightarrow>
         (Inl (limiter_error EC_resource_exhausted ''rate_limit_key_capacity_exhausted''), st1, ct1)
     | (Some b0, st1, ct1) \<Rightarrow>
         let b = refill (ss_rule st1) b0 now;
             put = (\<lambda>b. st1\<lparr>ss_buckets := om_put key b (ss_buckets st1)\<rparr>)
         in if bk_available_micro_tokens b < micro_units_per_token then
              (Inl (limiter_error EC_resource_exhausted ''rate_limit_exceeded''), put b,
               ct1\<lparr>rc_rejected := rc_rejected ct1 + 1\<rparr>)
            else
              (Inr (),
               put (b\<lparr>bk_available_micro_tokens :=
                        bk_available_micro_tokens b - micro_units_per_token\<rparr>),
               ct1\<lparr>rc_allowed := rc_allowed ct1 + 1\<rparr>))"

section \<open>The limiter\<close>

record RelayRateLimiterImpl =
  rl_policy :: RelayRateLimitPolicy
  rl_connection :: ScopeState
  rl_request :: ScopeState
  rl_tenant :: ScopeState
  rl_ip :: ScopeState
  rl_diagnostics :: RelayRateLimitDiagnostics

type_synonym RelayRateLimiter = "RelayRateLimiterImpl option"

definition new_scope :: "RelayRateLimitRule \<Rightarrow> ScopeState" where
  "new_scope rule = \<lparr>ss_rule = rule, ss_buckets = []\<rparr>"

definition rate_impl :: "RelayRateLimitPolicy \<Rightarrow> RelayRateLimiterImpl" where
  "rate_impl policy = \<lparr>rl_policy = policy, rl_connection = new_scope (rp_connection policy),
     rl_request = new_scope (rp_request policy), rl_tenant = new_scope (rp_tenant policy),
     rl_ip = new_scope (rp_ip policy), rl_diagnostics = rate_no_diagnostics\<rparr>"

fun scope_of :: "RelayRateLimitScope \<Rightarrow> RelayRateLimiterImpl \<Rightarrow> ScopeState" where
  "scope_of RLS_connection l = rl_connection l"
| "scope_of RLS_request l = rl_request l"
| "scope_of RLS_tenant l = rl_tenant l"
| "scope_of RLS_ip l = rl_ip l"

fun counters_of :: "RelayRateLimitScope \<Rightarrow> RelayRateLimiterImpl \<Rightarrow> RelayRateLimitCounters" where
  "counters_of RLS_connection l = rd_connection (rl_diagnostics l)"
| "counters_of RLS_request l = rd_request (rl_diagnostics l)"
| "counters_of RLS_tenant l = rd_tenant (rl_diagnostics l)"
| "counters_of RLS_ip l = rd_ip (rl_diagnostics l)"

fun put_scope :: "RelayRateLimitScope \<Rightarrow> ScopeState \<Rightarrow> RelayRateLimitCounters \<Rightarrow>
    RelayRateLimiterImpl \<Rightarrow> RelayRateLimiterImpl" where
  "put_scope RLS_connection s c l =
     l\<lparr>rl_connection := s, rl_diagnostics := (rl_diagnostics l)\<lparr>rd_connection := c\<rparr>\<rparr>"
| "put_scope RLS_request s c l =
     l\<lparr>rl_request := s, rl_diagnostics := (rl_diagnostics l)\<lparr>rd_request := c\<rparr>\<rparr>"
| "put_scope RLS_tenant s c l =
     l\<lparr>rl_tenant := s, rl_diagnostics := (rl_diagnostics l)\<lparr>rd_tenant := c\<rparr>\<rparr>"
| "put_scope RLS_ip s c l =
     l\<lparr>rl_ip := s, rl_diagnostics := (rl_diagnostics l)\<lparr>rd_ip := c\<rparr>\<rparr>"

definition rate_admit :: "RelayRateLimitScope \<Rightarrow> string \<Rightarrow> time_point \<Rightarrow> RelayRateLimiterImpl \<Rightarrow>
    unit result \<times> RelayRateLimiterImpl" where
  "rate_admit scope key now l =
    (if scope \<noteq> RLS_request \<and> \<not> valid_key key 128 then
       (Inl (limiter_error EC_configuration ''rate_limit_key_invalid''), l)
     else
       let lookup_key = (if scope = RLS_request then [] else key);
           (r, s, c) = scope_admit (rp_entry_ttl (rl_policy l)) (scope_of scope l)
                         (counters_of scope l) lookup_key now
       in (r, put_scope scope s c l))"

definition validate_rate_policy :: "RelayRateLimitPolicy \<Rightarrow> unit result" where
  "validate_rate_policy policy =
    (if \<not> valid_rule (rp_connection policy) \<or> \<not> valid_rule (rp_request policy) \<or>
        \<not> valid_rule (rp_tenant policy) \<or> \<not> valid_rule (rp_ip policy) \<or>
        rp_entry_ttl policy \<le> 0 \<or> rp_entry_ttl policy > 3600000
     then Inl (limiter_error EC_configuration ''rate_limit_policy_invalid'') else Inr ())"

definition rate_create :: "RelayRateLimitPolicy \<Rightarrow> RelayRateLimiter result" where
  "rate_create policy = (case validate_rate_policy policy of
     Inl e \<Rightarrow> Inl e | Inr _ \<Rightarrow> Inr (Some (rate_impl policy)))"

fun rate_check :: "RelayRateLimitScope \<Rightarrow> string \<Rightarrow> time_point \<Rightarrow> RelayRateLimiter \<Rightarrow>
    unit result \<times> RelayRateLimiter" where
  "rate_check scope key now None =
     (Inl (limiter_error EC_cancelled ''rate_limiter_not_initialized''), None)"
| "rate_check scope key now (Some l) = map_prod id Some (rate_admit scope key now l)"

definition check_connection where
  "check_connection connection_id now = rate_check RLS_connection connection_id now"

definition check_request where
  "check_request now = rate_check RLS_request [] now"

definition check_tenant where
  "check_tenant tenant now = rate_check RLS_tenant tenant now"

definition check_ip where
  "check_ip ip now = rate_check RLS_ip ip now"

definition prune_one :: "time_point \<Rightarrow> RelayRateLimitScope \<Rightarrow> RelayRateLimiterImpl \<Rightarrow>
    RelayRateLimiterImpl" where
  "prune_one now scope l =
    (let s = scope_prune (scope_of scope l) now (rp_entry_ttl (rl_policy l))
     in put_scope scope s ((counters_of scope l)\<lparr>rc_current_keys := length (ss_buckets s)\<rparr>) l)"

fun rate_prune :: "time_point \<Rightarrow> RelayRateLimiter \<Rightarrow> RelayRateLimiter" where
  "rate_prune now None = None"
| "rate_prune now (Some l) =
     Some (prune_one now RLS_ip (prune_one now RLS_tenant (prune_one now RLS_request
       (prune_one now RLS_connection l))))"

fun rate_diagnostics :: "RelayRateLimiter \<Rightarrow> RelayRateLimitDiagnostics" where
  "rate_diagnostics None = rate_no_diagnostics"
| "rate_diagnostics (Some l) = rl_diagnostics l"

fun relay_rate_limit_scope_name :: "RelayRateLimitScope \<Rightarrow> string" where
  "relay_rate_limit_scope_name RLS_connection = ''connection''"
| "relay_rate_limit_scope_name RLS_request = ''request''"
| "relay_rate_limit_scope_name RLS_tenant = ''tenant''"
| "relay_rate_limit_scope_name RLS_ip = ''ip''"

section \<open>Invariant vocabulary\<close>

text \<open>
  A scope is sound at time \<open>t\<close> when its map is ordered and within the key limit and each bucket
  holds at most the full amount and was refilled no later than \<open>t\<close>.
\<close>

definition scope_ok :: "time_point \<Rightarrow> ScopeState \<Rightarrow> bool" where
  "scope_ok t st \<longleftrightarrow> valid_rule (ss_rule st) \<and> om_wf (ss_buckets st) \<and>
     length (ss_buckets st) \<le> rr_max_keys (ss_rule st) \<and>
     list_all (\<lambda>(k, b). bk_available_micro_tokens b \<le> full_micro (ss_rule st) \<and>
                        bk_last_refill b \<le> t) (ss_buckets st)"

text \<open>
  The allowance of a bucket at a time: what it holds plus the exact, unrounded share of the refill
  since its last one, scaled by the window in nanoseconds.  It is at most a full bucket and the
  refill of the one millisecond that a full bucket may lag behind.  A key without a bucket counts
  as full.
\<close>

definition window_ns :: "RelayRateLimitRule \<Rightarrow> int" where
  "window_ns rule = ms_to_ns (rr_window rule)"

definition full_tokens :: "RelayRateLimitRule \<Rightarrow> int" where
  "full_tokens rule = int (rr_capacity rule) * 1000000"

fun allowance :: "RelayRateLimitRule \<Rightarrow> time_point \<Rightarrow> Bucket option \<Rightarrow> int" where
  "allowance rule now None = full_tokens rule * window_ns rule"
| "allowance rule now (Some b) = min (full_tokens rule * (window_ns rule + 1000000))
     (uint (bk_available_micro_tokens b) * window_ns rule +
      full_tokens rule * (now - bk_last_refill b))"

datatype RateOp = RateCheck RelayRateLimitScope string time_point | RatePrune time_point

fun rate_step :: "RateOp \<Rightarrow> RelayRateLimiter \<Rightarrow> RelayRateLimiter" where
  "rate_step (RateCheck scope key now) l = snd (rate_check scope key now l)"
| "rate_step (RatePrune now) l = rate_prune now l"

fun rate_op_time :: "RateOp \<Rightarrow> time_point" where
  "rate_op_time (RateCheck scope key now) = now"
| "rate_op_time (RatePrune now) = now"

fun scope_of_policy :: "RelayRateLimitScope \<Rightarrow> RelayRateLimitPolicy \<Rightarrow> RelayRateLimitRule" where
  "scope_of_policy RLS_connection p = rp_connection p"
| "scope_of_policy RLS_request p = rp_request p"
| "scope_of_policy RLS_tenant p = rp_tenant p"
| "scope_of_policy RLS_ip p = rp_ip p"

text \<open>The checks of one key of one scope that a run of operations lets pass.\<close>

fun passed :: "RelayRateLimitScope \<Rightarrow> string \<Rightarrow> RateOp \<Rightarrow> RelayRateLimiter \<Rightarrow> bool" where
  "passed scope key (RateCheck s k now) l \<longleftrightarrow>
     s = scope \<and> (s = RLS_request \<or> k = key) \<and> fst (rate_check s k now l) = Inr ()"
| "passed scope key (RatePrune now) l \<longleftrightarrow> False"

primrec passes :: "RelayRateLimitScope \<Rightarrow> string \<Rightarrow> RateOp list \<Rightarrow> RelayRateLimiter \<Rightarrow> nat" where
  "passes scope key [] l = 0"
| "passes scope key (x # xs) l =
     (if passed scope key x l then 1 else 0) + passes scope key xs (rate_step x l)"

fun limiter_ok :: "RelayRateLimitPolicy \<Rightarrow> time_point \<Rightarrow> RelayRateLimiter \<Rightarrow> bool" where
  "limiter_ok policy t None \<longleftrightarrow> False"
| "limiter_ok policy t (Some l) \<longleftrightarrow> rl_policy l = policy \<and> (\<forall>scope. scope_ok t (scope_of scope l) \<and>
     ss_rule (scope_of scope l) = scope_of_policy scope policy)"

definition key_allowance :: "RelayRateLimitScope \<Rightarrow> string \<Rightarrow> time_point \<Rightarrow> RelayRateLimiter \<Rightarrow> int" where
  "key_allowance scope key now l = (case l of None \<Rightarrow> 0 | Some i \<Rightarrow>
     allowance (ss_rule (scope_of scope i)) now
       (map_of (ss_buckets (scope_of scope i)) (if scope = RLS_request then [] else key)))"

text \<open>The answers to successive checks of one key.\<close>

primrec scope_checks :: "milliseconds \<Rightarrow> ScopeState \<Rightarrow> RelayRateLimitCounters \<Rightarrow> string \<Rightarrow> time_point list \<Rightarrow>
    unit result list" where
  "scope_checks ttl st ct key [] = []"
| "scope_checks ttl st ct key (now # nows) =
    (case scope_admit ttl st ct key now of (r, st', ct') \<Rightarrow> r # scope_checks ttl st' ct' key nows)"

section \<open>Lemmas\<close>

lemma uint_full_micro:
  assumes "valid_rule r" shows "uint (full_micro r) = full_tokens r"
proof -
  have c: "uint (of_int (int (rr_capacity r)) :: u64) = int (rr_capacity r)"
    using assms by (intro uint_of_int_small) (simp_all add: valid_rule_def)
  have "uint (of_int (int (rr_capacity r)) * (1000000 :: u64)) = int (rr_capacity r) * 1000000"
    using assms by (subst uint_mult_small) (simp_all only: c, simp_all add: valid_rule_def)
  then show ?thesis by (simp add: full_micro_def micro_units_per_token_def full_tokens_def)
qed

lemma full_tokens_bound: "valid_rule r \<Longrightarrow> 0 < full_tokens r \<and> full_tokens r \<le> 1000000000000"
  by (simp add: full_tokens_def valid_rule_def)

lemma refill_tokens:
  assumes r: "valid_rule r" and b: "bk_available_micro_tokens b \<le> full_micro r"
  assumes el_def: "el = min (elapsed_milliseconds (bk_last_refill b) now) (rr_window r)"
  assumes el: "0 < el"
  shows "uint (bk_available_micro_tokens (refill r b now)) =
     min (full_tokens r) (uint (bk_available_micro_tokens b) + full_tokens r div rr_window r * el)"
proof -
  let ?a = "bk_available_micro_tokens b" and ?q = "full_tokens r div rr_window r"
  have w: "0 < rr_window r" "rr_window r \<le> 3600000" using r by (simp_all add: valid_rule_def)
  have elw: "el \<le> rr_window r" by (simp add: el_def)
  have a: "uint ?a \<le> full_tokens r"
    using b uint_full_micro [OF r] by (simp add: word_le_def)
  note full = full_tokens_bound [OF r]
  have "?q * el \<le> ?q * rr_window r" using elw full w by (intro mult_left_mono) (auto simp: pos_imp_zdiv_nonneg_iff)
  also have "\<dots> \<le> full_tokens r" using w(1) by (rule zdiv_mult_le)
  finally have c: "?q * el \<le> full_tokens r" .
  have c0: "0 \<le> ?q" using full w by (simp add: pos_imp_zdiv_nonneg_iff)
  define rate where "rate = full_micro r div of_int (rr_window r)"
  have rate: "uint rate = ?q"
    using w uint_full_micro [OF r] by (simp add: rate_def uint_div_distrib uint_of_int_small)
  have e: "uint (of_int el :: u64) = el" using el elw w by (intro uint_of_int_small) simp_all
  have credit: "uint (rate * of_int el) = ?q * el"
    using c full by (subst uint_mult_small) (simp_all only: rate e, simp)
  have sum: "uint (?a + rate * of_int el) = uint ?a + ?q * el"
    using c full a by (subst uint_add_small) (simp_all only: credit, simp)
  have "bk_available_micro_tokens (refill r b now) = min (full_micro r) (?a + rate * of_int el)"
    using el by (simp add: refill_def el_def [symmetric] rate_def Let_def)
  then show ?thesis by (simp only: uint_min sum uint_full_micro [OF r])
qed

lemma refill_idle:
  "elapsed_milliseconds (bk_last_refill b) now \<le> 0 \<Longrightarrow> refill r b now = b"
  by (simp add: refill_def Let_def)

lemma refill_bound:
  assumes "valid_rule r" "bk_available_micro_tokens b \<le> full_micro r"
  shows "bk_available_micro_tokens (refill r b now) \<le> full_micro r"
  using assms by (auto simp: refill_def Let_def)

text \<open>A refill never raises the allowance: rounding only loses tokens.\<close>

lemma refill_allowance:
  assumes r: "valid_rule r" and b: "bk_available_micro_tokens b \<le> full_micro r"
    and t: "bk_last_refill b \<le> now"
  shows "allowance r now (Some (refill r b now)) \<le> allowance r now (Some b)"
proof (cases "elapsed_milliseconds (bk_last_refill b) now \<le> 0")
  case True
  then show ?thesis by (simp add: refill_idle)
next
  case False
  let ?a = "uint (bk_available_micro_tokens b)" and ?F = "full_tokens r" and ?d = "now - bk_last_refill b"
  define el where "el = min (elapsed_milliseconds (bk_last_refill b) now) (rr_window r)"
  have w: "0 < rr_window r" using r by (simp add: valid_rule_def)
  then have el: "0 < el" using False by (simp add: el_def)
  have last: "bk_last_refill (refill r b now) = now"
    using el by (simp add: refill_def Let_def el_def [symmetric])
  have "elapsed_milliseconds (bk_last_refill b) now = ?d div 1000000"
    using False by (simp add: elapsed_milliseconds_def max_def split: if_splits)
  then have "el \<le> ?d div 1000000" by (simp add: el_def)
  then have d: "el * 1000000 \<le> ?d" using zdiv_mult_le [of 1000000 ?d] by linarith
  have q: "?F div rr_window r * rr_window r \<le> ?F"
    using w by (rule zdiv_mult_le)
  have "?F div rr_window r * el * window_ns r = ?F div rr_window r * rr_window r * (el * 1000000)"
    by (simp add: window_ns_def)
  also have "\<dots> \<le> ?F * (el * 1000000)" using q el by (intro mult_right_mono) auto
  also have "\<dots> \<le> ?F * ?d" using d full_tokens_bound [OF r] by (intro mult_left_mono) auto
  finally have "(?a + ?F div rr_window r * el) * window_ns r \<le> ?a * window_ns r + ?F * ?d"
    by (simp add: distrib_right)
  moreover have "uint (bk_available_micro_tokens (refill r b now)) * window_ns r \<le>
      (?a + ?F div rr_window r * el) * window_ns r"
    using refill_tokens [OF r b el_def el] w by (intro mult_right_mono) (auto simp: window_ns_def)
  ultimately have "uint (bk_available_micro_tokens (refill r b now)) * window_ns r \<le>
      ?a * window_ns r + ?F * ?d"
    by (rule order_trans [rotated])
  then show ?thesis
    unfolding allowance.simps last by (intro min.boundedI min.cobounded1 min.coboundedI2) simp
qed

text \<open>Behind a refill the bucket lags by less than a millisecond.\<close>

lemma refill_exact:
  assumes r: "valid_rule r" and b: "bk_available_micro_tokens b \<le> full_micro r"
  shows "uint (bk_available_micro_tokens (refill r b now)) * window_ns r +
      full_tokens r * (now - bk_last_refill (refill r b now)) \<le> full_tokens r * (window_ns r + 1000000)"
proof -
  let ?c = "refill r b now"
  have w: "0 < rr_window r" using r by (simp add: valid_rule_def)
  have "now - bk_last_refill ?c \<le> 1000000"
  proof (cases "elapsed_milliseconds (bk_last_refill b) now \<le> 0")
    case True
    then have "(now - bk_last_refill b) div 1000000 \<le> 0" by (simp add: elapsed_milliseconds_def)
    then show ?thesis using True by (simp add: refill_idle)
  qed (use w in \<open>simp add: refill_def Let_def min_def\<close>)
  then have "full_tokens r * (now - bk_last_refill ?c) \<le> full_tokens r * 1000000"
    using full_tokens_bound [OF r] by (intro mult_left_mono) auto
  moreover have "uint (bk_available_micro_tokens ?c) * window_ns r \<le> full_tokens r * window_ns r"
    using refill_bound [OF r b, of now] uint_full_micro [OF r] w
    by (intro mult_right_mono) (auto simp: word_le_def window_ns_def)
  ultimately show ?thesis by (simp add: distrib_left)
qed

lemma min_add_le: "0 \<le> (c::int) \<Longrightarrow> min x (y + c) \<le> min x y + c"
  by (simp add: min_def)

lemma allowance_mono:
  assumes "valid_rule r" "t \<le> now"
  shows "allowance r now b \<le> allowance r t b + full_tokens r * (now - t)"
proof -
  have nn: "0 \<le> full_tokens r * (now - t)" using assms full_tokens_bound [OF assms(1)] by simp
  show ?thesis
  proof (cases b)
    case (Some a)
    have eq: "full_tokens r * (now - bk_last_refill a) =
        full_tokens r * (t - bk_last_refill a) + full_tokens r * (now - t)"
      by (simp add: algebra_simps)
    show ?thesis
      unfolding Some allowance.simps eq add.assoc [symmetric] by (rule min_add_le [OF nn])
  qed (use nn in simp)
qed

lemma allowance_bounds:
  assumes "valid_rule r" "\<And>x. b = Some x \<Longrightarrow> bk_last_refill x \<le> now"
  shows "0 \<le> allowance r now b \<and> allowance r now b \<le> full_tokens r * (window_ns r + 1000000)"
proof -
  have "0 < full_tokens r" "0 < window_ns r"
    using assms full_tokens_bound [OF assms(1)] by (auto simp: valid_rule_def window_ns_def)
  then have "0 \<le> full_tokens r * (now - x)" if "x \<le> now" for x using that by simp
  with \<open>0 < full_tokens r\<close> \<open>0 < window_ns r\<close> show ?thesis
    using assms(2) by (cases b) simp_all
qed

lemma scope_ok_later: "scope_ok t st \<Longrightarrow> t \<le> now \<Longrightarrow> scope_ok now st"
  by (auto simp: scope_ok_def list_all_iff)

lemma scope_ok_bucket:
  "scope_ok t st \<Longrightarrow> map_of (ss_buckets st) k = Some b \<Longrightarrow>
     bk_available_micro_tokens b \<le> full_micro (ss_rule st) \<and> bk_last_refill b \<le> t"
  by (auto simp: scope_ok_def list_all_iff dest: map_of_SomeD)

lemma scope_ok_put:
  assumes "scope_ok t st" "bk_available_micro_tokens b \<le> full_micro (ss_rule st)" "bk_last_refill b \<le> t"
    "map_of (ss_buckets st) k = None \<Longrightarrow> length (ss_buckets st) < rr_max_keys (ss_rule st)"
  shows "scope_ok t (st\<lparr>ss_buckets := om_put k b (ss_buckets st)\<rparr>)"
  using assms by (auto simp: scope_ok_def om_simps list_all_om_put)

lemma scope_prune_ok: "scope_ok t st \<Longrightarrow> scope_ok t (scope_prune st now ttl)"
  by (auto simp: scope_ok_def scope_prune_def list_all_filter intro: order_trans [OF length_filter_le])

lemma scope_prune_rule [simp]: "ss_rule (scope_prune st now ttl) = ss_rule st"
  by (simp add: scope_prune_def)

text \<open>A key silent for at least a window has regained its whole allowance, so dropping it gives nothing.\<close>

lemma scope_prune_allowance:
  assumes ok: "scope_ok t st" and w: "rr_window (ss_rule st) \<le> ttl"
  shows "allowance (ss_rule st) now (map_of (ss_buckets (scope_prune st now ttl)) k) \<le>
     allowance (ss_rule st) now (map_of (ss_buckets st) k)"
proof (cases "map_of (ss_buckets st) k")
  case None
  then show ?thesis using ok by (simp add: scope_prune_def scope_ok_def om_simps)
next
  case (Some b)
  let ?r = "ss_rule st"
  have r: "valid_rule ?r" and wf: "om_wf (ss_buckets st)" using ok by (simp_all add: scope_ok_def)
  show ?thesis
  proof (cases "elapsed_milliseconds (bk_last_refill b) now \<ge> ttl")
    case True
    have "0 < rr_window ?r" using r by (simp add: valid_rule_def)
    then have "rr_window ?r \<le> (now - bk_last_refill b) div 1000000"
      using True w by (simp add: elapsed_milliseconds_def)
    then have "window_ns ?r \<le> now - bk_last_refill b"
      using zdiv_mult_le [of 1000000 "now - bk_last_refill b"] by (simp add: window_ns_def)
    then have "full_tokens ?r * window_ns ?r \<le> full_tokens ?r * (now - bk_last_refill b)"
      using full_tokens_bound [OF r] by (intro mult_left_mono) auto
    moreover have "0 \<le> uint (bk_available_micro_tokens b) * window_ns ?r"
      using \<open>0 < rr_window ?r\<close> by (simp add: window_ns_def)
    ultimately have "full_tokens ?r * window_ns ?r \<le> allowance ?r now (Some b)"
      unfolding allowance.simps using full_tokens_bound [OF r]
      by (intro min.boundedI, simp, linarith)
    then show ?thesis using Some True wf by (simp add: scope_prune_def om_simps)
  qed (use Some wf in \<open>simp add: scope_prune_def om_simps\<close>)
qed

lemma find_bucket_step:
  assumes ok: "scope_ok t st" and t: "t \<le> now"
    and f: "find_bucket ttl st ct key now = (ob, st1, ct1)"
  shows "scope_ok now st1 \<and> ss_rule st1 = ss_rule st \<and>
    (\<forall>b. ob = Some b \<longrightarrow> map_of (ss_buckets st1) key = Some b) \<and>
    (rr_window (ss_rule st) \<le> ttl \<longrightarrow>
       allowance (ss_rule st) now (map_of (ss_buckets st1) k) \<le>
       allowance (ss_rule st) now (map_of (ss_buckets st) k))"
proof (cases "map_of (ss_buckets st) key")
  case (Some b)
  then show ?thesis using f scope_ok_later [OF ok t] by (auto simp: find_bucket_def)
next
  case None
  let ?r = "ss_rule st"
  define s where "s = (if length (ss_buckets st) \<ge> rr_max_keys ?r then scope_prune st now ttl else st)"
  have s: "scope_ok now s" "ss_rule s = ?r" "map_of (ss_buckets s) key = None"
    "rr_window ?r \<le> ttl \<longrightarrow>
       allowance ?r now (map_of (ss_buckets s) k) \<le> allowance ?r now (map_of (ss_buckets st) k)"
    using None ok scope_ok_later [OF ok t] scope_prune_ok [of now st now ttl]
      scope_prune_allowance [OF ok, of ttl now k]
    by (auto simp: s_def scope_prune_def om_simps scope_ok_def)
  define b where "b = \<lparr>bk_available_micro_tokens = full_micro ?r, bk_last_refill = now\<rparr>"
  show ?thesis
  proof (cases "length (ss_buckets s) \<ge> rr_max_keys ?r")
    case True
    then have "ob = None" "st1 = s"
      using f None by (auto simp: find_bucket_def Let_def s_def split: if_splits)
    then show ?thesis using s by simp
  next
    case False
    then have *: "ob = Some b" "st1 = s\<lparr>ss_buckets := om_put key b (ss_buckets s)\<rparr>"
      using f None by (auto simp: find_bucket_def Let_def s_def b_def split: if_splits)
    have ok1: "scope_ok now st1"
      unfolding * using s False by (intro scope_ok_put) (auto simp: b_def)
    have "valid_rule ?r" "om_wf (ss_buckets s)" using ok s by (simp_all add: scope_ok_def)
    then have "map_of (ss_buckets st1) = (map_of (ss_buckets s))(key \<mapsto> b)"
      "allowance ?r now (Some b) = allowance ?r now None"
      using * full_tokens_bound [of ?r] by (simp_all add: om_simps b_def uint_full_micro distrib_left)
    then show ?thesis using ok1 s * by auto
  qed
qed

lemma scope_admit_step:
  assumes ok: "scope_ok t st" and t: "t \<le> now"
    and f: "scope_admit ttl st ct key now = (r, st', ct')"
  shows "scope_ok now st' \<and> ss_rule st' = ss_rule st \<and>
    (rr_window (ss_rule st) \<le> ttl \<longrightarrow>
       allowance (ss_rule st) now (map_of (ss_buckets st') k) +
         (if k = key \<and> r = Inr () then 1000000 * window_ns (ss_rule st) else 0)
       \<le> allowance (ss_rule st) now (map_of (ss_buckets st) k))"
proof -
  let ?r = "ss_rule st"
  obtain ob st1 ct1 where fb: "find_bucket ttl st ct key now = (ob, st1, ct1)" by (metis prod_cases3)
  note step = find_bucket_step [OF ok t fb, of k]
  show ?thesis
  proof (cases ob)
    case None
    then show ?thesis using f fb step by (auto simp: scope_admit_def)
  next
    case (Some b0)
    define b where "b = refill ?r b0 now"
    have v: "valid_rule ?r" and wf: "om_wf (ss_buckets st1)" using ok step by (simp_all add: scope_ok_def)
    have b0: "map_of (ss_buckets st1) key = Some b0" using step Some by blast
    then have in_b0: "bk_available_micro_tokens b0 \<le> full_micro ?r" "bk_last_refill b0 \<le> now"
      using scope_ok_bucket [of now st1 key b0] step by auto
    have b: "bk_available_micro_tokens b \<le> full_micro ?r" "bk_last_refill b \<le> now"
      "allowance ?r now (Some b) \<le> allowance ?r now (Some b0)"
      unfolding b_def using refill_bound [OF v in_b0(1)] refill_allowance [OF v in_b0] in_b0(2)
      by (auto simp: refill_def Let_def)
    have put: "scope_ok now (st1\<lparr>ss_buckets := om_put key c (ss_buckets st1)\<rparr>)"
      if "bk_available_micro_tokens c \<le> full_micro ?r" "bk_last_refill c \<le> now" for c
      using that step b0 by (intro scope_ok_put) auto
    have look: "map_of (om_put key c (ss_buckets st1)) = (map_of (ss_buckets st1))(key \<mapsto> c)" for c
      using wf by (simp add: om_simps)
    show ?thesis
    proof (cases "bk_available_micro_tokens b < micro_units_per_token")
      case True
      then have "r = Inl (limiter_error EC_resource_exhausted ''rate_limit_exceeded'')"
        "st' = st1\<lparr>ss_buckets := om_put key b (ss_buckets st1)\<rparr>"
        using f fb Some step by (auto simp: scope_admit_def b_def)
      then show ?thesis using put [OF b(1,2)] step b(3) b0 by (auto simp: look)
    next
      case False
      define c where "c = b\<lparr>bk_available_micro_tokens := bk_available_micro_tokens b - micro_units_per_token\<rparr>"
      have st': "r = Inr ()" "st' = st1\<lparr>ss_buckets := om_put key c (ss_buckets st1)\<rparr>"
        using False f fb Some step by (auto simp: scope_admit_def b_def c_def Let_def)
      have c: "uint (bk_available_micro_tokens c) = uint (bk_available_micro_tokens b) - 1000000"
        using False by (simp add: c_def micro_units_per_token_def not_less uint_minus_simple_alt)
      have "allowance ?r now (Some b) = uint (bk_available_micro_tokens b) * window_ns ?r +
          full_tokens ?r * (now - bk_last_refill b)"
        using refill_exact [OF v in_b0(1), of now] by (simp add: b_def)
      moreover have "allowance ?r now (Some c) \<le> uint (bk_available_micro_tokens c) * window_ns ?r +
          full_tokens ?r * (now - bk_last_refill b)"
        by (simp add: c_def)
      ultimately have "allowance ?r now (Some c) + 1000000 * window_ns ?r \<le> allowance ?r now (Some b)"
        by (simp add: c left_diff_distrib)
      moreover have "scope_ok now st'"
        unfolding st' using b c by (intro put) (auto simp: word_le_def c_def)
      ultimately show ?thesis using step st' b(3) b0 by (auto simp: look)
    qed
  qed
qed

section \<open>The whole limiter\<close>

lemma scope_of_put_scope [simp]:
  "scope_of s' (put_scope s st ct l) = (if s' = s then st else scope_of s' l)"
  "rl_policy (put_scope s st ct l) = rl_policy l"
  by (cases s; cases s'; simp)+

lemma prune_one_step:
  assumes ok: "limiter_ok policy t (Some l)" and t: "t \<le> now"
    and w: "rr_window (scope_of_policy scope policy) \<le> rp_entry_ttl policy"
  shows "limiter_ok policy now (Some (prune_one now s l)) \<and>
    key_allowance scope key now (Some (prune_one now s l)) \<le> key_allowance scope key now (Some l)"
proof -
  have o: "scope_ok t (scope_of x l)" "ss_rule (scope_of x l) = scope_of_policy x policy" "rl_policy l = policy" for x
    using ok by auto
  then show ?thesis
    using scope_prune_allowance [OF o(1) [of scope], of "rp_entry_ttl policy" now] w
      scope_prune_ok [OF scope_ok_later [OF o(1) t]] scope_ok_later [OF o(1) t]
    by (auto simp: prune_one_def Let_def key_allowance_def simp del: scope_of.simps scope_of_policy.simps)
qed

lemma rate_admit_step:
  assumes ok: "limiter_ok policy t (Some l)" and t: "t \<le> now"
    and w: "rr_window (scope_of_policy scope policy) \<le> rp_entry_ttl policy"
    and a: "rate_admit s k now l = (r, l')"
  shows "limiter_ok policy now (Some l') \<and> key_allowance scope key now (Some l') +
      (if s = scope \<and> (s = RLS_request \<or> k = key) \<and> r = Inr ()
       then 1000000 * window_ns (scope_of_policy scope policy) else 0)
    \<le> key_allowance scope key now (Some l)"
proof -
  have o: "scope_ok t (scope_of x l)" "ss_rule (scope_of x l) = scope_of_policy x policy"
    "rl_policy l = policy" for x
    using ok by auto
  note later = scope_ok_later [OF o(1) t]
  show ?thesis
  proof (cases "s \<noteq> RLS_request \<and> \<not> valid_key k 128")
    case True
    then show ?thesis using a o later by (auto simp: rate_admit_def simp del: scope_of.simps scope_of_policy.simps)
  next
    case False
    let ?k = "\<lambda>s k. if s = RLS_request then [] else k"
    obtain st ct where sa: "scope_admit (rp_entry_ttl policy) (scope_of s l) (counters_of s l) (?k s k) now =
        (r, st, ct)" and l': "l' = put_scope s st ct l"
      using a False o(3) by (auto simp: rate_admit_def Let_def split: prod.splits)
    show ?thesis
      using scope_admit_step [OF o(1) t sa, of "?k scope key"] w o later l'
      by (auto simp: key_allowance_def simp del: scope_of.simps scope_of_policy.simps split: if_splits)
  qed
qed

lemma rate_step_allowance:
  assumes ok: "limiter_ok policy t l" and t: "t \<le> rate_op_time x"
    and w: "rr_window (scope_of_policy scope policy) \<le> rp_entry_ttl policy"
  shows "limiter_ok policy (rate_op_time x) (rate_step x l) \<and>
    key_allowance scope key (rate_op_time x) (rate_step x l) +
      (if passed scope key x l then 1000000 * window_ns (scope_of_policy scope policy) else 0)
    \<le> key_allowance scope key (rate_op_time x) l"
proof -
  obtain i where l: "l = Some i" using ok by (cases l) auto
  show ?thesis
  proof (cases x)
    case (RateCheck s k now)
    obtain r i' where a: "rate_admit s k now i = (r, i')" by fastforce
    show ?thesis using rate_admit_step [OF ok [unfolded l] _ w a, of key] t RateCheck l a
      by (simp del: limiter_ok.simps)
  next
    case (RatePrune now)
    then have "t \<le> now" using t by simp
    note p = prune_one_step [OF _ _ w, of _ _ now]
    note p1 = p [OF ok [unfolded l] \<open>t \<le> now\<close>, of RLS_connection key]
    note p2 = p [OF conjunct1 [OF p1] order_refl, of RLS_request key]
    note p3 = p [OF conjunct1 [OF p2] order_refl, of RLS_tenant key]
    note p4 = p [OF conjunct1 [OF p3] order_refl, of RLS_ip key]
    show ?thesis using p1 p2 p3 p4 RatePrune l by (simp del: limiter_ok.simps)
  qed
qed

lemma key_allowance_bounds:
  assumes "limiter_ok policy t l" "t \<le> now"
  shows "0 \<le> key_allowance scope key now l"
    "key_allowance scope key now l \<le> full_tokens (scope_of_policy scope policy) *
       (window_ns (scope_of_policy scope policy) + 1000000)"
    "key_allowance scope key now l \<le> key_allowance scope key t l +
       full_tokens (scope_of_policy scope policy) * (now - t)"
proof -
  obtain i where l: "l = Some i" using assms by (cases l) auto
  let ?st = "scope_of scope i" and ?k = "if scope = RLS_request then [] else key"
  have ok: "scope_ok t ?st" and r: "ss_rule ?st = scope_of_policy scope policy" using assms l by auto
  have v: "valid_rule (ss_rule ?st)" using ok by (simp add: scope_ok_def)
  have last: "bk_last_refill b \<le> now" if "map_of (ss_buckets ?st) ?k = Some b" for b
    using scope_ok_bucket [OF ok that] assms(2) by simp
  note [simp del] = scope_of.simps scope_of_policy.simps
  show "0 \<le> key_allowance scope key now l"
    "key_allowance scope key now l \<le> full_tokens (scope_of_policy scope policy) *
       (window_ns (scope_of_policy scope policy) + 1000000)"
    using allowance_bounds [OF v last] r l unfolding key_allowance_def by auto
  show "key_allowance scope key now l \<le> key_allowance scope key t l +
       full_tokens (scope_of_policy scope policy) * (now - t)"
    using allowance_mono [OF v assms(2), of "map_of (ss_buckets ?st) ?k"] r l
    unfolding key_allowance_def by auto
qed

lemma passes_bound:
  assumes "limiter_ok policy t l" "sorted (t # map rate_op_time xs @ [t1])"
    and w: "rr_window (scope_of_policy scope policy) \<le> rp_entry_ttl policy"
  shows "int (passes scope key xs l) * (1000000 * window_ns (scope_of_policy scope policy)) \<le>
    key_allowance scope key t l + full_tokens (scope_of_policy scope policy) * (t1 - t)"
  using assms(1,2)
proof (induction xs arbitrary: t l)
  case Nil
  then show ?case using key_allowance_bounds(1,3) [OF Nil(1), of t1 scope key] by simp
next
  case (Cons x xs)
  let ?u = "rate_op_time x" and ?r = "scope_of_policy scope policy"
  have t: "t \<le> ?u" using Cons.prems(2) by simp
  note step = rate_step_allowance [OF Cons.prems(1) t w, of key]
  have "int (passes scope key xs (rate_step x l)) * (1000000 * window_ns ?r) \<le>
      key_allowance scope key ?u (rate_step x l) + full_tokens ?r * (t1 - ?u)"
    using Cons.IH [of ?u "rate_step x l"] step Cons.prems(2) by simp
  moreover have "key_allowance scope key ?u l \<le> key_allowance scope key t l + full_tokens ?r * (?u - t)"
    by (rule key_allowance_bounds(3) [OF Cons.prems(1) t])
  moreover have "full_tokens ?r * (t1 - t) = full_tokens ?r * (t1 - ?u) + full_tokens ?r * (?u - t)"
    by (simp add: algebra_simps)
  ultimately show ?case using conjunct2 [OF step]
    by (cases "passed scope key x l") (simp_all add: distrib_right)
qed

lemma limiter_ok_later: "limiter_ok policy t l \<Longrightarrow> t \<le> u \<Longrightarrow> limiter_ok policy u l"
  by (cases l) (auto intro: scope_ok_later)

lemma rate_run_ok:
  assumes "limiter_ok policy t l" "sorted (t # map rate_op_time xs @ [u])"
    and w: "rr_window (scope_of_policy scope policy) \<le> rp_entry_ttl policy"
  shows "limiter_ok policy u (run rate_step xs l)"
  using assms(1,2)
proof (induction xs arbitrary: t l)
  case (Cons x xs)
  then show ?case
    using rate_step_allowance [OF Cons.prems(1) _ w, of x] Cons.IH [of "rate_op_time x" "rate_step x l"] by simp
qed (auto intro: limiter_ok_later)

lemma rate_create_ok: "rate_create policy = Inr l \<Longrightarrow> limiter_ok policy t l"
proof -
  assume c: "rate_create policy = Inr l"
  have "valid_rule (scope_of_policy s policy) \<and> scope_of s (rate_impl policy) = new_scope (scope_of_policy s policy)"
    for s
    using c by (cases s) (auto simp: rate_create_def validate_rate_policy_def rate_impl_def split: if_splits)
  moreover have "l = Some (rate_impl policy)"
    using c by (auto simp: rate_create_def split: sum.splits)
  ultimately show ?thesis
    by (simp add: scope_ok_def new_scope_def) (simp add: rate_impl_def)
qed

section \<open>Properties\<close>

text \<open>
  C16: whatever happened before and whatever else is checked meanwhile, in any interval from \<open>t0\<close>
  to \<open>t1\<close> a limiter lets a key of a scope pass at most
  \<open>capacity * (1 + (t1 - t0 + 1 ms) / window)\<close> times, provided idle buckets are kept for at least
  a window.  The extra millisecond is the granularity of the refill.
\<close>

theorem rate_limit_bound:
  assumes "rate_create policy = Inr l"
    and times: "sorted (map rate_op_time pre @ [t0] @ map rate_op_time xs @ [t1])"
    and w: "rr_window (scope_of_policy scope policy) \<le> rp_entry_ttl policy"
  shows "int (passes scope key xs (run rate_step pre l)) * ms_to_ns (rr_window (scope_of_policy scope policy)) \<le>
    int (rr_capacity (scope_of_policy scope policy)) *
      (ms_to_ns (rr_window (scope_of_policy scope policy)) + 1000000 + (t1 - t0))"
proof -
  let ?r = "scope_of_policy scope policy" and ?l = "run rate_step pre l"
  define t where "t = (case pre of [] \<Rightarrow> t0 | x # _ \<Rightarrow> rate_op_time x)"
  have "sorted (t # map rate_op_time pre @ [t0])"
    using times by (cases pre) (auto simp: t_def sorted_append)
  with rate_create_ok [OF assms(1)] have ok: "limiter_ok policy t0 ?l" using w by (rule rate_run_ok)
  have "sorted (t0 # map rate_op_time xs @ [t1])" using times by (simp add: sorted_append)
  from passes_bound [OF ok this w, of key] key_allowance_bounds(2) [OF ok order_refl, of scope key]
  have "int (passes scope key xs ?l) * (1000000 * window_ns ?r) \<le>
      full_tokens ?r * (window_ns ?r + 1000000) + full_tokens ?r * (t1 - t0)"
    by linarith
  then have "1000000 * (int (passes scope key xs ?l) * window_ns ?r) \<le>
      1000000 * (int (rr_capacity ?r) * (window_ns ?r + 1000000 + (t1 - t0)))"
    by (simp add: full_tokens_def algebra_simps)
  then show ?thesis unfolding window_ns_def by (rule mult_left_le_imp_le) simp
qed

theorem rate_limit_bound_witness:
  "int (passes RLS_ip ''a'' [RateCheck RLS_ip ''a'' 5, RateCheck RLS_ip ''b'' 6]
      (run rate_step [RatePrune 1] (Some (rate_impl default_rate_policy)))) * 1000000000 \<le>
    32 * (1000000000 + 1000000 + (7 - 3))"
  using rate_limit_bound [of default_rate_policy "Some (rate_impl default_rate_policy)" "[RatePrune 1]" 3
      "[RateCheck RLS_ip ''a'' 5, RateCheck RLS_ip ''b'' 6]" 7 RLS_ip "''a''"]
  by (simp add: rate_create_def validate_rate_policy_def default_rate_policy_def rate_rule_def valid_rule_def)

text \<open>
  C39: a key whose bucket has rested for a window is let through again, when the rule allows at
  least two tokens per window and at least one micro-token per millisecond.
\<close>

theorem rate_recovers:
  assumes "scope_ok t st" "t \<le> now" "map_of (ss_buckets st) key = Some b"
    and rest: "bk_last_refill b + ms_to_ns (rr_window (ss_rule st)) \<le> now"
    and cap: "2 \<le> rr_capacity (ss_rule st)" "rr_window (ss_rule st) \<le> int (rr_capacity (ss_rule st)) * 1000000"
  shows "fst (scope_admit ttl st ct key now) = Inr ()"
proof -
  let ?r = "ss_rule st" and ?F = "full_tokens (ss_rule st)" and ?W = "rr_window (ss_rule st)"
  have v: "valid_rule ?r" using assms(1) by (simp add: scope_ok_def)
  have W: "0 < ?W" using v by (simp add: valid_rule_def)
  have bb: "bk_available_micro_tokens b \<le> full_micro ?r" using scope_ok_bucket [OF assms(1,3)] by simp
  have "?W \<le> (now - bk_last_refill b) div 1000000" using rest by linarith
  then have el: "?W = min (elapsed_milliseconds (bk_last_refill b) now) ?W"
    by (simp add: elapsed_milliseconds_def)
  have F: "2000000 \<le> ?F" "?W \<le> ?F" using cap by (simp_all add: full_tokens_def)
  have "?F div ?W * ?W = ?F - ?F mod ?W" by (simp add: minus_mod_eq_div_mult)
  moreover have "1 \<le> ?F div ?W" using F(2) W zdiv_mono1 [of ?W ?F ?W] by simp
  then have "?W \<le> ?F div ?W * ?W" using W by simp
  ultimately have "1000000 \<le> ?F div ?W * ?W" using pos_mod_bound [OF W, of ?F] F by linarith
  then have "1000000 \<le> uint (bk_available_micro_tokens (refill ?r b now))"
    using refill_tokens [OF v bb el W] F by (simp add: add_increasing)
  then have "\<not> bk_available_micro_tokens (refill ?r b now) < micro_units_per_token"
    by (simp add: micro_units_per_token_def word_less_def)
  then show ?thesis using assms(3) by (simp add: scope_admit_def find_bucket_def Let_def)
qed

theorem rate_recovers_witness:
  "fst (scope_admit 60000 \<lparr>ss_rule = rate_rule 2 999 1, ss_buckets = [(''k'',
      \<lparr>bk_available_micro_tokens = 0, bk_last_refill = 0\<rparr>)]\<rparr> rate_no_counters ''k'' 999000000) = Inr ()"
  by (rule rate_recovers [of 0 _ _ _ "\<lparr>bk_available_micro_tokens = 0, bk_last_refill = 0\<rparr>"])
    (simp_all add: scope_ok_def valid_rule_def rate_rule_def om_wf_def full_micro_def micro_units_per_token_def)

text \<open>
  Under a rule of fewer than one micro-token per millisecond, which the policy check accepts,
  the integer refill rate is zero: a key whose bucket has run out is refused by every later check,
  however long the checks wait.
\<close>

theorem rate_starves:
  assumes "valid_rule (ss_rule st)" "om_wf (ss_buckets st)"
    and slow: "int (rr_capacity (ss_rule st)) * 1000000 < rr_window (ss_rule st)"
    and b: "map_of (ss_buckets st) key = Some b" "bk_available_micro_tokens b < micro_units_per_token"
  shows "scope_checks ttl st ct key nows =
    map (\<lambda>_. Inl (limiter_error EC_resource_exhausted ''rate_limit_exceeded'')) nows"
  using assms
proof (induction nows arbitrary: st ct b)
  case (Cons now nows)
  let ?r = "ss_rule st" and ?c = "refill (ss_rule st) b now"
  have W: "uint (of_int (rr_window ?r) :: u64) = rr_window ?r"
    using Cons.prems(1) by (intro uint_of_int_small) (simp_all add: valid_rule_def)
  have "uint (full_micro ?r div of_int (rr_window ?r)) = 0"
    using Cons.prems(3) by (simp add: uint_div_distrib W uint_full_micro [OF Cons.prems(1)] full_tokens_def)
  then have rate: "full_micro ?r div of_int (rr_window ?r) = 0"
    by (simp only: uint_0_iff)
  have c: "bk_available_micro_tokens ?c < micro_units_per_token"
    using Cons.prems(5) by (auto simp: refill_def Let_def rate min_def)
  let ?st = "st\<lparr>ss_buckets := om_put key ?c (ss_buckets st)\<rparr>"
  have s: "scope_admit ttl st ct key now =
      (Inl (limiter_error EC_resource_exhausted ''rate_limit_exceeded''), ?st,
       ct\<lparr>rc_rejected := rc_rejected ct + 1\<rparr>)"
    using c Cons.prems(4) by (simp add: scope_admit_def find_bucket_def Let_def)
  have "map_of (ss_buckets ?st) key = Some ?c" using Cons.prems(2) by (simp add: om_simps)
  then show ?case using Cons.IH [of ?st ?c "ct\<lparr>rc_rejected := rc_rejected ct + 1\<rparr>"] Cons.prems(1-3) c
    by (simp add: s)
qed simp

theorem rate_starves_witness:
  "validate_rate_policy (default_rate_policy\<lparr>rp_ip := rate_rule 1 3600000 4096\<rparr>) = Inr () \<and>
   scope_checks 60000 \<lparr>ss_rule = rate_rule 1 3600000 4096, ss_buckets = [(''k'',
      \<lparr>bk_available_micro_tokens = 0, bk_last_refill = 0\<rparr>)]\<rparr> rate_no_counters ''k''
      [3600000000000, 7200000000000] =
    map (\<lambda>_. Inl (limiter_error EC_resource_exhausted ''rate_limit_exceeded'')) [3600000000000, 7200000000000::int]"
proof
  show "scope_checks 60000 \<lparr>ss_rule = rate_rule 1 3600000 4096, ss_buckets = [(''k'',
      \<lparr>bk_available_micro_tokens = 0, bk_last_refill = 0\<rparr>)]\<rparr> rate_no_counters ''k''
      [3600000000000, 7200000000000] =
    map (\<lambda>_. Inl (limiter_error EC_resource_exhausted ''rate_limit_exceeded'')) [3600000000000, 7200000000000::int]"
    by (rule rate_starves [of _ _ "\<lparr>bk_available_micro_tokens = 0, bk_last_refill = 0\<rparr>"])
      (simp_all add: valid_rule_def rate_rule_def om_wf_def micro_units_per_token_def)
qed (simp add: validate_rate_policy_def default_rate_policy_def rate_rule_def valid_rule_def)

end
