(* ===== verification/Heyaki_Relay_Lease.thy ===== *)
theory Heyaki_Relay_Lease
  imports Heyaki_Core Heyaki_Ids
begin

text \<open>
  The relay's table of endpoint leases (\<open>relay_lease_table.hpp\<close> and \<open>.cpp\<close>): leases renewed by
  heartbeats, with one index of endpoints per device and one of devices per tenant.  A
  \<open>std::set\<close> is an ordered map to the unit type; an identifier is its octets, and the octets'
  lexicographic order is the identifiers' order.
\<close>

section \<open>State\<close>

type_synonym 'a oset = "('a, unit) omap"

text \<open>The key is the pair of device and endpoint, compared in this order.\<close>

type_synonym RelayLeaseKey = "id_bytes \<times> id_bytes"

record RelayLeaseRecord =
  lr_key :: RelayLeaseKey
  lr_tenant :: string
  lr_lease_generation :: u64
  lr_expires_at :: time_point

record RelayLeaseConfig =
  lc_capacity :: nat
  lc_per_device_endpoint_capacity :: nat
  lc_per_tenant_device_capacity :: nat
  lc_default_lease :: milliseconds
  lc_maximum_lease :: milliseconds

definition default_lease_config :: RelayLeaseConfig where
  "default_lease_config = \<lparr>lc_capacity = 4096, lc_per_device_endpoint_capacity = 64,
     lc_per_tenant_device_capacity = 4096, lc_default_lease = 45000, lc_maximum_lease = 120000\<rparr>"

datatype RelayLeaseHeartbeatOutcome = LH_inserted | LH_refreshed

record RelayLeaseHeartbeatResult =
  lh_outcome :: RelayLeaseHeartbeatOutcome
  lh_lease_generation :: u64
  lh_expires_at :: time_point

record RelayLeaseDiagnostics =
  ld_accepted :: u64
  ld_refreshed :: u64
  ld_expired :: u64
  ld_removed :: u64
  ld_capacity_rejected :: u64
  ld_per_device_rejected :: u64
  ld_per_tenant_rejected :: u64
  ld_tenant_conflict_rejected :: u64
  ld_current_entries :: nat
  ld_peak_entries :: nat

definition lease_no_diagnostics :: RelayLeaseDiagnostics where
  "lease_no_diagnostics = \<lparr>ld_accepted = 0, ld_refreshed = 0, ld_expired = 0, ld_removed = 0,
     ld_capacity_rejected = 0, ld_per_device_rejected = 0, ld_per_tenant_rejected = 0,
     ld_tenant_conflict_rejected = 0, ld_current_entries = 0, ld_peak_entries = 0\<rparr>"

record RelayLeaseImpl =
  le_next_generation :: u64
  le_config :: RelayLeaseConfig
  le_entries :: "(RelayLeaseKey, RelayLeaseRecord) omap"
  le_endpoints_by_device :: "(id_bytes, id_bytes oset) omap"
  le_devices_by_tenant :: "(string, id_bytes oset) omap"
  le_stats :: RelayLeaseDiagnostics

type_synonym RelayLeaseTable = "RelayLeaseImpl option"

definition lease_error :: "ErrorCode \<Rightarrow> string \<Rightarrow> Error" where
  "lease_error code detail = err code ''relay_lease'' detail"

definition valid_tenant :: "string \<Rightarrow> bool" where
  "valid_tenant s \<longleftrightarrow> s \<noteq> [] \<and> length s \<le> 128 \<and> list_all (\<lambda>c. \<not> of_char c < (0x20 :: nat)) s"

definition effective_lease :: "milliseconds \<Rightarrow> RelayLeaseConfig \<Rightarrow> milliseconds" where
  "effective_lease requested config = (if requested \<le> 0 then lc_default_lease config else requested)"

section \<open>Operations\<close>

text \<open>
  An index maps a group to the set of its members: a member joins a group that is made when it is
  missing, and a group that loses its last member goes.
\<close>

definition index_insert :: "'g::linorder \<Rightarrow> 'm::linorder \<Rightarrow> ('g, 'm oset) omap \<Rightarrow> ('g, 'm oset) omap" where
  "index_insert g m ix =
     om_put g (om_put m () (case map_of ix g of None \<Rightarrow> [] | Some s \<Rightarrow> s)) ix"

definition index_erase :: "'g::linorder \<Rightarrow> 'm \<Rightarrow> ('g, 'm oset) omap \<Rightarrow> ('g, 'm oset) omap" where
  "index_erase g m ix =
    (case map_of ix g of
       None \<Rightarrow> ix
     | Some s \<Rightarrow> let s' = om_del m s in if s' = [] then om_del g ix else om_put g s' ix)"

definition unlink :: "RelayLeaseKey \<Rightarrow> RelayLeaseImpl \<Rightarrow> RelayLeaseImpl" where
  "unlink key t =
    (case map_of (le_entries t) key of
       None \<Rightarrow> t
     | Some r \<Rightarrow>
       let device = fst (lr_key r); endpoint = snd (lr_key r)
       in t\<lparr>le_endpoints_by_device := index_erase device endpoint (le_endpoints_by_device t),
            le_devices_by_tenant := index_erase (lr_tenant r) device (le_devices_by_tenant t),
            le_entries := om_del key (le_entries t)\<rparr>)"

definition lease_impl :: "RelayLeaseConfig \<Rightarrow> RelayLeaseImpl" where
  "lease_impl config = \<lparr>le_next_generation = 1, le_config = config, le_entries = [],
     le_endpoints_by_device = [], le_devices_by_tenant = [], le_stats = lease_no_diagnostics\<rparr>"

definition lease_create :: "RelayLeaseConfig \<Rightarrow> RelayLeaseTable result" where
  "lease_create config =
    (if lc_capacity config = 0 \<or> lc_per_device_endpoint_capacity config = 0 \<or>
        lc_per_tenant_device_capacity config = 0 \<or> lc_default_lease config \<le> 0 \<or>
        lc_maximum_lease config < lc_default_lease config
     then Inl (lease_error EC_configuration ''lease_config_invalid'')
     else Inr (Some (lease_impl config)))"

definition expired_keys :: "RelayLeaseImpl \<Rightarrow> time_point \<Rightarrow> RelayLeaseKey list" where
  "expired_keys t now = map fst (filter (\<lambda>(k, r). lr_expires_at r \<le> now) (le_entries t))"

definition unlink_expired :: "RelayLeaseKey \<Rightarrow> RelayLeaseImpl \<Rightarrow> RelayLeaseImpl" where
  "unlink_expired key t =
    (let t1 = unlink key t in t1\<lparr>le_stats := (le_stats t1)\<lparr>ld_expired := ld_expired (le_stats t1) + 1\<rparr>\<rparr>)"

definition lease_sweep :: "time_point \<Rightarrow> RelayLeaseImpl \<Rightarrow> RelayLeaseImpl" where
  "lease_sweep now t =
    (let t1 = fold unlink_expired (expired_keys t now) t
     in t1\<lparr>le_stats := (le_stats t1)\<lparr>ld_current_entries := length (le_entries t1)\<rparr>\<rparr>)"

fun lease_expire :: "time_point \<Rightarrow> RelayLeaseTable \<Rightarrow> RelayLeaseTable" where
  "lease_expire now None = None"
| "lease_expire now (Some t) = Some (lease_sweep now t)"

text \<open>The second half of \<open>heartbeat\<close>: the key has no lease, so the quotas decide.\<close>

definition lease_insert :: "RelayLeaseKey \<Rightarrow> string \<Rightarrow> milliseconds \<Rightarrow> time_point \<Rightarrow> RelayLeaseImpl \<Rightarrow>
    RelayLeaseHeartbeatResult result \<times> RelayLeaseImpl" where
  "lease_insert key tenant duration now t0 =
    (let t = (if length (le_entries t0) \<ge> lc_capacity (le_config t0) then lease_sweep now t0 else t0);
         reject = (\<lambda>upd detail. (Inl (lease_error EC_resource_exhausted detail), t\<lparr>le_stats := upd (le_stats t)\<rparr>))
     in if length (le_entries t) \<ge> lc_capacity (le_config t) then
          reject (\<lambda>s. s\<lparr>ld_capacity_rejected := ld_capacity_rejected s + 1\<rparr>) ''lease_capacity_exhausted''
        else if (case map_of (le_endpoints_by_device t) (fst key) of None \<Rightarrow> False
                 | Some s \<Rightarrow> length s \<ge> lc_per_device_endpoint_capacity (le_config t)) then
          reject (\<lambda>s. s\<lparr>ld_per_device_rejected := ld_per_device_rejected s + 1\<rparr>)
            ''lease_per_device_capacity_exhausted''
        else if (case map_of (le_devices_by_tenant t) tenant of None \<Rightarrow> False
                 | Some s \<Rightarrow> map_of s (fst key) = None \<and>
                     length s \<ge> lc_per_tenant_device_capacity (le_config t)) then
          reject (\<lambda>s. s\<lparr>ld_per_tenant_rejected := ld_per_tenant_rejected s + 1\<rparr>)
            ''lease_per_tenant_capacity_exhausted''
        else
          let record = \<lparr>lr_key = key, lr_tenant = tenant,
                lr_lease_generation = le_next_generation t, lr_expires_at = now + ms_to_ns duration\<rparr>;
              entries = om_put key record (le_entries t)
          in (Inr \<lparr>lh_outcome = LH_inserted, lh_lease_generation = le_next_generation t,
                   lh_expires_at = now + ms_to_ns duration\<rparr>,
              t\<lparr>le_next_generation := le_next_generation t + 1, le_entries := entries,
                le_endpoints_by_device := index_insert (fst key) (snd key) (le_endpoints_by_device t),
                le_devices_by_tenant := index_insert tenant (fst key) (le_devices_by_tenant t),
                le_stats := (le_stats t)\<lparr>ld_accepted := ld_accepted (le_stats t) + 1,
                  ld_current_entries := length entries,
                  ld_peak_entries := max (ld_peak_entries (le_stats t)) (length entries)\<rparr>\<rparr>))"

fun heartbeat :: "RelayLeaseKey \<Rightarrow> string \<Rightarrow> milliseconds \<Rightarrow> time_point \<Rightarrow> RelayLeaseTable \<Rightarrow>
    RelayLeaseHeartbeatResult result \<times> RelayLeaseTable" where
  "heartbeat key tenant lease now None =
     (Inl (lease_error EC_cancelled ''lease_table_not_initialized''), None)"
| "heartbeat key tenant lease now (Some t) =
    (if id_is_zero (fst key) \<or> id_is_zero (snd key) \<or> \<not> valid_tenant tenant \<or>
        lease > lc_maximum_lease (le_config t)
     then (Inl (lease_error EC_configuration ''lease_heartbeat_invalid''), Some t)
     else
       let duration = effective_lease lease (le_config t)
       in case map_of (le_entries t) key of
            None \<Rightarrow> map_prod id Some (lease_insert key tenant duration now t)
          | Some r \<Rightarrow>
            if lr_expires_at r > now then
              if lr_tenant r \<noteq> tenant then
                (Inl (lease_error EC_permission ''lease_tenant_conflict''),
                 Some (t\<lparr>le_stats := (le_stats t)\<lparr>ld_tenant_conflict_rejected :=
                   ld_tenant_conflict_rejected (le_stats t) + 1\<rparr>\<rparr>))
              else
                let r' = r\<lparr>lr_expires_at := now + ms_to_ns duration,
                           lr_lease_generation := le_next_generation t\<rparr>
                in (Inr \<lparr>lh_outcome = LH_refreshed, lh_lease_generation = lr_lease_generation r',
                         lh_expires_at = lr_expires_at r'\<rparr>,
                    Some (t\<lparr>le_next_generation := le_next_generation t + 1,
                            le_entries := om_put key r' (le_entries t),
                            le_stats := (le_stats t)\<lparr>ld_refreshed := ld_refreshed (le_stats t) + 1\<rparr>\<rparr>))
            else map_prod id Some (lease_insert key tenant duration now (unlink_expired key t)))"

fun lease_remove :: "RelayLeaseKey \<Rightarrow> RelayLeaseTable \<Rightarrow> unit result \<times> RelayLeaseTable" where
  "lease_remove key None = (Inl (lease_error EC_cancelled ''lease_table_not_initialized''), None)"
| "lease_remove key (Some t) =
    (Inr (), Some (if map_of (le_entries t) key = None then t
       else let t1 = unlink key t
            in t1\<lparr>le_stats := (le_stats t1)\<lparr>ld_removed := ld_removed (le_stats t1) + 1,
                 ld_current_entries := length (le_entries t1)\<rparr>\<rparr>))"

fun remove_device :: "id_bytes \<Rightarrow> RelayLeaseTable \<Rightarrow> nat \<times> RelayLeaseTable" where
  "remove_device device None = (0, None)"
| "remove_device device (Some t) =
    (let keys = (case map_of (le_endpoints_by_device t) device of None \<Rightarrow> []
                 | Some s \<Rightarrow> map (\<lambda>e. (device, e)) (map fst s))
     in (length keys, fold (\<lambda>k h. snd (lease_remove k h)) keys (Some t)))"

fun lease_get :: "RelayLeaseTable \<Rightarrow> RelayLeaseKey \<Rightarrow> time_point \<Rightarrow> RelayLeaseRecord option" where
  "lease_get None key now = None"
| "lease_get (Some t) key now =
    (case map_of (le_entries t) key of
       None \<Rightarrow> None
     | Some r \<Rightarrow> if lr_expires_at r \<le> now then None else Some r)"

fun online :: "RelayLeaseTable \<Rightarrow> time_point \<Rightarrow> RelayLeaseRecord list" where
  "online None now = []"
| "online (Some t) now = filter (\<lambda>r. lr_expires_at r > now) (map snd (le_entries t))"

fun online_device :: "RelayLeaseTable \<Rightarrow> id_bytes \<Rightarrow> time_point \<Rightarrow> RelayLeaseRecord list" where
  "online_device None device now = []"
| "online_device (Some t) device now =
    (case map_of (le_endpoints_by_device t) device of
       None \<Rightarrow> []
     | Some s \<Rightarrow> List.map_filter (\<lambda>e. lease_get (Some t) (device, e) now) (map fst s))"

fun online_tenant :: "RelayLeaseTable \<Rightarrow> string \<Rightarrow> time_point \<Rightarrow> RelayLeaseRecord list" where
  "online_tenant None tenant now = []"
| "online_tenant (Some t) tenant now =
    (case map_of (le_devices_by_tenant t) tenant of
       None \<Rightarrow> []
     | Some s \<Rightarrow> concat (map (\<lambda>d. online_device (Some t) d now) (map fst s)))"

fun lease_diagnostics :: "RelayLeaseTable \<Rightarrow> RelayLeaseDiagnostics" where
  "lease_diagnostics None = lease_no_diagnostics"
| "lease_diagnostics (Some t) = le_stats t"

section \<open>Invariant vocabulary\<close>

definition index_mem :: "('g, 'm oset) omap \<Rightarrow> 'g \<Rightarrow> 'm \<Rightarrow> bool" where
  "index_mem ix g m \<longleftrightarrow> (\<exists>s. map_of ix g = Some s \<and> map_of s m \<noteq> None)"

definition index_ok :: "nat \<Rightarrow> ('g::linorder, 'm::linorder oset) omap \<Rightarrow> bool" where
  "index_ok cap ix \<longleftrightarrow> om_wf ix \<and> list_all (\<lambda>(g, s). om_wf s \<and> s \<noteq> [] \<and> length s \<le> cap) ix"

text \<open>
  The index of a device is exactly its leased endpoints; a device is listed under a tenant only
  while one of its leases belongs to that tenant.
\<close>

definition lease_inv :: "RelayLeaseImpl \<Rightarrow> bool" where
  "lease_inv t \<longleftrightarrow> om_wf (le_entries t) \<and> list_all (\<lambda>(k, r). lr_key r = k) (le_entries t) \<and>
     length (le_entries t) \<le> lc_capacity (le_config t) \<and>
     0 < lc_per_device_endpoint_capacity (le_config t) \<and> 0 < lc_per_tenant_device_capacity (le_config t) \<and>
     index_ok (lc_per_device_endpoint_capacity (le_config t)) (le_endpoints_by_device t) \<and>
     index_ok (lc_per_tenant_device_capacity (le_config t)) (le_devices_by_tenant t) \<and>
     (\<forall>d e. index_mem (le_endpoints_by_device t) d e \<longleftrightarrow> map_of (le_entries t) (d, e) \<noteq> None) \<and>
     (\<forall>tn d. index_mem (le_devices_by_tenant t) tn d \<longrightarrow>
        (\<exists>e r. map_of (le_entries t) (d, e) = Some r \<and> lr_tenant r = tn))"

datatype LeaseOp =
    LeaseHeartbeat RelayLeaseKey string milliseconds time_point | LeaseRemove RelayLeaseKey
  | LeaseRemoveDevice id_bytes | LeaseExpire time_point

fun lease_step :: "LeaseOp \<Rightarrow> RelayLeaseTable \<Rightarrow> RelayLeaseTable" where
  "lease_step (LeaseHeartbeat key tenant lease now) h = snd (heartbeat key tenant lease now h)"
| "lease_step (LeaseRemove key) h = snd (lease_remove key h)"
| "lease_step (LeaseRemoveDevice device) h = snd (remove_device device h)"
| "lease_step (LeaseExpire now) h = lease_expire now h"

definition lease_ok :: "RelayLeaseTable \<Rightarrow> bool" where
  "lease_ok h \<longleftrightarrow> (case h of None \<Rightarrow> True | Some t \<Rightarrow> lease_inv t)"

section \<open>Lemmas\<close>

lemma index_ok_group:
  "index_ok cap ix \<Longrightarrow> map_of ix g = Some s \<Longrightarrow> om_wf s \<and> s \<noteq> [] \<and> length s \<le> cap"
  by (auto simp: index_ok_def list_all_iff dest: map_of_SomeD)

lemma index_insert_ok:
  assumes "index_ok cap ix" "0 < cap"
    "\<And>s. map_of ix g = Some s \<Longrightarrow> map_of s m = None \<Longrightarrow> length s < cap"
  shows "index_ok cap (index_insert g m ix)"
proof -
  have wf: "om_wf ix" using assms(1) by (simp add: index_ok_def)
  show ?thesis
  proof (cases "map_of ix g")
    case None
    then show ?thesis using assms(1,2) wf
      by (auto simp: index_insert_def index_ok_def om_simps intro!: list_all_om_put)
  next
    case (Some s)
    have "length (om_put m () s) \<le> cap"
      using index_ok_group [OF assms(1) Some] assms(3) [OF Some] by (auto simp: om_simps)
    then show ?thesis using assms(1) wf Some index_ok_group [OF assms(1) Some]
      by (auto simp: index_insert_def index_ok_def intro!: list_all_om_put)
  qed
qed

lemma index_insert_mem:
  assumes "index_ok cap ix"
  shows "index_mem (index_insert g m ix) g' m' \<longleftrightarrow> g' = g \<and> m' = m \<or> index_mem ix g' m'"
proof -
  have wf: "om_wf ix" using assms by (simp add: index_ok_def)
  show ?thesis
  proof (cases "map_of ix g")
    case None
    then show ?thesis using wf by (auto simp: index_insert_def index_mem_def om_simps)
  next
    case (Some s)
    then show ?thesis using wf index_ok_group [OF assms Some]
      by (auto simp: index_insert_def index_mem_def om_simps)
  qed
qed

lemma index_erase_ok:
  assumes "index_ok cap ix"
  shows "index_ok cap (index_erase g m ix)"
proof -
  have wf: "om_wf ix" using assms by (simp add: index_ok_def)
  show ?thesis
  proof (cases "map_of ix g")
    case (Some s)
    then show ?thesis using assms wf index_ok_group [OF assms Some] length_om_del_le [of m s]
      by (auto simp: index_erase_def index_ok_def Let_def list_all_om_del intro!: list_all_om_put)
  qed (use assms in \<open>simp add: index_erase_def\<close>)
qed

lemma index_erase_mem:
  assumes "index_ok cap ix"
  shows "index_mem (index_erase g m ix) g' m' \<longleftrightarrow> index_mem ix g' m' \<and> \<not> (g' = g \<and> m' = m)"
proof -
  have wf: "om_wf ix" using assms by (simp add: index_ok_def)
  show ?thesis
  proof (cases "map_of ix g")
    case (Some s)
    have d: "map_of (om_del m s) = (map_of s)(m := None)" by (simp add: om_simps)
    then have e: "om_del m s = [] \<Longrightarrow> map_of s m' = None \<or> m' = m" for m'
      by (metis fun_upd_apply map_of.simps(1))
    show ?thesis using Some wf e [of m']
      by (auto simp: index_erase_def index_mem_def Let_def om_simps)
  qed (auto simp: index_erase_def index_mem_def)
qed

lemma lease_inv_key: "lease_inv t \<Longrightarrow> map_of (le_entries t) k = Some r \<Longrightarrow> lr_key r = k"
  by (auto simp: lease_inv_def list_all_iff dest: map_of_SomeD)

lemma unlink_inv:
  assumes inv: "lease_inv t"
  shows "lease_inv (unlink k t)"
proof (cases "map_of (le_entries t) k")
  case (Some r)
  have k: "lr_key r = k" using lease_inv_key [OF inv Some] .
  obtain d e where de: "k = (d, e)" by (cases k)
  let ?t = "unlink k t"
  have u: "le_entries ?t = om_del k (le_entries t)" "le_config ?t = le_config t"
    "le_endpoints_by_device ?t = index_erase d e (le_endpoints_by_device t)"
    "le_devices_by_tenant ?t = index_erase (lr_tenant r) d (le_devices_by_tenant t)"
    using Some k de by (simp_all add: unlink_def)
  have ix: "index_ok (lc_per_device_endpoint_capacity (le_config t)) (le_endpoints_by_device t)"
     "index_ok (lc_per_tenant_device_capacity (le_config t)) (le_devices_by_tenant t)"
    using inv by (simp_all add: lease_inv_def)
  have "\<exists>e' r'. map_of (om_del k (le_entries t)) (d', e') = Some r' \<and> lr_tenant r' = tn"
    if m: "index_mem (le_devices_by_tenant t) tn d'" and ne: "\<not> (tn = lr_tenant r \<and> d' = d)" for tn d'
  proof -
    obtain e' r' where *: "map_of (le_entries t) (d', e') = Some r'" "lr_tenant r' = tn"
      using inv m unfolding lease_inv_def by blast
    then have "(d', e') \<noteq> k" using ne Some de by auto
    then show ?thesis using * by (auto simp: om_simps)
  qed
  then show ?thesis
    using inv index_erase_ok [OF ix(1)] index_erase_ok [OF ix(2)] de length_om_del_le [of k "le_entries t"]
    unfolding lease_inv_def u index_erase_mem [OF ix(1)] index_erase_mem [OF ix(2)]
    by (auto simp: om_simps list_all_om_del)
qed (use inv in \<open>simp add: unlink_def\<close>)

lemma lease_inv_stats: "lease_inv t \<Longrightarrow> lease_inv (t\<lparr>le_stats := s\<rparr>)"
  by (simp add: lease_inv_def)

lemma unlink_expired_inv: "lease_inv t \<Longrightarrow> lease_inv (unlink_expired k t)"
  by (simp add: unlink_expired_def Let_def lease_inv_stats unlink_inv)

lemma lease_sweep_inv: "lease_inv t \<Longrightarrow> lease_inv (lease_sweep now t)"
proof -
  assume "lease_inv t"
  then have "lease_inv (fold unlink_expired ks t)" for ks
    by (induction ks arbitrary: t) (auto intro: unlink_expired_inv)
  then show ?thesis by (simp add: lease_sweep_def Let_def lease_inv_stats)
qed

lemma unlink_simps [simp]:
  "le_config (unlink k t) = le_config t" "le_next_generation (unlink k t) = le_next_generation t"
  "le_entries (unlink k t) = om_del k (le_entries t)"
  by (auto simp: unlink_def Let_def om_del_absent split: option.splits)

lemma unlink_expired_simps [simp]:
  "le_config (unlink_expired k t) = le_config t" "le_entries (unlink_expired k t) = om_del k (le_entries t)"
  "le_next_generation (unlink_expired k t) = le_next_generation t"
  by (simp_all add: unlink_expired_def Let_def)

lemma fold_unlink_simps:
  "le_config (fold unlink_expired ks t) = le_config t"
  "le_next_generation (fold unlink_expired ks t) = le_next_generation t"
  "le_entries (fold unlink_expired ks t) = filter (\<lambda>e. fst e \<notin> set ks) (le_entries t)"
  by (induction ks arbitrary: t) (auto simp: om_del_def conj_commute intro: filter_cong)

lemma lease_sweep_simps [simp]:
  "le_config (lease_sweep now t) = le_config t"
  "le_next_generation (lease_sweep now t) = le_next_generation t"
  by (simp_all add: lease_sweep_def Let_def fold_unlink_simps)

lemma lease_sweep_entries:
  assumes "om_wf (le_entries t)"
  shows "le_entries (lease_sweep now t) = filter (\<lambda>(k, r). \<not> lr_expires_at r \<le> now) (le_entries t)"
proof -
  have "k \<in> set (expired_keys t now) \<longleftrightarrow> lr_expires_at r \<le> now" if "(k, r) \<in> set (le_entries t)" for k r
  proof -
    have "k \<in> set (expired_keys t now) \<longleftrightarrow> (\<exists>r'. (k, r') \<in> set (le_entries t) \<and> lr_expires_at r' \<le> now)"
      by (force simp: expired_keys_def)
    then show ?thesis using that assms by (simp add: om_mem_iff)
  qed
  then show ?thesis
    unfolding lease_sweep_def Let_def by (simp add: fold_unlink_simps) (rule filter_cong, auto)
qed

lemma lease_admitted_inv:
  assumes inv: "lease_inv t" and new: "map_of (le_entries t) key = None"
    and room: "length (le_entries t) < lc_capacity (le_config t)"
    and dev: "\<And>s. map_of (le_endpoints_by_device t) (fst key) = Some s \<Longrightarrow>
      length s < lc_per_device_endpoint_capacity (le_config t)"
    and ten: "\<And>s. map_of (le_devices_by_tenant t) tenant = Some s \<Longrightarrow> map_of s (fst key) = None \<Longrightarrow>
      length s < lc_per_tenant_device_capacity (le_config t)"
    and r: "lr_key r = key" "lr_tenant r = tenant"
  shows "lease_inv (t\<lparr>le_next_generation := g, le_entries := om_put key r (le_entries t),
      le_endpoints_by_device := index_insert (fst key) (snd key) (le_endpoints_by_device t),
      le_devices_by_tenant := index_insert tenant (fst key) (le_devices_by_tenant t), le_stats := st\<rparr>)"
proof -
  have ix: "index_ok (lc_per_device_endpoint_capacity (le_config t)) (le_endpoints_by_device t)"
     "index_ok (lc_per_tenant_device_capacity (le_config t)) (le_devices_by_tenant t)"
    "0 < lc_per_device_endpoint_capacity (le_config t)" "0 < lc_per_tenant_device_capacity (le_config t)"
    and wf: "om_wf (le_entries t)"
    using inv by (simp_all add: lease_inv_def)
  note ok = index_insert_ok [OF ix(1,3), of "fst key" "snd key"] index_insert_ok [OF ix(2,4), of tenant "fst key"]
  have "\<exists>e r'. map_of (om_put key r (le_entries t)) (d, e) = Some r' \<and> lr_tenant r' = tn"
    if m: "index_mem (index_insert tenant (fst key) (le_devices_by_tenant t)) tn d" for tn d
  proof (cases "tn = tenant \<and> d = fst key")
    case True
    then have "map_of (om_put key r (le_entries t)) (d, snd key) = Some r" using wf by (simp add: om_simps)
    then show ?thesis using True r by blast
  next
    case False
    then have "index_mem (le_devices_by_tenant t) tn d" using m by (auto simp: index_insert_mem [OF ix(2)])
    then obtain e r' where *: "map_of (le_entries t) (d, e) = Some r'" "lr_tenant r' = tn"
      using inv unfolding lease_inv_def by blast
    then have "(d, e) \<noteq> key" using new by auto
    then show ?thesis using * wf by (auto simp: om_simps)
  qed
  moreover have "index_mem (index_insert (fst key) (snd key) (le_endpoints_by_device t)) d e \<longleftrightarrow>
      map_of (om_put key r (le_entries t)) (d, e) \<noteq> None" for d e
    using inv wf unfolding index_insert_mem [OF ix(1)] lease_inv_def by (cases key) (auto simp: om_simps)
  moreover have "list_all (\<lambda>(k, r). lr_key r = k) (om_put key r (le_entries t))"
    using inv wf r by (simp add: list_all_om_put lease_inv_def)
  moreover have "length (om_put key r (le_entries t)) \<le> lc_capacity (le_config t)"
    using wf new room by (simp add: om_simps)
  ultimately show ?thesis
    using ok(1) [OF dev] ok(2) [OF ten] ix(3,4) wf by (simp add: lease_inv_def)
qed

lemma lease_insert_inv:
  assumes inv: "lease_inv t" and new: "map_of (le_entries t) key = None"
  shows "lease_inv (snd (lease_insert key tenant d now t))"
proof -
  define u where "u = (if length (le_entries t) \<ge> lc_capacity (le_config t) then lease_sweep now t else t)"
  have u: "lease_inv u" "map_of (le_entries u) key = None"
    using inv new lease_sweep_inv [OF inv] by (auto simp: u_def lease_sweep_entries lease_inv_def om_simps)
  show ?thesis
    unfolding lease_insert_def u_def [symmetric] Let_def
    using u by (simp add: lease_inv_stats not_le split: option.split)
      (intro conjI allI impI; rule lease_admitted_inv; simp)
qed

lemma lease_refresh_inv:
  assumes inv: "lease_inv t" and old: "map_of (le_entries t) key = Some r"
    and r': "lr_key r' = lr_key r" "lr_tenant r' = lr_tenant r"
  shows "lease_inv (t\<lparr>le_next_generation := g, le_entries := om_put key r' (le_entries t), le_stats := st\<rparr>)"
proof -
  have wf: "om_wf (le_entries t)" using inv by (simp add: lease_inv_def)
  have k: "lr_key r = key" by (rule lease_inv_key [OF inv old])
  have "\<exists>e x. map_of (om_put key r' (le_entries t)) (d, e) = Some x \<and> lr_tenant x = tn"
    if m: "index_mem (le_devices_by_tenant t) tn d" for tn d
  proof -
    obtain e x where "map_of (le_entries t) (d, e) = Some x" "lr_tenant x = tn"
      using inv m unfolding lease_inv_def by blast
    then show ?thesis using old r' wf
      by (intro exI [of _ e]) (auto simp: om_simps)
  qed
  moreover have "index_mem (le_endpoints_by_device t) d e \<longleftrightarrow> map_of (om_put key r' (le_entries t)) (d, e) \<noteq> None" for d e
    using inv old wf by (auto simp: lease_inv_def om_simps)
  moreover have "list_all (\<lambda>(k, r). lr_key r = k) (om_put key r' (le_entries t))"
    "length (om_put key r' (le_entries t)) \<le> lc_capacity (le_config t)"
    using inv wf r' k old by (simp_all add: list_all_om_put lease_inv_def om_simps)
  ultimately show ?thesis using inv by (simp add: lease_inv_def)
qed

lemma heartbeat_cases:
  obtains (invalid) "heartbeat key tenant lease now (Some t) =
      (Inl (lease_error EC_configuration ''lease_heartbeat_invalid''), Some t)"
  | (conflict) r where "map_of (le_entries t) key = Some r" "now < lr_expires_at r" "lr_tenant r \<noteq> tenant"
    "heartbeat key tenant lease now (Some t) = (Inl (lease_error EC_permission ''lease_tenant_conflict''),
       Some (t\<lparr>le_stats := (le_stats t)\<lparr>ld_tenant_conflict_rejected :=
                   ld_tenant_conflict_rejected (le_stats t) + 1\<rparr>\<rparr>))"
  | (refresh) r where "map_of (le_entries t) key = Some r" "now < lr_expires_at r" "lr_tenant r = tenant"
    "heartbeat key tenant lease now (Some t) =
      (Inr \<lparr>lh_outcome = LH_refreshed, lh_lease_generation = le_next_generation t,
            lh_expires_at = now + ms_to_ns (effective_lease lease (le_config t))\<rparr>,
       Some (t\<lparr>le_next_generation := le_next_generation t + 1,
               le_entries := om_put key (r\<lparr>lr_expires_at := now + ms_to_ns (effective_lease lease (le_config t)),
                   lr_lease_generation := le_next_generation t\<rparr>) (le_entries t),
               le_stats := (le_stats t)\<lparr>ld_refreshed := ld_refreshed (le_stats t) + 1\<rparr>\<rparr>))"
  | (fresh) u where "lease_inv t \<Longrightarrow> lease_inv u" "map_of (le_entries u) key = None" "le_config u = le_config t"
    "lease_get (Some t) key now = None" "le_next_generation u = le_next_generation t"
    "\<And>k later. now \<le> later \<Longrightarrow> lease_get (Some u) k later = lease_get (Some t) k later"
    "heartbeat key tenant lease now (Some t) =
      map_prod id Some (lease_insert key tenant (effective_lease lease (le_config t)) now u)"
proof (cases "id_is_zero (fst key) \<or> id_is_zero (snd key) \<or> \<not> valid_tenant tenant \<or>
        lease > lc_maximum_lease (le_config t)")
  case True
  then show ?thesis by (intro invalid) simp
next
  case ok: False
  show ?thesis
  proof (cases "map_of (le_entries t) key")
    case None
    then show ?thesis using ok by (intro fresh [of t]) (simp_all add: Let_def)
  next
    case (Some r)
    consider "now < lr_expires_at r" "lr_tenant r \<noteq> tenant" | "now < lr_expires_at r" "lr_tenant r = tenant"
      | "lr_expires_at r \<le> now" by linarith
    then show ?thesis
    proof cases
      case 1
      then show ?thesis using ok Some by (intro conflict [of r]) (simp_all add: Let_def)
    next
      case 2
      then show ?thesis using ok Some by (intro refresh [of r]) (simp_all add: Let_def)
    next
      case 3
      then show ?thesis using ok Some
        by (intro fresh [of "unlink_expired key t"]) (simp_all add: Let_def unlink_expired_inv om_simps)
    qed
  qed
qed

lemma heartbeat_ok: "lease_ok h \<Longrightarrow> lease_ok (snd (heartbeat key tenant lease now h))"
proof (cases h)
  case (Some t)
  assume "lease_ok h"
  then have inv: "lease_inv t" using Some by (simp add: lease_ok_def)
  show ?thesis
  proof (cases rule: heartbeat_cases [of key tenant lease now t])
    case (refresh r)
    then show ?thesis using inv Some by (simp add: lease_ok_def lease_refresh_inv)
  next
    case (fresh u)
    then show ?thesis using inv Some lease_insert_inv [of u key]
      by (simp add: lease_ok_def)
  qed (use inv Some in \<open>simp_all add: lease_ok_def lease_inv_stats\<close>)
qed (simp add: lease_ok_def)

lemma lease_remove_ok: "lease_ok h \<Longrightarrow> lease_ok (snd (lease_remove key h))"
  by (cases h) (auto simp: lease_ok_def Let_def lease_inv_stats unlink_inv)

lemma remove_device_ok: "lease_ok h \<Longrightarrow> lease_ok (snd (remove_device d h))"
proof (cases h)
  case (Some t)
  assume ok: "lease_ok h"
  have "lease_ok (fold (\<lambda>k h. snd (lease_remove k h)) ks h)" if "lease_ok h" for ks h
    using that by (induction ks arbitrary: h) (auto intro: lease_remove_ok)
  then show ?thesis using Some ok by (simp add: Let_def)
qed (simp add: lease_ok_def)

lemma lease_step_ok: "lease_ok h \<Longrightarrow> lease_ok (lease_step x h)"
proof (cases x)
  case (LeaseExpire now)
  assume "lease_ok h"
  then show ?thesis using LeaseExpire by (cases h) (auto simp: lease_ok_def lease_sweep_inv)
qed (simp_all add: heartbeat_ok lease_remove_ok remove_device_ok)

lemma lease_create_ok: "lease_create c = Inr h \<Longrightarrow> lease_ok h"
  by (auto simp: lease_create_def lease_impl_def lease_ok_def lease_inv_def index_ok_def index_mem_def split: if_splits)

interpretation lease_machine: invariant_machine "\<lambda>h. \<exists>c. lease_create c = Inr h" lease_step lease_ok
  by unfold_locales (auto intro: lease_create_ok lease_step_ok)

lemma index_group_card:
  assumes "index_ok cap ix"
  shows "card {m. index_mem ix g m} \<le> cap"
proof (cases "map_of ix g")
  case (Some s)
  then have "{m. index_mem ix g m} = set (map fst s)"
    by (auto simp: index_mem_def map_of_eq_None_iff)
  then show ?thesis using index_ok_group [OF assms Some] card_length [of "map fst s"] by simp
qed (simp add: index_mem_def)

lemma map_filter_Some: "(\<And>x. x \<in> set xs \<Longrightarrow> f x = (if P (g x) then Some (g x) else None)) \<Longrightarrow>
   List.map_filter f xs = filter P (map g xs)"
  by (induction xs) (auto simp: map_filter_simps)

text \<open>The leases of a device, in key order, are its index entries looked up in their order.\<close>

lemma device_entries:
  assumes inv: "lease_inv t"
  shows "filter (\<lambda>(k, r). fst k = d) (le_entries t) =
    (case map_of (le_endpoints_by_device t) d of None \<Rightarrow> []
     | Some s \<Rightarrow> map (\<lambda>e. ((d, e), the (map_of (le_entries t) (d, e)))) (map fst s))"
proof (rule om_ext)
  have wf: "om_wf (le_entries t)" using inv by (simp add: lease_inv_def)
  then show "om_wf (filter (\<lambda>(k, r). fst k = d) (le_entries t))" by simp
  have mem: "index_mem (le_endpoints_by_device t) d e \<longleftrightarrow> map_of (le_entries t) (d, e) \<noteq> None" for e
    using inv by (simp add: lease_inv_def)
  show "om_wf (case map_of (le_endpoints_by_device t) d of None \<Rightarrow> []
     | Some s \<Rightarrow> map (\<lambda>e. ((d, e), the (map_of (le_entries t) (d, e)))) (map fst s))"
  proof (cases "map_of (le_endpoints_by_device t) d")
    case (Some s)
    have "om_wf s" using inv index_ok_group [OF _ Some] by (auto simp: lease_inv_def)
    then show ?thesis using Some by (simp add: om_wf_def sorted_wrt_map less_prod_def)
  qed simp
  have s: "fst ` set s = {e. map_of (le_entries t) (d, e) \<noteq> None}"
    if "map_of (le_endpoints_by_device t) d = Some s" for s
    using that mem by (auto simp: index_mem_def map_of_eq_None_iff)
  show "set (filter (\<lambda>(k, r). fst k = d) (le_entries t)) = set (case map_of (le_endpoints_by_device t) d of
     None \<Rightarrow> [] | Some s \<Rightarrow> map (\<lambda>e. ((d, e), the (map_of (le_entries t) (d, e)))) (map fst s))"
  proof (cases "map_of (le_endpoints_by_device t) d")
    case None
    then have "map_of (le_entries t) (d, e) = None" for e using mem by (simp add: index_mem_def)
    then show ?thesis using None wf by (auto simp: om_mem_iff)
  next
    case (Some s)
    have im: "(\<lambda>e. ((d, e), the (map_of (le_entries t) (d, e)))) ` {e. map_of (le_entries t) (d, e) \<noteq> None} =
        {x \<in> set (le_entries t). fst (fst x) = d}"
      using wf by (force simp: om_mem_iff)
    show ?thesis unfolding Some option.case set_map s [OF Some] im by auto
  qed
qed

lemma lease_sweep_get:
  "lease_inv t \<Longrightarrow> now \<le> later \<Longrightarrow> lease_get (Some (lease_sweep now t)) k later = lease_get (Some t) k later"
  by (auto simp: lease_sweep_entries lease_inv_def om_simps split: option.splits)

lemma lease_insert_get:
  assumes inv: "lease_inv t" and "now \<le> later" "lease_insert key tenant d now t = (Inr r, t')"
  shows "lh_outcome r = LH_inserted \<and> lh_lease_generation r = le_next_generation t \<and>
    lh_expires_at r = now + ms_to_ns d \<and>
    lease_get (Some t') k later = (if k = key then
       if later < now + ms_to_ns d then Some \<lparr>lr_key = key, lr_tenant = tenant,
          lr_lease_generation = lh_lease_generation r, lr_expires_at = lh_expires_at r\<rparr> else None
     else lease_get (Some t) k later)"
proof -
  define u where "u = (if length (le_entries t) \<ge> lc_capacity (le_config t) then lease_sweep now t else t)"
  have u: "lease_inv u" "le_next_generation u = le_next_generation t"
    "lease_get (Some u) k later = lease_get (Some t) k later"
    using inv lease_sweep_inv [OF inv] lease_sweep_get [OF inv assms(2)]
    by (auto simp: u_def simp del: lease_get.simps)
  have wf: "om_wf (le_entries u)" using u by (simp add: lease_inv_def)
  have t': "r = \<lparr>lh_outcome = LH_inserted, lh_lease_generation = le_next_generation u,
                   lh_expires_at = now + ms_to_ns d\<rparr>"
    "le_entries t' = om_put key \<lparr>lr_key = key, lr_tenant = tenant,
       lr_lease_generation = le_next_generation u, lr_expires_at = now + ms_to_ns d\<rparr> (le_entries u)"
    using assms(3) unfolding lease_insert_def u_def [symmetric] Let_def by (auto split: if_splits)
  show ?thesis using u t' wf by (auto simp: om_simps)
qed

lemmas lease_steps = valid_tenant_def lease_insert_def effective_lease_def Let_def
  index_insert_def index_erase_def unlink_def om_put_def om_del_def
  less_prod_def less_eq_prod_def List.map_filter_def lease_impl_def default_lease_config_def lease_no_diagnostics_def

section \<open>Properties\<close>

text \<open>
  C17: an accepted heartbeat gives its key, until the lease ends, exactly the record of the
  heartbeat's tenant with the generation and the end it reports; it counts as a refresh exactly
  when the key had a live lease, which then had the same tenant; every other key keeps what it
  had.
\<close>

theorem lease_heartbeat_get:
  assumes ok: "lease_ok h" and hb: "heartbeat key tenant lease now h = (Inr r, h')" and "now \<le> later"
  shows "(lh_outcome r = LH_refreshed \<longleftrightarrow> lease_get h key now \<noteq> None) \<and>
    (\<forall>x. lease_get h key now = Some x \<longrightarrow> lr_tenant x = tenant) \<and>
    lease_get h' k later = (if k = key then
       if later < lh_expires_at r then Some \<lparr>lr_key = key, lr_tenant = tenant,
          lr_lease_generation = lh_lease_generation r, lr_expires_at = lh_expires_at r\<rparr> else None
     else lease_get h k later)"
proof -
  obtain t where h: "h = Some t" using hb by (cases h) auto
  have inv: "lease_inv t" using ok h by (simp add: lease_ok_def)
  show ?thesis
  proof (cases rule: heartbeat_cases [of key tenant lease now t])
    case (refresh x)
    have wf: "om_wf (le_entries t)" using inv by (simp add: lease_inv_def)
    show ?thesis using refresh hb h wf lease_inv_key [OF inv refresh(1)]
      by (cases x) (auto simp: om_simps)
  next
    case (fresh u)
    then obtain u' where i: "lease_insert key tenant (effective_lease lease (le_config t)) now u = (Inr r, u')"
      "h' = Some u'"
      using hb h by (cases "lease_insert key tenant (effective_lease lease (le_config t)) now u") auto
    show ?thesis
      using lease_insert_get [OF fresh(1) [OF inv] assms(3) i(1), of k] fresh(4) fresh(6) [OF assms(3)] i(2) h
      by (simp del: lease_get.simps)
  qed (use hb h in auto)
qed

theorem lease_heartbeat_get_witness:
  "lease_get (snd (heartbeat ([1], [2]) ''t'' 0 5 (Some (lease_impl default_lease_config)))) ([1], [2]) 6 =
   Some \<lparr>lr_key = ([1], [2]), lr_tenant = ''t'', lr_lease_generation = 1, lr_expires_at = 45000000005\<rparr>"
proof -
  let ?h = "Some (lease_impl default_lease_config)"
  have "lease_create default_lease_config = Inr ?h" by (simp add: lease_create_def default_lease_config_def)
  then have "lease_ok ?h" by (rule lease_create_ok)
  moreover have "fst (heartbeat ([1], [2]) ''t'' 0 5 ?h) = Inr \<lparr>lh_outcome = LH_inserted,
      lh_lease_generation = 1, lh_expires_at = 45000000005\<rparr>"
    by (simp add: lease_steps)
  then obtain h' where "heartbeat ([1], [2]) ''t'' 0 5 ?h = (Inr \<lparr>lh_outcome = LH_inserted,
      lh_lease_generation = 1, lh_expires_at = 45000000005\<rparr>, h')"
    by (metis prod.collapse)
  ultimately show ?thesis using lease_heartbeat_get [of ?h "([1], [2])" "''t''" 0 5 _ h' 6 "([1], [2])"] by simp
qed

text \<open>
  C33: after any sequence of operations the table holds at most its capacity of leases, no device
  has more leased endpoints than its quota, the device index lists exactly the leased endpoints,
  and no tenant's device list exceeds its quota or names a device without a lease of that tenant.
\<close>

theorem lease_table_invariant:
  assumes "lease_create config = Inr h" and "run lease_step xs h = Some t"
  shows "length (le_entries t) \<le> lc_capacity (le_config t) \<and>
    card {e. map_of (le_entries t) (d, e) \<noteq> None} \<le> lc_per_device_endpoint_capacity (le_config t) \<and>
    {e. index_mem (le_endpoints_by_device t) d e} = {e. map_of (le_entries t) (d, e) \<noteq> None} \<and>
    card {d. index_mem (le_devices_by_tenant t) tn d} \<le> lc_per_tenant_device_capacity (le_config t) \<and>
    {d. index_mem (le_devices_by_tenant t) tn d} \<subseteq>
      {d. \<exists>e r. map_of (le_entries t) (d, e) = Some r \<and> lr_tenant r = tn}"
proof -
  have "lease_ok (run lease_step xs h)"
    using assms(1) by (intro lease_machine.inv_reachable) blast
  then have inv: "lease_inv t" using assms(2) by (simp add: lease_ok_def)
  have ix: "{e. index_mem (le_endpoints_by_device t) d e} = {e. map_of (le_entries t) (d, e) \<noteq> None}"
    using inv by (simp add: lease_inv_def)
  have ok: "index_ok (lc_per_device_endpoint_capacity (le_config t)) (le_endpoints_by_device t)"
    "index_ok (lc_per_tenant_device_capacity (le_config t)) (le_devices_by_tenant t)"
    using inv by (simp_all add: lease_inv_def)
  show ?thesis
    using inv ix index_group_card [OF ok(1), of d, unfolded ix] index_group_card [OF ok(2), of tn]
    unfolding lease_inv_def by blast
qed

theorem lease_table_invariant_witness:
  "\<exists>t. run lease_step [LeaseHeartbeat ([1], [2]) ''t'' 0 5] (Some (lease_impl default_lease_config)) = Some t \<and>
    card {e. map_of (le_entries t) ([1], e) \<noteq> None} \<le> 64"
proof -
  let ?h = "Some (lease_impl default_lease_config)"
  have c: "lease_create default_lease_config = Inr ?h" by (simp add: lease_create_def default_lease_config_def)
  obtain t where t: "run lease_step [LeaseHeartbeat ([1], [2]) ''t'' 0 5] ?h = Some t"
    "lc_per_device_endpoint_capacity (le_config t) = 64"
    by (simp add: lease_steps)
  then show ?thesis using lease_table_invariant [OF c t(1), of "[1]"] by auto
qed

text \<open>
  The leases a device has online, found through the device index, are the online leases of
  the whole table restricted to the device, in the same order.
\<close>

theorem lease_online_device:
  assumes "lease_ok h"
  shows "online_device h d now = filter (\<lambda>r. fst (lr_key r) = d) (online h now)"
proof (cases h)
  case (Some t)
  have inv: "lease_inv t" using assms Some by (simp add: lease_ok_def)
  have key: "lr_key r = k" if "(k, r) \<in> set (le_entries t)" for k r
    using inv that by (auto simp: lease_inv_def list_all_iff)
  have "filter (\<lambda>r. fst (lr_key r) = d) (online h now) =
      filter (\<lambda>r. now < lr_expires_at r) (map snd (filter (\<lambda>(k, r). fst k = d) (le_entries t)))"
    unfolding Some online.simps filter_map filter_filter
    by (auto intro!: arg_cong [where f = "map snd"] filter_cong simp: key)
  also have "\<dots> = online_device h d now"
  proof (cases "map_of (le_endpoints_by_device t) d")
    case i: (Some s)
    have live: "map_of (le_entries t) (d, e) \<noteq> None" if "e \<in> fst ` set s" for e
    proof -
      have "index_mem (le_endpoints_by_device t) d e"
        using that i by (auto simp: index_mem_def map_of_eq_None_iff)
      then show ?thesis using inv by (simp add: lease_inv_def)
    qed
    have "List.map_filter (\<lambda>e. lease_get (Some t) (d, e) now) (map fst s) =
        filter (\<lambda>r. now < lr_expires_at r) (map (\<lambda>e. the (map_of (le_entries t) (d, e))) (map fst s))"
    proof (rule map_filter_Some)
      fix e assume "e \<in> set (map fst s)"
      then obtain r where "map_of (le_entries t) (d, e) = Some r" using live by force
      then show "lease_get (Some t) (d, e) now = (if now < lr_expires_at (the (map_of (le_entries t) (d, e)))
          then Some (the (map_of (le_entries t) (d, e))) else None)" by simp
    qed
    then show ?thesis unfolding device_entries [OF inv] unfolding Some online_device.simps i option.case
      by (simp add: o_def)
  qed (simp add: device_entries [OF inv] Some)
  finally show ?thesis by simp
qed simp

theorem lease_online_device_witness:
  "online_device (run lease_step [LeaseHeartbeat ([1], [2]) ''t'' 0 5] (Some (lease_impl default_lease_config))) [1] 6 =
   filter (\<lambda>r. fst (lr_key r) = [1])
     (online (run lease_step [LeaseHeartbeat ([1], [2]) ''t'' 0 5] (Some (lease_impl default_lease_config))) 6)"
proof (rule lease_online_device)
  have "lease_create default_lease_config = Inr (Some (lease_impl default_lease_config))"
    by (simp add: lease_create_def default_lease_config_def)
  then show "lease_ok (run lease_step [LeaseHeartbeat ([1], [2]) ''t'' 0 5] (Some (lease_impl default_lease_config)))"
    by (intro lease_machine.inv_reachable) blast
qed

text \<open>
  Removing one endpoint of a device takes the whole device off its tenant's list although
  another of its endpoints keeps its lease.  With a quota of one device per tenant, the tenant
  then gets a second device accepted, so that two of its devices are online, and the list shows
  only the second.
\<close>

theorem lease_tenant_quota_bypassed:
  "\<exists>h. lease_create (default_lease_config\<lparr>lc_per_tenant_device_capacity := 1\<rparr>) = Inr h \<and>
    (let h' = run lease_step [LeaseHeartbeat ([1], [1]) ''t'' 0 0, LeaseHeartbeat ([1], [2]) ''t'' 0 0,
                LeaseRemove ([1], [2]), LeaseHeartbeat ([2], [1]) ''t'' 0 0] h
     in map lr_key (online h' 1) = [([1], [1]), ([2], [1])] \<and>
        map lr_tenant (online h' 1) = [''t'', ''t''] \<and>
        map lr_key (online_tenant h' ''t'' 1) = [([2], [1])])"
  by (simp add: lease_create_def lease_steps)

text \<open>
  a device with leases of two tenants shows its leases of both on either tenant's list.
\<close>

theorem lease_online_tenant_mixed:
  "\<exists>h. lease_create default_lease_config = Inr h \<and>
    (let h' = run lease_step [LeaseHeartbeat ([1], [1]) ''a'' 0 0, LeaseHeartbeat ([1], [2]) ''b'' 0 0] h
     in map lr_tenant (online_tenant h' ''a'' 1) = [''a'', ''b''])"
  by (simp add: lease_create_def lease_steps)

end
