(* ===== verification/Heyaki_Relay_Throttle.thy ===== *)
theory Heyaki_Relay_Throttle
  imports Heyaki_Core
begin

text \<open>
  The relay's per-address throttle of enrollment attempts (\<open>relay_enrollment_throttle.hpp\<close> and
  \<open>.cpp\<close>): failures deepen an exponential backoff, a success forgets the address.
\<close>

section \<open>State\<close>

record RelayEnrollmentThrottleConfig =
  tc_max_tracked_ips :: nat
  tc_failure_backoff_base :: milliseconds
  tc_failure_backoff_maximum :: milliseconds
  tc_maximum_backoff_shift :: u32
  tc_entry_ttl :: milliseconds

definition default_throttle_config :: RelayEnrollmentThrottleConfig where
  "default_throttle_config = \<lparr>tc_max_tracked_ips = 4096, tc_failure_backoff_base = 500,
     tc_failure_backoff_maximum = 60000, tc_maximum_backoff_shift = 7,
     tc_entry_ttl = 10 * 60 * 1000\<rparr>"

record RelayEnrollmentThrottleDiagnostics =
  ts_admitted :: u64
  ts_throttled :: u64
  ts_capacity_rejected :: u64
  ts_failures_recorded :: u64
  ts_successes_recorded :: u64
  ts_tracked_ips :: nat
  ts_peak_tracked_ips :: nat

definition throttle_no_diagnostics :: RelayEnrollmentThrottleDiagnostics where
  "throttle_no_diagnostics = \<lparr>ts_admitted = 0, ts_throttled = 0, ts_capacity_rejected = 0,
     ts_failures_recorded = 0, ts_successes_recorded = 0, ts_tracked_ips = 0,
     ts_peak_tracked_ips = 0\<rparr>"

text \<open>A value-initialised time point is the clock's epoch.\<close>

record ThrottleEntry =
  th_failure_streak :: u32
  th_backoff_until :: time_point
  th_last_seen :: time_point

record RelayEnrollmentThrottleImpl =
  et_config :: RelayEnrollmentThrottleConfig
  et_entries :: "(string, ThrottleEntry) omap"
  et_stats :: RelayEnrollmentThrottleDiagnostics

type_synonym RelayEnrollmentThrottle = "RelayEnrollmentThrottleImpl option"

definition throttle_error :: "ErrorCode \<Rightarrow> string \<Rightarrow> Error" where
  "throttle_error code detail = err code ''relay_enrollment_throttle'' detail"

definition max_ip_key_bytes :: nat where
  "max_ip_key_bytes = 64"

section \<open>Operations\<close>

definition validate_throttle_config :: "RelayEnrollmentThrottleConfig \<Rightarrow> unit result" where
  "validate_throttle_config config =
    (if tc_max_tracked_ips config = 0 \<or> tc_max_tracked_ips config > 65536 \<or>
        tc_failure_backoff_base config \<le> 0 \<or>
        tc_failure_backoff_maximum config < tc_failure_backoff_base config \<or>
        tc_maximum_backoff_shift config = 0 \<or> tc_maximum_backoff_shift config > 16 \<or>
        tc_entry_ttl config \<le> 0
     then Inl (throttle_error EC_configuration ''enrollment_throttle_config_invalid'')
     else Inr ())"

definition throttle_create :: "RelayEnrollmentThrottleConfig \<Rightarrow> RelayEnrollmentThrottle result" where
  "throttle_create config = (case validate_throttle_config config of Inl e \<Rightarrow> Inl e
     | Inr _ \<Rightarrow> Inr (Some \<lparr>et_config = config, et_entries = [], et_stats = throttle_no_diagnostics\<rparr>))"

definition throttle_sweep :: "time_point \<Rightarrow> RelayEnrollmentThrottleImpl \<Rightarrow> RelayEnrollmentThrottleImpl" where
  "throttle_sweep now t =
    (let kept = filter (\<lambda>(ip, e). \<not> (th_last_seen e + ms_to_ns (tc_entry_ttl (et_config t)) \<le> now \<and>
                                       th_backoff_until e \<le> now)) (et_entries t)
     in t\<lparr>et_entries := kept, et_stats := (et_stats t)\<lparr>ts_tracked_ips := length kept\<rparr>\<rparr>)"

fun throttle_prune :: "time_point \<Rightarrow> RelayEnrollmentThrottle \<Rightarrow> RelayEnrollmentThrottle" where
  "throttle_prune now None = None"
| "throttle_prune now (Some t) = Some (throttle_sweep now t)"

text \<open>The end of \<open>admit\<close>: an address that is not tracked needs room in the table.\<close>

definition admit_tail :: "bool \<Rightarrow> time_point \<Rightarrow> RelayEnrollmentThrottleImpl \<Rightarrow>
    unit result \<times> RelayEnrollmentThrottleImpl" where
  "admit_tail tracked now t0 =
    (let full = (\<lambda>t. length (et_entries t) \<ge> tc_max_tracked_ips (et_config t));
         t = (if \<not> tracked \<and> full t0 then throttle_sweep now t0 else t0)
     in if \<not> tracked \<and> full t0 \<and> full t then
          (Inl (throttle_error EC_resource_exhausted ''enrollment_throttle_capacity_exhausted''),
           t\<lparr>et_stats := (et_stats t)\<lparr>ts_capacity_rejected := ts_capacity_rejected (et_stats t) + 1\<rparr>\<rparr>)
        else (Inr (), t\<lparr>et_stats := (et_stats t)\<lparr>ts_admitted := ts_admitted (et_stats t) + 1\<rparr>\<rparr>))"

fun throttle_admit :: "string \<Rightarrow> time_point \<Rightarrow> RelayEnrollmentThrottle \<Rightarrow>
    unit result \<times> RelayEnrollmentThrottle" where
  "throttle_admit ip now None =
     (Inl (throttle_error EC_cancelled ''enrollment_throttle_not_initialized''), None)"
| "throttle_admit ip now (Some t) =
    (if ip = [] \<or> length ip > max_ip_key_bytes then
       (Inl (throttle_error EC_configuration ''enrollment_throttle_ip_invalid''), Some t)
     else case map_of (et_entries t) ip of
         None \<Rightarrow> map_prod id Some (admit_tail False now t)
       | Some e \<Rightarrow>
         if th_last_seen e + ms_to_ns (tc_entry_ttl (et_config t)) \<le> now then
           let kept = om_del ip (et_entries t)
           in map_prod id Some (admit_tail False now
                (t\<lparr>et_entries := kept, et_stats := (et_stats t)\<lparr>ts_tracked_ips := length kept\<rparr>\<rparr>))
         else if th_backoff_until e > now then
           (Inl (throttle_error EC_resource_exhausted ''enrollment_throttled''),
            Some (t\<lparr>et_stats := (et_stats t)\<lparr>ts_throttled := ts_throttled (et_stats t) + 1\<rparr>\<rparr>))
         else map_prod id Some (admit_tail True now t))"

text \<open>
  The backoff of a streak.  The product of a signed 64-bit count and an unsigned 64-bit factor is
  taken in unsigned arithmetic and cast back.
\<close>

definition next_streak :: "u32 \<Rightarrow> u32" where
  "next_streak n = (if n \<ge> 32 then 32 else n + 1)"

definition backoff_of :: "RelayEnrollmentThrottleConfig \<Rightarrow> u32 \<Rightarrow> milliseconds" where
  "backoff_of config streak =
    (let shift = min (streak - 1) (tc_maximum_backoff_shift config);
         product = of_int (tc_failure_backoff_base config) * push_bit (unat shift) 1 :: u64
     in min (sint product) (tc_failure_backoff_maximum config))"

fun record_failure :: "string \<Rightarrow> time_point \<Rightarrow> RelayEnrollmentThrottle \<Rightarrow> RelayEnrollmentThrottle" where
  "record_failure ip now None = None"
| "record_failure ip now (Some t) =
    (if ip = [] \<or> length ip > max_ip_key_bytes then Some t
     else
       let old = (case map_of (et_entries t) ip of
             None \<Rightarrow> \<lparr>th_failure_streak = 0, th_backoff_until = 0, th_last_seen = 0\<rparr>
           | Some e \<Rightarrow> e);
           streak = next_streak (th_failure_streak old);
           entries = om_put ip \<lparr>th_failure_streak = streak,
             th_backoff_until = now + ms_to_ns (backoff_of (et_config t) streak),
             th_last_seen = now\<rparr> (et_entries t)
       in Some (t\<lparr>et_entries := entries, et_stats := (et_stats t)\<lparr>
            ts_failures_recorded := ts_failures_recorded (et_stats t) + 1,
            ts_tracked_ips := length entries,
            ts_peak_tracked_ips := max (ts_peak_tracked_ips (et_stats t)) (length entries)\<rparr>\<rparr>))"

fun record_success :: "string \<Rightarrow> time_point \<Rightarrow> RelayEnrollmentThrottle \<Rightarrow> RelayEnrollmentThrottle" where
  "record_success ip now None = None"
| "record_success ip now (Some t) =
    (if ip = [] \<or> length ip > max_ip_key_bytes then Some t
     else
       let entries = om_del ip (et_entries t)
       in Some (t\<lparr>et_entries := entries, et_stats := (et_stats t)\<lparr>
            ts_successes_recorded := ts_successes_recorded (et_stats t) + 1,
            ts_tracked_ips := length entries\<rparr>\<rparr>))"

fun throttle_diagnostics :: "RelayEnrollmentThrottle \<Rightarrow> RelayEnrollmentThrottleDiagnostics" where
  "throttle_diagnostics None = throttle_no_diagnostics"
| "throttle_diagnostics (Some t) = et_stats t"

section \<open>Vocabulary of the properties\<close>

datatype ThrottleOp = ThAdmit string time_point | ThFailure string time_point
  | ThSuccess string time_point | ThPrune time_point

fun throttle_step :: "ThrottleOp \<Rightarrow> RelayEnrollmentThrottle \<Rightarrow> RelayEnrollmentThrottle" where
  "throttle_step (ThAdmit ip now) h = snd (throttle_admit ip now h)"
| "throttle_step (ThFailure ip now) h = record_failure ip now h"
| "throttle_step (ThSuccess ip now) h = record_success ip now h"
| "throttle_step (ThPrune now) h = throttle_prune now h"

fun throttle_op_time :: "ThrottleOp \<Rightarrow> time_point" where
  "throttle_op_time (ThAdmit ip now) = now"
| "throttle_op_time (ThFailure ip now) = now"
| "throttle_op_time (ThSuccess ip now) = now"
| "throttle_op_time (ThPrune now) = now"

text \<open>The failure streak an address has at a state.\<close>

fun streak_of :: "string \<Rightarrow> RelayEnrollmentThrottle \<Rightarrow> u32" where
  "streak_of ip None = 0"
| "streak_of ip (Some t) = (case map_of (et_entries t) ip of None \<Rightarrow> 0 | Some e \<Rightarrow> th_failure_streak e)"

text \<open>
  Address \<open>ip\<close> is held back until \<open>u\<close> by a streak of at least \<open>n\<close> failures, the last no older
  than \<open>s\<close>.
\<close>

fun held :: "string \<Rightarrow> u32 \<Rightarrow> time_point \<Rightarrow> time_point \<Rightarrow> RelayEnrollmentThrottleConfig \<Rightarrow>
    RelayEnrollmentThrottle \<Rightarrow> bool" where
  "held ip n s u config None \<longleftrightarrow> False"
| "held ip n s u config (Some t) \<longleftrightarrow> et_config t = config \<and> om_wf (et_entries t) \<and>
     (\<exists>e. map_of (et_entries t) ip = Some e \<and> s \<le> th_last_seen e \<and> u \<le> th_backoff_until e \<and>
          n \<le> th_failure_streak e \<and> th_failure_streak e \<le> 32)"

fun throttle_ok :: "RelayEnrollmentThrottleConfig \<Rightarrow> RelayEnrollmentThrottle \<Rightarrow> bool" where
  "throttle_ok config None \<longleftrightarrow> False"
| "throttle_ok config (Some t) \<longleftrightarrow> et_config t = config \<and> om_wf (et_entries t) \<and>
     list_all (\<lambda>(ip, e). th_failure_streak e \<le> 32) (et_entries t)"

section \<open>Lemmas\<close>

lemma sint_small:
  fixes w :: u64
  assumes "uint w < 2 ^ 63" shows "sint w = uint w"
proof -
  have "- (2 ^ 63) \<le> uint w" by (rule order_trans [OF _ uint_nonnegative]) simp
  then show ?thesis using assms by (simp add: sint_uint signed_take_bit_int_eq_self)
qed

lemma unat_min_u32: "unat (min a b :: u32) = min (unat a) (unat b)"
  by (simp add: min_def word_le_nat_alt)

lemma backoff_of_eq:
  assumes base: "0 < tc_failure_backoff_base c" "tc_failure_backoff_base c < 2 ^ 47"
    and shift: "tc_maximum_backoff_shift c \<le> 16"
  shows "backoff_of c n = min (tc_failure_backoff_base c *
     2 ^ min (unat (n - 1)) (unat (tc_maximum_backoff_shift c))) (tc_failure_backoff_maximum c)"
proof -
  define k where "k = min (unat (n - 1)) (unat (tc_maximum_backoff_shift c))"
  have k: "k \<le> 16" using shift by (simp add: k_def word_le_nat_alt)
  have "(2::int) ^ k \<le> 2 ^ 16" using k by (intro power_increasing) auto
  then have "tc_failure_backoff_base c * 2 ^ k \<le> tc_failure_backoff_base c * 2 ^ 16"
    using base by (intro mult_left_mono) auto
  also have "\<dots> < 2 ^ 63" using base by simp
  finally have b: "tc_failure_backoff_base c * 2 ^ k < 2 ^ 63" .
  have "push_bit k (1 :: u64) = of_int (2 ^ k)" by (simp add: push_bit_eq_mult)
  moreover have "(2::int) ^ k < 2 ^ 64" using k by (intro power_strict_increasing) auto
  ultimately have p: "uint (push_bit k 1 :: u64) = 2 ^ k" by (simp only:) (rule uint_of_int_small; simp)
  have q: "uint (of_int (tc_failure_backoff_base c) :: u64) = tc_failure_backoff_base c"
    using base by (intro uint_of_int_small) simp_all
  have "uint (of_int (tc_failure_backoff_base c) * push_bit k 1 :: u64) = tc_failure_backoff_base c * 2 ^ k"
    using b by (subst uint_mult_small) (simp_all only: p q, simp)
  then have "sint (of_int (tc_failure_backoff_base c) * push_bit k 1 :: u64) = tc_failure_backoff_base c * 2 ^ k"
    using b sint_small by simp
  then show ?thesis by (simp add: backoff_of_def Let_def unat_min_u32 k_def)
qed

lemma backoff_of_mono:
  assumes base: "0 < tc_failure_backoff_base c" "tc_failure_backoff_base c < 2 ^ 47"
    and shift: "tc_maximum_backoff_shift c \<le> 16" and mn: "1 \<le> m" "m \<le> n"
  shows "backoff_of c m \<le> backoff_of c n"
proof -
  have "unat (m - 1) \<le> unat (n - 1)" 
    using mn by (simp add: word_le_nat_alt unat_sub)
  then have "(2::int) ^ min (unat (m - 1)) (unat (tc_maximum_backoff_shift c)) \<le>
      2 ^ min (unat (n - 1)) (unat (tc_maximum_backoff_shift c))"
    by (intro power_increasing) auto
  then have "tc_failure_backoff_base c * 2 ^ min (unat (m - 1)) (unat (tc_maximum_backoff_shift c)) \<le>
      tc_failure_backoff_base c * 2 ^ min (unat (n - 1)) (unat (tc_maximum_backoff_shift c))"
    using base by (intro mult_left_mono) auto
  then show ?thesis unfolding backoff_of_eq [OF base shift] by (auto simp: min_le_iff_disj)
qed

lemma next_streak_bounds: "1 \<le> next_streak n" "next_streak n \<le> 32" "n \<le> 32 \<Longrightarrow> n \<le> next_streak n"
  by (auto simp: next_streak_def word_le_nat_alt unat_word_ariths)

lemma throttle_sweep_simps [simp]:
  "et_config (throttle_sweep now t) = et_config t"
  "et_entries (throttle_sweep now t) = filter (\<lambda>(ip, e).
     \<not> (th_last_seen e + ms_to_ns (tc_entry_ttl (et_config t)) \<le> now \<and> th_backoff_until e \<le> now)) (et_entries t)"
  by (simp_all add: throttle_sweep_def Let_def)

lemma admit_tail_simps:
  "et_config (snd (admit_tail tracked now t)) = et_config t"
  "et_entries (snd (admit_tail tracked now t)) = et_entries t \<or>
   et_entries (snd (admit_tail tracked now t)) = et_entries (throttle_sweep now t)"
  by (auto simp: admit_tail_def Let_def)

lemma held_admit:
  assumes held: "held ip n s u config h" and now: "now < u" and ttl: "u \<le> s + ms_to_ns (tc_entry_ttl config)"
  shows "held ip n s u config (snd (throttle_admit x now h)) \<and>
    (x = ip \<and> ip \<noteq> [] \<and> length ip \<le> max_ip_key_bytes \<longrightarrow>
       fst (throttle_admit x now h) = Inl (throttle_error EC_resource_exhausted ''enrollment_throttled''))"
proof -
  obtain t where h: "h = Some t" using held by (cases h) auto
  obtain e where e: "map_of (et_entries t) ip = Some e" "s \<le> th_last_seen e" "u \<le> th_backoff_until e"
      "n \<le> th_failure_streak e" "th_failure_streak e \<le> 32" "et_config t = config" "om_wf (et_entries t)"
    using held h by auto
  have tail: "held ip n s u config (Some (snd (admit_tail b now t')))"
    if "et_config t' = config" "om_wf (et_entries t')" "map_of (et_entries t') ip = Some e" for b t'
    using admit_tail_simps(2) [of b now t'] that e now by (auto simp: admit_tail_simps(1) om_simps)
  show ?thesis
  proof (cases "x = ip")
    case True
    then show ?thesis using held e h now ttl by auto
  next
    case False
    let ?t = "t\<lparr>et_entries := om_del x (et_entries t),
        et_stats := (et_stats t)\<lparr>ts_tracked_ips := length (om_del x (et_entries t))\<rparr>\<rparr>"
    have "map_of (et_entries ?t) ip = Some e" using False e by (simp add: om_simps)
    then have "held ip n s u config (Some (snd (admit_tail b now ?t)))" for b
      using e by (intro tail) simp_all
    then show ?thesis using False held e h tail [of t]
      by (cases "map_of (et_entries t) x") (auto simp: Let_def simp del: held.simps, auto)
  qed
qed

lemma held_step:
  assumes held: "held ip n s u config h" and u: "u = s + ms_to_ns (backoff_of config n)"
    and now: "s \<le> throttle_op_time x" "throttle_op_time x < u"
    and ttl: "u \<le> s + ms_to_ns (tc_entry_ttl config)" and x: "\<And>t. x \<noteq> ThSuccess ip t"
    and cfg: "validate_throttle_config config = Inr ()" "tc_failure_backoff_base config < 2 ^ 47"
    and n: "1 \<le> n"
  shows "held ip n s u config (throttle_step x h)"
proof (cases x)
  case (ThAdmit y now)
  then show ?thesis using held_admit [OF held _ ttl, of now y] assms(4) by simp
next
  case (ThFailure y now)
  obtain t where h: "h = Some t" using held by (cases h) auto
  obtain e where e: "map_of (et_entries t) ip = Some e" "s \<le> th_last_seen e" "u \<le> th_backoff_until e"
      "n \<le> th_failure_streak e" "th_failure_streak e \<le> 32" "et_config t = config" "om_wf (et_entries t)"
    using held h by auto
  have "n \<le> next_streak (th_failure_streak e)" using next_streak_bounds(3) [OF e(5)] e(4) by (rule order_trans [rotated])
  moreover have "0 < tc_failure_backoff_base config" "tc_maximum_backoff_shift config \<le> 16"
    using cfg(1) by (auto simp: validate_throttle_config_def split: if_splits)
  ultimately have "backoff_of config n \<le> backoff_of config (next_streak (th_failure_streak e))"
    using cfg(2) n by (intro backoff_of_mono) auto
  then show ?thesis
    using ThFailure h e u now \<open>n \<le> next_streak (th_failure_streak e)\<close> next_streak_bounds(2)
    by (auto simp: Let_def om_simps)
next
  case (ThSuccess y now)
  then show ?thesis using held x by (cases h) (auto simp: Let_def om_simps)
next
  case (ThPrune now)
  then show ?thesis using held assms(4) by (cases h) (auto simp: om_simps)
qed

lemma throttle_step_ok: "throttle_ok config h \<Longrightarrow> throttle_ok config (throttle_step x h)"
proof (cases h)
  case (Some t)
  assume ok: "throttle_ok config h"
  note ok_simps = list_all_om_put list_all_om_del list_all_filter next_streak_bounds(2)
  have tail: "throttle_ok config (Some (snd (admit_tail b now t')))" if "throttle_ok config (Some t')" for b now t'
    using admit_tail_simps(2) [of b now t'] that by (auto simp: admit_tail_simps(1) ok_simps)
  show ?thesis
  proof (cases x)
    case (ThAdmit ip now)
    let ?t = "t\<lparr>et_entries := om_del ip (et_entries t),
        et_stats := (et_stats t)\<lparr>ts_tracked_ips := length (om_del ip (et_entries t))\<rparr>\<rparr>"
    have "throttle_ok config (Some ?t)" using ok Some by (simp add: ok_simps)
    then show ?thesis using ThAdmit Some ok tail [of t] tail [of ?t]
      by (cases "map_of (et_entries t) ip") (auto simp: Let_def simp del: throttle_ok.simps, auto)
  qed (use ok Some in \<open>auto simp: Let_def ok_simps\<close>)
qed simp

interpretation throttle_machine: invariant_machine "\<lambda>h. throttle_create config = Inr h" throttle_step
  "throttle_ok config"
  by unfold_locales (auto simp: throttle_create_def split: sum.splits intro: throttle_step_ok)

section \<open>Properties\<close>

text \<open>
  C34: after a failed attempt of an address at \<open>s\<close> every admission of that address before
  \<open>s + backoff\<close> is refused, where the backoff is the configured base doubled with each failure of
  the streak up to the configured exponent and maximum, whatever other attempts, failures,
  successes of other addresses or prunes happen in between; the entry must live at least as long
  as the backoff.
\<close>

theorem throttle_backoff:
  assumes ok: "throttle_ok config h" and cfg: "validate_throttle_config config = Inr ()"
      "tc_failure_backoff_base config < 2 ^ 47"
    and ip: "ip \<noteq> []" "length ip \<le> max_ip_key_bytes"
    and n: "n = next_streak (streak_of ip h)"
    and d: "d = min (tc_failure_backoff_base config * 2 ^ min (unat (n - 1)) (unat (tc_maximum_backoff_shift config)))
               (tc_failure_backoff_maximum config)" "d \<le> tc_entry_ttl config"
    and xs: "\<forall>x \<in> set xs. s \<le> throttle_op_time x \<and> throttle_op_time x < s + ms_to_ns d \<and> (\<forall>t. x \<noteq> ThSuccess ip t)"
    and now: "now < s + ms_to_ns d"
  shows "fst (throttle_admit ip now (run throttle_step xs (record_failure ip s h))) =
    Inl (throttle_error EC_resource_exhausted ''enrollment_throttled'')"
proof -
  have c: "0 < tc_failure_backoff_base config" "tc_maximum_backoff_shift config \<le> 16"
    using cfg(1) by (auto simp: validate_throttle_config_def split: if_splits)
  have d': "d = backoff_of config n" unfolding d(1) backoff_of_eq [OF c(1) cfg(2) c(2)] ..
  let ?u = "s + ms_to_ns d"
  have u: "?u = s + ms_to_ns (backoff_of config n)" by (simp add: d')
  have ttl: "?u \<le> s + ms_to_ns (tc_entry_ttl config)" using d(2) by simp
  obtain t where h: "h = Some t" using ok by (cases h) auto
  have "held ip n s ?u config (record_failure ip s h)"
    using ok ip n d' h next_streak_bounds(2) by (auto simp: Let_def om_simps split: option.splits)
  then have "held ip n s ?u config (run throttle_step xs (record_failure ip s h))"
    using xs
  proof (induction xs rule: rev_induct)
    case (snoc x xs)
    then show ?case using held_step [OF _ u _ _ ttl _ cfg, of ip h' x for h'] next_streak_bounds(1) n
      by (simp add: run_append)
  qed simp
  from held_admit [OF this now ttl] show ?thesis using ip by blast
qed

theorem throttle_backoff_witness:
  "fst (throttle_admit ''10.0.0.1'' 900 (run throttle_step [ThAdmit ''10.0.0.1'' 700, ThFailure ''10.0.0.2'' 800]
     (record_failure ''10.0.0.1'' 500 (Some \<lparr>et_config = default_throttle_config, et_entries = [],
        et_stats = throttle_no_diagnostics\<rparr>)))) =
    Inl (throttle_error EC_resource_exhausted ''enrollment_throttled'')"
  by (rule throttle_backoff [of default_throttle_config _ _ "next_streak 0" 500])
    (simp_all add: default_throttle_config_def validate_throttle_config_def max_ip_key_bytes_def next_streak_def)

text \<open>
  the table is not bounded by \<open>max_tracked_ips\<close>: attempts of two addresses that are both
  admitted before either failure is recorded leave two tracked addresses where the limit is one.
\<close>

theorem throttle_overflow:
  "\<exists>h t. throttle_create (default_throttle_config\<lparr>tc_max_tracked_ips := 1\<rparr>) = Inr h \<and>
    run throttle_step [ThAdmit ''a'' 0, ThAdmit ''b'' 1, ThFailure ''a'' 2, ThFailure ''b'' 3] h = Some t \<and>
    length (et_entries t) = 2"
  by (simp add: throttle_create_def validate_throttle_config_def default_throttle_config_def
      max_ip_key_bytes_def admit_tail_def throttle_no_diagnostics_def om_put_def Let_def)

end
