(* ===== verification/Heyaki_Signing.thy ===== *)
theory Heyaki_Signing
  imports Heyaki_Proto_Codec Heyaki_Ids
begin

text \<open>
  Canonical octets for signatures (\<open>signing.hpp\<close> and \<open>.cpp\<close>): the signing domains, the shape
  each domain demands of its fields, the UTF-8 and scope-list checks, the canonical encoding and
  the input of the signaling transcript hash.  The hash function itself is a parameter.
\<close>

section \<open>Domains and fields\<close>

datatype SigningDomain =
    SD_enrollment | SD_enrollment_record | SD_relay_login | SD_endpoint_record
  | SD_service_manifest | SD_offer | SD_answer | SD_candidate | SD_lan_presence | SD_lan_hello
  | SD_session_hello | SD_trust_grant

record CanonicalField =
  cf_number :: u16
  cf_value :: bytes

definition max_canonical_signing_bytes :: nat where
  "max_canonical_signing_bytes = 1024 * 1024"

fun signing_domain_separator :: "SigningDomain \<Rightarrow> string" where
  "signing_domain_separator SD_enrollment = ''heyaki.enrollment.v1''"
| "signing_domain_separator SD_enrollment_record = ''heyaki.enrollment-record.v1''"
| "signing_domain_separator SD_relay_login = ''heyaki.relay-login.v1''"
| "signing_domain_separator SD_endpoint_record = ''heyaki.endpoint-record.v1''"
| "signing_domain_separator SD_service_manifest = ''heyaki.service-manifest.v1''"
| "signing_domain_separator SD_offer = ''heyaki.offer.v1''"
| "signing_domain_separator SD_answer = ''heyaki.answer.v1''"
| "signing_domain_separator SD_candidate = ''heyaki.candidate.v1''"
| "signing_domain_separator SD_lan_presence = ''heyaki.lan-presence.v1''"
| "signing_domain_separator SD_lan_hello = ''heyaki.lan-hello.v1''"
| "signing_domain_separator SD_session_hello = ''heyaki.session-hello.v1''"
| "signing_domain_separator SD_trust_grant = ''heyaki.trust-grant.v1''"

section \<open>Big-endian integers\<close>

definition append_uint16 :: "u16 \<Rightarrow> bytes" where
  "append_uint16 v = [ucast (drop_bit 8 v AND 0xff), ucast (v AND 0xff)]"

definition append_uint32 :: "u32 \<Rightarrow> bytes" where
  "append_uint32 v = map (\<lambda>shift. ucast (drop_bit shift v AND 0xff)) [24, 16, 8, 0]"

definition append_uint64 :: "u64 \<Rightarrow> bytes" where
  "append_uint64 v =
     map (\<lambda>shift. ucast (drop_bit shift v AND 0xff)) [56, 48, 40, 32, 24, 16, 8, 0]"

definition canonical_uint16 :: "u16 \<Rightarrow> bytes" where "canonical_uint16 v = append_uint16 v"
definition canonical_uint32 :: "u32 \<Rightarrow> bytes" where "canonical_uint32 v = append_uint32 v"
definition canonical_uint64 :: "u64 \<Rightarrow> bytes" where "canonical_uint64 v = append_uint64 v"
definition canonical_bytes :: "id_bytes \<Rightarrow> bytes" where "canonical_bytes v = v"

definition read_uint16 :: "bytes \<Rightarrow> nat \<Rightarrow> u16" where
  "read_uint16 v offset = push_bit 8 (ucast (v ! offset)) OR ucast (v ! (offset + 1))"

section \<open>Content checks\<close>

definition is_printable_ascii :: "bytes \<Rightarrow> nat \<Rightarrow> nat \<Rightarrow> bool" where
  "is_printable_ascii v minimum maximum \<longleftrightarrow> minimum \<le> length v \<and> length v \<le> maximum \<and>
     list_all (\<lambda>b. 0x20 \<le> b \<and> b \<le> 0x7e) v"

text \<open>The continuation count and the bounds of the second octet that a leading octet demands.\<close>

definition utf8_lead :: "byte \<Rightarrow> (nat \<times> byte \<times> byte) option" where
  "utf8_lead first =
    (if first \<ge> 0xc2 \<and> first \<le> 0xdf then Some (1, 0x80, 0xbf)
     else if first \<ge> 0xe0 \<and> first \<le> 0xef then
       Some (2, if first = 0xe0 then 0xa0 else 0x80, if first = 0xed then 0x9f else 0xbf)
     else if first \<ge> 0xf0 \<and> first \<le> 0xf4 then
       Some (3, if first = 0xf0 then 0x90 else 0x80, if first = 0xf4 then 0x8f else 0xbf)
     else None)"

text \<open>The loop on the octets from the current index on.\<close>

function utf8_loop :: "bytes \<Rightarrow> bool" where
  "utf8_loop [] = True"
| "utf8_loop (first # rest) =
    (if first \<le> 0x7f then utf8_loop rest
     else case utf8_lead first of
         None \<Rightarrow> False
       | Some (continuation_count, second_minimum, second_maximum) \<Rightarrow>
         if length (first # rest) \<le> continuation_count then False
         else
           let second = rest ! 0
           in if second < second_minimum \<or> second > second_maximum then False
              else if \<not> list_all (\<lambda>c. \<not> (c < 0x80 \<or> c > 0xbf))
                        (take (continuation_count - 1) (drop 1 rest)) then False
              else utf8_loop (drop continuation_count rest))"
  by pat_completeness auto
termination
  by (relation "measure length") auto

definition is_nonempty_utf8 :: "bytes \<Rightarrow> bool" where
  "is_nonempty_utf8 v \<longleftrightarrow> v \<noteq> [] \<and> utf8_loop v"

fun scope_loop :: "nat \<Rightarrow> nat \<Rightarrow> bytes \<Rightarrow> bytes \<Rightarrow> bool" where
  "scope_loop 0 offset previous v \<longleftrightarrow> offset = length v"
| "scope_loop (Suc n) offset previous v \<longleftrightarrow>
    (if offset > length v \<or> length v - offset < 2 then False
     else
       let len = unat (read_uint16 v offset); offset = offset + 2
       in if len = 0 \<or> len > 256 \<or> offset > length v \<or> length v - offset < len then False
          else
            let scope = take len (drop offset v)
            in if \<not> list_all (\<lambda>b. \<not> (b < 0x20 \<or> b > 0x7e)) scope then False
               else if previous \<noteq> [] \<and> \<not> previous < scope then False
               else scope_loop n (offset + len) scope v)"

definition is_canonical_scope_list :: "bytes \<Rightarrow> bool" where
  "is_canonical_scope_list v =
    (if length v < 2 then False
     else let count = unat (read_uint16 v 0)
          in if count > 256 then False else scope_loop count 2 [] v)"

section \<open>Field shapes\<close>

type_synonym FieldRule = "nat option"

definition enrollment_rules :: "FieldRule list" where
  "enrollment_rules = [Some 32, Some 16, Some 32, Some 32, Some 32, None, Some 4, Some 4,
     Some 8, Some 8, Some 8]"
definition enrollment_record_rules :: "FieldRule list" where
  "enrollment_record_rules = [Some 32, Some 16, Some 32, None, Some 8, Some 8]"
definition relay_login_rules :: "FieldRule list" where
  "relay_login_rules = [Some 32, Some 16, Some 32, Some 32, Some 32, None, Some 4, Some 4,
     Some 8, Some 8, Some 8, Some 8]"
definition endpoint_record_rules :: "FieldRule list" where
  "endpoint_record_rules = [Some 32, Some 16, None, Some 8, Some 32, Some 8]"
definition service_manifest_rules :: "FieldRule list" where
  "service_manifest_rules = [Some 32, Some 16, Some 8, Some 32, Some 8]"
definition offer_rules :: "FieldRule list" where
  "offer_rules = [Some 32, Some 16, Some 32, Some 16, Some 16, Some 16, Some 32, Some 8, None,
     Some 32]"
definition answer_rules :: "FieldRule list" where
  "answer_rules = [Some 32, Some 16, Some 32, Some 16, Some 16, Some 16, Some 32, Some 32,
     Some 8, None, Some 32]"
definition candidate_rules :: "FieldRule list" where
  "candidate_rules = [Some 32, Some 16, Some 32, Some 16, Some 16, Some 16, Some 32, Some 32,
     Some 8, Some 4, None, Some 32, None, Some 32]"
definition lan_presence_rules :: "FieldRule list" where
  "lan_presence_rules = [Some 4, Some 4, Some 8, Some 8, Some 32, Some 32, Some 16, Some 32,
     Some 8, Some 2, Some 4]"
definition lan_hello_rules :: "FieldRule list" where
  "lan_hello_rules = [Some 4, Some 32, Some 16, Some 32, Some 16, Some 32, Some 32, Some 32,
     Some 32, Some 32, Some 32, Some 4, Some 4, Some 8, Some 8, Some 4]"
definition session_hello_rules :: "FieldRule list" where
  "session_hello_rules = [Some 32, Some 16, Some 32, Some 16, Some 16, Some 8, Some 32, Some 32,
     Some 32, Some 4, Some 4, Some 8, Some 8, Some 8]"
definition trust_grant_required_rules :: "FieldRule list" where
  "trust_grant_required_rules = [Some 16, Some 32, Some 32, None, Some 8, Some 8]"

definition follows_rule :: "CanonicalField \<Rightarrow> nat \<Rightarrow> FieldRule \<Rightarrow> bool" where
  "follows_rule f index rule \<longleftrightarrow> unat (cf_number f) = index + 1 \<and>
     (case rule of None \<Rightarrow> True | Some n \<Rightarrow> length (cf_value f) = n)"

fun rules_from :: "nat \<Rightarrow> CanonicalField list \<Rightarrow> FieldRule list \<Rightarrow> bool" where
  "rules_from index (f # fs) (r # rs) \<longleftrightarrow> follows_rule f index r \<and> rules_from (index + 1) fs rs"
| "rules_from index fs rs \<longleftrightarrow> True"

definition matches_rules :: "CanonicalField list \<Rightarrow> FieldRule list \<Rightarrow> bool" where
  "matches_rules fs rules \<longleftrightarrow> length fs = length rules \<and> rules_from 0 fs rules"

definition trust_grant_shape :: "CanonicalField list \<Rightarrow> bool" where
  "trust_grant_shape fs =
    (if length fs \<noteq> 7 \<and> length fs \<noteq> 8 then False
     else if \<not> rules_from 0 fs trust_grant_required_rules then False
     else if \<not> is_canonical_scope_list (cf_value (fs ! 3)) then False
     else if length fs = 8 \<and> (cf_number (fs ! 6) \<noteq> 7 \<or> length (cf_value (fs ! 6)) \<noteq> 8)
       then False
     else let nonce_index = (if length fs = 8 then 7 else 6)
          in cf_number (fs ! nonce_index) = 8 \<and> length (cf_value (fs ! nonce_index)) = 32)"

fun matches_field_shape :: "SigningDomain \<Rightarrow> CanonicalField list \<Rightarrow> bool" where
  "matches_field_shape SD_enrollment fs \<longleftrightarrow>
     matches_rules fs enrollment_rules \<and> is_nonempty_utf8 (cf_value (fs ! 5))"
| "matches_field_shape SD_enrollment_record fs \<longleftrightarrow>
     matches_rules fs enrollment_record_rules \<and> is_nonempty_utf8 (cf_value (fs ! 3))"
| "matches_field_shape SD_relay_login fs \<longleftrightarrow>
     matches_rules fs relay_login_rules \<and> is_nonempty_utf8 (cf_value (fs ! 5))"
| "matches_field_shape SD_endpoint_record fs \<longleftrightarrow>
     matches_rules fs endpoint_record_rules \<and> is_nonempty_utf8 (cf_value (fs ! 2))"
| "matches_field_shape SD_service_manifest fs \<longleftrightarrow> matches_rules fs service_manifest_rules"
| "matches_field_shape SD_offer fs \<longleftrightarrow> matches_rules fs offer_rules"
| "matches_field_shape SD_answer fs \<longleftrightarrow> matches_rules fs answer_rules"
| "matches_field_shape SD_candidate fs \<longleftrightarrow>
     matches_rules fs candidate_rules \<and> cf_value (fs ! 10) \<noteq> [] \<and>
     is_printable_ascii (cf_value (fs ! 12)) 4 256"
| "matches_field_shape SD_lan_presence fs \<longleftrightarrow> matches_rules fs lan_presence_rules"
| "matches_field_shape SD_lan_hello fs \<longleftrightarrow> matches_rules fs lan_hello_rules"
| "matches_field_shape SD_session_hello fs \<longleftrightarrow> matches_rules fs session_hello_rules"
| "matches_field_shape SD_trust_grant fs \<longleftrightarrow> trust_grant_shape fs"

section \<open>Canonical octets\<close>

definition canonical_error :: "string \<Rightarrow> Error" where
  "canonical_error detail = err EC_protocol ''signing'' detail"

fun canonical_size :: "CanonicalField list \<Rightarrow> u16 \<Rightarrow> nat \<Rightarrow> nat result" where
  "canonical_size [] previous_number total_size = Inr total_size"
| "canonical_size (f # fs) previous_number total_size =
    (if cf_number f = 0 \<or> cf_number f \<le> previous_number then
       Inl (canonical_error ''fields_not_strictly_ordered'')
     else
       let remaining = max_canonical_signing_bytes - min total_size max_canonical_signing_bytes
       in if length (cf_value f) > 4294967295 \<or> length (cf_value f) > remaining then
            Inl (canonical_error ''canonical_object_too_large'')
          else
            let total_size = total_size + (2 + 4 + length (cf_value f))
            in if total_size > max_canonical_signing_bytes then
                 Inl (canonical_error ''canonical_object_too_large'')
               else canonical_size fs (cf_number f) total_size)"

definition canonical_field :: "CanonicalField \<Rightarrow> bytes" where
  "canonical_field f =
     append_uint16 (cf_number f) @ append_uint32 (of_nat (length (cf_value f))) @ cf_value f"

definition canonicalize_for_signature :: "SigningDomain \<Rightarrow> CanonicalField list \<Rightarrow> bytes result" where
  "canonicalize_for_signature domain fs =
    (let separator = signing_domain_separator domain
     in if separator = ''heyaki.invalid.v1'' then Inl (canonical_error ''invalid_signing_domain'')
        else if \<not> matches_field_shape domain fs then
          Inl (canonical_error ''invalid_signed_field_shape'')
        else if length separator > 255 \<or> length fs > 65535 then
          Inl (canonical_error ''canonical_header_too_large'')
        else case canonical_size fs 0 (4 + 1 + 1 + length separator + 2) of
            Inl e \<Rightarrow> Inl e
          | Inr _ \<Rightarrow>
            Inr (char_bytes ''HYSG'' @ [1] @ [of_nat (length separator)] @ char_bytes separator @
                 append_uint16 (of_nat (length fs)) @ concat (map canonical_field fs)))"

definition has_canonical_domain :: "bytes \<Rightarrow> string \<Rightarrow> bool" where
  "has_canonical_domain v expected_domain =
    (if length v < 6 + length expected_domain + 2 \<or> take 4 v \<noteq> char_bytes ''HYSG'' \<or> v ! 4 \<noteq> 1 \<or>
        unat (v ! 5) \<noteq> length expected_domain then False
     else char_bytes expected_domain = take (length expected_domain) (drop 6 v))"

text \<open>The octets fed to the transcript hash, in the order of the update calls.\<close>

definition transcript_input :: "bytes \<Rightarrow> bytes \<Rightarrow> bytes" where
  "transcript_input canonical_offer canonical_answer =
     char_bytes ''heyaki.signaling-transcript.v1'' @
     canonical_uint32 (of_nat (length canonical_offer)) @ canonical_offer @
     canonical_uint32 (of_nat (length canonical_answer)) @ canonical_answer"

definition hash_signaling_transcript ::
  "(bytes \<Rightarrow> bytes option) \<Rightarrow> bytes \<Rightarrow> bytes \<Rightarrow> bytes result" where
  "hash_signaling_transcript sha256 canonical_offer canonical_answer =
    (if canonical_offer = [] \<or> canonical_answer = [] then
       Inl (canonical_error ''empty_signaling_transcript'')
     else if length canonical_offer > max_canonical_signing_bytes \<or>
             length canonical_answer > max_canonical_signing_bytes then
       Inl (canonical_error ''signaling_transcript_too_large'')
     else if \<not> has_canonical_domain canonical_offer ''heyaki.offer.v1'' \<or>
             \<not> has_canonical_domain canonical_answer ''heyaki.answer.v1'' then
       Inl (canonical_error ''invalid_signaling_transcript_domain'')
     else case sha256 (transcript_input canonical_offer canonical_answer) of
         None \<Rightarrow> Inl (err EC_internal ''signing'' ''sha256_failed'')
       | Some digest \<Rightarrow> Inr digest)"

section \<open>Specification vocabulary\<close>

text \<open>UTF-8 as the Unicode standard defines it: the octets of one scalar value.\<close>

definition unicode_scalar :: "nat \<Rightarrow> bool" where
  "unicode_scalar c \<longleftrightarrow> c < 0xd800 \<or> 0xdfff < c \<and> c \<le> 0x10ffff"

definition utf8_char :: "nat \<Rightarrow> nat list" where
  "utf8_char c =
    (if c < 0x80 then [c]
     else if c < 0x800 then [0xc0 + c div 64, 0x80 + c mod 64]
     else if c < 0x10000 then [0xe0 + c div 4096, 0x80 + c div 64 mod 64, 0x80 + c mod 64]
     else [0xf0 + c div 262144, 0x80 + c div 4096 mod 64, 0x80 + c div 64 mod 64, 0x80 + c mod 64])"

text \<open>A scope list as octets, and the lists a grant may carry.\<close>

definition encode_scope :: "bytes \<Rightarrow> bytes" where
  "encode_scope s = append_uint16 (of_nat (length s)) @ s"

definition encode_scopes :: "bytes list \<Rightarrow> bytes" where
  "encode_scopes ss = append_uint16 (of_nat (length ss)) @ concat (map encode_scope ss)"

definition scope_wf :: "bytes \<Rightarrow> bool" where
  "scope_wf s \<longleftrightarrow> s \<noteq> [] \<and> length s \<le> 256 \<and> list_all (\<lambda>b. 0x20 \<le> b \<and> b \<le> 0x7e) s"

section \<open>Lemmas\<close>

lemma length_append_uint [simp]:
  "length (append_uint16 v) = 2" "length (append_uint32 w) = 4" "length (append_uint64 x) = 8"
  by (simp_all add: append_uint16_def append_uint32_def append_uint64_def)

lemma unat_octet: "unat (ucast (drop_bit k v AND 0xff :: 'a::len word) :: byte) = unat v div 2 ^ k mod 256"
  by (simp add: word_nat)

lemma radix_uint16: "radix 256 (map unat (append_uint16 v)) = unat v"
proof -
  have "unat v < 65536" using unsigned_less [of v, where 'a = nat] by simp
  moreover have "unat (ucast (v AND 0xff) :: byte) = unat v mod 256" by (simp add: word_nat)
  ultimately show ?thesis by (simp add: append_uint16_def unat_octet)
qed

lemma base256_digits:
  assumes "(n::nat) < 2 ^ 32"
  shows "n div 16777216 mod 256 * 16777216 + (n div 65536 mod 256 * 65536 + (n div 256 mod 256 * 256 + n mod 256)) = n"
proof -
  define a b c where "a = n div 256" and "b = a div 256" and "c = b div 256"
  have d: "n div 65536 = b" "n div 16777216 = c" by (simp_all add: a_def b_def c_def div_mult2_eq [symmetric])
  have m: "n = a * 256 + n mod 256" "a = b * 256 + a mod 256" "b = c * 256 + b mod 256"
    unfolding a_def b_def c_def by presburger+
  have c: "c mod 256 = c" using assms by (simp add: a_def b_def c_def div_mult2_eq [symmetric])
  show ?thesis unfolding d a_def [symmetric] c using m by linarith
qed

lemma radix_uint32: "radix 256 (map unat (append_uint32 v)) = unat v"
proof -
  have "radix 256 (map unat (append_uint32 v)) = unat v div 16777216 mod 256 * 16777216 +
      (unat v div 65536 mod 256 * 65536 + (unat v div 256 mod 256 * 256 + unat v mod 256))"
    unfolding append_uint32_def by (simp only: list.map unat_octet radix.simps) simp
  also have "\<dots> = unat v" using unat_u32_bound [of v] by (intro base256_digits) simp
  finally show ?thesis .
qed

lemma append_uint16_inject: "append_uint16 v @ x = append_uint16 w @ y \<longleftrightarrow> v = w \<and> x = y"
proof
  assume "append_uint16 v @ x = append_uint16 w @ y"
  then have "append_uint16 v = append_uint16 w" "x = y" by (simp_all add: append_eq_append_conv)
  then show "v = w \<and> x = y" using radix_uint16 [of v] radix_uint16 [of w] by (simp add: word_unat_eq_iff)
qed simp

lemma append_uint32_inject: "append_uint32 v @ x = append_uint32 w @ y \<longleftrightarrow> v = w \<and> x = y"
proof
  assume "append_uint32 v @ x = append_uint32 w @ y"
  then have "append_uint32 v = append_uint32 w" "x = y" by (simp_all add: append_eq_append_conv)
  then show "v = w \<and> x = y" using radix_uint32 [of v] radix_uint32 [of w] by (simp add: word_unat_eq_iff)
qed simp

lemma of_nat_word_inject:
  "m < 2 ^ LENGTH('a) \<Longrightarrow> n < 2 ^ LENGTH('a) \<Longrightarrow> (of_nat m :: 'a::len word) = of_nat n \<longleftrightarrow> m = n"
  by (simp add: word_unat_eq_iff unsigned_of_nat take_bit_nat_eq_self)

lemma canonical_field_inject:
  assumes "length (cf_value f) < 2 ^ 32" "length (cf_value g) < 2 ^ 32"
  shows "canonical_field f @ x = canonical_field g @ y \<longleftrightarrow> f = g \<and> x = y"
proof
  assume "canonical_field f @ x = canonical_field g @ y"
  then have n: "cf_number f = cf_number g" and
    "(of_nat (length (cf_value f)) :: u32) = of_nat (length (cf_value g))" and
    v: "cf_value f @ x = cf_value g @ y"
    by (simp_all add: canonical_field_def append_uint16_inject append_uint32_inject)
  then have "length (cf_value f) = length (cf_value g)" using assms by (simp add: of_nat_word_inject)
  then show "f = g \<and> x = y" using n v by (cases f, cases g) (auto simp: append_eq_append_conv)
qed simp

lemma canonical_fields_inject:
  assumes "length fs = length gs" "\<forall>f \<in> set fs. length (cf_value f) < 2 ^ 32"
    "\<forall>f \<in> set gs. length (cf_value f) < 2 ^ 32"
    "concat (map canonical_field fs) = concat (map canonical_field gs)"
  shows "fs = gs"
  using assms by (induction fs gs rule: list_induct2) (auto simp: canonical_field_inject)

lemma canonical_size_bound: "canonical_size fs p n = Inr m \<Longrightarrow> \<forall>f \<in> set fs. length (cf_value f) < 2 ^ 32"
  by (induction fs p n rule: canonical_size.induct) (auto simp: Let_def split: if_splits)

lemma separator_length: "length (signing_domain_separator d) < 256"
  by (cases d) simp_all

text \<open>Length and first letter of the name tell the separators apart.\<close>

lemma separator_tag:
  "(length (signing_domain_separator d), signing_domain_separator d ! 7) = (case d of
     SD_enrollment \<Rightarrow> (20, CHR ''e'') | SD_enrollment_record \<Rightarrow> (27, CHR ''e'')
   | SD_relay_login \<Rightarrow> (21, CHR ''r'') | SD_endpoint_record \<Rightarrow> (25, CHR ''e'')
   | SD_service_manifest \<Rightarrow> (26, CHR ''s'') | SD_offer \<Rightarrow> (15, CHR ''o'') | SD_answer \<Rightarrow> (16, CHR ''a'')
   | SD_candidate \<Rightarrow> (19, CHR ''c'') | SD_lan_presence \<Rightarrow> (22, CHR ''l'') | SD_lan_hello \<Rightarrow> (19, CHR ''l'')
   | SD_session_hello \<Rightarrow> (23, CHR ''s'') | SD_trust_grant \<Rightarrow> (21, CHR ''t''))"
  by (cases d) simp_all

lemma separator_inject:
  assumes "signing_domain_separator d = signing_domain_separator e" shows "d = e"
proof -
  have "(length (signing_domain_separator d), signing_domain_separator d ! 7) =
      (length (signing_domain_separator e), signing_domain_separator e ! 7)"
    using assms by simp
  then show ?thesis unfolding separator_tag by (cases d; cases e; simp)
qed

lemma char_bytes_inject: "char_bytes s = char_bytes t \<longleftrightarrow> s = t"
  by (metis text_of_char_bytes)

lemma matches_field_shape_length: "matches_field_shape d fs \<Longrightarrow> length fs \<le> 16"
  by (cases d) (auto simp: matches_rules_def trust_grant_shape_def enrollment_rules_def
    enrollment_record_rules_def relay_login_rules_def endpoint_record_rules_def service_manifest_rules_def
    offer_rules_def answer_rules_def candidate_rules_def lan_presence_rules_def lan_hello_rules_def
    session_hello_rules_def split: if_splits)

lemma canonicalize_cases:
  assumes "canonicalize_for_signature d fs = Inr b"
  shows "b = char_bytes ''HYSG'' @ [1] @ [of_nat (length (signing_domain_separator d))] @
      char_bytes (signing_domain_separator d) @ append_uint16 (of_nat (length fs)) @
      concat (map canonical_field fs)"
    "length fs \<le> 16" "\<forall>f \<in> set fs. length (cf_value f) < 2 ^ 32" "matches_field_shape d fs"
proof -
  obtain n where "canonical_size fs 0 (4 + 1 + 1 + length (signing_domain_separator d) + 2) = Inr n"
    and b: "matches_field_shape d fs"
    "b = char_bytes ''HYSG'' @ [1] @ [of_nat (length (signing_domain_separator d))] @
      char_bytes (signing_domain_separator d) @ append_uint16 (of_nat (length fs)) @
      concat (map canonical_field fs)"
    using assms unfolding canonicalize_for_signature_def Let_def by (simp split: if_splits sum.splits)
  then show "\<forall>f \<in> set fs. length (cf_value f) < 2 ^ 32" using canonical_size_bound by blast
  show "length fs \<le> 16" "matches_field_shape d fs" using b matches_field_shape_length by blast+
  show "b = char_bytes ''HYSG'' @ [1] @ [of_nat (length (signing_domain_separator d))] @
      char_bytes (signing_domain_separator d) @ append_uint16 (of_nat (length fs)) @
      concat (map canonical_field fs)" by (rule b)
qed

lemma canonicalize_inject:
  assumes "canonicalize_for_signature d fs = Inr b" "canonicalize_for_signature e gs = Inr b"
  shows "d = e \<and> fs = gs"
proof -
  let ?s = signing_domain_separator
  note c = canonicalize_cases [OF assms(1)] and c' = canonicalize_cases [OF assms(2)]
  from c(1) c'(1) have "(of_nat (length (?s d)) :: byte) = of_nat (length (?s e))"
    and eq: "char_bytes (?s d) @ append_uint16 (of_nat (length fs)) @ concat (map canonical_field fs) =
      char_bytes (?s e) @ append_uint16 (of_nat (length gs)) @ concat (map canonical_field gs)"
    by simp_all
  then have "length (?s d) = length (?s e)"
    using separator_length [of d] separator_length [of e] by (simp add: of_nat_word_inject)
  with eq have "char_bytes (?s d) = char_bytes (?s e)"
    and eq2: "append_uint16 (of_nat (length fs)) @ concat (map canonical_field fs) =
      append_uint16 (of_nat (length gs)) @ concat (map canonical_field gs)"
    by (simp_all add: append_eq_append_conv)
  then have "d = e" using char_bytes_inject separator_inject by blast
  moreover have "length fs = length gs"
    using eq2 c(2) c'(2) by (simp add: append_uint16_inject of_nat_word_inject)
  ultimately show ?thesis
    using canonical_fields_inject [of fs gs] eq2 c(3) c'(3) by (simp add: append_uint16_inject)
qed

lemma transcript_input_inject:
  assumes "length a < 2 ^ 32" "length b < 2 ^ 32" "length a' < 2 ^ 32" "length b' < 2 ^ 32"
    and eq: "transcript_input a b = transcript_input a' b'"
  shows "a = a' \<and> b = b'"
proof -
  from eq have "(of_nat (length a) :: u32) = of_nat (length a')"
    and eq2: "a @ canonical_uint32 (of_nat (length b)) @ b = a' @ canonical_uint32 (of_nat (length b')) @ b'"
    by (simp_all add: transcript_input_def canonical_uint32_def append_uint32_inject)
  then have "length a = length a'" using assms by (simp add: of_nat_word_inject)
  with eq2 show ?thesis by (simp add: append_eq_append_conv canonical_uint32_def append_uint32_inject)
qed

section \<open>Scope lists\<close>

lemma unat_read_uint16: "unat (read_uint16 v k) = unat (v ! k) * 256 + unat (v ! (k + 1))"
proof -
  let ?a = "ucast (v ! k) :: u16" and ?b = "ucast (v ! (k + 1)) :: u16"
  have a: "unat ?a = unat (v ! k)" "unat ?b = unat (v ! (k + 1))"
    using unat_byte_bound [of "v ! k"] unat_byte_bound [of "v ! (k + 1)"] by (simp_all add: unat_ucast)
  have p: "unat (push_bit 8 ?a) = 256 * unat (v ! k)"
    using a unat_byte_bound [of "v ! k"] by (simp add: unat_push_bit)
  have "unat (?b OR push_bit 8 ?a) = unat ?b + unat (push_bit 8 ?a)"
    using a p unat_byte_bound [of "v ! (k + 1)"] by (intro unat_or_disjoint [where k = 8]) simp_all
  then show ?thesis using a p by (simp add: read_uint16_def or.commute)
qed

lemma read_append_uint16: "read_uint16 (xs @ append_uint16 w @ ys) (length xs) = w"
proof -
  have "radix 256 (map unat (append_uint16 w)) = unat (read_uint16 (xs @ append_uint16 w @ ys) (length xs))"
    by (simp add: unat_read_uint16 append_uint16_def nth_append)
  then show ?thesis by (simp add: radix_uint16 word_unat_eq_iff)
qed

lemma append_read_uint16:
  assumes "k + 2 \<le> length v"
  shows "append_uint16 (read_uint16 v k) = take 2 (drop k v)"
proof -
  obtain a b r where d: "drop k v = a # b # r"
    using assms by (metis Cons_nth_drop_Suc Suc_leD Suc_le_lessD add_2_eq_Suc')
  then have ab: "v ! k = a" "v ! (k + 1) = b"
    using assms by (metis nth_drop add_0_right nth_Cons_0 add_leD1, metis nth_drop nth_Cons_Suc nth_Cons_0 One_nat_def add_leD1)
  have "radix 256 (map unat (append_uint16 (read_uint16 v k))) = radix 256 (map unat [a, b])"
    using ab by (simp add: radix_uint16 unat_read_uint16)
  then have "map unat (append_uint16 (read_uint16 v k)) = map unat [a, b]"
    by (intro radix_inject [of 256]) (auto simp: append_uint16_def unat_byte_bound)
  then have "append_uint16 (read_uint16 v k) = [a, b]"
    by (simp add: append_uint16_def word_unat_eq_iff)
  then show ?thesis using d by simp
qed

lemma read_uint16_drop: "k \<le> length v \<Longrightarrow> read_uint16 (drop k v) 0 = read_uint16 v k"
  by (simp add: read_uint16_def)

lemma length_encode_scope: "length (encode_scope s) = 2 + length s"
  by (simp add: encode_scope_def)

lemma read_encode_scope:
  assumes "drop k v = encode_scope s @ r" "k \<le> length v" "length s < 65536"
  shows "unat (read_uint16 v k) = length s" "k + 2 + length s \<le> length v"
    "take (length s) (drop (k + 2) v) = s" "drop (k + 2 + length s) v = r"
proof -
  have "read_uint16 v k = of_nat (length s)"
    using read_append_uint16 [of "[]" "of_nat (length s)" "s @ r"] read_uint16_drop [OF assms(2)] assms(1)
    by (simp add: encode_scope_def)
  then show "unat (read_uint16 v k) = length s"
    using assms(3) by (simp add: unsigned_of_nat take_bit_nat_eq_self)
  have "length (drop k v) = 2 + length s + length r" by (simp add: assms(1) length_encode_scope)
  then show "k + 2 + length s \<le> length v" by simp
  have "drop (k + 2) v = drop 2 (drop k v)" by (simp add: add.commute)
  then have d: "drop (k + 2) v = s @ r" by (simp add: assms(1) encode_scope_def)
  then show "take (length s) (drop (k + 2) v) = s" by simp
  show "drop (k + 2 + length s) v = r" using d by (metis append_eq_conv_conj drop_drop add.commute)
qed

lemma encode_scope_read:
  assumes "k + 2 + l \<le> length v" "l = unat (read_uint16 v k)"
  shows "drop k v = encode_scope (take l (drop (k + 2) v)) @ drop (k + 2 + l) v"
proof -
  have "length (take l (drop (k + 2) v)) = l" using assms by simp
  then have "encode_scope (take l (drop (k + 2) v)) = take 2 (drop k v) @ take l (drop (k + 2) v)"
    using append_read_uint16 [of k v] assms by (simp add: encode_scope_def)
  moreover have "drop k v = take 2 (drop k v) @ drop (k + 2) v" by (metis append_take_drop_id drop_drop add.commute)
  moreover have "drop (k + 2) v = take l (drop (k + 2) v) @ drop (k + 2 + l) v"
    by (metis append_take_drop_id drop_drop add.commute)
  ultimately show ?thesis by (metis append.assoc)
qed

lemma scope_loop_iff:
  "scope_loop n k p v \<longleftrightarrow> (\<exists>ss. length ss = n \<and> k \<le> length v \<and> drop k v = concat (map encode_scope ss) \<and>
     list_all scope_wf ss \<and> sorted_wrt (<) ((if p = [] then [] else [p]) @ ss))"
proof (induction n arbitrary: k p)
  case 0
  then show ?case by auto
next
  case (Suc n)
  let ?l = "unat (read_uint16 v k)"
  let ?s = "take ?l (drop (k + 2) v)"
  have step: "scope_loop (Suc n) k p v \<longleftrightarrow> k + 2 + ?l \<le> length v \<and> scope_wf ?s \<and> (p = [] \<or> p < ?s) \<and>
      scope_loop n (k + 2 + ?l) ?s v"
    by (auto simp: Let_def scope_wf_def list_all_iff not_less)
  show ?case (is "_ = ?rhs")
  proof
    assume "scope_loop (Suc n) k p v"
    then have a: "k + 2 + ?l \<le> length v" "scope_wf ?s" "p = [] \<or> p < ?s" "scope_loop n (k + 2 + ?l) ?s v"
      using step by blast+
    have ne: "?s \<noteq> []" using a(2) by (simp add: scope_wf_def)
    from a(4) [unfolded Suc.IH] ne obtain ss where ss: "length ss = n"
      "drop (k + 2 + ?l) v = concat (map encode_scope ss)" "list_all scope_wf ss" "sorted_wrt (<) (?s # ss)"
      by auto
    have "drop k v = concat (map encode_scope (?s # ss))"
      using encode_scope_read [OF a(1) refl] ss(2) by simp
    then show ?rhs using ss a by (intro exI [of _ "?s # ss"]) auto
  next
    assume ?rhs
    then obtain s ss where r: "length ss = n" "k \<le> length v"
      "drop k v = encode_scope s @ concat (map encode_scope ss)" "scope_wf s" "list_all scope_wf ss"
      "sorted_wrt (<) ((if p = [] then [] else [p]) @ s # ss)"
      by (auto simp: length_Suc_conv)
    then have "length s < 65536" "s \<noteq> []" by (simp_all add: scope_wf_def)
    note e = read_encode_scope [OF r(3,2) this(1)]
    have "scope_loop n (k + 2 + length s) s v"
      unfolding Suc.IH using r e \<open>s \<noteq> []\<close> by (intro exI [of _ ss]) (auto simp: sorted_wrt_append)
    then show "scope_loop (Suc n) k p v"
      unfolding step e using e r by (auto simp: sorted_wrt_append split: if_splits)
  qed
qed

lemma scope_list_iff:
  "is_canonical_scope_list v \<longleftrightarrow> (\<exists>ss. v = encode_scopes ss \<and> length ss \<le> 256 \<and> list_all scope_wf ss \<and>
     sorted_wrt (<) ss)"
proof
  assume a: "is_canonical_scope_list v"
  then have b: "2 \<le> length v" "unat (read_uint16 v 0) \<le> 256" "scope_loop (unat (read_uint16 v 0)) 2 [] v"
    by (auto simp: is_canonical_scope_list_def Let_def split: if_splits)
  then obtain ss where ss: "length ss = unat (read_uint16 v 0)" "drop 2 v = concat (map encode_scope ss)"
     "list_all scope_wf ss" "sorted_wrt (<) ss"
    by (auto simp: scope_loop_iff)
  have "v = take 2 v @ drop 2 v" by simp
  then have "v = encode_scopes ss"
    using append_read_uint16 [of 0 v] b(1) ss(1,2) by (simp add: encode_scopes_def)
  then show "\<exists>ss. v = encode_scopes ss \<and> length ss \<le> 256 \<and> list_all scope_wf ss \<and> sorted_wrt (<) ss"
    using b ss by auto
next
  assume "\<exists>ss. v = encode_scopes ss \<and> length ss \<le> 256 \<and> list_all scope_wf ss \<and> sorted_wrt (<) ss"
  then obtain ss where ss: "v = encode_scopes ss" "length ss \<le> 256" "list_all scope_wf ss" "sorted_wrt (<) ss"
    by blast
  have "read_uint16 v 0 = of_nat (length ss)"
    using read_append_uint16 [of "[]"] ss(1) by (simp add: encode_scopes_def)
  then have c: "unat (read_uint16 v 0) = length ss"
    using ss(2) by (simp add: unsigned_of_nat take_bit_nat_eq_self)
  have "scope_loop (length ss) 2 [] v"
    unfolding scope_loop_iff using ss by (intro exI [of _ ss]) (simp add: encode_scopes_def)
  then show "is_canonical_scope_list v"
    using c ss by (simp add: is_canonical_scope_list_def Let_def encode_scopes_def)
qed

section \<open>UTF-8\<close>

lemma mod_64: "z < 64 \<Longrightarrow> (q * 64 + z) mod 64 = (z :: nat)"
  by simp

lemma utf8_char_2:
  assumes "2 \<le> x" "x < 32" "y < 64"
  shows "unicode_scalar (x * 64 + y)" "utf8_char (x * 64 + y) = [0xc0 + x, 0x80 + y]"
  using assms by (simp_all add: unicode_scalar_def utf8_char_def)

lemma utf8_char_3:
  assumes "x < 16" "y < 64" "z < 64" "x = 0 \<Longrightarrow> 32 \<le> y" "x = 13 \<Longrightarrow> y < 32"
  shows "unicode_scalar (x * 4096 + y * 64 + z)"
    "utf8_char (x * 4096 + y * 64 + z) = [0xe0 + x, 0x80 + y, 0x80 + z]"
proof -
  let ?c = "x * 4096 + y * 64 + z"
  have lo: "0x800 \<le> ?c" "?c < 0x10000"
    using assms by (cases "x = 0"; simp)+
  have "?c div 64 = x * 64 + y" using assms by simp
  moreover have "?c div 4096 = x" using assms by simp
  ultimately have "utf8_char ?c = [0xe0 + x, 0x80 + (x * 64 + y) mod 64, 0x80 + ?c mod 64]"
    using lo by (simp add: utf8_char_def)
  moreover have "?c mod 64 = z" using mod_64 [of z "x * 64 + y"] assms(3) by (simp add: algebra_simps)
  ultimately show "utf8_char ?c = [0xe0 + x, 0x80 + y, 0x80 + z]" using assms by simp
  show "unicode_scalar ?c"
    using assms lo by (cases "x < 13"; cases "x = 13"; simp add: unicode_scalar_def)
qed

lemma utf8_char_4:
  assumes "x \<le> 4" "y < 64" "z < 64" "w < 64" "x = 0 \<Longrightarrow> 16 \<le> y" "x = 4 \<Longrightarrow> y < 16"
  shows "unicode_scalar (x * 262144 + y * 4096 + z * 64 + w)"
    "utf8_char (x * 262144 + y * 4096 + z * 64 + w) = [0xf0 + x, 0x80 + y, 0x80 + z, 0x80 + w]"
proof -
  let ?c = "x * 262144 + y * 4096 + z * 64 + w"
  have lo: "0x10000 \<le> ?c" "?c \<le> 0x10ffff"
    using assms by (cases "x = 0"; cases "x = 4"; simp)+
  have "?c div 64 = x * 4096 + y * 64 + z" using assms by simp
  moreover have "?c div 4096 = x * 64 + y" using assms by simp
  moreover have "?c div 262144 = x" using assms by simp
  ultimately have "utf8_char ?c = [0xf0 + x, 0x80 + (x * 64 + y) mod 64, 0x80 + (x * 4096 + y * 64 + z) mod 64,
      0x80 + ?c mod 64]"
    using lo by (simp add: utf8_char_def)
  moreover have "?c mod 64 = w" "(x * 4096 + y * 64 + z) mod 64 = z"
    using mod_64 [of w "x * 4096 + y * 64 + z"] mod_64 [of z "x * 64 + y"] assms(3,4)
    by (simp_all add: algebra_simps)
  ultimately show "utf8_char ?c = [0xf0 + x, 0x80 + y, 0x80 + z, 0x80 + w]" using assms by simp
  show "unicode_scalar ?c" using lo by (simp add: unicode_scalar_def)
qed

lemma unicode_scalar_cases:
  assumes "unicode_scalar c"
  obtains (one) "c < 0x80" "utf8_char c = [c]"
  | (two) x y where "2 \<le> x" "x < 32" "y < 64" "utf8_char c = [0xc0 + x, 0x80 + y]"
  | (three) x y z where "x < 16" "y < 64" "z < 64" "x = 0 \<Longrightarrow> 32 \<le> y" "x = 13 \<Longrightarrow> y < 32"
      "utf8_char c = [0xe0 + x, 0x80 + y, 0x80 + z]"
  | (four) x y z w where "x \<le> 4" "y < 64" "z < 64" "w < 64" "x = 0 \<Longrightarrow> 16 \<le> y" "x = 4 \<Longrightarrow> y < 16"
      "utf8_char c = [0xf0 + x, 0x80 + y, 0x80 + z, 0x80 + w]"
proof -
  consider "c < 0x80" | "0x80 \<le> c" "c < 0x800" | "0x800 \<le> c" "c < 0x10000" | "0x10000 \<le> c" by linarith
  then show ?thesis
  proof cases
    case 1
    then show ?thesis by (intro one) (simp_all add: utf8_char_def)
  next
    case 2
    then have "2 \<le> c div 64" "c div 64 < 32" by linarith+
    then show ?thesis using 2 by (intro two [of "c div 64" "c mod 64"]) (simp_all add: utf8_char_def)
  next
    case 3
    have m: "c div 64 = c div 4096 * 64 + c div 64 mod 64"
      using div_mult_mod_eq [of "c div 64" 64] by (simp only: div_mult2_eq [symmetric]) simp
    have "c div 64 < 864 \<or> 896 \<le> c div 64" using assms unfolding unicode_scalar_def by linarith
    then have hi: "c div 64 mod 64 < 32" if "c div 4096 = 13"
      using m that mod_less_divisor [of 64 "c div 64"] by linarith
    have lo: "32 \<le> c div 64 mod 64" if "c div 4096 = 0" using 3 m that by linarith
    have u: "utf8_char c = [0xe0 + c div 4096, 0x80 + c div 64 mod 64, 0x80 + c mod 64]"
      using 3 by (simp add: utf8_char_def)
    have x: "c div 4096 < 16" using 3 by linarith
    show ?thesis by (rule three [OF x _ _ lo hi u]) simp_all
  next
    case 4
    have le: "c \<le> 0x10ffff" using assms 4 by (simp add: unicode_scalar_def)
    have m: "c div 4096 = c div 262144 * 64 + c div 4096 mod 64"
      using div_mult_mod_eq [of "c div 4096" 64] by (simp only: div_mult2_eq [symmetric]) simp
    have x: "c div 262144 \<le> 4" using le by linarith
    have hi: "c div 4096 mod 64 < 16" if "c div 262144 = 4" using le m that by linarith
    have lo: "16 \<le> c div 4096 mod 64" if "c div 262144 = 0" using 4 m that by linarith
    have u: "utf8_char c = [0xf0 + c div 262144, 0x80 + c div 4096 mod 64, 0x80 + c div 64 mod 64, 0x80 + c mod 64]"
      using 4 by (simp add: utf8_char_def)
    show ?thesis by (rule four [OF x _ _ _ lo hi u]) simp_all
  qed
qed


lemma utf8_one: "utf8_loop (a # r) = utf8_loop r" if "unat a < 0x80"
  using that by (simp add: word_le_nat_alt)

lemma utf8_two: "utf8_loop (a # b # r) = utf8_loop r"
  if "unat a = 0xc0 + x" "2 \<le> x" "x < 32" "unat b = 0x80 + y" "y < 64"
  using that by (simp add: utf8_lead_def word_le_nat_alt word_less_nat_alt)

lemma utf8_three: "utf8_loop (a # b # c # r) = utf8_loop r"
  if "unat a = 0xe0 + x" "x < 16" "unat b = 0x80 + y" "y < 64" "unat c = 0x80 + z" "z < 64"
    "x = 0 \<Longrightarrow> 32 \<le> y" "x = 13 \<Longrightarrow> y < 32"
proof -
  have "a = 0xe0 \<longleftrightarrow> x = 0" "a = 0xed \<longleftrightarrow> x = 13" using that by (simp_all add: word_unat_eq_iff)
  then show ?thesis using that(1-6) that(7-)
    by (simp add: utf8_lead_def word_le_nat_alt word_less_nat_alt) (use that in linarith)
qed

lemma utf8_four: "utf8_loop (a # b # c # d # r) = utf8_loop r"
  if "unat a = 0xf0 + x" "x \<le> 4" "unat b = 0x80 + y" "y < 64" "unat c = 0x80 + z" "z < 64"
    "unat d = 0x80 + w" "w < 64" "x = 0 \<Longrightarrow> 16 \<le> y" "x = 4 \<Longrightarrow> y < 16"
proof -
  have "a = 0xf0 \<longleftrightarrow> x = 0" "a = 0xf4 \<longleftrightarrow> x = 4" using that by (simp_all add: word_unat_eq_iff)
  then show ?thesis using that(1-6) that(7-)
    by (simp add: utf8_lead_def word_le_nat_alt word_less_nat_alt) (use that in linarith)
qed

declare utf8_loop.simps(2) [simp del]

lemma map_unat_inject: "map unat v = map unat (w :: bytes) \<longleftrightarrow> v = w"
  by (simp add: inj_map_eq_map inj_def word_unat_eq_iff)

lemma utf8_char_step:
  fixes v r :: bytes
  assumes "unicode_scalar c" and v: "map unat v = utf8_char c @ map unat r"
  shows "utf8_loop v = utf8_loop r"
  using assms(1)
proof (cases rule: unicode_scalar_cases)
  case one
  then obtain a r' where "v = a # r'" "unat a = c" "map unat r' = map unat r"
    using v by (auto simp: map_eq_Cons_conv)
  then show ?thesis using utf8_one [of a] one by (simp add: map_unat_inject)
next
  case (two x y)
  then obtain a b r' where "v = a # b # r'" "unat a = 0xc0 + x" "unat b = 0x80 + y" "map unat r' = map unat r"
    using v by (auto simp: map_eq_Cons_conv)
  then show ?thesis using utf8_two [of a x b y] two by (simp add: map_unat_inject)
next
  case (three x y z)
  then obtain a b d r' where v': "v = a # b # d # r'" "unat a = 0xe0 + x" "unat b = 0x80 + y"
    "unat d = 0x80 + z" "map unat r' = map unat r"
    using v by (auto simp: map_eq_Cons_conv)
  have "utf8_loop (a # b # d # r') = utf8_loop r'"
    by (rule utf8_three [OF v'(2) three(1) v'(3) three(2) v'(4) three(3,4,5)])
  then show ?thesis using v' by (simp add: map_unat_inject)
next
  case (four x y z w)
  then obtain a b d e r' where v': "v = a # b # d # e # r'" "unat a = 0xf0 + x" "unat b = 0x80 + y"
    "unat d = 0x80 + z" "unat e = 0x80 + w" "map unat r' = map unat r"
    using v by (auto simp: map_eq_Cons_conv)
  have "utf8_loop (a # b # d # e # r') = utf8_loop r'"
    by (rule utf8_four [OF v'(2) four(1) v'(3) four(2) v'(4) four(3) v'(5) four(4,5,6)])
  then show ?thesis using v' by (simp add: map_unat_inject)
qed

lemma continuation_octet: "\<not> ((c :: byte) < 0x80 \<or> c > 0xbf) \<Longrightarrow> \<exists>z < 64. unat c = 0x80 + z"
  by (intro exI [of _ "unat c - 0x80"]) (auto simp: word_less_nat_alt)

text \<open>What the loop accepts begins with the octets of a scalar value.\<close>

lemma utf8_loop_char:
  assumes "utf8_loop (a # rest)"
  shows "\<exists>c r. unicode_scalar c \<and> map unat (a # rest) = utf8_char c @ map unat r \<and> utf8_loop r \<and>
    length r \<le> length rest"
proof (cases "unat a < 0x80")
  case True
  then have "utf8_loop rest" using assms utf8_one by simp
  then show ?thesis using True
    by (intro exI [of _ "unat a"] exI [of _ rest]) (simp add: unicode_scalar_def utf8_char_def)
next
  case False
  then obtain n lo hi where l: "utf8_lead a = Some (n, lo, hi)" "n < length (a # rest)"
    "lo \<le> rest ! 0" "rest ! 0 \<le> hi" and cs: "list_all (\<lambda>c. \<not> (c < 0x80 \<or> c > 0xbf)) (take (n - 1) (drop 1 rest))"
    and r: "utf8_loop (drop n rest)"
    using assms by (auto simp: utf8_loop.simps Let_def not_less word_le_nat_alt split: if_splits option.splits)
  consider x where "n = 1" "lo = 0x80" "hi = 0xbf" "unat a = 0xc0 + x" "2 \<le> x" "x < 32"
    | x where "n = 2" "lo = (if x = 0 then 0xa0 else 0x80)" "hi = (if x = 13 then 0x9f else 0xbf)"
        "unat a = 0xe0 + x" "x < 16"
    | x where "n = 3" "lo = (if x = 0 then 0x90 else 0x80)" "hi = (if x = 4 then 0x8f else 0xbf)"
        "unat a = 0xf0 + x" "x \<le> 4"
  proof -
    consider "0xc2 \<le> a" "a \<le> 0xdf" | "0xe0 \<le> a" "a \<le> 0xef" | "0xf0 \<le> a" "a \<le> 0xf4"
      using l(1) by (auto simp: utf8_lead_def split: if_splits)
    then show thesis
    proof cases
      case 1
      then show thesis using l(1) by (intro that(1) [of "unat a - 0xc0"]) (auto simp: utf8_lead_def word_le_nat_alt)
    next
      case 2
      then show thesis using l(1)
        by (intro that(2) [of "unat a - 0xe0"]) (auto simp: utf8_lead_def word_le_nat_alt word_unat_eq_iff split: if_splits)
    next
      case 3
      then show thesis using l(1)
        by (intro that(3) [of "unat a - 0xf0"]) (auto simp: utf8_lead_def word_le_nat_alt word_unat_eq_iff split: if_splits)
    qed
  qed
  then show ?thesis
  proof cases
    case 1
    obtain b r' where rest: "rest = b # r'" using l 1 by (cases rest) auto
    define y where "y = unat b - 0x80"
    have y: "unat b = 0x80 + y" "y < 64" using l 1 rest by (auto simp: y_def word_le_nat_alt)
    show ?thesis using utf8_char_2 [OF 1(5,6) y(2)] r rest 1 y
      by (intro exI [of _ "x * 64 + y"] exI [of _ r']) simp
  next
    case 2
    obtain b c r' where rest: "rest = b # c # r'" using l 2 by (cases rest; cases "tl rest") auto
    define y where "y = unat b - 0x80"
    have y: "unat b = 0x80 + y" "y < 64" "x = 0 \<Longrightarrow> 32 \<le> y" "x = 13 \<Longrightarrow> y < 32"
      using l 2 rest by (auto simp: y_def word_le_nat_alt split: if_splits)
    obtain z where z: "z < 64" "unat c = 0x80 + z" using cs 2 rest continuation_octet [of c] by auto
    show ?thesis using utf8_char_3 [OF 2(5) y(2) z(1) y(3,4)] r rest 2 y(1) z(2)
      by (intro exI [of _ "x * 4096 + y * 64 + z"] exI [of _ r']) simp
  next
    case 3
    obtain b c d r' where rest: "rest = b # c # d # r'"
      using l 3 by (cases rest; cases "tl rest"; cases "tl (tl rest)") auto
    define y where "y = unat b - 0x80"
    have y: "unat b = 0x80 + y" "y < 64" "x = 0 \<Longrightarrow> 16 \<le> y" "x = 4 \<Longrightarrow> y < 16"
      using l 3 rest by (auto simp: y_def word_le_nat_alt split: if_splits)
    obtain z where z: "z < 64" "unat c = 0x80 + z" using cs 3 rest continuation_octet [of c] by auto
    obtain w where w: "w < 64" "unat d = 0x80 + w"
      using cs 3 rest continuation_octet [of d] by (auto simp: numeral_2_eq_2)
    show ?thesis using utf8_char_4 [OF 3(5) y(2) z(1) w(1) y(3,4)] r rest 3 y(1) z(2) w(2)
      by (intro exI [of _ "x * 262144 + y * 4096 + z * 64 + w"] exI [of _ r']) (simp add: numeral_3_eq_3)
  qed
qed

lemma utf8_loop_iff: "utf8_loop v \<longleftrightarrow> (\<exists>cs. list_all unicode_scalar cs \<and> map unat v = concat (map utf8_char cs))"
proof
  show "\<exists>cs. list_all unicode_scalar cs \<and> map unat v = concat (map utf8_char cs)" if "utf8_loop v"
    using that
  proof (induction v rule: length_induct)
    case (1 v)
    show ?case
    proof (cases v)
      case Nil
      then show ?thesis by (intro exI [of _ "[]"]) simp
    next
      case (Cons a rest)
      then obtain c r where c: "unicode_scalar c" "map unat v = utf8_char c @ map unat r" "utf8_loop r"
        "length r \<le> length rest"
        using utf8_loop_char [of a rest] 1 by auto
      then obtain cs where "list_all unicode_scalar cs" "map unat r = concat (map utf8_char cs)"
        using 1(1) [rule_format, of r] Cons by auto
      then show ?thesis using c by (intro exI [of _ "c # cs"]) simp
    qed
  qed
  have "utf8_loop w" if "list_all unicode_scalar cs" "map unat w = concat (map utf8_char cs)" for cs and w :: bytes
    using that
  proof (induction cs arbitrary: w)
    case (Cons c cs)
    define r where "r = drop (length (utf8_char c)) w"
    have "map unat r = concat (map utf8_char cs)" using Cons.prems by (simp add: r_def drop_map [symmetric])
    then show ?case using Cons utf8_char_step [of c w r] by simp
  qed simp
  then show "utf8_loop v" if "\<exists>cs. list_all unicode_scalar cs \<and> map unat v = concat (map utf8_char cs)"
    using that by blast
qed

text \<open>A manifest that has canonical octets.\<close>

definition sample_manifest :: "byte \<Rightarrow> CanonicalField list" where
  "sample_manifest x = [\<lparr>cf_number = 1, cf_value = replicate 32 x\<rparr>, \<lparr>cf_number = 2, cf_value = replicate 16 0\<rparr>,
     \<lparr>cf_number = 3, cf_value = replicate 8 0\<rparr>, \<lparr>cf_number = 4, cf_value = replicate 32 0\<rparr>,
     \<lparr>cf_number = 5, cf_value = replicate 8 0\<rparr>]"

lemma sample_manifest_canonical:
  "\<exists>b. canonicalize_for_signature SD_service_manifest (sample_manifest x) = Inr b"
  by (simp add: canonicalize_for_signature_def sample_manifest_def matches_rules_def service_manifest_rules_def
      follows_rule_def max_canonical_signing_bytes_def Let_def word_le_nat_alt)

section \<open>Properties\<close>

text \<open>
  C13: the canonical octets determine what is signed: two objects have the same octets exactly when
  their signing domains and their field lists are the same, so a signature for one domain is never
  one for another.
\<close>

theorem canonical_signature_injective:
  assumes "canonicalize_for_signature d fs = Inr b" "canonicalize_for_signature e gs = Inr c"
  shows "b = c \<longleftrightarrow> d = e \<and> fs = gs"
  using assms canonicalize_inject [of d fs b e gs] by auto

theorem canonical_signature_injective_witness:
  "\<exists>b c. canonicalize_for_signature SD_service_manifest (sample_manifest 0) = Inr b \<and>
     canonicalize_for_signature SD_service_manifest (sample_manifest 1) = Inr c \<and> b \<noteq> c"
proof -
  obtain b c where "canonicalize_for_signature SD_service_manifest (sample_manifest 0) = Inr b"
    "canonicalize_for_signature SD_service_manifest (sample_manifest 1) = Inr c"
    using sample_manifest_canonical by blast
  with canonical_signature_injective [OF this] show ?thesis by (auto simp: sample_manifest_def)
qed

text \<open>
  C26: the UTF-8 check accepts exactly the non-empty sequences of octets that are the UTF-8 form of
  Unicode scalar values: no overlong form, no surrogate, nothing above U+10FFFF, no truncation.
\<close>

theorem utf8_check_exact:
  "is_nonempty_utf8 v \<longleftrightarrow>
     (\<exists>cs. cs \<noteq> [] \<and> list_all unicode_scalar cs \<and> map unat v = concat (map utf8_char cs))"
proof -
  have ne: "utf8_char c \<noteq> []" for c by (simp add: utf8_char_def)
  have "v = [] \<longleftrightarrow> cs = []" if "map unat v = concat (map utf8_char cs)" for cs
    using that ne by (cases cs; cases v) auto
  then show ?thesis unfolding is_nonempty_utf8_def utf8_loop_iff by blast
qed

text \<open>
  C37: the scope-list check accepts exactly the encodings of strictly ascending lists of at most 256
  printable scopes of 1 to 256 octets.
\<close>

theorem scope_list_exact:
  "is_canonical_scope_list v \<longleftrightarrow> (\<exists>ss. v = encode_scopes ss \<and> length ss \<le> 256 \<and> list_all scope_wf ss \<and>
     sorted_wrt (<) ss)"
  by (rule scope_list_iff)

text \<open>
  A transcript digest binds the offer and the answer: if two transcripts have the same digest
  then they are the same pair or the hash function has two different inputs with that digest.
\<close>

theorem transcript_binding:
  assumes "hash_signaling_transcript sha256 a b = Inr h" "hash_signaling_transcript sha256 a' b' = Inr h"
  shows "(a = a' \<and> b = b') \<or> (\<exists>x y. x \<noteq> y \<and> sha256 x = Some h \<and> sha256 y = Some h)"
proof -
  have l: "length x < 2 ^ 32 \<and> length y < 2 ^ 32 \<and> sha256 (transcript_input x y) = Some h"
    if "hash_signaling_transcript sha256 x y = Inr h" for x y
    using that by (auto simp: hash_signaling_transcript_def max_canonical_signing_bytes_def
        split: if_splits option.splits)
  show ?thesis using l [OF assms(1)] l [OF assms(2)] transcript_input_inject [of a b a' b'] by blast
qed

theorem transcript_binding_witness:
  "let o1 = char_bytes ''HYSG'' @ [1, 15] @ char_bytes ''heyaki.offer.v1'' @ [0, 0];
       a1 = char_bytes ''HYSG'' @ [1, 16] @ char_bytes ''heyaki.answer.v1'' @ [0, 0]
   in \<exists>h. hash_signaling_transcript Some o1 a1 = Inr h \<and>
      ((o1 = o1 \<and> a1 = a1) \<or> (\<exists>x y. x \<noteq> y \<and> Some x = Some h \<and> Some y = Some h))"
proof -
  define o1 where "o1 = char_bytes ''HYSG'' @ [1, 15] @ char_bytes ''heyaki.offer.v1'' @ [0, 0]"
  define a1 where "a1 = char_bytes ''HYSG'' @ [1, 16] @ char_bytes ''heyaki.answer.v1'' @ [0, 0]"
  have "has_canonical_domain o1 ''heyaki.offer.v1''" "has_canonical_domain a1 ''heyaki.answer.v1''"
    "o1 \<noteq> []" "a1 \<noteq> []" "length o1 \<le> max_canonical_signing_bytes" "length a1 \<le> max_canonical_signing_bytes"
    by (simp_all add: has_canonical_domain_def o1_def a1_def char_bytes_def max_canonical_signing_bytes_def)
  then have "hash_signaling_transcript Some o1 a1 = Inr (transcript_input o1 a1)"
    by (simp add: hash_signaling_transcript_def)
  with transcript_binding [OF this this] show ?thesis unfolding o1_def a1_def Let_def by blast
qed

end
