(* ===== verification/Heyaki_Replay.thy ===== *)
theory Heyaki_Replay
  imports Heyaki_Signing
begin

text \<open>
  The replay guard for signed signaling objects (\<open>signaling_replay_cache.hpp\<close> and \<open>.cpp\<close>): a
  bounded map from replay keys to the end of their retention, with a count of entries per signer.
\<close>

section \<open>Keys\<close>

fun signing_domain_value :: "SigningDomain \<Rightarrow> byte" where
  "signing_domain_value SD_enrollment = 0"
| "signing_domain_value SD_enrollment_record = 1"
| "signing_domain_value SD_relay_login = 2"
| "signing_domain_value SD_endpoint_record = 3"
| "signing_domain_value SD_service_manifest = 4"
| "signing_domain_value SD_offer = 5"
| "signing_domain_value SD_answer = 6"
| "signing_domain_value SD_candidate = 7"
| "signing_domain_value SD_lan_presence = 8"
| "signing_domain_value SD_lan_hello = 9"
| "signing_domain_value SD_session_hello = 10"
| "signing_domain_value SD_trust_grant = 11"

definition connect_request_replay_domain :: byte where
  "connect_request_replay_domain = 0xff"

text \<open>A flag and the value it guards are one optional value.\<close>

datatype ReplayKey = ReplayKey
  (rk_domain: byte) (rk_signer: id_bytes) (rk_request_id: id_bytes) (rk_session_id: id_bytes)
  (rk_initiator_nonce: bytes) (rk_responder_nonce: "bytes option") (rk_sequence: "u32 option")

definition replay_less :: "ReplayKey \<Rightarrow> ReplayKey \<Rightarrow> bool" where
  "replay_less l r \<longleftrightarrow>
    (if rk_domain l \<noteq> rk_domain r then rk_domain l < rk_domain r
     else if rk_signer l \<noteq> rk_signer r then rk_signer l < rk_signer r
     else if rk_request_id l \<noteq> rk_request_id r then rk_request_id l < rk_request_id r
     else if rk_session_id l \<noteq> rk_session_id r then rk_session_id l < rk_session_id r
     else if rk_initiator_nonce l \<noteq> rk_initiator_nonce r then
       rk_initiator_nonce l < rk_initiator_nonce r
     else if (rk_responder_nonce l \<noteq> None) \<noteq> (rk_responder_nonce r \<noteq> None) then
       (rk_responder_nonce l \<noteq> None) < (rk_responder_nonce r \<noteq> None)
     else if rk_responder_nonce l \<noteq> None \<and> rk_responder_nonce r \<noteq> None \<and>
             the (rk_responder_nonce l) \<noteq> the (rk_responder_nonce r) then
       the (rk_responder_nonce l) < the (rk_responder_nonce r)
     else if (rk_sequence l \<noteq> None) \<noteq> (rk_sequence r \<noteq> None) then
       (rk_sequence l \<noteq> None) < (rk_sequence r \<noteq> None)
     else if rk_sequence l \<noteq> None \<and> rk_sequence r \<noteq> None then
       the (rk_sequence l) < the (rk_sequence r)
     else False)"

text \<open>The hand-written comparison is a lexicographic order, so it makes the keys a linear order.\<close>

definition replay_tuple ::
  "ReplayKey \<Rightarrow> byte \<times> id_bytes \<times> id_bytes \<times> id_bytes \<times> bytes \<times> bytes option \<times> u32 option" where
  "replay_tuple k = (rk_domain k, rk_signer k, rk_request_id k, rk_session_id k,
     rk_initiator_nonce k, rk_responder_nonce k, rk_sequence k)"

lemma replay_tuple_inject: "replay_tuple a = replay_tuple b \<longleftrightarrow> a = b"
  by (cases a; cases b) (auto simp: replay_tuple_def)

lemma replay_less_tuple: "replay_less a b \<longleftrightarrow> replay_tuple a < replay_tuple b"
  by (cases "rk_responder_nonce a"; cases "rk_responder_nonce b"; cases "rk_sequence a"; cases "rk_sequence b")
    (auto simp: replay_less_def replay_tuple_def less_prod_def' less_le)

instantiation ReplayKey :: linorder
begin

definition less_ReplayKey :: "ReplayKey \<Rightarrow> ReplayKey \<Rightarrow> bool" where
  "less_ReplayKey a b \<longleftrightarrow> replay_less a b"

definition less_eq_ReplayKey :: "ReplayKey \<Rightarrow> ReplayKey \<Rightarrow> bool" where
  "less_eq_ReplayKey a b \<longleftrightarrow> a = b \<or> replay_less a b"

instance
proof
  fix a b c :: ReplayKey
  have le: "x \<le> y \<longleftrightarrow> replay_tuple x \<le> replay_tuple y" for x y :: ReplayKey
    by (auto simp: less_eq_ReplayKey_def replay_less_tuple replay_tuple_inject [symmetric])
  show "a < b \<longleftrightarrow> a \<le> b \<and> \<not> b \<le> a" unfolding le by (auto simp: less_ReplayKey_def replay_less_tuple)
  show "a \<le> a" unfolding le by simp
  show "a \<le> b \<Longrightarrow> b \<le> c \<Longrightarrow> a \<le> c" unfolding le by simp
  show "a \<le> b \<Longrightarrow> b \<le> a \<Longrightarrow> a = b" unfolding le by (simp add: replay_tuple_inject [symmetric])
  show "a \<le> b \<or> b \<le> a" unfolding le by (rule linear)
qed

end

section \<open>State and operations\<close>

datatype SignalingReplayDecision = RD_admitted | RD_duplicate | RD_capacity_rejected

record SignalingReplayDiagnostics =
  sd_admitted :: u64
  sd_duplicates_rejected :: u64
  sd_capacity_rejected :: u64
  sd_per_peer_rejected :: u64
  sd_expired_evicted :: u64
  sd_current_entries :: nat
  sd_peak_entries :: nat
  sd_peak_per_peer_entries :: nat

definition replay_no_diagnostics :: SignalingReplayDiagnostics where
  "replay_no_diagnostics = \<lparr>sd_admitted = 0, sd_duplicates_rejected = 0, sd_capacity_rejected = 0,
     sd_per_peer_rejected = 0, sd_expired_evicted = 0, sd_current_entries = 0, sd_peak_entries = 0,
     sd_peak_per_peer_entries = 0\<rparr>"

record SignalingReplayCache =
  sr_policy :: ReplayCachePolicy
  sr_entries :: "(ReplayKey, time_point) omap"
  sr_per_peer :: "(id_bytes, nat) omap"
  sr_next_sweep :: time_point
  sr_diagnostics :: SignalingReplayDiagnostics

definition replay_error :: "string \<Rightarrow> Error" where
  "replay_error detail = err EC_resource_exhausted ''signaling_replay'' detail"

definition new_replay_cache :: "ReplayCachePolicy \<Rightarrow> SignalingReplayCache" where
  "new_replay_cache policy = \<lparr>sr_policy = policy, sr_entries = [], sr_per_peer = [],
     sr_next_sweep = 0, sr_diagnostics = replay_no_diagnostics\<rparr>"

definition replay_create :: "ReplayCachePolicy \<Rightarrow> SignalingReplayCache result" where
  "replay_create policy =
    (case validate_security_policy policy default_password_policy of Inl e \<Rightarrow> Inl e | Inr _ \<Rightarrow>
     if rp_capacity policy < rp_per_peer_capacity policy then
       Inl (replay_error ''replay_capacity_below_per_peer'')
     else Inr (new_replay_cache policy))"

definition drop_peer :: "id_bytes \<Rightarrow> (id_bytes, nat) omap \<Rightarrow> (id_bytes, nat) omap" where
  "drop_peer signer peers =
    (case map_of peers signer of
       None \<Rightarrow> peers
     | Some n \<Rightarrow> if n > 0 then (if n - 1 = 0 then om_del signer peers else om_put signer (n - 1) peers)
                 else peers)"

definition evict_entry :: "ReplayKey \<Rightarrow> SignalingReplayCache \<Rightarrow> SignalingReplayCache" where
  "evict_entry key c =
     c\<lparr>sr_per_peer := drop_peer (rk_signer key) (sr_per_peer c),
       sr_entries := om_del key (sr_entries c),
       sr_diagnostics := (sr_diagnostics c)\<lparr>sd_expired_evicted :=
         sd_expired_evicted (sr_diagnostics c) + 1\<rparr>\<rparr>"

definition replay_expire :: "time_point \<Rightarrow> SignalingReplayCache \<Rightarrow> SignalingReplayCache" where
  "replay_expire now c =
    (let c1 = fold evict_entry (map fst (filter (\<lambda>(k, x). now \<ge> x) (sr_entries c))) c
     in c1\<lparr>sr_diagnostics := (sr_diagnostics c1)\<lparr>sd_current_entries := length (sr_entries c1)\<rparr>\<rparr>)"

text \<open>Admission of a key that is not retained: the subscript makes the signer's count.\<close>

definition replay_insert :: "ReplayKey \<Rightarrow> time_point \<Rightarrow> SignalingReplayCache \<Rightarrow>
    SignalingReplayDecision \<times> SignalingReplayCache" where
  "replay_insert key now c0 =
    (let peer_count = (case map_of (sr_per_peer c0) (rk_signer key) of None \<Rightarrow> 0 | Some n \<Rightarrow> n);
         c = c0\<lparr>sr_per_peer := om_put (rk_signer key) peer_count (sr_per_peer c0)\<rparr>;
         d = sr_diagnostics c
     in if peer_count \<ge> rp_per_peer_capacity (sr_policy c) then
          (RD_capacity_rejected,
           c\<lparr>sr_diagnostics := d\<lparr>sd_per_peer_rejected := sd_per_peer_rejected d + 1,
             sd_capacity_rejected := sd_capacity_rejected d + 1\<rparr>\<rparr>)
        else if length (sr_entries c) \<ge> rp_capacity (sr_policy c) then
          (RD_capacity_rejected,
           c\<lparr>sr_diagnostics := d\<lparr>sd_capacity_rejected := sd_capacity_rejected d + 1\<rparr>\<rparr>)
        else
          let entries = om_put key (now + ms_to_ns (int (rp_ttl_milliseconds (sr_policy c)))) (sr_entries c)
          in (RD_admitted,
              c\<lparr>sr_entries := entries,
                sr_per_peer := om_put (rk_signer key) (peer_count + 1) (sr_per_peer c),
                sr_diagnostics := d\<lparr>sd_admitted := sd_admitted d + 1,
                  sd_current_entries := length entries,
                  sd_peak_entries := max (sd_peak_entries d) (length entries),
                  sd_peak_per_peer_entries := max (sd_peak_per_peer_entries d) (peer_count + 1)\<rparr>\<rparr>))"

definition replay_admit_key :: "ReplayKey \<Rightarrow> time_point \<Rightarrow> SignalingReplayCache \<Rightarrow>
    SignalingReplayDecision \<times> SignalingReplayCache" where
  "replay_admit_key key now c0 =
    (let c = (if now \<ge> sr_next_sweep c0
              then (replay_expire now c0)\<lparr>sr_next_sweep := now + 1000000000\<rparr> else c0)
     in case map_of (sr_entries c) key of
          None \<Rightarrow> replay_insert key now c
        | Some x \<Rightarrow>
          if now < x then
            (RD_duplicate, c\<lparr>sr_diagnostics := (sr_diagnostics c)\<lparr>sd_duplicates_rejected :=
               sd_duplicates_rejected (sr_diagnostics c) + 1\<rparr>\<rparr>)
          else replay_insert key now (evict_entry key c))"

definition replay_admit :: "SigningDomain \<Rightarrow> id_bytes \<Rightarrow> id_bytes \<Rightarrow> id_bytes \<Rightarrow> bytes \<Rightarrow> bytes option \<Rightarrow>
    u32 option \<Rightarrow> time_point \<Rightarrow> SignalingReplayCache \<Rightarrow>
    SignalingReplayDecision result \<times> SignalingReplayCache" where
  "replay_admit domain signer request_id session_id initiator_nonce responder_nonce sequence now c =
    (if id_is_zero signer then (Inl (replay_error ''replay_signer_zero''), c)
     else map_prod Inr id (replay_admit_key (ReplayKey (signing_domain_value domain) signer request_id
       session_id initiator_nonce responder_nonce sequence) now c))"

definition admit_connect_request :: "id_bytes \<Rightarrow> id_bytes \<Rightarrow> time_point \<Rightarrow> SignalingReplayCache \<Rightarrow>
    SignalingReplayDecision result \<times> SignalingReplayCache" where
  "admit_connect_request sender request_id now c =
    (if id_is_zero sender \<or> id_is_zero request_id then
       (Inl (replay_error ''connect_request_replay_key_zero''), c)
     else map_prod Inr id (replay_admit_key (ReplayKey connect_request_replay_domain sender request_id
       (replicate 16 0) (replicate 32 0) None None) now c))"

section \<open>Vocabulary of the properties\<close>

text \<open>Both admissions come down to a key; a run is a sequence of admissions and sweeps.\<close>

datatype ReplayOp = ReplayAdmit ReplayKey time_point | ReplayExpire time_point

fun replay_step :: "ReplayOp \<Rightarrow> SignalingReplayCache \<Rightarrow> SignalingReplayCache" where
  "replay_step (ReplayAdmit key now) c = snd (replay_admit_key key now c)"
| "replay_step (ReplayExpire now) c = replay_expire now c"

fun replay_op_time :: "ReplayOp \<Rightarrow> time_point" where
  "replay_op_time (ReplayAdmit key now) = now"
| "replay_op_time (ReplayExpire now) = now"

text \<open>The admissions of a run that were granted, with their times.\<close>

fun granted :: "ReplayOp \<Rightarrow> SignalingReplayCache \<Rightarrow> (ReplayKey \<times> time_point) set" where
  "granted (ReplayAdmit key now) c =
     (if fst (replay_admit_key key now c) = RD_admitted then {(key, now)} else {})"
| "granted (ReplayExpire now) c = {}"

primrec all_granted :: "ReplayOp list \<Rightarrow> SignalingReplayCache \<Rightarrow> (ReplayKey \<times> time_point) set" where
  "all_granted [] c = {}"
| "all_granted (x # xs) c = granted x c \<union> all_granted xs (replay_step x c)"

definition peer_count_of :: "SignalingReplayCache \<Rightarrow> id_bytes \<Rightarrow> nat" where
  "peer_count_of c s = (case map_of (sr_per_peer c) s of None \<Rightarrow> 0 | Some n \<Rightarrow> n)"

definition signer_entries :: "SignalingReplayCache \<Rightarrow> id_bytes \<Rightarrow> nat" where
  "signer_entries c s = length (filter (\<lambda>(k, x). rk_signer k = s) (sr_entries c))"

definition replay_inv :: "SignalingReplayCache \<Rightarrow> bool" where
  "replay_inv c \<longleftrightarrow> om_wf (sr_entries c) \<and> om_wf (sr_per_peer c) \<and>
     length (sr_entries c) \<le> rp_capacity (sr_policy c) \<and>
     (\<forall>s. peer_count_of c s = signer_entries c s \<and> signer_entries c s \<le> rp_per_peer_capacity (sr_policy c))"

text \<open>The cache retains a key at a time.\<close>

definition retained :: "SignalingReplayCache \<Rightarrow> ReplayKey \<Rightarrow> time_point \<Rightarrow> bool" where
  "retained c k later \<longleftrightarrow> (\<exists>x. map_of (sr_entries c) k = Some x \<and> later < x)"

section \<open>Lemmas\<close>

lemma filter_om_del: "filter P (om_del k m) = om_del k (filter P m)"
  by (auto simp: om_del_def conj_commute intro: filter_cong)

lemma length_filter_om_del:
  "om_wf m \<Longrightarrow> map_of m k = Some v \<Longrightarrow>
     length (filter P (om_del k m)) = (if P (k, v) then length (filter P m) - 1 else length (filter P m))"
  by (simp add: filter_om_del om_simps)

lemma length_filter_om_put:
  assumes "om_wf m" "map_of m k = None"
  shows "length (filter P (om_put k v m)) = (if P (k, v) then Suc (length (filter P m)) else length (filter P m))"
proof -
  have new: "\<And>e. e \<in> set m \<Longrightarrow> fst e \<noteq> k" using assms(2) by (auto simp: map_of_eq_None_iff)
  have "filter P (om_put k v m) = (if P (k, v) then om_put k v (filter P m) else filter P m)"
    using assms new by (intro om_ext) (auto simp: set_om_put)
  then show ?thesis using assms by (simp add: om_simps)
qed

lemma evict_entry_simps [simp]:
  "sr_entries (evict_entry k c) = om_del k (sr_entries c)" "sr_policy (evict_entry k c) = sr_policy c"
  "sr_per_peer (evict_entry k c) = drop_peer (rk_signer k) (sr_per_peer c)"
  "sr_next_sweep (evict_entry k c) = sr_next_sweep c"
  by (simp_all add: evict_entry_def)

lemma drop_peer_wf: "om_wf p \<Longrightarrow> om_wf (drop_peer s p)"
  by (simp add: drop_peer_def split: option.split)

lemma drop_peer_count:
  "om_wf p \<Longrightarrow> (case map_of (drop_peer s p) s' of None \<Rightarrow> 0 | Some n \<Rightarrow> n) =
     (case map_of p s' of None \<Rightarrow> 0 | Some n \<Rightarrow> if s' = s then n - 1 else n)"
  by (auto simp: drop_peer_def om_simps split: option.split)

lemma evict_entry_inv:
  assumes inv: "replay_inv c" and x: "map_of (sr_entries c) k = Some x"
  shows "replay_inv (evict_entry k c)"
proof -
  have wf: "om_wf (sr_entries c)" "om_wf (sr_per_peer c)" using inv by (simp_all add: replay_inv_def)
  have e: "signer_entries (evict_entry k c) s =
      (if s = rk_signer k then signer_entries c s - 1 else signer_entries c s)" for s
    using length_filter_om_del [OF wf(1) x] by (simp add: signer_entries_def)
  have p: "peer_count_of (evict_entry k c) s =
      (if s = rk_signer k then peer_count_of c s - 1 else peer_count_of c s)" for s
    using drop_peer_count [OF wf(2)] by (simp add: peer_count_of_def split: option.split)
  show ?thesis
    using inv e p wf length_om_del_le [of k "sr_entries c"]
    unfolding replay_inv_def by (auto simp: drop_peer_wf intro: order_trans [OF diff_le_self])
qed

lemma fold_evict:
  "replay_inv c \<Longrightarrow> distinct ks \<Longrightarrow> \<forall>k \<in> set ks. map_of (sr_entries c) k \<noteq> None \<Longrightarrow>
     replay_inv (fold evict_entry ks c) \<and> sr_policy (fold evict_entry ks c) = sr_policy c \<and>
     sr_next_sweep (fold evict_entry ks c) = sr_next_sweep c \<and>
     sr_entries (fold evict_entry ks c) = filter (\<lambda>e. fst e \<notin> set ks) (sr_entries c)"
proof (induction ks arbitrary: c)
  case (Cons k ks)
  obtain x where x: "map_of (sr_entries c) k = Some x" using Cons.prems by auto
  have "\<forall>k' \<in> set ks. map_of (sr_entries (evict_entry k c)) k' \<noteq> None"
    using Cons.prems by (auto simp: om_simps)
  then show ?case
    using Cons.IH [of "evict_entry k c"] evict_entry_inv [OF Cons.prems(1) x] Cons.prems(2)
    by (auto simp: om_del_def intro: filter_cong)
qed simp

lemma replay_expire_eq:
  assumes inv: "replay_inv c"
  shows "replay_inv (replay_expire now c)" "sr_policy (replay_expire now c) = sr_policy c"
    "sr_entries (replay_expire now c) = filter (\<lambda>(k, x). \<not> now \<ge> x) (sr_entries c)"
proof -
  let ?ks = "map fst (filter (\<lambda>(k, x). now \<ge> x) (sr_entries c))"
  have wf: "om_wf (sr_entries c)" using inv by (simp add: replay_inv_def)
  have "distinct ?ks" by (rule om_wf_distinct) (use wf in simp)
  moreover have "\<forall>k \<in> set ?ks. map_of (sr_entries c) k \<noteq> None" using wf by (auto simp: om_mem_iff)
  ultimately have f: "replay_inv (fold evict_entry ?ks c)" "sr_policy (fold evict_entry ?ks c) = sr_policy c"
    "sr_entries (fold evict_entry ?ks c) = filter (\<lambda>e. fst e \<notin> set ?ks) (sr_entries c)"
    using fold_evict [OF inv] by blast+
  show "replay_inv (replay_expire now c)" "sr_policy (replay_expire now c) = sr_policy c"
    using f(1,2) by (simp_all add: replay_expire_def Let_def replay_inv_def peer_count_of_def signer_entries_def)
  have m: "k \<in> set ?ks \<longleftrightarrow> now \<ge> x" if "(k, x) \<in> set (sr_entries c)" for k x
  proof -
    have "k \<in> set ?ks \<longleftrightarrow> (\<exists>y. (k, y) \<in> set (sr_entries c) \<and> now \<ge> y)" by force
    then show ?thesis using that wf by (simp add: om_mem_iff)
  qed
  have "sr_entries (replay_expire now c) = filter (\<lambda>e. fst e \<notin> set ?ks) (sr_entries c)"
    using f(3) by (simp add: replay_expire_def Let_def)
  also have "\<dots> = filter (\<lambda>(k, x). \<not> now \<ge> x) (sr_entries c)"
  proof (rule filter_cong [OF refl])
    fix e assume "e \<in> set (sr_entries c)"
    then show "(fst e \<notin> set ?ks) = (case e of (k, x) \<Rightarrow> \<not> now \<ge> x)"
      using m [of "fst e" "snd e"] by (simp only: prod.collapse case_prod_beta simp_thms)
  qed
  finally show "sr_entries (replay_expire now c) = filter (\<lambda>(k, x). \<not> now \<ge> x) (sr_entries c)" .
qed


lemma replay_expire_retained:
  "replay_inv c \<Longrightarrow> now \<le> later \<Longrightarrow> retained (replay_expire now c) k later = retained c k later"
  by (auto simp: retained_def replay_expire_eq om_simps replay_inv_def split: option.splits if_splits)

lemma replay_insert_inv:
  assumes inv: "replay_inv c" and new: "map_of (sr_entries c) key = None"
  shows "replay_inv (snd (replay_insert key now c))" "sr_policy (snd (replay_insert key now c)) = sr_policy c"
proof -
  let ?s = "rk_signer key" and ?p = "sr_policy c"
  have wf: "om_wf (sr_entries c)" "om_wf (sr_per_peer c)" using inv by (simp_all add: replay_inv_def)
  have n: "(case map_of (sr_per_peer c) ?s of None \<Rightarrow> 0 | Some n \<Rightarrow> n) = peer_count_of c ?s"
    by (simp add: peer_count_of_def)
  have pc: "peer_count_of c s = signer_entries c s" "signer_entries c s \<le> rp_per_peer_capacity ?p" for s
    using inv by (simp_all add: replay_inv_def)
  have counts: "peer_count_of (c\<lparr>sr_entries := es, sr_per_peer := om_put ?s m (sr_per_peer c), sr_diagnostics := d\<rparr>) s =
      (if s = ?s then m else peer_count_of c s)" for m d s es
    using wf by (simp add: peer_count_of_def om_simps)
  have keep: "replay_inv (c\<lparr>sr_per_peer := om_put ?s (peer_count_of c ?s) (sr_per_peer c), sr_diagnostics := d\<rparr>)" for d
    using inv wf by (auto simp: replay_inv_def peer_count_of_def signer_entries_def om_simps)
  have add: "replay_inv (c\<lparr>sr_entries := om_put key t (sr_entries c),
      sr_per_peer := om_put ?s (peer_count_of c ?s + 1) (om_put ?s (peer_count_of c ?s) (sr_per_peer c)), sr_diagnostics := d\<rparr>)"
    if "peer_count_of c ?s < rp_per_peer_capacity ?p" "length (sr_entries c) < rp_capacity ?p" for d t
    using inv wf that new pc
    by (auto simp: replay_inv_def peer_count_of_def signer_entries_def om_simps length_filter_om_put)
  show "replay_inv (snd (replay_insert key now c))" "sr_policy (snd (replay_insert key now c)) = sr_policy c"
    unfolding replay_insert_def n Let_def using keep add by (simp_all add: not_le)
qed

lemma replay_insert_retained:
  assumes inv: "replay_inv c" and new: "map_of (sr_entries c) key = None" and "now \<le> later"
  shows "retained (snd (replay_insert key now c)) k later \<longleftrightarrow> retained c k later \<or>
    k = key \<and> fst (replay_insert key now c) = RD_admitted \<and>
      later < now + ms_to_ns (int (rp_ttl_milliseconds (sr_policy c)))"
    "fst (replay_insert key now c) \<noteq> RD_duplicate"
  using inv new by (auto simp: replay_insert_def Let_def retained_def replay_inv_def om_simps)

lemma replay_admit_step:
  assumes inv: "replay_inv c" and "now \<le> later"
  shows "replay_inv (snd (replay_admit_key key now c))" (is ?A)
    "sr_policy (snd (replay_admit_key key now c)) = sr_policy c" (is ?B)
    "fst (replay_admit_key key now c) = RD_duplicate \<longleftrightarrow> retained c key now" (is ?C)
    "retained (snd (replay_admit_key key now c)) k later \<longleftrightarrow> retained c k later \<or>
      k = key \<and> fst (replay_admit_key key now c) = RD_admitted \<and>
      later < now + ms_to_ns (int (rp_ttl_milliseconds (sr_policy c)))" (is ?D)
proof -
  define c1 where "c1 = (if now \<ge> sr_next_sweep c then (replay_expire now c)\<lparr>sr_next_sweep := now + 1000000000\<rparr> else c)"
  have c1: "replay_inv c1" "sr_policy c1 = sr_policy c" "\<And>k t. now \<le> t \<Longrightarrow> retained c1 k t = retained c k t"
    using inv replay_expire_eq [OF inv, of now] replay_expire_retained [OF inv, of now]
    by (auto simp: c1_def replay_inv_def peer_count_of_def signer_entries_def retained_def)
  have wf: "om_wf (sr_entries c1)" using c1 by (simp add: replay_inv_def)
  note unf = replay_admit_key_def Let_def c1_def [symmetric]
  consider (new) "map_of (sr_entries c1) key = None"
    | (dup) x where "map_of (sr_entries c1) key = Some x" "now < x"
    | (stale) x where "map_of (sr_entries c1) key = Some x" "x \<le> now"
    by (meson not_le option.exhaust)
  then have "?A \<and> ?B \<and> ?C \<and> ?D"
  proof cases
    case new
    then have "\<not> retained c1 key now" by (simp add: retained_def)
    then show ?thesis
      unfolding unf using new c1 replay_insert_inv [OF c1(1) new] replay_insert_retained [OF c1(1) new assms(2)] assms(2)
      by simp
  next
    case dup
    then have "retained c1 key now" by (simp add: retained_def)
    then show ?thesis
      unfolding unf using dup c1 assms(2)
      by (auto simp: replay_inv_def peer_count_of_def signer_entries_def retained_def)
  next
    case stale
    let ?c = "evict_entry key c1"
    have i: "replay_inv ?c" using evict_entry_inv [OF c1(1) stale(1)] .
    have n: "map_of (sr_entries ?c) key = None" by (simp add: om_simps)
    have r: "retained ?c k later = retained c1 k later"
      using stale assms(2) by (auto simp: retained_def om_simps)
    have "\<not> retained c1 key now" using stale by (simp add: retained_def)
    then show ?thesis
      unfolding unf using stale c1 r replay_insert_inv [OF i n] replay_insert_retained [OF i n assms(2)] assms(2)
      by simp
  qed
  then show ?A ?B ?C ?D by blast+
qed

lemma replay_step_retained:
  assumes inv: "replay_inv c" and "replay_op_time x \<le> later"
  shows "replay_inv (replay_step x c)" "sr_policy (replay_step x c) = sr_policy c"
    "retained (replay_step x c) k later \<longleftrightarrow> retained c k later \<or>
      (\<exists>t. (k, t) \<in> granted x c \<and> later < t + ms_to_ns (int (rp_ttl_milliseconds (sr_policy c))))"
proof -
  show "replay_inv (replay_step x c)" "sr_policy (replay_step x c) = sr_policy c"
    using replay_admit_step [OF inv order_refl] replay_expire_eq [OF inv] by (cases x; simp)+
  show "retained (replay_step x c) k later \<longleftrightarrow> retained c k later \<or>
      (\<exists>t. (k, t) \<in> granted x c \<and> later < t + ms_to_ns (int (rp_ttl_milliseconds (sr_policy c))))"
  proof (cases x)
    case (ReplayAdmit key now)
    then show ?thesis using replay_admit_step(4) [OF inv, of now later key k] assms(2) by auto
  next
    case (ReplayExpire now)
    then show ?thesis using replay_expire_retained [OF inv, of now later k] assms(2) by auto
  qed
qed

lemma replay_run_retained:
  assumes "replay_inv c" "\<forall>x \<in> set xs. replay_op_time x \<le> later"
  shows "replay_inv (run replay_step xs c) \<and> (retained (run replay_step xs c) k later \<longleftrightarrow> retained c k later \<or>
      (\<exists>t. (k, t) \<in> all_granted xs c \<and> later < t + ms_to_ns (int (rp_ttl_milliseconds (sr_policy c)))))"
  using assms
proof (induction xs arbitrary: c)
  case (Cons x xs)
  note s = replay_step_retained [OF Cons.prems(1), of x later]
  show ?case using Cons.IH [of "replay_step x c"] s Cons.prems(2) by auto
qed simp

lemma replay_create_inv: "replay_create policy = Inr c \<Longrightarrow> replay_inv c \<and> sr_policy c = policy \<and> sr_entries c = []"
  by (auto simp: replay_create_def new_replay_cache_def replay_inv_def peer_count_of_def signer_entries_def
      split: sum.splits if_splits)

lemma replay_step_inv: "replay_inv c \<Longrightarrow> replay_inv (replay_step x c)"
  using replay_step_retained(1) [OF _ order_refl] .

interpretation replay_machine: invariant_machine "\<lambda>c. \<exists>policy. replay_create policy = Inr c" replay_step replay_inv
  by unfold_locales (auto dest: replay_create_inv intro: replay_step_inv)

section \<open>Properties\<close>

text \<open>
  C10: after any run of admissions and sweeps no later than \<open>now\<close>, the guard calls a key a
  duplicate exactly when that key was granted during the run less than the retention time before
  \<open>now\<close>: no replay inside the window passes and no first use is called a replay.
\<close>

theorem replay_guard_exact:
  assumes "replay_create policy = Inr c" "\<forall>x \<in> set xs. replay_op_time x \<le> now"
  shows "fst (replay_admit_key key now (run replay_step xs c)) = RD_duplicate \<longleftrightarrow>
    (\<exists>t. (key, t) \<in> all_granted xs c \<and> now < t + ms_to_ns (int (rp_ttl_milliseconds policy)))"
proof -
  have c: "replay_inv c" "sr_policy c = policy" "\<not> retained c key now"
    using replay_create_inv [OF assms(1)] by (auto simp: retained_def)
  note r = replay_run_retained [OF c(1) assms(2), of key]
  show ?thesis using replay_admit_step(3) [OF conjunct1 [OF r] order_refl] r c by simp
qed

theorem replay_guard_exact_witness:
  "let k = ReplayKey 5 [1] [2] [3] [4] None None; c = new_replay_cache default_replay_policy
   in fst (replay_admit_key k 9 (run replay_step [ReplayAdmit k 5] c)) = RD_duplicate"
proof -
  let ?k = "ReplayKey 5 [1] [2] [3] [4] None None" and ?c = "new_replay_cache default_replay_policy"
  have "replay_create default_replay_policy = Inr ?c"
    by (simp add: replay_create_def validate_security_policy_def default_replay_policy_def default_password_policy_def)
  moreover have "(?k, 5) \<in> all_granted [ReplayAdmit ?k 5] ?c"
    by (simp add: replay_admit_key_def replay_insert_def replay_expire_def new_replay_cache_def
        default_replay_policy_def Let_def)
  moreover have "(9::int) < 5 + ms_to_ns (int (rp_ttl_milliseconds default_replay_policy))"
    by (simp add: default_replay_policy_def replay_cache_ttl_milliseconds_def)
  moreover have "\<forall>x \<in> set [ReplayAdmit ?k 5]. replay_op_time x \<le> 9" by simp
  ultimately show ?thesis
    unfolding Let_def using replay_guard_exact [of default_replay_policy ?c "[ReplayAdmit ?k 5]" 9 ?k] by blast
qed

text \<open>
  After any run the cache holds at most its capacity, the count kept per signer is the number
  of that signer's entries, and no signer has more than its share.
\<close>

theorem replay_counts_exact:
  assumes "replay_create policy = Inr c"
  shows "length (sr_entries (run replay_step xs c)) \<le> rp_capacity policy \<and>
    peer_count_of (run replay_step xs c) s = signer_entries (run replay_step xs c) s \<and>
    signer_entries (run replay_step xs c) s \<le> rp_per_peer_capacity policy"
proof -
  have c: "replay_inv c" "sr_policy c = policy" using replay_create_inv [OF assms] by simp_all
  have inv: "replay_inv (run replay_step xs c)" using assms by (intro replay_machine.inv_reachable) blast
  have pol: "sr_policy (run replay_step ys d) = sr_policy d" if "replay_inv d" for ys d
    using that by (induction ys arbitrary: d) (simp_all add: replay_step_inv replay_step_retained(2) [OF _ order_refl])
  have "sr_policy (run replay_step xs c) = policy" using pol [OF c(1)] c(2) by simp
  then show ?thesis using inv by (simp add: replay_inv_def)
qed

theorem replay_counts_exact_witness:
  "length (sr_entries (run replay_step [ReplayAdmit (ReplayKey 5 [1] [2] [3] [4] None None) 5, ReplayExpire 7]
     (new_replay_cache default_replay_policy))) \<le> 4096"
proof -
  have "replay_create default_replay_policy = Inr (new_replay_cache default_replay_policy)"
    by (simp add: replay_create_def validate_security_policy_def default_replay_policy_def default_password_policy_def)
  moreover have "rp_capacity default_replay_policy = 4096" by (simp add: default_replay_policy_def)
  ultimately show ?thesis using replay_counts_exact by metis
qed

text \<open>
  an admission of a new signer that a full cache rejects leaves a count of zero behind for the
  signer, which no sweep removes: the counts outgrow the cache's capacity.
\<close>

theorem replay_peer_counts_leak:
  assumes "om_wf (sr_per_peer c)" "now < sr_next_sweep c" "rp_capacity (sr_policy c) \<le> length (sr_entries c)"
    and "map_of (sr_entries c) key = None" "map_of (sr_per_peer c) (rk_signer key) = None"
  shows "fst (replay_admit_key key now c) = RD_capacity_rejected \<and>
    map_of (sr_per_peer (snd (replay_admit_key key now c))) (rk_signer key) = Some 0 \<and>
    length (sr_per_peer (snd (replay_admit_key key now c))) = Suc (length (sr_per_peer c))"
  using assms by (simp add: replay_admit_key_def replay_insert_def Let_def om_simps)

theorem replay_peer_counts_leak_witness:
  "let c = \<lparr>sr_policy = default_replay_policy\<lparr>rp_capacity := 1\<rparr>,
        sr_entries = [(ReplayKey 5 [1] [2] [3] [4] None None, 100)], sr_per_peer = [([1], 1)],
        sr_next_sweep = 50, sr_diagnostics = replay_no_diagnostics\<rparr>
   in length (sr_per_peer (snd (replay_admit_key (ReplayKey 5 [9] [2] [3] [4] None None) 7 c))) = 2"
proof -
  let ?c = "\<lparr>sr_policy = default_replay_policy\<lparr>rp_capacity := 1\<rparr>,
        sr_entries = [(ReplayKey 5 [1] [2] [3] [4] None None, 100)], sr_per_peer = [([1], 1)],
        sr_next_sweep = 50, sr_diagnostics = replay_no_diagnostics\<rparr>"
  show ?thesis
    using replay_peer_counts_leak [of ?c 7 "ReplayKey 5 [9] [2] [3] [4] None None"]
    by (simp add: om_wf_def)
qed

end
