(* ===== verification/Heyaki_Channels.thy ===== *)
theory Heyaki_Channels
  imports Heyaki_Frame_Stream
begin

text \<open>
  The logical channels of a peer session (\<open>session_channels.hpp\<close> and \<open>.cpp\<close>): bounded queues
  per channel and per peer, a reserved budget for control frames, the weighted scheduler that
  picks the next frame, and the cancellable waits for capacity.
\<close>

section \<open>Domains, classes and budgets\<close>

datatype ChannelDomain =
  CD_control | CD_message | CD_rpc | CD_event | CD_file | CD_shell | CD_stream

fun channel_domain_name :: "ChannelDomain \<Rightarrow> string" where
  "channel_domain_name CD_control = ''control''"
| "channel_domain_name CD_message = ''message''"
| "channel_domain_name CD_rpc = ''rpc''"
| "channel_domain_name CD_event = ''event''"
| "channel_domain_name CD_file = ''file''"
| "channel_domain_name CD_shell = ''shell''"
| "channel_domain_name CD_stream = ''stream''"

definition is_control_domain_frame_type :: "byte \<Rightarrow> bool" where
  "is_control_domain_frame_type type \<longleftrightarrow> type < ft_message"

definition frame_type_domain :: "byte \<Rightarrow> ChannelDomain option" where
  "frame_type_domain type =
    (if type = ft_message \<or> type = ft_message_ack then Some CD_message
     else if type = ft_rpc_request \<or> type = ft_rpc_response \<or> type = ft_rpc_cancel then Some CD_rpc
     else if type = ft_event_subscribe \<or> type = ft_event_item \<or> type = ft_event_unsubscribe then
       Some CD_event
     else if type = ft_file_manifest \<or> type = ft_file_accept \<or> type = ft_file_chunk \<or>
             type = ft_file_complete \<or> type = ft_file_reject then Some CD_file
     else if type = ft_shell_open \<or> type = ft_shell_input \<or> type = ft_shell_output \<or>
             type = ft_shell_resize \<or> type = ft_shell_signal \<or> type = ft_shell_exit \<or>
             type = ft_shell_eof \<or> type = ft_shell_error \<or> type = ft_shell_close then Some CD_shell
     else if type = ft_stream_open \<or> type = ft_stream_data \<or> type = ft_stream_window_update \<or>
             type = ft_stream_fin \<or> type = ft_stream_reset then Some CD_stream
     else None)"

datatype FrameClass = FC_control | FC_interactive | FC_standard | FC_bulk

text \<open>The classes in the order of their numeric values, the order in which loops visit them.\<close>

definition frame_classes :: "FrameClass list" where
  "frame_classes = [FC_control, FC_interactive, FC_standard, FC_bulk]"

definition default_frame_class :: "byte \<Rightarrow> FrameClass" where
  "default_frame_class type =
    (if type = ft_session_hello \<or> type = ft_protocol_close \<or> type = ft_ping \<or> type = ft_pong \<or>
        type = ft_cancel \<or> type = ft_session_restart_offer \<or> type = ft_session_restart_answer \<or>
        type = ft_session_restart_candidate \<or> type = ft_pairing_request \<or>
        type = ft_pairing_result then FC_control
     else if type = ft_stream_window_update \<or> type = ft_stream_reset \<or> type = ft_stream_fin \<or>
             type = ft_message_ack then FC_control
     else if type = ft_shell_input \<or> type = ft_shell_output \<or> type = ft_shell_resize \<or>
             type = ft_shell_signal then FC_interactive
     else if type = ft_file_chunk \<or> type = ft_event_item then FC_bulk
     else FC_standard)"

fun frame_class_weight :: "FrameClass \<Rightarrow> nat" where
  "frame_class_weight FC_control = 8"
| "frame_class_weight FC_interactive = 8"
| "frame_class_weight FC_standard = 4"
| "frame_class_weight FC_bulk = 1"

record ChannelBudgetConfig =
  cb_max_open_channels :: nat
  cb_per_peer_queued_frames :: nat
  cb_per_peer_queued_bytes :: nat
  cb_control_reserved_frames :: nat
  cb_control_reserved_bytes :: nat
  cb_max_channel_queued_frames :: nat
  cb_max_channel_queued_bytes :: nat

definition default_channel_budget :: ChannelBudgetConfig where
  "default_channel_budget = \<lparr>cb_max_open_channels = 16, cb_per_peer_queued_frames = 1024,
     cb_per_peer_queued_bytes = 8 * 1024 * 1024, cb_control_reserved_frames = 64,
     cb_control_reserved_bytes = 64 * 1024, cb_max_channel_queued_frames = 1024,
     cb_max_channel_queued_bytes = 8 * 1024 * 1024\<rparr>"

definition session_channel_error :: "ErrorCode \<Rightarrow> string \<Rightarrow> Error" where
  "session_channel_error code detail = err code ''session_channels'' detail"

definition validate_channel_budget_config :: "ChannelBudgetConfig \<Rightarrow> unit result" where
  "validate_channel_budget_config config =
    (let max_queued_frames = 65536; max_queued_bytes = 256 * 1024 * 1024;
         failure = (\<lambda>detail. Inl (session_channel_error EC_configuration detail))
     in if cb_max_open_channels config = 0 \<or> cb_max_open_channels config > 1024 then
          failure ''max_open_channels_invalid''
        else if cb_per_peer_queued_frames config = 0 \<or>
                cb_per_peer_queued_frames config > max_queued_frames \<or>
                cb_per_peer_queued_bytes config = 0 \<or>
                cb_per_peer_queued_bytes config > max_queued_bytes then
          failure ''per_peer_budget_invalid''
        else if cb_control_reserved_frames config = 0 \<or> cb_control_reserved_bytes config = 0 then
          failure ''control_reservation_invalid''
        else if cb_max_channel_queued_frames config = 0 \<or>
                cb_max_channel_queued_frames config > max_queued_frames \<or>
                cb_max_channel_queued_bytes config = 0 \<or>
                cb_max_channel_queued_bytes config > max_queued_bytes then
          failure ''channel_queue_bounds_invalid''
        else if cb_control_reserved_frames config > cb_per_peer_queued_frames config \<or>
                cb_control_reserved_bytes config > cb_per_peer_queued_bytes config then
          failure ''control_reservation_exceeds_budget''
        else Inr ())"

datatype QueueFullPolicy = QP_reject | QP_drop_oldest | QP_keep_latest

fun queue_full_policy_name :: "QueueFullPolicy \<Rightarrow> string" where
  "queue_full_policy_name QP_reject = ''reject''"
| "queue_full_policy_name QP_drop_oldest = ''drop_oldest''"
| "queue_full_policy_name QP_keep_latest = ''keep_latest''"

section \<open>State\<close>

record ChannelQueueStats =
  cq_queued_frames :: u64
  cq_queued_bytes :: u64
  cq_sent_frames :: u64
  cq_sent_bytes :: u64
  cq_dropped_frames :: u64
  cq_dropped_bytes :: u64
  cq_rejected_frames :: u64
  cq_capacity_waits_completed :: u64

definition no_queue_stats :: ChannelQueueStats where
  "no_queue_stats = \<lparr>cq_queued_frames = 0, cq_queued_bytes = 0, cq_sent_frames = 0,
     cq_sent_bytes = 0, cq_dropped_frames = 0, cq_dropped_bytes = 0, cq_rejected_frames = 0,
     cq_capacity_waits_completed = 0\<rparr>"

record SessionChannelSnapshot =
  sn_channel_id :: u32
  sn_domain :: ChannelDomain
  sn_open :: bool
  sn_stats :: ChannelQueueStats

record QueuedSendFrame =
  qs_channel_id :: u32
  qs_frame_class :: FrameClass
  qs_frame :: Frame

record EnqueueReceipt =
  rc_admitted :: bool
  rc_dropped_previous :: bool
  rc_dropped_frames :: u64

text \<open>
  The control block of a capacity wait.  \<open>tc_manager\<close> tells whether its back pointer to the
  manager is set.
\<close>

record TicketControl =
  tc_channel_id :: u32
  tc_waiter_id :: u64
  tc_completed :: bool
  tc_manager :: bool

record ChannelState =
  cs_domain :: ChannelDomain
  cs_policy :: QueueFullPolicy
  cs_queued_frame_capacity :: nat
  cs_queued_byte_capacity :: nat
  cs_queued_frames :: nat
  cs_queued_bytes :: nat
  cs_stats :: ChannelQueueStats
  cs_waiters :: "u64 list"
  cs_open :: bool

text \<open>
  The manager.  A class that has no entry in \<open>class_queues_\<close> reads as an empty queue, so the
  queues and the tokens are functions of the class.  The control blocks are owned by the tickets
  their callers hold: \<open>cm_controls\<close> is the heap they live in, by address, and \<open>cm_waiters\<close> holds
  the addresses the manager knows.  \<open>cm_completions\<close> records every call of a completion callback,
  in order; the callbacks themselves belong to the callers, and they do not call the manager.
\<close>

record SessionChannelManager =
  cm_config :: ChannelBudgetConfig
  cm_limits :: Limits
  cm_channels :: "(u32, ChannelState) omap"
  cm_queues :: "FrameClass \<Rightarrow> QueuedSendFrame list"
  cm_tokens :: "FrameClass \<Rightarrow> nat"
  cm_business_queued_frames :: nat
  cm_business_queued_bytes :: nat
  cm_control_queued_frames :: nat
  cm_control_queued_bytes :: nat
  cm_waiters :: "(u64, nat) omap"
  cm_next_waiter_id :: u64
  cm_waiter_capacity :: nat
  cm_controls :: "(nat, TicketControl) omap"
  cm_next_address :: nat
  cm_completions :: "(nat \<times> unit result) list"

definition channel_manager :: "ChannelBudgetConfig \<Rightarrow> Limits \<Rightarrow> SessionChannelManager" where
  "channel_manager config limits = \<lparr>cm_config = config, cm_limits = limits, cm_channels = [],
     cm_queues = (\<lambda>_. []), cm_tokens = frame_class_weight,
     cm_business_queued_frames = 0, cm_business_queued_bytes = 0,
     cm_control_queued_frames = 0, cm_control_queued_bytes = 0,
     cm_waiters = [], cm_next_waiter_id = 1, cm_waiter_capacity = 64,
     cm_controls = [], cm_next_address = 0, cm_completions = []\<rparr>"

text \<open>
  \<open>frame_wire_size\<close> dereferences the value pointer of the encoder's result without a test; for a
  frame the encoder refuses that pointer is null and the result is \<^const>\<open>None\<close>.
\<close>

definition frame_wire_size :: "Limits \<Rightarrow> Frame \<Rightarrow> nat option" where
  "frame_wire_size limits f =
     value_if (stream_encoded_size limits (fr_channel_id f) (length (fr_payload f)))"

abbreviation put_channel :: "u32 \<Rightarrow> ChannelState \<Rightarrow> SessionChannelManager \<Rightarrow> SessionChannelManager" where
  "put_channel cid ch m \<equiv> m\<lparr>cm_channels := om_put cid ch (cm_channels m)\<rparr>"

section \<open>Channels\<close>

definition open_channel :: "u32 \<Rightarrow> ChannelDomain \<Rightarrow> QueueFullPolicy \<Rightarrow> nat \<Rightarrow> nat \<Rightarrow>
    SessionChannelManager \<Rightarrow> unit result \<times> SessionChannelManager" where
  "open_channel cid domain policy frame_capacity byte_capacity m =
    (let failure = (\<lambda>code detail. (Inl (session_channel_error code detail), m)); config = cm_config m
     in if cid = 0 \<or> domain = CD_control then
          failure EC_configuration ''business_channel_id_invalid''
        else if length (cm_channels m) \<ge> cb_max_open_channels config \<and>
                map_of (cm_channels m) cid = None then
          failure EC_resource_exhausted ''open_channel_limit''
        else if frame_capacity = 0 \<or> frame_capacity > cb_max_channel_queued_frames config then
          failure EC_configuration ''channel_frame_capacity_invalid''
        else if byte_capacity = 0 \<or> byte_capacity > cb_max_channel_queued_bytes config then
          failure EC_configuration ''channel_byte_capacity_invalid''
        else if map_of (cm_channels m) cid \<noteq> None then
          failure EC_configuration ''channel_id_in_use''
        else (Inr (), put_channel cid \<lparr>cs_domain = domain, cs_policy = policy,
               cs_queued_frame_capacity = frame_capacity, cs_queued_byte_capacity = byte_capacity,
               cs_queued_frames = 0, cs_queued_bytes = 0, cs_stats = no_queue_stats,
               cs_waiters = [], cs_open = True\<rparr> m))"

text \<open>
  The loop of \<open>allocate_channel\<close>: the 32-bit candidate is compared with the \<open>std::size_t\<close> bound
  \<open>2 * max_open_channels + 2\<close>.  The first argument bounds the number of rounds: a candidate that
  grows by two passes the bound after \<open>max_open_channels + 1\<close> rounds, unless the bound exceeds
  the 32-bit range, which a validated configuration excludes.
\<close>

fun allocate_loop :: "nat \<Rightarrow> u32 \<Rightarrow> SessionChannelManager \<Rightarrow> u32 option option" where
  "allocate_loop 0 candidate m = None"
| "allocate_loop (Suc fuel) candidate m =
    (if unat candidate < 2 * cb_max_open_channels (cm_config m) + 2 then
       if map_of (cm_channels m) candidate = None then Some (Some candidate)
       else allocate_loop fuel (candidate + 2) m
     else Some None)"

definition allocate_channel :: "bool \<Rightarrow> ChannelDomain \<Rightarrow> QueueFullPolicy \<Rightarrow> nat \<Rightarrow> nat \<Rightarrow>
    SessionChannelManager \<Rightarrow> (u32 result \<times> SessionChannelManager) option" where
  "allocate_channel initiator_role domain policy frame_capacity byte_capacity m =
    (case allocate_loop (cb_max_open_channels (cm_config m) + 2) (if initiator_role then 1 else 2) m of
       None \<Rightarrow> None
     | Some None \<Rightarrow>
         Some (Inl (session_channel_error EC_resource_exhausted ''channel_id_space_exhausted''), m)
     | Some (Some candidate) \<Rightarrow>
       (case open_channel candidate domain policy frame_capacity byte_capacity m of
          (Inl e, m1) \<Rightarrow> Some (Inl e, m1)
        | (Inr _, m1) \<Rightarrow> Some (Inr candidate, m1)))"

section \<open>Capacity waits\<close>

definition complete_waiter :: "u64 \<Rightarrow> unit result \<Rightarrow> SessionChannelManager \<Rightarrow> SessionChannelManager" where
  "complete_waiter wid r m =
    (case map_of (cm_waiters m) wid of
       None \<Rightarrow> m
     | Some a \<Rightarrow>
       let m1 = m\<lparr>cm_waiters := om_del wid (cm_waiters m)\<rparr>
       in case map_of (cm_controls m) a of
            None \<Rightarrow> m1
          | Some c \<Rightarrow> m1\<lparr>cm_controls := om_put a (c\<lparr>tc_manager := False, tc_completed := True\<rparr>) (cm_controls m),
                           cm_completions := cm_completions m @ [(a, r)]\<rparr>)"

definition detach_waiter :: "u64 \<Rightarrow> SessionChannelManager \<Rightarrow> SessionChannelManager" where
  "detach_waiter wid m = m\<lparr>cm_waiters := om_del wid (cm_waiters m),
     cm_channels := map (\<lambda>(cid, ch). (cid, ch\<lparr>cs_waiters := filter (\<lambda>w. w \<noteq> wid) (cs_waiters ch)\<rparr>))
       (cm_channels m)\<rparr>"

text \<open>The destructor and \<open>cancel\<close> of a ticket whose control block is at address \<open>a\<close>.\<close>

definition ticket_detach :: "nat \<Rightarrow> SessionChannelManager \<Rightarrow> SessionChannelManager" where
  "ticket_detach a m =
    (case map_of (cm_controls m) a of
       None \<Rightarrow> m
     | Some c \<Rightarrow>
       let m1 = (if tc_completed c then m
                 else m\<lparr>cm_completions := cm_completions m @
                        [(a, Inl (session_channel_error EC_cancelled ''capacity_wait_cancelled''))]\<rparr>);
           m2 = (if tc_manager c then detach_waiter (tc_waiter_id c) m1 else m1)
       in m2\<lparr>cm_controls := om_del a (cm_controls m2)\<rparr>)"

definition ticket_channel_id :: "nat \<Rightarrow> SessionChannelManager \<Rightarrow> u32" where
  "ticket_channel_id a m = (case map_of (cm_controls m) a of None \<Rightarrow> 0 | Some c \<Rightarrow> tc_channel_id c)"

definition has_capacity :: "ChannelState \<Rightarrow> bool" where
  "has_capacity ch \<longleftrightarrow> cs_queued_frames ch < cs_queued_frame_capacity ch \<and>
     cs_queued_bytes ch < cs_queued_byte_capacity ch"

text \<open>
  \<open>wait_for_capacity\<close> returns a ticket, here the address of its control block.  The inert ticket
  of the immediate case has no back pointer and waiter id zero.
\<close>

definition wait_for_capacity :: "u32 \<Rightarrow> SessionChannelManager \<Rightarrow> nat result \<times> SessionChannelManager" where
  "wait_for_capacity cid m =
    (case map_of (cm_channels m) cid of
       None \<Rightarrow> (Inl (session_channel_error EC_protocol ''channel_not_open''), m)
     | Some ch \<Rightarrow>
       if \<not> cs_open ch then (Inl (session_channel_error EC_protocol ''channel_not_open''), m)
       else let a = cm_next_address m in
         if has_capacity ch \<and> cm_business_queued_frames m < cb_per_peer_queued_frames (cm_config m) then
           (Inr a, m\<lparr>cm_controls := om_put a \<lparr>tc_channel_id = cid, tc_waiter_id = 0,
                        tc_completed = True, tc_manager = False\<rparr> (cm_controls m),
                     cm_next_address := Suc a, cm_completions := cm_completions m @ [(a, Inr ())]\<rparr>)
         else if length (cm_waiters m) \<ge> cm_waiter_capacity m then
           (Inl (session_channel_error EC_resource_exhausted ''capacity_waiter_limit''), m)
         else
           let wid = cm_next_waiter_id m
           in (Inr a, m\<lparr>cm_next_waiter_id := wid + 1,
                 cm_controls := om_put a \<lparr>tc_channel_id = cid, tc_waiter_id = wid,
                   tc_completed = False, tc_manager = True\<rparr> (cm_controls m),
                 cm_next_address := Suc a,
                 cm_waiters := (if map_of (cm_waiters m) wid = None then om_put wid a (cm_waiters m)
                                else cm_waiters m),
                 cm_channels := om_put cid (ch\<lparr>cs_waiters := cs_waiters ch @ [wid]\<rparr>) (cm_channels m)\<rparr>))"

lemma complete_waiter_channels [simp]: "cm_channels (complete_waiter wid r m) = cm_channels m"
  by (simp add: complete_waiter_def Let_def split: option.splits)

function notify_capacity :: "u32 \<Rightarrow> SessionChannelManager \<Rightarrow> SessionChannelManager" where
  "notify_capacity cid m =
    (case map_of (cm_channels m) cid of
       None \<Rightarrow> m
     | Some ch \<Rightarrow>
       (case cs_waiters ch of
          [] \<Rightarrow> m
        | w # ws \<Rightarrow>
          if has_capacity ch then
            notify_capacity cid (complete_waiter w (Inr ()) (put_channel cid
              (ch\<lparr>cs_waiters := ws, cs_stats := (cs_stats ch)\<lparr>cq_capacity_waits_completed :=
                 cq_capacity_waits_completed (cs_stats ch) + 1\<rparr>\<rparr>) m))
          else m))"
  by auto
termination
  by (relation "measure (\<lambda>(cid, m). case map_of (cm_channels m) cid of None \<Rightarrow> 0
        | Some ch \<Rightarrow> length (cs_waiters ch))") auto

declare notify_capacity.simps [simp del]

text \<open>The manager's destructor fails every registered wait, in the order of the waiter ids.\<close>

function manager_destroy :: "SessionChannelManager \<Rightarrow> SessionChannelManager" where
  "manager_destroy m =
    (case cm_waiters m of
       [] \<Rightarrow> m
     | (wid, a) # ws \<Rightarrow> manager_destroy (complete_waiter wid
         (Inl (session_channel_error EC_cancelled ''session_channels_closed'')) m))"
  by auto
termination
proof (relation "measure (\<lambda>m. length (cm_waiters m))", goal_cases)
  case (2 m p ws wid a)
  then have w: "cm_waiters m = (wid, a) # ws" by simp
  then have "cm_waiters (complete_waiter wid r m) = om_del wid (cm_waiters m)" for r
    by (simp add: complete_waiter_def Let_def split: option.splits)
  then show ?case using w length_om_del_le [of wid ws] by (simp add: om_del_def less_Suc_eq_le)
qed simp

declare manager_destroy.simps [simp del]

section \<open>Closing\<close>

definition close_channel :: "u32 \<Rightarrow> SessionChannelManager \<Rightarrow> SessionChannelManager" where
  "close_channel cid m =
    (case map_of (cm_channels m) cid of
       None \<Rightarrow> m
     | Some ch \<Rightarrow>
       let m1 = put_channel cid (ch\<lparr>cs_open := False, cs_waiters := []\<rparr>) m;
           m2 = fold (\<lambda>w. complete_waiter w (Inl (session_channel_error EC_cancelled ''channel_closed'')))
                  (cs_waiters ch) m1
       in m2\<lparr>cm_queues := (\<lambda>k. filter (\<lambda>q. qs_channel_id q \<noteq> cid) (cm_queues m2 k)),
             cm_business_queued_frames := cm_business_queued_frames m2 -
               min (cm_business_queued_frames m2) (cs_queued_frames ch),
             cm_business_queued_bytes := cm_business_queued_bytes m2 -
               min (cm_business_queued_bytes m2) (cs_queued_bytes ch),
             cm_channels := om_del cid (cm_channels m2)\<rparr>)"

definition close_all :: "SessionChannelManager \<Rightarrow> SessionChannelManager" where
  "close_all m = fold close_channel (map fst (filter (\<lambda>(cid, ch). cs_open ch) (cm_channels m))) m"

section \<open>Enqueue\<close>

text \<open>
  The operations that measure a frame return \<^const>\<open>None\<close> where \<^const>\<open>frame_wire_size\<close> reads
  through the null pointer.
\<close>

type_synonym enqueue_outcome = "(EnqueueReceipt result \<times> SessionChannelManager) option"

definition queue_full :: "nat \<Rightarrow> ChannelState \<Rightarrow> bool" where
  "queue_full sz ch \<longleftrightarrow> sz_add (cs_queued_frames ch) 1 > cs_queued_frame_capacity ch \<or>
     sz_add (cs_queued_bytes ch) sz > cs_queued_byte_capacity ch"

definition push_back :: "FrameClass \<Rightarrow> QueuedSendFrame \<Rightarrow> SessionChannelManager \<Rightarrow> SessionChannelManager" where
  "push_back k q m = m\<lparr>cm_queues := (cm_queues m)(k := cm_queues m k @ [q])\<rparr>"

definition enqueue_control :: "u32 \<Rightarrow> FrameClass \<Rightarrow> Frame \<Rightarrow> SessionChannelManager \<Rightarrow> enqueue_outcome" where
  "enqueue_control cid klass f m =
    (let full = Inl (session_channel_error EC_would_block ''control_reservation_full'')
     in if sz_add (cm_control_queued_frames m) 1 > cb_control_reserved_frames (cm_config m) then
          Some (full, m)
        else case frame_wire_size (cm_limits m) f of
          None \<Rightarrow> None
        | Some sz \<Rightarrow>
          if sz_add (cm_control_queued_bytes m) sz > cb_control_reserved_bytes (cm_config m) then
            Some (full, m)
          else Some (Inr \<lparr>rc_admitted = True, rc_dropped_previous = False, rc_dropped_frames = 0\<rparr>,
            push_back klass \<lparr>qs_channel_id = cid, qs_frame_class = klass, qs_frame = f\<rparr>
              (m\<lparr>cm_control_queued_frames := sz_add (cm_control_queued_frames m) 1,
                cm_control_queued_bytes := sz_add (cm_control_queued_bytes m) sz\<rparr>)))"

definition charge_drop :: "u32 \<Rightarrow> ChannelState \<Rightarrow> nat \<Rightarrow> nat \<Rightarrow> SessionChannelManager \<Rightarrow>
    ChannelState \<times> SessionChannelManager" where
  "charge_drop cid ch frames drop_bytes m =
    (let ch1 = ch\<lparr>cs_queued_frames := cs_queued_frames ch - min (cs_queued_frames ch) frames,
           cs_queued_bytes := cs_queued_bytes ch - min (cs_queued_bytes ch) drop_bytes,
           cs_stats := (cs_stats ch)\<lparr>cq_dropped_frames := cq_dropped_frames (cs_stats ch) + of_nat frames,
             cq_dropped_bytes := cq_dropped_bytes (cs_stats ch) + of_nat drop_bytes\<rparr>\<rparr>
     in (ch1, put_channel cid ch1 (m\<lparr>
           cm_business_queued_frames := cm_business_queued_frames m - min (cm_business_queued_frames m) frames,
           cm_business_queued_bytes := cm_business_queued_bytes m - min (cm_business_queued_bytes m) drop_bytes\<rparr>)))"

text \<open>The first entry of a channel in a queue, and the queue without it.\<close>

fun erase_first :: "u32 \<Rightarrow> QueuedSendFrame list \<Rightarrow> (QueuedSendFrame \<times> QueuedSendFrame list) option" where
  "erase_first cid [] = None"
| "erase_first cid (q # qs) =
    (if qs_channel_id q = cid then Some (q, qs) else map_option (apsnd (Cons q)) (erase_first cid qs))"

text \<open>The loop of \<open>drop_oldest\<close> over the class queues: it stops at the first class that has one.\<close>

fun drop_first :: "FrameClass list \<Rightarrow> u32 \<Rightarrow> (FrameClass \<Rightarrow> QueuedSendFrame list) \<Rightarrow>
    (QueuedSendFrame \<times> (FrameClass \<Rightarrow> QueuedSendFrame list)) option" where
  "drop_first [] cid qs = None"
| "drop_first (k # ks) cid qs =
    (case erase_first cid (qs k) of
       None \<Rightarrow> drop_first ks cid qs
     | Some (q, rest) \<Rightarrow> Some (q, qs(k := rest)))"

text \<open>The summed sizes of the frames that \<open>keep_latest\<close> supersedes, in the order it visits them.\<close>

fun wire_sizes :: "Limits \<Rightarrow> QueuedSendFrame list \<Rightarrow> nat option" where
  "wire_sizes limits [] = Some 0"
| "wire_sizes limits (q # qs) =
    (case (frame_wire_size limits (qs_frame q), wire_sizes limits qs) of
       (Some a, Some b) \<Rightarrow> Some (sz_add a b) | _ \<Rightarrow> None)"

definition channel_entries :: "u32 \<Rightarrow> (FrameClass \<Rightarrow> QueuedSendFrame list) \<Rightarrow> QueuedSendFrame list" where
  "channel_entries cid qs = concat (map (\<lambda>k. filter (\<lambda>q. qs_channel_id q = cid) (qs k)) frame_classes)"

text \<open>
  The eviction step of \<open>enqueue_business\<close>: the channel after it, the manager and the receipt, or
  the refusal of the reject policy.
\<close>

definition evict :: "u32 \<Rightarrow> ChannelState \<Rightarrow> SessionChannelManager \<Rightarrow>
    (ChannelState \<times> SessionChannelManager \<times> EnqueueReceipt) option option" where
  "evict cid ch m =
    (let receipt = \<lparr>rc_admitted = False, rc_dropped_previous = False, rc_dropped_frames = 0\<rparr>
     in case cs_policy ch of
          QP_reject \<Rightarrow> Some None
        | QP_drop_oldest \<Rightarrow>
            if cs_queued_frames ch = 0 then Some (Some (ch, m, receipt))
            else (case drop_first frame_classes cid (cm_queues m) of
                    None \<Rightarrow> Some (Some (ch, m, receipt))
                  | Some (q, qs) \<Rightarrow>
                    (case frame_wire_size (cm_limits m) (qs_frame q) of
                       None \<Rightarrow> None
                     | Some sz \<Rightarrow>
                       let (ch1, m1) = charge_drop cid ch 1 sz (m\<lparr>cm_queues := qs\<rparr>)
                       in Some (Some (ch1, m1, receipt\<lparr>rc_dropped_previous := True, rc_dropped_frames := 1\<rparr>))))
        | QP_keep_latest \<Rightarrow>
            let dropped = channel_entries cid (cm_queues m);
                m1 = m\<lparr>cm_queues := (\<lambda>k. filter (\<lambda>q. qs_channel_id q \<noteq> cid) (cm_queues m k))\<rparr>
            in (case wire_sizes (cm_limits m) dropped of
                  None \<Rightarrow> None
                | Some sz \<Rightarrow>
                  if length dropped > 0 then
                    let (ch1, m2) = charge_drop cid ch (length dropped) sz m1
                    in Some (Some (ch1, m2, receipt\<lparr>rc_dropped_previous := True,
                         rc_dropped_frames := of_nat (length dropped)\<rparr>))
                  else Some (Some (ch, m1, receipt))))"

definition reject_frame :: "u32 \<Rightarrow> ChannelState \<Rightarrow> string \<Rightarrow> SessionChannelManager \<Rightarrow> enqueue_outcome" where
  "reject_frame cid ch detail m =
     Some (Inl (session_channel_error EC_would_block detail),
       put_channel cid (ch\<lparr>cs_stats := (cs_stats ch)\<lparr>cq_rejected_frames :=
         cq_rejected_frames (cs_stats ch) + 1\<rparr>\<rparr>) m)"

text \<open>The part of \<open>enqueue_business\<close> after the eviction.\<close>

definition admit_business :: "u32 \<Rightarrow> FrameClass \<Rightarrow> Frame \<Rightarrow> nat \<Rightarrow> ChannelState \<Rightarrow> EnqueueReceipt \<Rightarrow>
    SessionChannelManager \<Rightarrow> enqueue_outcome" where
  "admit_business cid klass f sz ch receipt m =
    (if queue_full sz ch then reject_frame cid ch ''channel_queue_full'' m
     else Some (Inr (receipt\<lparr>rc_admitted := True\<rparr>),
       push_back klass \<lparr>qs_channel_id = cid, qs_frame_class = klass, qs_frame = f\<rparr>
        (put_channel cid
          (ch\<lparr>cs_queued_frames := sz_add (cs_queued_frames ch) 1,
              cs_queued_bytes := sz_add (cs_queued_bytes ch) sz,
              cs_stats := (cs_stats ch)\<lparr>cq_queued_frames := cq_queued_frames (cs_stats ch) + 1,
                cq_queued_bytes := cq_queued_bytes (cs_stats ch) + of_nat sz\<rparr>\<rparr>)
          (m\<lparr>cm_business_queued_frames := sz_add (cm_business_queued_frames m) 1,
             cm_business_queued_bytes := sz_add (cm_business_queued_bytes m) sz\<rparr>))))"

definition enqueue_business :: "u32 \<Rightarrow> ChannelState \<Rightarrow> FrameClass \<Rightarrow> Frame \<Rightarrow>
    SessionChannelManager \<Rightarrow> enqueue_outcome" where
  "enqueue_business cid ch klass f m =
    (case frame_wire_size (cm_limits m) f of
       None \<Rightarrow> None
     | Some sz \<Rightarrow>
       if sz_add (cm_business_queued_frames m) 1 > cb_per_peer_queued_frames (cm_config m) \<or>
          sz_add (cm_business_queued_bytes m) sz > cb_per_peer_queued_bytes (cm_config m) then
         reject_frame cid ch ''per_peer_budget_full'' m
       else if queue_full sz ch \<or> cs_policy ch = QP_keep_latest then
         (case evict cid ch m of
            None \<Rightarrow> None
          | Some None \<Rightarrow> reject_frame cid ch ''channel_queue_full'' m
          | Some (Some (ch1, m1, receipt)) \<Rightarrow> admit_business cid klass f sz ch1 receipt m1)
       else admit_business cid klass f sz ch
              \<lparr>rc_admitted = False, rc_dropped_previous = False, rc_dropped_frames = 0\<rparr> m)"

definition enqueue :: "u32 \<Rightarrow> FrameClass \<Rightarrow> Frame \<Rightarrow> SessionChannelManager \<Rightarrow> enqueue_outcome" where
  "enqueue cid klass f m =
    (if klass = FC_control then enqueue_control cid klass f m
     else case map_of (cm_channels m) cid of
       None \<Rightarrow> Some (Inl (session_channel_error EC_protocol ''channel_not_open''), m)
     | Some ch \<Rightarrow>
       if \<not> cs_open ch then Some (Inl (session_channel_error EC_protocol ''channel_not_open''), m)
       else enqueue_business cid ch klass f m)"

section \<open>Scheduler\<close>

definition ready_class :: "SessionChannelManager \<Rightarrow> FrameClass option" where
  "ready_class m = find (\<lambda>k. cm_queues m k \<noteq> [] \<and> cm_tokens m k \<noteq> 0) frame_classes"

definition has_sendable_frames :: "SessionChannelManager \<Rightarrow> bool" where
  "has_sendable_frames m = list_ex (\<lambda>k. cm_queues m k \<noteq> []) frame_classes"

definition refill_class_tokens :: "SessionChannelManager \<Rightarrow> SessionChannelManager" where
  "refill_class_tokens m = m\<lparr>cm_tokens := frame_class_weight\<rparr>"

text \<open>The accounting of a business frame that leaves the queue, on its channel.\<close>

definition credit_channel :: "u32 \<Rightarrow> nat \<Rightarrow> SessionChannelManager \<Rightarrow> SessionChannelManager" where
  "credit_channel cid sz m =
    (case map_of (cm_channels m) cid of
       None \<Rightarrow> m
     | Some ch \<Rightarrow>
       let m1 = put_channel cid
             (ch\<lparr>cs_queued_frames := sz_dec (cs_queued_frames ch),
                 cs_queued_bytes := cs_queued_bytes ch - min (cs_queued_bytes ch) sz,
                 cs_stats := (cs_stats ch)\<lparr>cq_sent_frames := cq_sent_frames (cs_stats ch) + 1,
                   cq_sent_bytes := cq_sent_bytes (cs_stats ch) + of_nat sz\<rparr>\<rparr>) m
       in if cs_waiters ch \<noteq> [] then notify_capacity cid m1 else m1)"

text \<open>The body of the loop of \<open>next_to_send\<close> for the class it settles on.\<close>

definition transmit :: "FrameClass \<Rightarrow> SessionChannelManager \<Rightarrow>
    (QueuedSendFrame \<times> SessionChannelManager) option" where
  "transmit k m =
    (let q = hd (cm_queues m k);
         m1 = m\<lparr>cm_queues := (cm_queues m)(k := tl (cm_queues m k)),
                cm_tokens := (cm_tokens m)(k := cm_tokens m k - 1)\<rparr>
     in case frame_wire_size (cm_limits m) (qs_frame q) of
          None \<Rightarrow> None
        | Some sz \<Rightarrow>
          if qs_frame_class q = FC_control then
            Some (q, m1\<lparr>cm_control_queued_frames := sz_dec (cm_control_queued_frames m1),
                        cm_control_queued_bytes := cm_control_queued_bytes m1 -
                          min (cm_control_queued_bytes m1) sz\<rparr>)
          else
            let m2 = credit_channel (qs_channel_id q) sz m1
            in Some (q, m2\<lparr>cm_business_queued_frames := sz_dec (cm_business_queued_frames m2),
                           cm_business_queued_bytes := cm_business_queued_bytes m2 -
                             min (cm_business_queued_bytes m2) sz\<rparr>))"

lemma ready_after_refill:
  "has_sendable_frames m \<Longrightarrow> ready_class (refill_class_tokens m) \<noteq> None"
  by (auto simp: has_sendable_frames_def ready_class_def refill_class_tokens_def frame_classes_def)

function next_to_send :: "SessionChannelManager \<Rightarrow>
    (QueuedSendFrame option \<times> SessionChannelManager) option" where
  "next_to_send m =
    (case ready_class m of
       Some k \<Rightarrow> map_option (apfst Some) (transmit k m)
     | None \<Rightarrow> if has_sendable_frames m then next_to_send (refill_class_tokens m) else Some (None, m))"
  by auto
termination
  by (relation "measure (\<lambda>m. if ready_class m = None then 1 else 0)") (auto dest: ready_after_refill)

declare next_to_send.simps [simp del]

definition return_to_send :: "QueuedSendFrame \<Rightarrow> SessionChannelManager \<Rightarrow> SessionChannelManager option" where
  "return_to_send q m =
    (case frame_wire_size (cm_limits m) (qs_frame q) of
       None \<Rightarrow> None
     | Some sz \<Rightarrow>
       let m1 = (if qs_frame_class q = FC_control then
               m\<lparr>cm_control_queued_frames := sz_add (cm_control_queued_frames m) 1,
                 cm_control_queued_bytes := sz_add (cm_control_queued_bytes m) sz\<rparr>
             else
               (case map_of (cm_channels m) (qs_channel_id q) of None \<Rightarrow> m
                | Some ch \<Rightarrow> put_channel (qs_channel_id q)
                    (ch\<lparr>cs_queued_frames := sz_add (cs_queued_frames ch) 1,
                        cs_queued_bytes := sz_add (cs_queued_bytes ch) sz\<rparr>) m)
               \<lparr>cm_business_queued_frames := sz_add (cm_business_queued_frames m) 1,
                cm_business_queued_bytes := sz_add (cm_business_queued_bytes m) sz\<rparr>)
       in Some (m1\<lparr>cm_queues := (cm_queues m1)(qs_frame_class q := q # cm_queues m1 (qs_frame_class q))\<rparr>))"

section \<open>Observers\<close>

definition has_channel :: "SessionChannelManager \<Rightarrow> u32 \<Rightarrow> bool" where
  "has_channel m cid \<longleftrightarrow> map_of (cm_channels m) cid \<noteq> None"

definition channel_domain :: "SessionChannelManager \<Rightarrow> u32 \<Rightarrow> ChannelDomain option" where
  "channel_domain m cid = map_option cs_domain (map_of (cm_channels m) cid)"

definition open_channel_count :: "SessionChannelManager \<Rightarrow> nat" where
  "open_channel_count m = length (cm_channels m)"

definition channel_snapshots :: "SessionChannelManager \<Rightarrow> SessionChannelSnapshot list" where
  "channel_snapshots m = map (\<lambda>(cid, ch). \<lparr>sn_channel_id = cid, sn_domain = cs_domain ch,
     sn_open = cs_open ch, sn_stats = cs_stats ch\<rparr>) (cm_channels m)"

definition total_queued_frames :: "SessionChannelManager \<Rightarrow> nat" where
  "total_queued_frames m = sz_add (cm_business_queued_frames m) (cm_control_queued_frames m)"

definition total_queued_bytes :: "SessionChannelManager \<Rightarrow> nat" where
  "total_queued_bytes m = sz_add (cm_business_queued_bytes m) (cm_control_queued_bytes m)"

section \<open>Runs\<close>

text \<open>
  The calls a peer session makes.  \<open>ChPump\<close> is one round of \<open>PeerSession::pump\<close>: the scheduler's
  frame goes to the transport, and a transport that would block gives it back at once.  A manager
  of \<^const>\<open>None\<close> is the undefined behaviour of a null dereference.
\<close>

datatype ChannelOp =
    ChOpen u32 ChannelDomain QueueFullPolicy nat nat
  | ChAllocate bool ChannelDomain QueueFullPolicy nat nat
  | ChClose u32 | ChCloseAll
  | ChEnqueue u32 FrameClass Frame
  | ChPump bool
  | ChWait u32 | ChCancel nat

definition pump_round :: "bool \<Rightarrow> SessionChannelManager \<Rightarrow> SessionChannelManager option" where
  "pump_round writable m =
    (case next_to_send m of
       None \<Rightarrow> None
     | Some (None, m1) \<Rightarrow> Some m1
     | Some (Some q, m1) \<Rightarrow> if writable then Some m1 else return_to_send q m1)"

fun channel_step :: "ChannelOp \<Rightarrow> SessionChannelManager option \<Rightarrow> SessionChannelManager option" where
  "channel_step x None = None"
| "channel_step (ChOpen cid domain policy fc bc) (Some m) = Some (snd (open_channel cid domain policy fc bc m))"
| "channel_step (ChAllocate role domain policy fc bc) (Some m) =
     map_option snd (allocate_channel role domain policy fc bc m)"
| "channel_step (ChClose cid) (Some m) = Some (close_channel cid m)"
| "channel_step ChCloseAll (Some m) = Some (close_all m)"
| "channel_step (ChEnqueue cid klass f) (Some m) = map_option snd (enqueue cid klass f m)"
| "channel_step (ChPump writable) (Some m) = pump_round writable m"
| "channel_step (ChWait cid) (Some m) = Some (snd (wait_for_capacity cid m))"
| "channel_step (ChCancel a) (Some m) = Some (ticket_detach a m)"
end
