(* ===== verification/Heyaki_Channel_Budgets.thy ===== *)
theory Heyaki_Channel_Budgets
  imports Heyaki_Channels
begin

text \<open>
  The accounting of the session's channels: what the counters of a manager are about, and that
  every operation keeps them equal to the queues' contents and within the configured budgets.
\<close>


section \<open>Accounting\<close>

text \<open>
  The part of a manager that the budgets are about: everything but the statistics and the
  capacity waits.
\<close>

definition plain :: "ChannelState \<Rightarrow> ChannelState" where
  "plain ch = ch\<lparr>cs_waiters := [], cs_stats := no_queue_stats\<rparr>"

definition acct :: "SessionChannelManager \<Rightarrow> SessionChannelManager" where
  "acct m = m\<lparr>cm_channels := map (map_prod id plain) (cm_channels m), cm_waiters := [],
     cm_next_waiter_id := 0, cm_controls := [], cm_next_address := 0, cm_completions := []\<rparr>"

text \<open>The summed weights of the queued business frames.\<close>

definition tally :: "(QueuedSendFrame \<Rightarrow> nat) \<Rightarrow> (FrameClass \<Rightarrow> QueuedSendFrame list) \<Rightarrow> nat" where
  "tally w qs = sum_list (map w (qs FC_interactive @ qs FC_standard @ qs FC_bulk))"

abbreviation frame_size :: "Limits \<Rightarrow> QueuedSendFrame \<Rightarrow> nat" where
  "frame_size limits q \<equiv> the (frame_wire_size limits (qs_frame q))"

abbreviation on_channel :: "u32 \<Rightarrow> QueuedSendFrame \<Rightarrow> nat" where
  "on_channel cid q \<equiv> of_bool (qs_channel_id q = cid)"

definition queues_ok :: "SessionChannelManager \<Rightarrow> bool" where
  "queues_ok m \<longleftrightarrow> (\<forall>k. \<forall>q \<in> set (cm_queues m k). qs_frame_class q = k \<and>
     frame_wire_size (cm_limits m) (qs_frame q) \<noteq> None \<and>
     (k = FC_control \<longrightarrow> qs_channel_id q = 0) \<and>
     (k \<noteq> FC_control \<longrightarrow> map_of (cm_channels m) (qs_channel_id q) \<noteq> None))"

definition channel_ok :: "SessionChannelManager \<Rightarrow> u32 \<Rightarrow> ChannelState \<Rightarrow> bool" where
  "channel_ok m cid ch \<longleftrightarrow> cid \<noteq> 0 \<and> cs_open ch \<and> cs_domain ch \<noteq> CD_control \<and>
     cs_queued_frames ch = tally (on_channel cid) (cm_queues m) \<and>
     cs_queued_bytes ch = tally (\<lambda>q. on_channel cid q * frame_size (cm_limits m) q) (cm_queues m) \<and>
     cs_queued_frames ch \<le> cs_queued_frame_capacity ch \<and>
     cs_queued_bytes ch \<le> cs_queued_byte_capacity ch \<and>
     cs_queued_frame_capacity ch \<le> cb_max_channel_queued_frames (cm_config m) \<and>
     cs_queued_byte_capacity ch \<le> cb_max_channel_queued_bytes (cm_config m)"

definition budgets_ok :: "SessionChannelManager \<Rightarrow> bool" where
  "budgets_ok m \<longleftrightarrow>
     cm_business_queued_frames m = tally (\<lambda>_. 1) (cm_queues m) \<and>
     cm_business_queued_bytes m = tally (frame_size (cm_limits m)) (cm_queues m) \<and>
     cm_control_queued_frames m = length (cm_queues m FC_control) \<and>
     cm_control_queued_bytes m = sum_list (map (frame_size (cm_limits m)) (cm_queues m FC_control)) \<and>
     cm_business_queued_frames m \<le> cb_per_peer_queued_frames (cm_config m) \<and>
     cm_business_queued_bytes m \<le> cb_per_peer_queued_bytes (cm_config m) \<and>
     cm_control_queued_frames m \<le> cb_control_reserved_frames (cm_config m) \<and>
     cm_control_queued_bytes m \<le> cb_control_reserved_bytes (cm_config m)"

definition channel_inv :: "SessionChannelManager \<Rightarrow> bool" where
  "channel_inv m \<longleftrightarrow> validate_channel_budget_config (cm_config m) = Inr () \<and>
     om_wf (cm_channels m) \<and> length (cm_channels m) \<le> cb_max_open_channels (cm_config m) \<and>
     queues_ok m \<and> list_all (\<lambda>(cid, ch). channel_ok m cid ch) (cm_channels m) \<and> budgets_ok m \<and>
     (\<forall>k. cm_tokens m k \<le> frame_class_weight k)"

section \<open>Lemmas\<close>

lemma plain_simps [simp]:
  "cs_domain (plain ch) = cs_domain ch" "cs_policy (plain ch) = cs_policy ch"
  "cs_queued_frame_capacity (plain ch) = cs_queued_frame_capacity ch"
  "cs_queued_byte_capacity (plain ch) = cs_queued_byte_capacity ch"
  "cs_queued_frames (plain ch) = cs_queued_frames ch" "cs_queued_bytes (plain ch) = cs_queued_bytes ch"
  "cs_open (plain ch) = cs_open ch"
  "plain (ch\<lparr>cs_waiters := ws\<rparr>) = plain ch" "plain (ch\<lparr>cs_stats := st\<rparr>) = plain ch"
  by (simp_all add: plain_def)

lemma acct_simps [simp]:
  "cm_config (acct m) = cm_config m" "cm_limits (acct m) = cm_limits m"
  "cm_channels (acct m) = map (map_prod id plain) (cm_channels m)"
  "cm_queues (acct m) = cm_queues m" "cm_tokens (acct m) = cm_tokens m"
  "cm_business_queued_frames (acct m) = cm_business_queued_frames m"
  "cm_business_queued_bytes (acct m) = cm_business_queued_bytes m"
  "cm_control_queued_frames (acct m) = cm_control_queued_frames m"
  "cm_control_queued_bytes (acct m) = cm_control_queued_bytes m"
  by (simp_all add: acct_def)

lemma channel_inv_acct: "channel_inv (acct m) \<longleftrightarrow> channel_inv m"
proof -
  have "queues_ok (acct m) \<longleftrightarrow> queues_ok m" by (simp add: queues_ok_def map_of_map_prod)
  moreover have "budgets_ok (acct m) \<longleftrightarrow> budgets_ok m" by (simp add: budgets_ok_def)
  moreover have "list_all (\<lambda>(cid, ch). channel_ok (acct m) cid ch) (cm_channels (acct m)) \<longleftrightarrow>
      list_all (\<lambda>(cid, ch). channel_ok m cid ch) (cm_channels m)"
    by (auto simp: list.pred_map channel_ok_def list_all_iff)
  ultimately show ?thesis by (simp add: channel_inv_def)
qed

lemma channel_inv_same: "acct m' = acct m \<Longrightarrow> channel_inv m \<Longrightarrow> channel_inv m'"
  by (metis channel_inv_acct)

lemma acct_eqI:
  assumes "cm_config m' = cm_config m" "cm_limits m' = cm_limits m"
    "map (map_prod id plain) (cm_channels m') = map (map_prod id plain) (cm_channels m)"
    "cm_queues m' = cm_queues m" "cm_tokens m' = cm_tokens m"
    "cm_business_queued_frames m' = cm_business_queued_frames m"
    "cm_business_queued_bytes m' = cm_business_queued_bytes m"
    "cm_control_queued_frames m' = cm_control_queued_frames m"
    "cm_control_queued_bytes m' = cm_control_queued_bytes m"
    "cm_waiter_capacity m' = cm_waiter_capacity m"
  shows "acct m' = acct m"
  using assms by (cases m', cases m) (simp add: acct_def)

lemma complete_waiter_simps [simp]:
  "cm_config (complete_waiter w r m) = cm_config m" "cm_limits (complete_waiter w r m) = cm_limits m"
  "cm_queues (complete_waiter w r m) = cm_queues m" "cm_tokens (complete_waiter w r m) = cm_tokens m"
  "cm_business_queued_frames (complete_waiter w r m) = cm_business_queued_frames m"
  "cm_business_queued_bytes (complete_waiter w r m) = cm_business_queued_bytes m"
  "cm_control_queued_frames (complete_waiter w r m) = cm_control_queued_frames m"
  "cm_control_queued_bytes (complete_waiter w r m) = cm_control_queued_bytes m"
  "cm_waiter_capacity (complete_waiter w r m) = cm_waiter_capacity m"
  "cm_next_waiter_id (complete_waiter w r m) = cm_next_waiter_id m"
  "cm_next_address (complete_waiter w r m) = cm_next_address m"
  "cm_waiters (complete_waiter w r m) = om_del w (cm_waiters m)"
  by (auto simp: complete_waiter_def Let_def om_del_absent split: option.splits)

lemma acct_complete [simp]: "acct (complete_waiter w r m) = acct m"
  by (rule acct_eqI) simp_all

lemma acct_put_channel:
  "acct (put_channel cid ch m) = put_channel cid (plain ch) (acct m)"
  by (simp add: acct_def om_put_map)

lemma plain_put_same:
  "om_wf chs \<Longrightarrow> map_of chs cid = Some ch \<Longrightarrow> plain ch' = plain ch \<Longrightarrow>
   map (map_prod id plain) (om_put cid ch' chs) = map (map_prod id plain) chs"
  by (simp flip: om_put_map add: om_put_same map_of_map_prod)

lemma acct_put_same:
  "om_wf (cm_channels m) \<Longrightarrow> map_of (cm_channels m) cid = Some ch \<Longrightarrow> plain ch' = plain ch \<Longrightarrow>
   acct (put_channel cid ch' m) = acct m"
  by (rule acct_eqI) (simp_all add: plain_put_same)

lemma acct_notify: "om_wf (cm_channels m) \<Longrightarrow> acct (notify_capacity cid m) = acct m"
proof (induction cid m rule: notify_capacity.induct)
  case (1 cid m)
  show ?case
  proof (cases "map_of (cm_channels m) cid")
    case (Some ch)
    show ?thesis
    proof (cases "cs_waiters ch")
      case (Cons w ws)
      let ?m = "put_channel cid (ch\<lparr>cs_waiters := ws, cs_stats := (cs_stats ch)\<lparr>cq_capacity_waits_completed :=
                 cq_capacity_waits_completed (cs_stats ch) + 1\<rparr>\<rparr>) m"
      have "acct ?m = acct m" using "1.prems" Some by (rule acct_put_same) simp
      then show ?thesis using "1.IH" [OF Some Cons] "1.prems" Some Cons
        by (subst notify_capacity.simps) simp
    qed (use Some in \<open>simp add: notify_capacity.simps\<close>)
  qed (simp add: notify_capacity.simps)
qed

lemma acct_detach: "acct (detach_waiter w m) = acct m"
  by (rule acct_eqI) (auto simp: detach_waiter_def)

lemma acct_ticket_detach: "acct (ticket_detach a m) = acct m"
proof -
  have "acct (m\<lparr>cm_controls := c\<rparr>) = acct m" "acct (m\<lparr>cm_completions := l\<rparr>) = acct m" for m c l
    by (simp_all add: acct_def)
  then show ?thesis by (auto simp: ticket_detach_def Let_def acct_detach split: option.splits)
qed

lemma acct_wait:
  assumes "om_wf (cm_channels m)"
  shows "acct (snd (wait_for_capacity cid m)) = acct m"
proof (cases "map_of (cm_channels m) cid")
  case (Some ch)
  have "map (map_prod id plain) (om_put cid (ch\<lparr>cs_waiters := ws\<rparr>) (cm_channels m)) =
      map (map_prod id plain) (cm_channels m)" for ws
    by (rule plain_put_same [OF assms Some]) simp
  then show ?thesis using Some by (auto simp: wait_for_capacity_def Let_def intro!: acct_eqI)
qed (simp add: wait_for_capacity_def)

lemma tally_nil [simp]: "tally w (\<lambda>_. []) = 0"
  by (simp add: tally_def)

lemma tally_upd:
  "tally w (qs(k := l)) + (if k = FC_control then 0 else sum_list (map w (qs k))) =
   tally w qs + (if k = FC_control then 0 else sum_list (map w l))"
  by (cases k) (simp_all add: tally_def)

lemma tally_push:
  "tally w (qs(k := qs k @ [q])) = tally w qs + (if k = FC_control then 0 else w q)"
  using tally_upd [of w qs k "qs k @ [q]"] by (simp split: if_splits)

lemma tally_front:
  "tally w (qs(k := q # qs k)) = tally w qs + (if k = FC_control then 0 else w q)"
  using tally_upd [of w qs k "q # qs k"] by (simp split: if_splits)

lemma tally_pop:
  "qs k \<noteq> [] \<Longrightarrow> tally w qs = tally w (qs(k := tl (qs k))) + (if k = FC_control then 0 else w (hd (qs k)))"
  using tally_upd [of w qs k "tl (qs k)"] by (cases "qs k") (auto split: if_splits)

lemma tally_filter: "tally w (\<lambda>k. filter P (qs k)) = tally (\<lambda>q. of_bool (P q) * w q) qs"
proof -
  have "sum_list (map w (filter P l)) = sum_list (map (\<lambda>q. of_bool (P q) * w q) l)" for l
    by (induction l) auto
  then show ?thesis by (simp add: tally_def)
qed

lemma tally_cong:
  "(\<And>k q. k \<noteq> FC_control \<Longrightarrow> q \<in> set (qs k) \<Longrightarrow> w q = v q) \<Longrightarrow> tally w qs = tally v qs"
proof -
  assume a: "\<And>k q. k \<noteq> FC_control \<Longrightarrow> q \<in> set (qs k) \<Longrightarrow> w q = v q"
  have "map w (qs k) = map v (qs k)" if "k \<noteq> FC_control" for k
    using a [OF that] by (rule map_cong [OF refl])
  from this [of FC_interactive] this [of FC_standard] this [of FC_bulk]
  show ?thesis by (simp add: tally_def del: map_eq_conv)
qed

lemma tally_add: "tally (\<lambda>q. w q + v q) qs = tally w qs + tally v qs"
  by (simp add: tally_def sum_list_addf)

lemma tally_mono: "(\<And>q. w q \<le> v q) \<Longrightarrow> tally w qs \<le> tally v qs"
  unfolding tally_def by (rule sum_list_mono)

lemma tally_member:
  assumes "k \<noteq> FC_control" "q \<in> set (qs k)"
  shows "w q \<le> tally w qs"
proof -
  have "q \<in> set (qs FC_interactive @ qs FC_standard @ qs FC_bulk)" using assms by (cases k) auto
  then have "w q \<in> set (map w (qs FC_interactive @ qs FC_standard @ qs FC_bulk))" by auto
  then show ?thesis unfolding tally_def by (intro member_le_sum_list) simp_all
qed

lemma erase_first_SomeD:
  "erase_first cid l = Some (q, rest) \<Longrightarrow> qs_channel_id q = cid \<and> q \<in> set l \<and>
     set rest \<subseteq> set l \<and> sum_list (map (w :: _ \<Rightarrow> nat) l) = w q + sum_list (map w rest)"
proof (induction l arbitrary: rest)
  case (Cons a l)
  show ?case
  proof (cases "qs_channel_id a = cid")
    case False
    with Cons.prems obtain r where "erase_first cid l = Some (q, r)" "rest = a # r" by auto
    then show ?thesis using Cons.IH [of r] by auto
  qed (use Cons.prems in auto)
qed simp

lemma erase_first_None: "erase_first cid l = None \<longleftrightarrow> (\<forall>q \<in> set l. qs_channel_id q \<noteq> cid)"
  by (induction l) auto

text \<open>
  When no control frame is on the channel, \<open>drop_oldest\<close> removes one of the channel's business
  frames.
\<close>

lemma drop_first_SomeD:
  assumes "drop_first ks cid qs = Some (q, qs')" "\<forall>q \<in> set (qs FC_control). qs_channel_id q \<noteq> cid"
  shows "qs_channel_id q = cid \<and> qs' FC_control = qs FC_control \<and>
    (\<exists>k. k \<noteq> FC_control \<and> q \<in> set (qs k)) \<and> (\<forall>k. set (qs' k) \<subseteq> set (qs k)) \<and>
    tally w qs = w q + tally w qs'"
  using assms
proof (induction ks)
  case (Cons k ks)
  show ?case
  proof (cases "erase_first cid (qs k)")
    case None
    then show ?thesis using Cons by simp
  next
    case (Some r)
    then obtain rest where e: "erase_first cid (qs k) = Some (q, rest)" "qs' = qs(k := rest)"
      using Cons.prems(1) by (cases r) auto
    note f = erase_first_SomeD [OF e(1), of w]
    have k: "k \<noteq> FC_control" using f Cons.prems(2) by auto
    show ?thesis using f k tally_upd [of w qs k rest] unfolding e(2) by (auto simp del: fun_upd_apply) (auto split: if_splits)
  qed
qed simp

lemma frame_wire_size_bounds:
  "frame_wire_size limits f = Some sz \<Longrightarrow> 0 < sz \<and> sz \<le> 4294967300"
proof -
  assume a: "frame_wire_size limits f = Some sz"
  define body where "body = 18 + varint_size (fr_channel_id f) + length (fr_payload f)"
  have "sz = varint_size (of_nat body) + body \<and> body \<le> 4294967295"
    using a by (simp add: frame_wire_size_def stream_encoded_size_def Let_def body_def split: if_splits)
  moreover have "0 < body" by (simp add: body_def)
  ultimately show ?thesis using varint_size_bounds(2) [of "of_nat body"] by linarith
qed

lemma channel_inv_bounds:
  assumes "channel_inv m"
  shows "cb_per_peer_queued_frames (cm_config m) \<le> 65536"
    "cb_per_peer_queued_bytes (cm_config m) \<le> 268435456"
    "cb_max_channel_queued_frames (cm_config m) \<le> 65536"
    "cb_max_channel_queued_bytes (cm_config m) \<le> 268435456"
    "cb_control_reserved_frames (cm_config m) \<le> 65536"
    "cb_control_reserved_bytes (cm_config m) \<le> 268435456"
    "cb_max_open_channels (cm_config m) \<le> 1024"
  using assms by (auto simp: channel_inv_def validate_channel_budget_config_def Let_def split: if_splits)

lemma channel_inv_channel:
  "channel_inv m \<Longrightarrow> map_of (cm_channels m) cid = Some ch \<Longrightarrow> channel_ok m cid ch"
  by (auto simp: channel_inv_def list_all_iff dest: map_of_SomeD)

lemma tally_absent:
  assumes "queues_ok m" "map_of (cm_channels m) cid = None"
  shows "tally (\<lambda>q. on_channel cid q * w q) (cm_queues m) = 0"
proof -
  have "tally (\<lambda>q. on_channel cid q * w q) (cm_queues m) = tally (\<lambda>_. 0) (cm_queues m)"
    by (rule tally_cong) (use assms in \<open>force simp: queues_ok_def\<close>)
  then show ?thesis by (simp add: tally_def)
qed

lemma open_channel_inv:
  assumes inv: "channel_inv m"
  shows "channel_inv (snd (open_channel cid domain policy fc bc m))"
proof (cases "\<exists>e. open_channel cid domain policy fc bc m = (Inl e, m)")
  case False
  define ch where "ch = \<lparr>cs_domain = domain, cs_policy = policy, cs_queued_frame_capacity = fc,
     cs_queued_byte_capacity = bc, cs_queued_frames = 0, cs_queued_bytes = 0, cs_stats = no_queue_stats,
     cs_waiters = [], cs_open = True\<rparr>"
  have o: "snd (open_channel cid domain policy fc bc m) = put_channel cid ch m"
    "cid \<noteq> 0" "domain \<noteq> CD_control" "map_of (cm_channels m) cid = None"
    "length (cm_channels m) < cb_max_open_channels (cm_config m)"
    "fc \<le> cb_max_channel_queued_frames (cm_config m)" "bc \<le> cb_max_channel_queued_bytes (cm_config m)"
    using False unfolding open_channel_def Let_def ch_def by (auto split: if_splits)
  have q: "queues_ok m" "om_wf (cm_channels m)" using inv by (simp_all add: channel_inv_def)
  have "channel_ok m cid ch" using o tally_absent [OF q(1) o(4), of "\<lambda>_. 1"]
      tally_absent [OF q(1) o(4), of "frame_size (cm_limits m)"]
    by (simp add: channel_ok_def ch_def)
  moreover have "channel_ok (put_channel cid ch m) = channel_ok m"
    by (simp add: channel_ok_def fun_eq_iff)
  moreover have "queues_ok (put_channel cid ch m)"
    using q by (auto simp: queues_ok_def om_simps)
  moreover have "budgets_ok (put_channel cid ch m) = budgets_ok m" by (simp add: budgets_ok_def)
  ultimately show ?thesis using inv o q unfolding o(1) channel_inv_def
    by (auto simp: om_simps intro!: list_all_om_put)
qed (use inv in auto)

lemma allocate_loop_ends:
  assumes "cb_max_open_channels (cm_config m) \<le> 1024" "0 < unat c"
    "unat c + 2 * fuel \<ge> 2 * cb_max_open_channels (cm_config m) + 4"
    "unat c \<le> 2 * cb_max_open_channels (cm_config m) + 3"
  shows "allocate_loop fuel c m \<noteq> None"
  using assms(2-)
proof (induction fuel arbitrary: c)
  case 0
  then show ?case using assms(1) by simp
next
  case (Suc fuel)
  have "unat (c + 2) = unat c + 2" using Suc.prems assms(1) by (subst unat_add_lem [THEN iffD1]) auto
  then show ?case using Suc.IH [of "c + 2"] Suc.prems assms(1) by auto
qed

lemma allocate_channel_inv:
  assumes inv: "channel_inv m"
  shows "\<exists>r m'. allocate_channel role domain policy fc bc m = Some (r, m') \<and> channel_inv m'"
proof -
  have "allocate_loop (cb_max_open_channels (cm_config m) + 2) (if role then 1 else 2) m \<noteq> None"
    by (rule allocate_loop_ends) (use channel_inv_bounds [OF inv] in auto)
  then obtain r where r: "allocate_loop (cb_max_open_channels (cm_config m) + 2) (if role then 1 else 2) m = Some r"
    by auto
  show ?thesis
  proof (cases r)
    case (Some c)
    obtain e m' where o: "open_channel c domain policy fc bc m = (e, m')" by fastforce
    have "channel_inv m'" using open_channel_inv [OF inv, of c domain policy fc bc] o by simp
    then show ?thesis using r Some o by (cases e) (auto simp: allocate_channel_def)
  qed (use inv r in \<open>auto simp: allocate_channel_def\<close>)
qed

lemma fold_complete_acct: "acct (fold (\<lambda>w. complete_waiter w r) ws m) = acct m"
  by (induction ws arbitrary: m) auto

lemma fold_complete_simps [simp]:
  "cm_config (fold (\<lambda>w. complete_waiter w r) ws m) = cm_config m"
  "cm_limits (fold (\<lambda>w. complete_waiter w r) ws m) = cm_limits m"
  "cm_channels (fold (\<lambda>w. complete_waiter w r) ws m) = cm_channels m"
  "cm_queues (fold (\<lambda>w. complete_waiter w r) ws m) = cm_queues m"
  "cm_tokens (fold (\<lambda>w. complete_waiter w r) ws m) = cm_tokens m"
  "cm_business_queued_frames (fold (\<lambda>w. complete_waiter w r) ws m) = cm_business_queued_frames m"
  "cm_business_queued_bytes (fold (\<lambda>w. complete_waiter w r) ws m) = cm_business_queued_bytes m"
  "cm_control_queued_frames (fold (\<lambda>w. complete_waiter w r) ws m) = cm_control_queued_frames m"
  "cm_control_queued_bytes (fold (\<lambda>w. complete_waiter w r) ws m) = cm_control_queued_bytes m"
  by (induction ws arbitrary: m) auto

text \<open>Closing keeps exactly the frames of the other channels.\<close>

lemma close_channel_inv:
  assumes inv: "channel_inv m"
  shows "channel_inv (close_channel cid m)"
proof (cases "map_of (cm_channels m) cid")
  case (Some ch)
  let ?m = "close_channel cid m" and ?l = "cm_limits m" and ?qs = "cm_queues m"
  let ?ne = "\<lambda>q. qs_channel_id q \<noteq> cid"
  have wf: "om_wf (cm_channels m)" and q: "queues_ok m" and b: "budgets_ok m"
    using inv by (simp_all add: channel_inv_def)
  have ok: "channel_ok m cid ch" using inv Some by (rule channel_inv_channel)
  have sel: "cm_config ?m = cm_config m" "cm_limits ?m = ?l" "cm_channels ?m = om_del cid (cm_channels m)"
    "cm_queues ?m = (\<lambda>k. filter ?ne (?qs k))" "cm_tokens ?m = cm_tokens m"
    "cm_control_queued_frames ?m = cm_control_queued_frames m"
    "cm_control_queued_bytes ?m = cm_control_queued_bytes m"
    "cm_business_queued_frames ?m = cm_business_queued_frames m - cs_queued_frames ch"
    "cm_business_queued_bytes ?m = cm_business_queued_bytes m - cs_queued_bytes ch"
    using Some wf by (simp_all add: close_channel_def Let_def om_del_put)
  have ctl: "filter ?ne (?qs FC_control) = ?qs FC_control"
    using q ok by (force simp: queues_ok_def channel_ok_def filter_id_conv)
  have part: "tally w ?qs = tally w (cm_queues ?m) + tally (\<lambda>q. on_channel cid q * w q) ?qs" for w
    unfolding sel(4) tally_filter tally_add [symmetric] by (rule tally_cong) auto
  have other: "tally (\<lambda>q. on_channel c q * w q) (cm_queues ?m) = tally (\<lambda>q. on_channel c q * w q) ?qs"
    if "c \<noteq> cid" for c w
    unfolding sel(4) tally_filter by (rule tally_cong) (use that in auto)
  have "budgets_ok ?m" using b ok part [of "\<lambda>_. 1"] part [of "frame_size ?l"]
    unfolding budgets_ok_def channel_ok_def sel by (simp add: ctl)
  moreover have "queues_ok ?m" using q by (auto simp: queues_ok_def sel om_simps)
  moreover have "channel_ok ?m c ch'" if "channel_ok m c ch'" "c \<noteq> cid" for c ch'
    using that other [OF that(2), of "\<lambda>_. 1"] other [OF that(2), of "frame_size ?l"]
    by (simp add: channel_ok_def sel)
  then have "list_all (\<lambda>(c, ch'). channel_ok ?m c ch') (om_del cid (cm_channels m))"
    using inv by (auto simp: channel_inv_def list_all_iff om_del_def)
  ultimately show ?thesis using inv wf length_om_del_le [of cid "cm_channels m"]
    by (simp add: channel_inv_def sel)
qed (use inv in \<open>simp add: close_channel_def\<close>)

lemma close_all_inv: "channel_inv m \<Longrightarrow> channel_inv (close_all m)"
proof -
  have "channel_inv m \<Longrightarrow> channel_inv (fold close_channel cs m)" for cs
    by (induction cs arbitrary: m) (auto intro: close_channel_inv)
  then show "channel_inv m \<Longrightarrow> channel_inv (close_all m)" by (simp add: close_all_def)
qed


lemma enqueue_control_inv:
  assumes inv: "channel_inv m" and sz: "frame_wire_size (cm_limits m) f \<noteq> None"
  shows "\<exists>r m'. enqueue_control 0 FC_control f m = Some (r, m') \<and> channel_inv m'"
proof -
  obtain n where n: "frame_wire_size (cm_limits m) f = Some n" using sz by auto
  note b = channel_inv_bounds [OF inv] frame_wire_size_bounds [OF n]
  have bud: "budgets_ok m" and q: "queues_ok m" using inv by (simp_all add: channel_inv_def)
  have s: "sz_add (cm_control_queued_frames m) 1 = cm_control_queued_frames m + 1"
    "sz_add (cm_control_queued_bytes m) n = cm_control_queued_bytes m + n"
    using b bud by (simp_all add: budgets_ok_def)
  show ?thesis
  proof (cases "cm_control_queued_frames m + 1 > cb_control_reserved_frames (cm_config m) \<or>
      cm_control_queued_bytes m + n > cb_control_reserved_bytes (cm_config m)")
    case False
    let ?q = "\<lparr>qs_channel_id = 0, qs_frame_class = FC_control, qs_frame = f\<rparr>"
    let ?m = "push_back FC_control ?q
       (m\<lparr>cm_control_queued_frames := cm_control_queued_frames m + 1,
          cm_control_queued_bytes := cm_control_queued_bytes m + n\<rparr>)"
    have t: "tally w (cm_queues ?m) = tally w (cm_queues m)" for w
      by (simp add: push_back_def tally_push)
    have "queues_ok ?m" using q n by (auto simp: queues_ok_def push_back_def)
    moreover have "budgets_ok ?m" using bud n False t by (simp add: budgets_ok_def push_back_def)
    moreover have "channel_ok ?m = channel_ok m" unfolding channel_ok_def fun_eq_iff t by (simp add: push_back_def)
    ultimately have "channel_inv ?m" using inv by (simp add: channel_inv_def push_back_def)
    then show ?thesis using False n s by (auto simp: enqueue_control_def Let_def)
  qed (use inv n s in \<open>auto simp: enqueue_control_def Let_def\<close>)
qed

lemma channel_inv_reject:
  assumes "channel_inv m" "map_of (cm_channels m) cid = Some ch"
  shows "\<exists>r m'. reject_frame cid ch detail m = Some (r, m') \<and> channel_inv m'"
proof -
  have "acct (put_channel cid (ch\<lparr>cs_stats := st\<rparr>) m) = acct m" for st
    using assms by (intro acct_put_same) (simp_all add: channel_inv_def)
  then have "channel_inv (put_channel cid (ch\<lparr>cs_stats := st\<rparr>) m)" for st
    using assms(1) by (rule channel_inv_same)
  then show ?thesis by (auto simp: reject_frame_def)
qed

text \<open>
  A manager whose queues of business frames changed: the obligations on the channel concerned and
  on the totals.
\<close>

lemma channel_inv_update:
  assumes inv: "channel_inv m" and cid: "map_of (cm_channels m) cid \<noteq> None"
    and sel: "cm_config m' = cm_config m" "cm_limits m' = cm_limits m" "cm_tokens m' = cm_tokens m"
      "cm_channels m' = om_put cid ch (cm_channels m)"
      "cm_queues m' FC_control = cm_queues m FC_control"
      "cm_control_queued_frames m' = cm_control_queued_frames m"
      "cm_control_queued_bytes m' = cm_control_queued_bytes m"
    and other: "\<And>c w. c \<noteq> cid \<Longrightarrow> tally (\<lambda>q. on_channel c q * w q) (cm_queues m') =
        tally (\<lambda>q. on_channel c q * w q) (cm_queues m)"
    and q: "\<And>k q. k \<noteq> FC_control \<Longrightarrow> q \<in> set (cm_queues m' k) \<Longrightarrow> q \<in> set (cm_queues m k) \<or>
        qs_frame_class q = k \<and> frame_wire_size (cm_limits m) (qs_frame q) \<noteq> None \<and> qs_channel_id q = cid"
    and ch: "channel_ok m' cid ch"
    and tot: "cm_business_queued_frames m' = tally (\<lambda>_. 1) (cm_queues m')"
      "cm_business_queued_bytes m' = tally (frame_size (cm_limits m)) (cm_queues m')"
      "cm_business_queued_frames m' \<le> cb_per_peer_queued_frames (cm_config m)"
      "cm_business_queued_bytes m' \<le> cb_per_peer_queued_bytes (cm_config m)"
  shows "channel_inv m'"
proof -
  have wf: "om_wf (cm_channels m)" using inv by (simp add: channel_inv_def)
  have "queues_ok m'"
    unfolding queues_ok_def
  proof (intro allI ballI)
    fix k x assume x: "x \<in> set (cm_queues m' k)"
    show "qs_frame_class x = k \<and> frame_wire_size (cm_limits m') (qs_frame x) \<noteq> None \<and>
      (k = FC_control \<longrightarrow> qs_channel_id x = 0) \<and>
      (k \<noteq> FC_control \<longrightarrow> map_of (cm_channels m') (qs_channel_id x) \<noteq> None)"
      using inv x q [of k x] cid wf
      by (cases "k = FC_control") (auto simp: channel_inv_def queues_ok_def sel om_simps)
  qed
  moreover have "budgets_ok m'" using inv tot by (simp add: channel_inv_def budgets_ok_def sel)
  moreover have "channel_ok m' c ch'" if "channel_ok m c ch'" "c \<noteq> cid" for c ch'
    using that other [OF that(2), of "\<lambda>_. 1"] other [OF that(2), of "frame_size (cm_limits m)"]
    by (simp add: channel_ok_def sel)
  then have "list_all (\<lambda>(c, ch'). channel_ok m' c ch') (cm_channels m')"
    using inv ch wf by (auto simp: channel_inv_def sel list_all_iff set_om_put)
  ultimately show ?thesis using inv cid wf by (auto simp: channel_inv_def sel om_simps)
qed

lemma charge_drop_eq:
  "charge_drop cid ch n b m =
    (let ch1 = ch\<lparr>cs_queued_frames := cs_queued_frames ch - n, cs_queued_bytes := cs_queued_bytes ch - b,
           cs_stats := (cs_stats ch)\<lparr>cq_dropped_frames := cq_dropped_frames (cs_stats ch) + of_nat n,
             cq_dropped_bytes := cq_dropped_bytes (cs_stats ch) + of_nat b\<rparr>\<rparr>
     in (ch1, put_channel cid ch1 (m\<lparr>cm_business_queued_frames := cm_business_queued_frames m - n,
           cm_business_queued_bytes := cm_business_queued_bytes m - b\<rparr>)))"
proof -
  have "x - min x y = x - y" for x y :: nat by simp
  then show ?thesis by (simp add: charge_drop_def)
qed

text \<open>What an eviction leaves: the budgets still add up and have not grown.\<close>

definition evicted :: "SessionChannelManager \<Rightarrow> u32 \<Rightarrow> ChannelState \<Rightarrow> SessionChannelManager \<Rightarrow> bool" where
  "evicted m cid ch1 m1 \<longleftrightarrow> channel_inv m1 \<and> map_of (cm_channels m1) cid = Some ch1 \<and>
    cm_business_queued_frames m1 \<le> cm_business_queued_frames m \<and>
    cm_business_queued_bytes m1 \<le> cm_business_queued_bytes m \<and>
    cm_config m1 = cm_config m \<and> cm_limits m1 = cm_limits m"

text \<open>
  The eviction of frames of one channel, by whichever policy: \<open>R w\<close> is the weight of what leaves.
\<close>

lemma charge_drop_inv:
  assumes inv: "channel_inv m" and ch: "map_of (cm_channels m) cid = Some ch"
    and ctl: "qs FC_control = cm_queues m FC_control"
    and sub: "\<And>k. set (qs k) \<subseteq> set (cm_queues m k)"
    and part: "\<And>w. tally w (cm_queues m) = tally w qs + R w"
    and same: "\<And>w. R (\<lambda>q. on_channel cid q * w q) = R w"
    and none: "\<And>e w. e \<noteq> cid \<Longrightarrow> R (\<lambda>q. on_channel e q * w q) = 0"
    and n: "n = R (\<lambda>_. 1)" and b: "b = R (frame_size (cm_limits m))"
    and c: "charge_drop cid ch n b (m\<lparr>cm_queues := qs\<rparr>) = (ch1, m1)"
  shows "evicted m cid ch1 m1"
proof -
  have ok: "channel_ok m cid ch" using inv ch by (rule channel_inv_channel)
  have bud: "budgets_ok m" using inv by (simp add: channel_inv_def)
  have m1: "m1 = put_channel cid ch1 (m\<lparr>cm_queues := qs, cm_business_queued_frames := cm_business_queued_frames m - n,
           cm_business_queued_bytes := cm_business_queued_bytes m - b\<rparr>)"
    and ch1: "ch1 = ch\<lparr>cs_queued_frames := cs_queued_frames ch - n, cs_queued_bytes := cs_queued_bytes ch - b,
           cs_stats := (cs_stats ch)\<lparr>cq_dropped_frames := cq_dropped_frames (cs_stats ch) + of_nat n,
             cq_dropped_bytes := cq_dropped_bytes (cs_stats ch) + of_nat b\<rparr>\<rparr>"
    using c by (auto simp: charge_drop_eq Let_def)
  have "channel_ok m1 cid ch1"
    using ok n b part [of "\<lambda>q. on_channel cid q * 1"] same [of "\<lambda>_. 1"] same [of "frame_size (cm_limits m)"]
      part [of "\<lambda>q. on_channel cid q * frame_size (cm_limits m) q"]
    by (simp add: channel_ok_def m1 ch1)
  then have "channel_inv m1"
  proof (rule channel_inv_update [OF inv, rotated -5])
    show "tally (\<lambda>q. on_channel e q * w q) (cm_queues m1) = tally (\<lambda>q. on_channel e q * w q) (cm_queues m)"
      if "e \<noteq> cid" for e w
      using part [of "\<lambda>q. on_channel e q * w q"] none [OF that, of w] by (simp add: m1)
    show "cm_business_queued_frames m1 = tally (\<lambda>_. 1) (cm_queues m1)"
      "cm_business_queued_bytes m1 = tally (frame_size (cm_limits m)) (cm_queues m1)"
      using bud n b part [of "\<lambda>_. 1"] part [of "frame_size (cm_limits m)"]
      by (simp_all add: m1 budgets_ok_def)
    show "cm_business_queued_frames m1 \<le> cb_per_peer_queued_frames (cm_config m)"
      "cm_business_queued_bytes m1 \<le> cb_per_peer_queued_bytes (cm_config m)"
      using bud unfolding budgets_ok_def by (simp_all add: m1 le_diff_conv trans_le_add1)
    show "q \<in> set (cm_queues m k) \<or> qs_frame_class q = k \<and>
        frame_wire_size (cm_limits m) (qs_frame q) \<noteq> None \<and> qs_channel_id q = cid"
      if "q \<in> set (cm_queues m1 k)" for k q
      using sub [of k] that by (auto simp: m1)
  qed (simp_all add: m1 ch ctl)
  then show ?thesis by (simp add: m1 evicted_def)
qed

lemma wire_sizes_sum:
  "\<forall>q \<in> set l. frame_wire_size limits (qs_frame q) \<noteq> None \<Longrightarrow>
   sum_list (map (frame_size limits) l) < 2 ^ 64 \<Longrightarrow>
   wire_sizes limits l = Some (sum_list (map (frame_size limits) l))"
  by (induction l) auto

lemma sum_list_filter: "sum_list (map (w :: _ \<Rightarrow> nat) (filter P l)) = sum_list (map (\<lambda>q. of_bool (P q) * w q) l)"
  by (induction l) auto

lemma channel_entries_tally:
  assumes "queues_ok m" "cid \<noteq> 0"
  shows "sum_list (map w (channel_entries cid (cm_queues m))) = tally (\<lambda>q. on_channel cid q * w q) (cm_queues m)"
    "length (channel_entries cid (cm_queues m)) = tally (on_channel cid) (cm_queues m)"
proof -
  have c: "filter (\<lambda>q. qs_channel_id q = cid) (cm_queues m FC_control) = []"
    using assms by (auto simp: queues_ok_def filter_empty_conv)
  show sum: "sum_list (map w (channel_entries cid (cm_queues m))) =
      tally (\<lambda>q. on_channel cid q * w q) (cm_queues m)" for w
    by (simp add: channel_entries_def frame_classes_def c tally_def sum_list_filter)
  show "length (channel_entries cid (cm_queues m)) = tally (on_channel cid) (cm_queues m)"
    using sum [of "\<lambda>_. 1"] by (simp add: sum_list_triv)
qed

lemma evict_oldest_inv:
  assumes inv: "channel_inv m" and ch: "map_of (cm_channels m) cid = Some ch" and pol: "cs_policy ch = QP_drop_oldest"
  shows "evict cid ch m \<noteq> None \<and> (evict cid ch m = Some (Some (ch1, m1, r)) \<longrightarrow> evicted m cid ch1 m1)"
proof -
  have ok: "channel_ok m cid ch" using inv ch by (rule channel_inv_channel)
  have q: "queues_ok m" using inv by (simp add: channel_inv_def)
  have nc: "\<forall>q \<in> set (cm_queues m FC_control). qs_channel_id q \<noteq> cid"
    using q ok by (auto simp: queues_ok_def channel_ok_def)
  show ?thesis
  proof (cases "cs_queued_frames ch = 0 \<or> drop_first frame_classes cid (cm_queues m) = None")
    case True
    then show ?thesis using pol inv ch by (auto simp: evict_def Let_def evicted_def)
  next
    case False
    then obtain x qs where d: "drop_first frame_classes cid (cm_queues m) = Some (x, qs)" by auto
    note f = drop_first_SomeD [OF d nc]
    obtain k where k: "k \<noteq> FC_control" "x \<in> set (cm_queues m k)" using f by blast
    then obtain sz where sz: "frame_wire_size (cm_limits m) (qs_frame x) = Some sz"
      using q by (auto simp: queues_ok_def)
    obtain ch2 m2 where c: "charge_drop cid ch 1 sz (m\<lparr>cm_queues := qs\<rparr>) = (ch2, m2)" by fastforce
    have "evicted m cid ch2 m2"
      by (rule charge_drop_inv [OF inv ch _ _ _ _ _ _ _ c, where R = "\<lambda>w. w x"])
        (use f sz drop_first_SomeD [OF d nc] in auto)
    then show ?thesis using pol False d sz c by (auto simp: evict_def Let_def)
  qed
qed

lemma evict_latest_inv:
  assumes inv: "channel_inv m" and ch: "map_of (cm_channels m) cid = Some ch" and pol: "cs_policy ch = QP_keep_latest"
  shows "evict cid ch m \<noteq> None \<and> (evict cid ch m = Some (Some (ch1, m1, r)) \<longrightarrow> evicted m cid ch1 m1)"
proof -
  let ?qs = "\<lambda>k. filter (\<lambda>q. qs_channel_id q \<noteq> cid) (cm_queues m k)"
  let ?d = "channel_entries cid (cm_queues m)" and ?l = "cm_limits m"
  have ok: "channel_ok m cid ch" using inv ch by (rule channel_inv_channel)
  then have c0: "cid \<noteq> 0" by (simp add: channel_ok_def)
  have q: "queues_ok m" using inv by (simp add: channel_inv_def)
  note tal = channel_entries_tally [OF q c0]
  have ctl: "?qs FC_control = cm_queues m FC_control"
    using q c0 by (auto simp: queues_ok_def filter_id_conv)
  have "\<forall>x \<in> set ?d. frame_wire_size ?l (qs_frame x) \<noteq> None"
    using q by (auto simp: queues_ok_def channel_entries_def)
  moreover have "sum_list (map (frame_size ?l) ?d) < 2 ^ 64"
    using ok channel_inv_bounds(4) [OF inv] by (simp add: tal(1) channel_ok_def)
  ultimately have ws: "wire_sizes ?l ?d = Some (sum_list (map (frame_size ?l) ?d))" by (rule wire_sizes_sum)
  obtain ch2 m2 where c: "charge_drop cid ch (length ?d) (sum_list (map (frame_size ?l) ?d))
      (m\<lparr>cm_queues := ?qs\<rparr>) = (ch2, m2)" by fastforce
  have part: "tally w (cm_queues m) = tally w ?qs + tally (\<lambda>q. on_channel cid q * w q) (cm_queues m)" for w
    unfolding tally_filter tally_add [symmetric] by (rule tally_cong) auto
  have none: "tally (\<lambda>q. on_channel cid q * (on_channel e q * w q)) (cm_queues m) = 0" if "e \<noteq> cid" for e w
  proof -
    have "(\<lambda>q. on_channel cid q * (on_channel e q * w q)) = (\<lambda>_. 0)" using that by (auto simp: fun_eq_iff)
    then show ?thesis by (simp add: tally_def)
  qed
  have "evicted m cid ch2 m2"
    by (rule charge_drop_inv [OF inv ch ctl _ part _ none _ _ c]) (auto simp: tal intro!: tally_cong)
  moreover have "?qs = cm_queues m" if "?d = []"
  proof
    show "?qs k = cm_queues m k" for k
      using that by (cases k) (auto simp: channel_entries_def frame_classes_def filter_empty_conv filter_id_conv)
  qed
  ultimately show ?thesis using pol ws c inv ch by (auto simp: evict_def Let_def evicted_def split: prod.splits)
qed

lemma evict_inv:
  assumes "channel_inv m" "map_of (cm_channels m) cid = Some ch"
  shows "evict cid ch m \<noteq> None \<and> (evict cid ch m = Some (Some (ch1, m1, r)) \<longrightarrow> evicted m cid ch1 m1)"
  using evict_oldest_inv [OF assms] evict_latest_inv [OF assms]
  by (cases "cs_policy ch") (simp_all add: evict_def)


lemma admit_business_inv:
  assumes inv: "channel_inv m" and ch: "map_of (cm_channels m) cid = Some ch"
    and k: "k \<noteq> FC_control" and sz: "frame_wire_size (cm_limits m) f = Some sz"
    and room: "cm_business_queued_frames m + 1 \<le> cb_per_peer_queued_frames (cm_config m)"
      "cm_business_queued_bytes m + sz \<le> cb_per_peer_queued_bytes (cm_config m)"
  shows "\<exists>r' m'. admit_business cid k f sz ch r m = Some (r', m') \<and> channel_inv m'"
proof (cases "queue_full sz ch")
  case True
  then show ?thesis using channel_inv_reject [OF inv ch] by (simp add: admit_business_def)
next
  case False
  have ok: "channel_ok m cid ch" using inv ch by (rule channel_inv_channel)
  have bud: "budgets_ok m" using inv by (simp add: channel_inv_def)
  note b = channel_inv_bounds [OF inv] frame_wire_size_bounds [OF sz]
  have s: "sz_add (cs_queued_frames ch) 1 = cs_queued_frames ch + 1"
    "sz_add (cs_queued_bytes ch) sz = cs_queued_bytes ch + sz"
    "sz_add (cm_business_queued_frames m) 1 = cm_business_queued_frames m + 1"
    "sz_add (cm_business_queued_bytes m) sz = cm_business_queued_bytes m + sz"
    using b room ok by (simp_all add: channel_ok_def)
  let ?q = "\<lparr>qs_channel_id = cid, qs_frame_class = k, qs_frame = f\<rparr>"
  obtain r' m' where a: "admit_business cid k f sz ch r m = Some (r', m')"
    using False by (simp add: admit_business_def)
  obtain ch1 where m': "m' = push_back k ?q (put_channel cid ch1
      (m\<lparr>cm_business_queued_frames := cm_business_queued_frames m + 1,
         cm_business_queued_bytes := cm_business_queued_bytes m + sz\<rparr>))"
    and ch1: "plain ch1 = plain (ch\<lparr>cs_queued_frames := cs_queued_frames ch + 1,
         cs_queued_bytes := cs_queued_bytes ch + sz\<rparr>)"
    using a False unfolding admit_business_def s by (auto simp: plain_def)
  have t: "tally w (cm_queues m') = tally w (cm_queues m) + w ?q" for w
    using k by (simp add: m' push_back_def tally_push)
  have cs: "cs_queued_frames ch1 = cs_queued_frames ch + 1" "cs_queued_bytes ch1 = cs_queued_bytes ch + sz"
    "cs_open ch1 = cs_open ch" "cs_domain ch1 = cs_domain ch"
    "cs_queued_frame_capacity ch1 = cs_queued_frame_capacity ch"
    "cs_queued_byte_capacity ch1 = cs_queued_byte_capacity ch"
    using arg_cong [OF ch1, of cs_queued_frames] arg_cong [OF ch1, of cs_queued_bytes]
      arg_cong [OF ch1, of cs_open] arg_cong [OF ch1, of cs_domain]
      arg_cong [OF ch1, of cs_queued_frame_capacity] arg_cong [OF ch1, of cs_queued_byte_capacity]
    by simp_all
  have sel: "cm_config m' = cm_config m" "cm_limits m' = cm_limits m"
    by (simp_all add: m' push_back_def)
  have "channel_ok m' cid ch1" using ok False s sz
    unfolding channel_ok_def t cs sel queue_full_def by simp
  then have "channel_inv m'"
    by (rule channel_inv_update [OF inv, rotated -5])
      (use ch k sz bud room in \<open>auto simp: t budgets_ok_def\<close>,
       auto simp: m' push_back_def ch k split: if_splits)
  then show ?thesis using a by blast
qed

lemma enqueue_inv:
  assumes inv: "channel_inv m" and sz: "frame_wire_size (cm_limits m) f \<noteq> None"
    and ctl: "k = FC_control \<longrightarrow> cid = 0"
  shows "\<exists>r m'. enqueue cid k f m = Some (r, m') \<and> channel_inv m'"
proof (cases "k = FC_control \<or> map_of (cm_channels m) cid = None")
  case True
  then show ?thesis using enqueue_control_inv [OF inv sz] ctl inv by (auto simp: enqueue_def)
next
  case False
  then obtain ch n where ch: "map_of (cm_channels m) cid = Some ch"
    and n: "frame_wire_size (cm_limits m) f = Some n" using sz by auto
  note b = channel_inv_bounds [OF inv] frame_wire_size_bounds [OF n]
  have bud: "budgets_ok m" using inv by (simp add: channel_inv_def)
  have ok: "channel_ok m cid ch" using inv ch by (rule channel_inv_channel)
  have s: "sz_add (cm_business_queued_frames m) 1 = cm_business_queued_frames m + 1"
    "sz_add (cm_business_queued_bytes m) n = cm_business_queued_bytes m + n"
    using b bud by (simp_all add: budgets_ok_def)
  have "\<exists>r m'. enqueue_business cid ch k f m = Some (r, m') \<and> channel_inv m'"
  proof (cases "cm_business_queued_frames m + 1 > cb_per_peer_queued_frames (cm_config m) \<or>
      cm_business_queued_bytes m + n > cb_per_peer_queued_bytes (cm_config m)")
    case True
    then show ?thesis using channel_inv_reject [OF inv ch] n s by (auto simp: enqueue_business_def)
  next
    case room: False
    show ?thesis
    proof (cases "(queue_full n ch \<or> cs_policy ch = QP_keep_latest)")
      case True
      obtain ev where ev: "evict cid ch m = Some ev" using evict_inv [OF inv ch] by blast
      show ?thesis
      proof (cases ev)
        case None
        then show ?thesis using True room channel_inv_reject [OF inv ch] n s ev
          by (auto simp: enqueue_business_def)
      next
        case (Some t)
        obtain ch1 m1 r where t: "t = (ch1, m1, r)" by (cases t)
        have "evicted m cid ch1 m1" using evict_inv [OF inv ch] ev Some t by blast
        then have "\<exists>r' m'. admit_business cid k f n ch1 r m1 = Some (r', m') \<and> channel_inv m'"
          using False n room by (intro admit_business_inv) (auto simp: evicted_def)
        then show ?thesis using True room n s ev Some t by (auto simp: enqueue_business_def)
      qed
    next
      case nf: False
      then show ?thesis using admit_business_inv [OF inv ch _ n] False room s
        by (simp add: enqueue_business_def n)
    qed
  qed
  then show ?thesis using False ch ok by (simp add: enqueue_def channel_ok_def)
qed


lemma channel_inv_tokens:
  "channel_inv m \<Longrightarrow> (\<And>k. t k \<le> frame_class_weight k) \<Longrightarrow> channel_inv (m\<lparr>cm_tokens := t\<rparr>)"
proof -
  assume a: "channel_inv m" "\<And>k. t k \<le> frame_class_weight k"
  have "channel_ok (m\<lparr>cm_tokens := t\<rparr>) = channel_ok m" by (simp add: channel_ok_def fun_eq_iff)
  then show ?thesis using a by (simp add: channel_inv_def queues_ok_def budgets_ok_def)
qed

text \<open>
  What a transmission does to the budgets: the head of the class leaves its queue, the class pays
  a token, and the frame's size is returned.
\<close>

definition sent :: "FrameClass \<Rightarrow> SessionChannelManager \<Rightarrow> SessionChannelManager" where
  "sent k m =
    (let q = hd (cm_queues m k); sz = frame_size (cm_limits m) q;
         m1 = m\<lparr>cm_queues := (cm_queues m)(k := tl (cm_queues m k)),
                cm_tokens := (cm_tokens m)(k := cm_tokens m k - 1)\<rparr>
     in if k = FC_control then
          m1\<lparr>cm_control_queued_frames := cm_control_queued_frames m - 1,
             cm_control_queued_bytes := cm_control_queued_bytes m - sz\<rparr>
        else
          let ch = the (map_of (cm_channels m) (qs_channel_id q))
          in put_channel (qs_channel_id q) (ch\<lparr>cs_queued_frames := cs_queued_frames ch - 1,
                 cs_queued_bytes := cs_queued_bytes ch - sz\<rparr>)
              (m1\<lparr>cm_business_queued_frames := cm_business_queued_frames m - 1,
                  cm_business_queued_bytes := cm_business_queued_bytes m - sz\<rparr>))"

lemma acct_credit:
  assumes "om_wf (cm_channels m)" "map_of (cm_channels m) cid = Some ch"
  shows "acct (credit_channel cid sz m) = acct (put_channel cid
    (ch\<lparr>cs_queued_frames := sz_dec (cs_queued_frames ch), cs_queued_bytes := cs_queued_bytes ch - sz\<rparr>) m)"
proof -
  let ?ch = "ch\<lparr>cs_queued_frames := sz_dec (cs_queued_frames ch), cs_queued_bytes := cs_queued_bytes ch - sz\<rparr>"
  have m: "x - min x y = x - y" for x y :: nat by simp
  have "acct (put_channel cid (?ch\<lparr>cs_stats := st\<rparr>) m) = acct (put_channel cid ?ch m)" for st
    unfolding acct_put_channel by simp
  moreover have "acct (notify_capacity cid (put_channel cid c m)) = acct (put_channel cid c m)" for c
    by (rule acct_notify) (simp add: assms)
  ultimately show ?thesis using assms by (simp add: credit_channel_def Let_def m)
qed

lemma queue_head:
  assumes inv: "channel_inv m" and ne: "cm_queues m k \<noteq> []"
  shows "qs_frame_class (hd (cm_queues m k)) = k"
    and "\<exists>sz. frame_wire_size (cm_limits m) (qs_frame (hd (cm_queues m k))) = Some sz"
    and "k \<noteq> FC_control \<Longrightarrow> \<exists>ch. map_of (cm_channels m) (qs_channel_id (hd (cm_queues m k))) = Some ch"
proof -
  have "hd (cm_queues m k) \<in> set (cm_queues m k)" using ne by simp
  then have "let q = hd (cm_queues m k) in qs_frame_class q = k \<and>
      frame_wire_size (cm_limits m) (qs_frame q) \<noteq> None \<and>
      (k \<noteq> FC_control \<longrightarrow> map_of (cm_channels m) (qs_channel_id q) \<noteq> None)"
    using inv unfolding channel_inv_def queues_ok_def Let_def by blast
  then show "qs_frame_class (hd (cm_queues m k)) = k"
    and "\<exists>sz. frame_wire_size (cm_limits m) (qs_frame (hd (cm_queues m k))) = Some sz"
    and "k \<noteq> FC_control \<Longrightarrow> \<exists>ch. map_of (cm_channels m) (qs_channel_id (hd (cm_queues m k))) = Some ch"
    by (auto simp: Let_def)
qed

lemma tally_hd:
  assumes "k \<noteq> FC_control" "qs k \<noteq> []"
  shows "tally w qs = tally w (qs(k := tl (qs k))) + w (hd (qs k))"
  using tally_pop [of qs k w] assms by simp

lemma transmit_sent:
  assumes inv: "channel_inv m" and ne: "cm_queues m k \<noteq> []"
  shows "\<exists>m'. transmit k m = Some (hd (cm_queues m k), m') \<and> acct m' = acct (sent k m)"
proof -
  let ?q = "hd (cm_queues m k)"
  have m: "x - min x y = x - y" for x y :: nat by simp
  note q = queue_head [OF inv ne]
  obtain sz where sz: "frame_wire_size (cm_limits m) (qs_frame ?q) = Some sz" using q by blast
  have bud: "budgets_ok m" using inv by (simp add: channel_inv_def)
  show ?thesis
  proof (cases "k = FC_control")
    case True
    then have "0 < cm_control_queued_frames m" using bud ne by (simp add: budgets_ok_def)
    then show ?thesis using True q sz by (simp add: transmit_def Let_def sent_def m)
  next
    case False
    then obtain ch where ch: "map_of (cm_channels m) (qs_channel_id ?q) = Some ch" using q by blast
    have ok: "channel_ok m (qs_channel_id ?q) ch" using inv ch by (rule channel_inv_channel)
    have h: "?q \<in> set (cm_queues m k)" using ne by simp
    have pos: "0 < cm_business_queued_frames m" "0 < cs_queued_frames ch"
      using bud ok tally_member [of k ?q "cm_queues m" "\<lambda>_. 1"]
        tally_member [of k ?q "cm_queues m" "on_channel (qs_channel_id ?q)"] False h
      by (simp_all add: budgets_ok_def channel_ok_def)
    let ?m1 = "m\<lparr>cm_queues := (cm_queues m)(k := tl (cm_queues m k)),
                cm_tokens := (cm_tokens m)(k := cm_tokens m k - 1)\<rparr>"
    have c: "acct (credit_channel (qs_channel_id ?q) sz ?m1) = acct (put_channel (qs_channel_id ?q)
      (ch\<lparr>cs_queued_frames := cs_queued_frames ch - 1, cs_queued_bytes := cs_queued_bytes ch - sz\<rparr>) ?m1)"
      using acct_credit [of ?m1 "qs_channel_id ?q" ch sz] inv ch pos by (simp add: channel_inv_def)
    let ?m2 = "credit_channel (qs_channel_id ?q) sz ?m1"
    have b: "cm_business_queued_frames ?m2 = cm_business_queued_frames m"
      "cm_business_queued_bytes ?m2 = cm_business_queued_bytes m"
      using arg_cong [OF c, of cm_business_queued_frames] arg_cong [OF c, of cm_business_queued_bytes] by simp_all
    have u: "acct (x\<lparr>cm_business_queued_frames := a, cm_business_queued_bytes := b\<rparr>) =
        (acct x)\<lparr>cm_business_queued_frames := a, cm_business_queued_bytes := b\<rparr>" for x a b
      by (simp add: acct_def)
    have "transmit k m = Some (?q, ?m2\<lparr>cm_business_queued_frames := cm_business_queued_frames m - 1,
        cm_business_queued_bytes := cm_business_queued_bytes m - sz\<rparr>)"
      using q sz pos False b by (simp add: transmit_def Let_def m)
    moreover have "acct (?m2\<lparr>cm_business_queued_frames := cm_business_queued_frames m - 1,
        cm_business_queued_bytes := cm_business_queued_bytes m - sz\<rparr>) = acct (sent k m)"
      unfolding u c using False ch sz by (simp add: sent_def Let_def acct_def)
    ultimately show ?thesis by blast
  qed
qed

lemma sent_tokens_inv:
  assumes "channel_inv m"
  shows "channel_inv (m\<lparr>cm_tokens := (cm_tokens m)(k := cm_tokens m k - 1)\<rparr>)"
  by (rule channel_inv_tokens [OF assms])
    (use assms in \<open>auto simp: channel_inv_def intro: le_trans [OF diff_le_self]\<close>)

lemma sent_control_inv:
  assumes inv: "channel_inv m" and ne: "cm_queues m k \<noteq> []" and k: "k = FC_control"
  shows "channel_inv (sent k m)"
proof -
  let ?q = "hd (cm_queues m k)" and ?qs = "(cm_queues m)(k := tl (cm_queues m k))"
  let ?t = "(cm_tokens m)(k := cm_tokens m k - 1)"
  have bud: "budgets_ok m" and qok: "queues_ok m" using inv by (simp_all add: channel_inv_def)
  have sub: "set (tl (cm_queues m k)) \<subseteq> set (cm_queues m k)" using ne by (cases "cm_queues m k") auto
  note inv0 = sent_tokens_inv [OF inv, of k]
  have t: "tally w ?qs = tally w (cm_queues m)" for w
    using tally_upd [of w "cm_queues m" k "tl (cm_queues m k)"] k by simp
  obtain h r where hr: "cm_queues m FC_control = h # r" using ne k by (cases "cm_queues m k") auto
  have "budgets_ok (sent k m)" using bud k t hr by (simp add: sent_def Let_def budgets_ok_def)
  moreover have "queues_ok (sent k m)" using qok sub k by (auto simp: sent_def Let_def queues_ok_def)
  moreover have "channel_ok (sent k m) = channel_ok m"
    using t k by (simp add: sent_def Let_def channel_ok_def fun_eq_iff)
  ultimately show ?thesis using inv inv0 k by (simp add: sent_def Let_def channel_inv_def)
qed

lemma sent_business_inv:
  assumes inv: "channel_inv m" and ne: "cm_queues m k \<noteq> []" and k: "k \<noteq> FC_control"
  shows "channel_inv (sent k m)"
proof -
  let ?q = "hd (cm_queues m k)" and ?qs = "(cm_queues m)(k := tl (cm_queues m k))"
  let ?t = "(cm_tokens m)(k := cm_tokens m k - 1)"
  have bud: "budgets_ok m" and qok: "queues_ok m" using inv by (simp_all add: channel_inv_def)
  have sub: "set (tl (cm_queues m k)) \<subseteq> set (cm_queues m k)" using ne by (cases "cm_queues m k") auto
  note inv0 = sent_tokens_inv [OF inv, of k]
  let ?c = "qs_channel_id ?q" and ?sz = "frame_size (cm_limits m) ?q"
  obtain ch where ch: "map_of (cm_channels m) ?c = Some ch" using queue_head [OF inv ne] k by blast
  have ok: "channel_ok m ?c ch" using inv ch by (rule channel_inv_channel)
  have t: "tally w (cm_queues m) = tally w ?qs + w ?q" for w
    using tally_hd [of k "cm_queues m" w] k ne by simp
  have m': "sent k m = put_channel ?c (ch\<lparr>cs_queued_frames := cs_queued_frames ch - 1,
       cs_queued_bytes := cs_queued_bytes ch - ?sz\<rparr>) (m\<lparr>cm_queues := ?qs, cm_tokens := ?t,
       cm_business_queued_frames := cm_business_queued_frames m - 1,
       cm_business_queued_bytes := cm_business_queued_bytes m - ?sz\<rparr>)"
    using k ch by (simp add: sent_def Let_def)
  have "channel_ok (sent k m) ?c (ch\<lparr>cs_queued_frames := cs_queued_frames ch - 1,
       cs_queued_bytes := cs_queued_bytes ch - ?sz\<rparr>)"
    using ok t [of "on_channel ?c"] t [of "\<lambda>q. on_channel ?c q * frame_size (cm_limits m) q"]
    by (simp add: channel_ok_def m')
  then show ?thesis
  proof (rule channel_inv_update [OF inv0, rotated -5])
    show "tally (\<lambda>q. on_channel e q * w q) (cm_queues (sent k m)) =
        tally (\<lambda>q. on_channel e q * w q) (cm_queues (m\<lparr>cm_tokens := ?t\<rparr>))" if "e \<noteq> ?c" for e w
      using t [of "\<lambda>q. on_channel e q * w q"] that by (simp add: m')
    show "cm_business_queued_frames (sent k m) = tally (\<lambda>_. 1) (cm_queues (sent k m))"
      "cm_business_queued_bytes (sent k m) = tally (frame_size (cm_limits (m\<lparr>cm_tokens := ?t\<rparr>))) (cm_queues (sent k m))"
      using bud t [of "\<lambda>_. 1"] t [of "frame_size (cm_limits m)"] by (simp_all add: m' budgets_ok_def)
    show "cm_business_queued_frames (sent k m) \<le> cb_per_peer_queued_frames (cm_config (m\<lparr>cm_tokens := ?t\<rparr>))"
      "cm_business_queued_bytes (sent k m) \<le> cb_per_peer_queued_bytes (cm_config (m\<lparr>cm_tokens := ?t\<rparr>))"
      using bud unfolding budgets_ok_def by (simp_all add: m' le_diff_conv trans_le_add1)
  qed (use ch k sub in \<open>auto simp: m' split: if_splits\<close>)
qed

lemmas sent_inv = sent_control_inv sent_business_inv

lemma transmit_inv:
  assumes inv: "channel_inv m" and ne: "cm_queues m k \<noteq> []"
  shows "\<exists>m'. transmit k m = Some (hd (cm_queues m k), m') \<and> acct m' = acct (sent k m) \<and> channel_inv m'"
  using transmit_sent [OF assms] sent_inv [OF assms] channel_inv_same by blast

lemma plain_upd [simp]:
  "plain (ch\<lparr>cs_queued_frames := a, cs_queued_bytes := b\<rparr>) =
     (plain ch)\<lparr>cs_queued_frames := a, cs_queued_bytes := b\<rparr>"
  by (cases ch) (simp add: plain_def)

lemma acct_return:
  "return_to_send q m = Some m1 \<Longrightarrow> return_to_send q (acct m) = Some (acct m1)"
  by (cases m) (auto simp: return_to_send_def Let_def map_of_map_prod acct_def om_put_map [symmetric]
      split: option.splits if_splits)

text \<open>Giving back the frame just taken restores the queues and the budgets.\<close>

lemma return_sent:
  assumes inv: "channel_inv m" and ne: "cm_queues m k \<noteq> []"
  shows "return_to_send (hd (cm_queues m k)) (sent k m) =
    Some (m\<lparr>cm_tokens := (cm_tokens m)(k := cm_tokens m k - 1)\<rparr>)"
proof -
  let ?q = "hd (cm_queues m k)" and ?qs = "cm_queues m"
  note q = queue_head [OF inv ne] and b = channel_inv_bounds [OF inv]
  obtain sz where sz: "frame_wire_size (cm_limits m) (qs_frame ?q) = Some sz" using q by blast
  have bud: "budgets_ok m" and wf: "om_wf (cm_channels m)" using inv by (simp_all add: channel_inv_def)
  have h: "?q \<in> set (?qs k)" "?q # tl (?qs k) = ?qs k" using ne by simp_all
  show ?thesis
  proof (cases "k = FC_control")
    case True
    have "frame_size (cm_limits m) ?q \<le> sum_list (map (frame_size (cm_limits m)) (?qs k))"
      using h by (intro member_le_sum_list) auto
    then have "sz \<le> cm_control_queued_bytes m" "0 < cm_control_queued_frames m"
      using bud sz True ne by (simp_all add: budgets_ok_def)
    then show ?thesis using sz q(1) True h bud b
      by (cases m) (simp add: return_to_send_def sent_def Let_def budgets_ok_def)
  next
    case False
    obtain ch where ch: "map_of (cm_channels m) (qs_channel_id ?q) = Some ch" using q False by blast
    have ok: "channel_ok m (qs_channel_id ?q) ch" using inv ch by (rule channel_inv_channel)
    have "frame_size (cm_limits m) ?q \<le> tally (frame_size (cm_limits m)) ?qs" "1 \<le> tally (\<lambda>_. 1) ?qs"
      "on_channel (qs_channel_id ?q) ?q * frame_size (cm_limits m) ?q \<le>
        tally (\<lambda>q. on_channel (qs_channel_id ?q) q * frame_size (cm_limits m) q) ?qs"
      "on_channel (qs_channel_id ?q) ?q \<le> tally (on_channel (qs_channel_id ?q)) ?qs"
      using h False by - (rule tally_member, assumption, assumption)+
    then have "sz \<le> cm_business_queued_bytes m" "0 < cm_business_queued_frames m"
      "sz \<le> cs_queued_bytes ch" "0 < cs_queued_frames ch"
      using bud ok sz by (simp_all add: budgets_ok_def channel_ok_def)
    then show ?thesis using sz q(1) False h bud b ok ch wf
      by (cases m) (simp add: return_to_send_def sent_def Let_def budgets_ok_def channel_ok_def
          om_simps om_put_put om_put_same)
  qed
qed


lemma ready_classD:
  "ready_class m = Some k \<Longrightarrow> cm_queues m k \<noteq> [] \<and> cm_tokens m k \<noteq> 0"
  by (auto simp: ready_class_def frame_classes_def split: if_splits)

lemma ready_class_None:
  "ready_class m = None \<longleftrightarrow> (\<forall>k. cm_queues m k = [] \<or> cm_tokens m k = 0)"
proof -
  have "k \<in> set frame_classes" for k by (cases k) (simp_all add: frame_classes_def)
  then show ?thesis by (auto simp: ready_class_def find_None_iff)
qed

lemma has_sendable_iff: "has_sendable_frames m \<longleftrightarrow> (\<exists>k. cm_queues m k \<noteq> [])"
proof -
  have "k \<in> set frame_classes" for k by (cases k) (simp_all add: frame_classes_def)
  then show ?thesis by (auto simp: has_sendable_frames_def list_ex_iff)
qed

lemma refill_inv: "channel_inv m \<Longrightarrow> channel_inv (refill_class_tokens m)"
  unfolding refill_class_tokens_def by (rule channel_inv_tokens) simp_all

text \<open>The manager the scheduler picks from: refilled when no class with frames has a token.\<close>

definition charged :: "SessionChannelManager \<Rightarrow> SessionChannelManager" where
  "charged m = (if ready_class m = None then refill_class_tokens m else m)"

lemma charged_simps [simp]:
  "cm_queues (charged m) = cm_queues m" "cm_limits (charged m) = cm_limits m"
  by (simp_all add: charged_def refill_class_tokens_def)

lemma next_to_send_charged:
  assumes "has_sendable_frames m"
  shows "\<exists>k. ready_class (charged m) = Some k \<and> next_to_send m = map_option (apfst Some) (transmit k (charged m))"
proof (cases "ready_class m")
  case None
  then obtain k where "ready_class (refill_class_tokens m) = Some k" using ready_after_refill [OF assms] by auto
  then show ?thesis using None assms
    by (simp add: charged_def next_to_send.simps [of m] next_to_send.simps [of "refill_class_tokens m"])
next
  case (Some k)
  then show ?thesis by (simp add: charged_def next_to_send.simps [of m])
qed

lemma next_to_send_idle: "\<not> has_sendable_frames m \<Longrightarrow> next_to_send m = Some (None, m)"
  by (subst next_to_send.simps) (simp add: has_sendable_iff ready_class_None [THEN iffD2])

lemma next_to_send_inv:
  assumes inv: "channel_inv m" and s: "has_sendable_frames m"
  shows "\<exists>k m'. ready_class (charged m) = Some k \<and> next_to_send m = Some (Some (hd (cm_queues m k)), m') \<and>
    acct m' = acct (sent k (charged m)) \<and> channel_inv m'"
proof -
  obtain k where k: "ready_class (charged m) = Some k"
    "next_to_send m = map_option (apfst Some) (transmit k (charged m))"
    using next_to_send_charged [OF s] by blast
  have "channel_inv (charged m)" using inv by (simp add: charged_def refill_inv)
  then show ?thesis using transmit_inv [of "charged m" k] ready_classD [OF k(1)] k by auto
qed

lemma return_to_send_next:
  assumes inv: "channel_inv m" and n: "next_to_send m = Some (Some q, m1)"
  shows "\<exists>m2 t. return_to_send q m1 = Some m2 \<and> acct m2 = acct (m\<lparr>cm_tokens := t\<rparr>) \<and>
    (\<forall>k. t k \<le> frame_class_weight k)"
proof -
  have s: "has_sendable_frames m" using n next_to_send_idle by force
  obtain k where k: "ready_class (charged m) = Some k" "q = hd (cm_queues m k)"
      "acct m1 = acct (sent k (charged m))" "channel_inv m1"
    using next_to_send_inv [OF inv s] n by auto
  have c: "channel_inv (charged m)" using inv by (simp add: charged_def refill_inv)
  let ?t = "(cm_tokens (charged m))(k := cm_tokens (charged m) k - 1)"
  have r: "return_to_send q (sent k (charged m)) = Some ((charged m)\<lparr>cm_tokens := ?t\<rparr>)"
    using return_sent [OF c, of k] ready_classD [OF k(1)] k(2) by simp
  have "cm_limits m1 = cm_limits m"
    using arg_cong [OF k(3), of cm_limits] by (simp add: sent_def Let_def)
  then obtain m2 where m2: "return_to_send q m1 = Some m2"
    using queue_head(2) [OF inv, of k] ready_classD [OF k(1)] k(2) by (auto simp: return_to_send_def Let_def)
  have "Some (acct m2) = Some (acct ((charged m)\<lparr>cm_tokens := ?t\<rparr>))"
    using acct_return [OF m2] acct_return [OF r] k(3) by simp
  moreover have "acct ((charged m)\<lparr>cm_tokens := ?t\<rparr>) = acct (m\<lparr>cm_tokens := ?t\<rparr>)"
    by (simp add: charged_def refill_class_tokens_def)
  moreover have "\<forall>j. ?t j \<le> frame_class_weight j"
    using sent_tokens_inv [OF c, of k] by (simp add: channel_inv_def)
  ultimately show ?thesis using m2 by auto
qed

lemma pump_round_inv:
  assumes inv: "channel_inv m"
  shows "\<exists>m'. pump_round w m = Some m' \<and> channel_inv m' \<and> cm_limits m' = cm_limits m"
proof (cases "has_sendable_frames m")
  case True
  then obtain k m1 where k: "next_to_send m = Some (Some (hd (cm_queues m k)), m1)"
      "acct m1 = acct (sent k (charged m))" "channel_inv m1"
    using next_to_send_inv [OF inv] by blast
  have l: "cm_limits m1 = cm_limits m"
    using arg_cong [OF k(2), of cm_limits] by (simp add: sent_def Let_def)
  obtain m2 t where m2: "return_to_send (hd (cm_queues m k)) m1 = Some m2"
      "acct m2 = acct (m\<lparr>cm_tokens := t\<rparr>)" "\<forall>k. t k \<le> frame_class_weight k"
    using return_to_send_next [OF inv k(1)] by blast
  have "channel_inv m2" using channel_inv_same [OF m2(2)] channel_inv_tokens [OF inv] m2(3) by blast
  moreover have "cm_limits m2 = cm_limits m" using arg_cong [OF m2(2), of cm_limits] by simp
  ultimately show ?thesis using k m2 l by (cases w) (auto simp: pump_round_def)
qed (use inv in \<open>auto simp: pump_round_def next_to_send_idle\<close>)

lemma charge_drop_limits: "charge_drop cid ch n b m = (ch1, m1) \<Longrightarrow> cm_limits m1 = cm_limits m"
  by (auto simp: charge_drop_def Let_def)

lemma evict_limits: "evict cid ch m = Some (Some (ch1, m1, r)) \<Longrightarrow> cm_limits m1 = cm_limits m"
  by (auto simp: evict_def Let_def split: QueueFullPolicy.splits option.splits prod.splits if_splits
      dest!: charge_drop_limits)

lemma enqueue_limits: "enqueue cid k f m = Some (r, m') \<Longrightarrow> cm_limits m' = cm_limits m"
  by (auto simp: enqueue_def enqueue_control_def enqueue_business_def reject_frame_def admit_business_def
      push_back_def Let_def split: option.splits prod.splits if_splits dest!: evict_limits)

lemma close_channel_limits [simp]: "cm_limits (close_channel cid m) = cm_limits m"
  by (simp add: close_channel_def Let_def split: option.splits)

lemma close_all_limits [simp]: "cm_limits (close_all m) = cm_limits m"
proof -
  have "cm_limits (fold close_channel cs m) = cm_limits m" for cs by (induction cs arbitrary: m) auto
  then show ?thesis by (simp add: close_all_def)
qed

lemma open_channel_limits [simp]: "cm_limits (snd (open_channel cid domain policy fc bc m)) = cm_limits m"
  by (simp add: open_channel_def Let_def)

lemma allocate_channel_limits:
  "allocate_channel role domain policy fc bc m = Some (r, m') \<Longrightarrow> cm_limits m' = cm_limits m"
  by (auto simp: allocate_channel_def split: option.splits prod.splits sum.splits)
    (metis open_channel_limits snd_conv)+

section \<open>Guarded runs\<close>

text \<open>
  The guard on the calls: a frame the encoder accepts, and control-class frames on channel 0 only.
\<close>

definition channel_op_ok :: "Limits \<Rightarrow> ChannelOp \<Rightarrow> bool" where
  "channel_op_ok limits x \<longleftrightarrow> (case x of
     ChEnqueue cid k f \<Rightarrow> frame_wire_size limits f \<noteq> None \<and> (k = FC_control \<longrightarrow> cid = 0)
   | _ \<Rightarrow> True)"

definition channel_state_ok :: "Limits \<Rightarrow> SessionChannelManager option \<Rightarrow> bool" where
  "channel_state_ok limits h \<longleftrightarrow> (\<exists>m. h = Some m \<and> channel_inv m \<and> cm_limits m = limits)"

lemma channel_step_ok:
  assumes "channel_op_ok limits x" "channel_state_ok limits h"
  shows "channel_state_ok limits (channel_step x h)"
proof -
  obtain m where m: "h = Some m" "channel_inv m" "cm_limits m = limits"
    using assms(2) by (auto simp: channel_state_ok_def)
  have wf: "om_wf (cm_channels m)" using m(2) by (simp add: channel_inv_def)
  have acct: "channel_state_ok limits (Some m')" if "acct m' = acct m" for m'
    using channel_inv_same [OF that m(2)] arg_cong [OF that, of cm_limits] m(3)
    by (simp add: channel_state_ok_def)
  show ?thesis
  proof (cases x)
    case (ChOpen cid domain policy fc bc)
    then show ?thesis using m open_channel_inv [OF m(2)] by (simp add: channel_state_ok_def)
  next
    case (ChAllocate role domain policy fc bc)
    then show ?thesis using m allocate_channel_inv [OF m(2), of role domain policy fc bc]
      by (auto simp: channel_state_ok_def dest: allocate_channel_limits)
  next
    case (ChEnqueue cid k f)
    then have "frame_wire_size (cm_limits m) f \<noteq> None" "k = FC_control \<longrightarrow> cid = 0"
      using assms(1) m(3) by (simp_all add: channel_op_ok_def)
    from enqueue_inv [OF m(2) this] show ?thesis using m ChEnqueue
      by (auto simp: channel_state_ok_def dest: enqueue_limits)
  next
    case (ChPump w)
    then show ?thesis using m pump_round_inv [OF m(2), of w] by (auto simp: channel_state_ok_def)
  qed (use m acct [OF acct_wait [OF wf]] acct [OF acct_ticket_detach] close_channel_inv [OF m(2)]
        close_all_inv [OF m(2)] in \<open>auto simp: channel_state_ok_def\<close>)
qed

definition channel_start :: "Limits \<Rightarrow> SessionChannelManager option \<Rightarrow> bool" where
  "channel_start limits h \<longleftrightarrow> (\<exists>config. validate_channel_budget_config config = Inr () \<and>
     h = Some (channel_manager config limits))"

interpretation channel_machine: guarded_machine "channel_start limits" "channel_op_ok limits"
    channel_step "channel_state_ok limits" for limits
proof
  show "channel_state_ok limits h" if "channel_start limits h" for h
    using that by (auto simp: channel_start_def channel_state_ok_def channel_manager_def channel_inv_def
        queues_ok_def budgets_ok_def)
qed (rule channel_step_ok)

end
