(* ===== verification/Heyaki_Scheduler.thy ===== *)
theory Heyaki_Scheduler
  imports Heyaki_Channel_Budgets
begin

text \<open>
  The weighted scheduler of a session's channels: how long a class can be passed over, what taking
  and giving back a frame does, and where the budgets and the capacity waits fall short of what
  the header promises.
\<close>

section \<open>Specification vocabulary\<close>

text \<open>What the scheduler itself needs: every queue holds frames of its own class.\<close>

definition sched_ok :: "SessionChannelManager option \<Rightarrow> bool" where
  "sched_ok h \<longleftrightarrow> (case h of None \<Rightarrow> True
     | Some m \<Rightarrow> (\<forall>k. cm_tokens m k \<le> frame_class_weight k) \<and>
         (\<forall>k. \<forall>q \<in> set (cm_queues m k). qs_frame_class q = k))"

text \<open>
  The rounds of the pump that pass over a class while it has a frame queued, up to the first
  round that picks it or finds it empty.
\<close>

fun overtaken :: "FrameClass \<Rightarrow> ChannelOp list \<Rightarrow> SessionChannelManager option \<Rightarrow> nat" where
  "overtaken k [] h = 0"
| "overtaken k (x # xs) h =
    (case (x, h) of
       (ChPump w, Some m) \<Rightarrow>
         if cm_queues m k = [] then 0
         else (case next_to_send m of
                 Some (Some q, _) \<Rightarrow> if qs_frame_class q = k \<or> channel_step x h = None then 0
                   else Suc (overtaken k xs (channel_step x h))
               | _ \<Rightarrow> 0)
     | _ \<Rightarrow> overtaken k xs (channel_step x h))"

text \<open>One round of tokens spent on the other classes.\<close>

definition round_of_others :: "FrameClass \<Rightarrow> nat" where
  "round_of_others k = 21 - frame_class_weight k"

section \<open>Lemmas\<close>

lemma notify_simps [simp]:
  "cm_tokens (notify_capacity cid m) = cm_tokens m" "cm_queues (notify_capacity cid m) = cm_queues m"
proof (induction cid m rule: notify_capacity.induct)
  case (1 cid m)
  show "cm_tokens (notify_capacity cid m) = cm_tokens m"
    by (subst notify_capacity.simps) (simp add: 1(1) split: option.splits list.splits)
  show "cm_queues (notify_capacity cid m) = cm_queues m"
    by (subst notify_capacity.simps) (simp add: 1(2) split: option.splits list.splits)
qed

lemma credit_simps [simp]:
  "cm_tokens (credit_channel cid sz m) = cm_tokens m" "cm_queues (credit_channel cid sz m) = cm_queues m"
  by (simp_all add: credit_channel_def Let_def split: option.splits)

lemma transmit_effect:
  "transmit k m = Some (q, m') \<Longrightarrow> q = hd (cm_queues m k) \<and>
     cm_queues m' = (cm_queues m)(k := tl (cm_queues m k)) \<and>
     cm_tokens m' = (cm_tokens m)(k := cm_tokens m k - 1)"
  by (auto simp: transmit_def Let_def split: option.splits if_splits)

lemma return_effect:
  "return_to_send q m = Some m' \<Longrightarrow> cm_tokens m' = cm_tokens m \<and>
     cm_queues m' = (cm_queues m)(qs_frame_class q := q # cm_queues m (qs_frame_class q))"
  by (auto simp: return_to_send_def Let_def split: option.splits if_splits)

lemma charge_drop_effect:
  "charge_drop cid ch n b m = (ch1, m1) \<Longrightarrow> cm_tokens m1 = cm_tokens m \<and> cm_queues m1 = cm_queues m"
  by (auto simp: charge_drop_def Let_def)

lemma erase_first_subset: "erase_first cid l = Some (q, rest) \<Longrightarrow> set rest \<subseteq> set l"
  using erase_first_SomeD by blast

lemma drop_first_subset: "drop_first ks cid qs = Some (q, qs') \<Longrightarrow> set (qs' k) \<subseteq> set (qs k)"
  by (induction ks) (auto split: option.splits if_splits dest: erase_first_subset [THEN subsetD])

lemma evict_effect:
  assumes "evict cid ch m = Some (Some (ch1, m1, r))"
  shows "cm_tokens m1 = cm_tokens m \<and> set (cm_queues m1 k) \<subseteq> set (cm_queues m k)"
proof (cases "cs_policy ch")
  case QP_drop_oldest
  then show ?thesis using assms
    by (auto simp: evict_def Let_def split: option.splits prod.splits if_splits
        dest!: charge_drop_effect dest: drop_first_subset [THEN subsetD])
next
  case QP_keep_latest
  then show ?thesis using assms
    by (auto simp: evict_def Let_def split: option.splits prod.splits if_splits dest!: charge_drop_effect)
qed (use assms in \<open>simp add: evict_def\<close>)

lemma admit_effect:
  assumes "admit_business cid k f sz ch r m = Some (r', m')"
  shows "cm_tokens m' = cm_tokens m"
    and "q \<in> set (cm_queues m' j) \<Longrightarrow> q \<in> set (cm_queues m j) \<or> qs_frame_class q = j"
  using assms by (auto simp: admit_business_def reject_frame_def push_back_def split: if_splits)

lemma evict_admit_effect:
  assumes "evict cid ch m = Some (Some (ch1, m1, r))" "admit_business cid k f sz ch1 r m1 = Some (r', m')"
  shows "cm_tokens m' = cm_tokens m"
    and "q \<in> set (cm_queues m' j) \<Longrightarrow> q \<in> set (cm_queues m j) \<or> qs_frame_class q = j"
  using admit_effect [OF assms(2)] evict_effect [OF assms(1)] by auto

lemma enqueue_effect:
  assumes "enqueue cid k f m = Some (r, m')"
  shows "cm_tokens m' = cm_tokens m \<and>
    (q \<in> set (cm_queues m' j) \<longrightarrow> q \<in> set (cm_queues m j) \<or> qs_frame_class q = j)"
proof (cases "k = FC_control \<or> map_of (cm_channels m) cid = None")
  case True
  then show ?thesis using assms
    by (auto simp: enqueue_def enqueue_control_def push_back_def Let_def split: option.splits if_splits)
next
  case False
  then obtain ch where ch: "map_of (cm_channels m) cid = Some ch" by auto
  show ?thesis
  proof (cases "cs_open ch")
    case True
    then have "enqueue_business cid ch k f m = Some (r, m')" using assms ch False by (simp add: enqueue_def)
    then show ?thesis
      by (auto simp: enqueue_business_def reject_frame_def split: option.splits if_splits
          dest: admit_effect evict_admit_effect)
  qed (use assms ch False in \<open>simp add: enqueue_def\<close>)
qed

lemma open_channel_effect [simp]:
  "cm_tokens (snd (open_channel cid domain policy fc bc m)) = cm_tokens m"
  "cm_queues (snd (open_channel cid domain policy fc bc m)) = cm_queues m"
  by (simp_all add: open_channel_def Let_def)

lemma allocate_channel_effect:
  assumes "allocate_channel role domain policy fc bc m = Some (r, m')"
  shows "cm_tokens m' = cm_tokens m \<and> cm_queues m' = cm_queues m"
proof -
  have "m' = m \<or> (\<exists>c. m' = snd (open_channel c domain policy fc bc m))"
    using assms by (auto simp: allocate_channel_def split: option.splits prod.splits sum.splits) (metis snd_conv)+
  then show ?thesis by auto
qed

lemma close_channel_effect:
  "cm_tokens (close_channel cid m) = cm_tokens m \<and> set (cm_queues (close_channel cid m) k) \<subseteq> set (cm_queues m k)"
  by (auto simp: close_channel_def Let_def split: option.splits)

lemma close_all_effect:
  "cm_tokens (close_all m) = cm_tokens m \<and> set (cm_queues (close_all m) k) \<subseteq> set (cm_queues m k)"
proof -
  have "cm_tokens (fold close_channel cs m) = cm_tokens m \<and>
      set (cm_queues (fold close_channel cs m) k) \<subseteq> set (cm_queues m k)" for cs
  proof (induction cs arbitrary: m)
    case (Cons c cs)
    then show ?case using close_channel_effect [of c m k] Cons [of "close_channel c m"] by auto
  qed simp
  then show ?thesis by (simp add: close_all_def)
qed

lemma wait_effect [simp]:
  "cm_tokens (snd (wait_for_capacity cid m)) = cm_tokens m"
  "cm_queues (snd (wait_for_capacity cid m)) = cm_queues m"
  by (auto simp: wait_for_capacity_def Let_def split: option.splits)

lemma cancel_effect [simp]:
  "cm_tokens (ticket_detach a m) = cm_tokens m" "cm_queues (ticket_detach a m) = cm_queues m"
  by (auto simp: ticket_detach_def detach_waiter_def Let_def split: option.splits)

lemma sched_okI:
  assumes "sched_ok (Some m)" "cm_tokens m' = cm_tokens m"
    "\<And>k q. q \<in> set (cm_queues m' k) \<Longrightarrow> q \<in> set (cm_queues m k) \<or> qs_frame_class q = k"
  shows "sched_ok (Some m')"
  using assms by (force simp: sched_ok_def)

lemma sched_ok_charged: "sched_ok (Some m) \<Longrightarrow> sched_ok (Some (charged m))"
  by (simp add: sched_ok_def charged_def refill_class_tokens_def)

lemma transmit_sched:
  assumes ok: "sched_ok (Some m)" and ne: "cm_queues m k \<noteq> []" and t: "transmit k m = Some (q, m')"
  shows "sched_ok (Some m')" and "qs_frame_class q = k"
  using ok ne transmit_effect [OF t] list.set_sel [of "cm_queues m k"]
  by (auto simp: sched_ok_def intro: le_trans [OF diff_le_self])

text \<open>One round of the pump, seen by the scheduler.\<close>

lemma pump_round_cases:
  assumes ok: "sched_ok (Some m)" and s: "has_sendable_frames m"
  shows "pump_round w m = None \<or> (\<exists>k q m1 m'. ready_class (charged m) = Some k \<and>
    next_to_send m = Some (Some q, m1) \<and> qs_frame_class q = k \<and> pump_round w m = Some m' \<and>
    sched_ok (Some m') \<and> cm_tokens m' = (cm_tokens (charged m))(k := cm_tokens (charged m) k - 1))"
proof -
  obtain k where k: "ready_class (charged m) = Some k"
      "next_to_send m = map_option (apfst Some) (transmit k (charged m))"
    using next_to_send_charged [OF s] by blast
  show ?thesis
  proof (cases "transmit k (charged m)")
    case (Some p)
    obtain q m1 where p: "p = (q, m1)" by (cases p)
    note t = Some [unfolded p]
    have ne: "cm_queues (charged m) k \<noteq> []" using ready_classD [OF k(1)] by simp
    note ts = transmit_sched [OF sched_ok_charged [OF ok] ne t] and e = transmit_effect [OF t]
    have n: "next_to_send m = Some (Some q, m1)" using k t by simp
    have "sched_ok (Some m2)" if "return_to_send q m1 = Some m2" for m2
      using ts return_effect [OF that] by (auto simp: sched_ok_def)
    then show ?thesis using k(1) n ts e
      by (cases w; cases "return_to_send q m1") (auto simp: pump_round_def dest: return_effect)
  qed (use k in \<open>simp add: pump_round_def\<close>)
qed

lemma channel_step_sched: "sched_ok h \<Longrightarrow> sched_ok (channel_step x h)"
proof (cases h)
  case (Some m)
  assume "sched_ok h"
  then have ok: "sched_ok (Some m)" using Some by simp
  show ?thesis
  proof (cases x)
    case (ChPump w)
    show ?thesis
    proof (cases "has_sendable_frames m")
      case True
      then show ?thesis using Some ChPump pump_round_cases [OF ok, of w] by (auto simp: sched_ok_def)
    qed (use Some ChPump ok in \<open>simp add: pump_round_def next_to_send_idle\<close>)
  next
    case (ChEnqueue cid k f)
    show ?thesis
    proof (cases "enqueue cid k f m")
      case (Some p)
      then have "enqueue cid k f m = Some (fst p, snd p)" by simp
      from enqueue_effect [OF this] have "sched_ok (Some (snd p))" by (intro sched_okI [OF ok]) auto
      then show ?thesis using \<open>h = Some m\<close> ChEnqueue Some by simp
    qed (use \<open>h = Some m\<close> ChEnqueue in \<open>simp add: sched_ok_def\<close>)
  next
    case (ChAllocate role domain policy fc bc)
    then show ?thesis using Some ok allocate_channel_effect [of role domain policy fc bc m]
      by (cases "allocate_channel role domain policy fc bc m") (auto simp: sched_ok_def)
  qed (use Some ok close_channel_effect close_all_effect in
      \<open>auto intro!: sched_okI [OF ok] dest: close_channel_effect [THEN conjunct2, THEN subsetD]
         close_all_effect [THEN conjunct2, THEN subsetD]\<close>)
qed simp

interpretation sched_machine: invariant_machine
    "\<lambda>h. \<exists>config limits. h = Some (channel_manager config limits)" channel_step sched_ok
proof
  show "sched_ok h" if "\<exists>config limits. h = Some (channel_manager config limits)" for h
    using that by (auto simp: sched_ok_def channel_manager_def)
qed (rule channel_step_sched)

text \<open>The tokens of the other classes, and a whole round of them while the class has none left.\<close>

definition overtake_potential :: "FrameClass \<Rightarrow> SessionChannelManager \<Rightarrow> nat" where
  "overtake_potential k m = (\<Sum>j \<leftarrow> removeAll k frame_classes. cm_tokens m j) +
     (if cm_tokens m k = 0 then round_of_others k else 0)"

lemma overtake_potential_bound:
  assumes "sched_ok (Some m)"
  shows "overtake_potential k m \<le> 2 * round_of_others k"
proof -
  have "cm_tokens m FC_control \<le> 8" "cm_tokens m FC_interactive \<le> 8" "cm_tokens m FC_standard \<le> 4"
    "cm_tokens m FC_bulk \<le> 1"
    using assms unfolding sched_ok_def by (auto dest: spec [of _ FC_control] spec [of _ FC_interactive]
        spec [of _ FC_standard] spec [of _ FC_bulk])
  then show ?thesis
    by (cases k) (auto simp: overtake_potential_def round_of_others_def frame_classes_def)
qed

lemma overtake_potential_decreases:
  assumes k: "cm_queues m k \<noteq> []" and j: "ready_class (charged m) = Some j" "j \<noteq> k"
    and t: "cm_tokens m' = (cm_tokens (charged m))(j := cm_tokens (charged m) j - 1)"
  shows "overtake_potential k m' < overtake_potential k m"
proof -
  have pos: "0 < cm_tokens (charged m) j" using ready_classD [OF j(1)] by simp
  have spend: "overtake_potential k m' < overtake_potential k (charged m)"
    using j(2) pos by (cases k; cases j) (simp_all add: overtake_potential_def frame_classes_def t)
  show ?thesis
  proof (cases "ready_class m = None")
    case True
    then have "cm_tokens m k = 0" using k by (auto simp: ready_class_None)
    then have "overtake_potential k (charged m) \<le> overtake_potential k m"
      using True by (cases k) (simp_all add: overtake_potential_def charged_def refill_class_tokens_def
          round_of_others_def frame_classes_def)
    then show ?thesis using spend by simp
  qed (use spend in \<open>auto simp: charged_def\<close>)
qed

lemma non_pump_tokens:
  assumes "channel_step x (Some m) = Some m'" "\<And>w. x \<noteq> ChPump w"
  shows "cm_tokens m' = cm_tokens m"
  using assms
proof (cases x)
  case (ChEnqueue cid k f)
  then show ?thesis using assms(1) enqueue_effect [of cid k f m _ m'] by auto
next
  case (ChAllocate role domain policy fc bc)
  then show ?thesis using assms(1) allocate_channel_effect [of role domain policy fc bc m _ m'] by auto
qed (auto simp: close_channel_effect close_all_effect)

lemma overtaken_None [simp]: "overtaken k xs None = 0"
  by (induction xs) (auto split: ChannelOp.splits)

lemma overtaken_potential:
  "sched_ok (Some m) \<Longrightarrow> overtaken k xs (Some m) \<le> overtake_potential k m"
proof (induction xs arbitrary: m)
  case (Cons x xs)
  note ok = Cons.prems
  show ?case
  proof (cases "\<exists>w. x = ChPump w")
    case True
    then obtain w where x: "x = ChPump w" by blast
    show ?thesis
    proof (cases "cm_queues m k = []")
      case False
      then have s: "has_sendable_frames m" by (auto simp: has_sendable_iff)
      show ?thesis
      proof (cases "pump_round w m")
        case None
        then show ?thesis using x by (auto split: option.splits)
      next
        case (Some m')
        then obtain j q m1 where j: "ready_class (charged m) = Some j" "next_to_send m = Some (Some q, m1)"
            "qs_frame_class q = j" "sched_ok (Some m')"
            "cm_tokens m' = (cm_tokens (charged m))(j := cm_tokens (charged m) j - 1)"
          using pump_round_cases [OF ok s, of w] by auto
        then show ?thesis
          using x False Some Cons.IH [OF j(4)] overtake_potential_decreases [OF False j(1) _ j(5)] by auto
      qed
    qed (simp add: x)
  next
    case False
    then have o: "overtaken k (x # xs) (Some m) = overtaken k xs (channel_step x (Some m))"
      by (cases x) auto
    show ?thesis
    proof (cases "channel_step x (Some m)")
      case (Some m')
      then have "cm_tokens m' = cm_tokens m" using non_pump_tokens False by blast
      moreover have "sched_ok (Some m')" using channel_step_sched [OF ok, of x] Some by simp
      ultimately show ?thesis using Cons.IH [of m'] unfolding o Some by (simp add: overtake_potential_def)
    next
      case None
      then show ?thesis unfolding o by simp
    qed
  qed
qed simp

section \<open>Samples\<close>

text \<open>A frame with an empty payload.\<close>

definition sample_frame :: "byte \<Rightarrow> u32 \<Rightarrow> Frame" where
  "sample_frame type cid = \<lparr>fr_type = type, fr_flags = 0, fr_channel_id = cid,
     fr_message_id = replicate 16 1, fr_payload = []\<rparr>"

text \<open>
  One bulk frame is sent while the other classes are idle, which leaves them with a whole round of
  tokens; then every class fills up.
\<close>

definition sample_fill :: "ChannelOp list" where
  "sample_fill =
     [ChOpen 1 CD_file QP_reject 64 65536, ChEnqueue 1 FC_bulk (sample_frame ft_file_chunk 1), ChPump True,
      ChEnqueue 1 FC_bulk (sample_frame ft_file_chunk 1)] @
     replicate 16 (ChEnqueue 0 FC_control (sample_frame ft_ping 0)) @
     replicate 16 (ChEnqueue 1 FC_interactive (sample_frame ft_shell_input 1)) @
     replicate 8 (ChEnqueue 1 FC_standard (sample_frame ft_file_manifest 1))"



lemma sample_frame_size:
  "frame_wire_size default_limits (sample_frame t 0) = Some 20"
  "frame_wire_size default_limits (sample_frame t 1) = Some 20"
  by (simp_all add: frame_wire_size_def sample_frame_def stream_encoded_size_def varint_size.simps
      word_le_nat_alt Let_def)

lemmas channel_eval = run_def sample_frame_size channel_manager_def default_channel_budget_def
  open_channel_def Let_def om_put_def om_del_def enqueue_def enqueue_business_def enqueue_control_def queue_full_def
  admit_business_def push_back_def next_to_send.simps ready_class_def frame_classes_def transmit_def
  credit_channel_def pump_round_def has_sendable_frames_def refill_class_tokens_def

lemma replicate_numeral: "replicate (numeral n) x = x # replicate (pred_numeral n) x"
  by (simp add: numeral_eq_Suc)


text \<open>
  A stream channel that is closed while one of its control-class frames (a window update, say) is
  still queued.
\<close>

definition leak_cycle :: "Frame \<Rightarrow> ChannelOp list" where
  "leak_cycle f = [ChOpen 1 CD_stream QP_reject 1 1, ChEnqueue 1 FC_control f, ChClose 1]"

definition leaked :: "ChannelBudgetConfig \<Rightarrow> Limits \<Rightarrow> nat \<Rightarrow> nat \<Rightarrow> SessionChannelManager" where
  "leaked config limits n sz = (channel_manager config limits)\<lparr>cm_control_queued_frames := n,
     cm_control_queued_bytes := n * sz\<rparr>"

lemma leak_cycle_step:
  assumes v: "validate_channel_budget_config config = Inr ()" and sz: "frame_wire_size limits f = Some sz"
    and n: "Suc n \<le> cb_control_reserved_frames config" "Suc n * sz \<le> cb_control_reserved_bytes config"
  shows "run channel_step (leak_cycle f) (Some (leaked config limits n sz)) = Some (leaked config limits (Suc n) sz)"
proof -
  have c: "0 < cb_max_open_channels config" "1 \<le> cb_max_channel_queued_frames config"
    "1 \<le> cb_max_channel_queued_bytes config" "cb_control_reserved_frames config \<le> 65536"
    "cb_control_reserved_bytes config \<le> 268435456"
    using v by (auto simp: validate_channel_budget_config_def Let_def split: if_splits)
  have "sz_add n 1 = Suc n" "sz_add (n * sz) sz = Suc n * sz" using c n by simp_all
  moreover have "(\<lambda>k. filter (\<lambda>q. qs_channel_id q \<noteq> 1) (((\<lambda>_. [])(FC_control :=
      [\<lparr>qs_channel_id = 1, qs_frame_class = FC_control, qs_frame = f\<rparr>])) k)) = (\<lambda>_. [])"
    by (auto simp: fun_eq_iff)
  ultimately show ?thesis using c n sz
    by (simp add: leak_cycle_def leaked_def channel_manager_def open_channel_def enqueue_def
        enqueue_control_def push_back_def close_channel_def om_put_def om_del_def Let_def)
qed

lemma leak_cycles:
  assumes v: "validate_channel_budget_config config = Inr ()" and sz: "frame_wire_size limits f = Some sz"
    and n: "n \<le> cb_control_reserved_frames config" "n * sz \<le> cb_control_reserved_bytes config"
  shows "run channel_step (concat (replicate n (leak_cycle f))) (Some (channel_manager config limits)) =
    Some (leaked config limits n sz)"
  using n
proof (induction n)
  case 0
  then show ?case by (simp add: leaked_def channel_manager_def)
next
  case (Suc n)
  have "concat (replicate (Suc n) (leak_cycle f)) = concat (replicate n (leak_cycle f)) @ leak_cycle f"
    by (simp add: replicate_append_same [symmetric])
  then show ?case using Suc leak_cycle_step [OF v sz Suc.prems] by (simp add: run_append)
qed

text \<open>A session whose peer budget is one frame, with a wait on an idle channel.\<close>

definition small_budget :: ChannelBudgetConfig where
  "small_budget = default_channel_budget\<lparr>cb_per_peer_queued_frames := 1, cb_control_reserved_frames := 1\<rparr>"

definition sample_wait :: "ChannelOp list" where
  "sample_wait = [ChOpen 1 CD_file QP_reject 64 65536, ChOpen 3 CD_message QP_reject 64 65536,
     ChEnqueue 1 FC_bulk (sample_frame ft_file_chunk 1), ChWait 3, ChPump True]"

lemma small_budget_valid: "validate_channel_budget_config small_budget = Inr ()"
  by (simp add: small_budget_def default_channel_budget_def validate_channel_budget_config_def Let_def)

lemma idle_pump: "\<not> has_sendable_frames m \<Longrightarrow> run channel_step (map ChPump ws) (Some m) = Some m"
  by (induction ws) (simp_all add: pump_round_def next_to_send_idle)

lemma sample_wait_result:
  "\<exists>m. run channel_step sample_wait (Some (channel_manager small_budget default_limits)) = Some m \<and>
     \<not> has_sendable_frames m \<and> cm_completions m = [] \<and> map_of (cm_waiters m) 1 = Some 0 \<and>
     (\<exists>a. fst (wait_for_capacity 3 m) = Inr a \<and>
       (a, Inr ()) \<in> set (cm_completions (snd (wait_for_capacity 3 m))))"
  by (simp add: channel_eval sample_wait_def small_budget_def wait_for_capacity_def has_capacity_def
      word_le_nat_alt word_less_nat_alt)

lemma sample_queued:
  "\<exists>m ch. run channel_step (take 3 sample_wait) (Some (channel_manager small_budget default_limits)) = Some m \<and>
     channel_inv m \<and> cm_queues m FC_bulk \<noteq> [] \<and> cm_config m = small_budget \<and> cm_limits m = default_limits \<and>
     cm_business_queued_frames m = 1 \<and> map_of (cm_channels m) 1 = Some ch \<and> cs_policy ch = QP_reject"
proof -
  have "\<exists>m ch. run channel_step (take 3 sample_wait) (Some (channel_manager small_budget default_limits)) = Some m \<and>
      cm_queues m FC_bulk \<noteq> [] \<and> cm_config m = small_budget \<and> cm_limits m = default_limits \<and>
      cm_business_queued_frames m = 1 \<and> map_of (cm_channels m) 1 = Some ch \<and> cs_policy ch = QP_reject"
    by (simp add: channel_eval sample_wait_def small_budget_def word_le_nat_alt word_less_nat_alt)
  then obtain m ch where m: "run channel_step (take 3 sample_wait) (Some (channel_manager small_budget default_limits)) = Some m"
      and f: "cm_queues m FC_bulk \<noteq> []" "cm_config m = small_budget" "cm_limits m = default_limits"
      "cm_business_queued_frames m = 1" "map_of (cm_channels m) 1 = Some ch" "cs_policy ch = QP_reject"
    by blast
  have "list_all (channel_op_ok default_limits) (take 3 sample_wait)"
    by (simp add: sample_wait_def channel_op_ok_def sample_frame_size)
  then have "channel_inv m"
    using channel_machine.guarded_reachable [of default_limits "Some (channel_manager small_budget default_limits)"]
      small_budget_valid m by (fastforce simp: channel_start_def channel_state_ok_def)
  then show ?thesis using m f by blast
qed

section \<open>Properties\<close>

text \<open>
  C11: No starvation.  From any manager that any calls have led to, whatever calls follow, a class
  that has a frame queued is passed over by at most two rounds of the other classes' tokens before
  the scheduler picks it.
\<close>

theorem scheduler_no_starvation:
  "overtaken k later (run channel_step earlier (Some (channel_manager config limits))) \<le> 2 * round_of_others k"
proof (cases "run channel_step earlier (Some (channel_manager config limits))")
  case (Some m)
  then have "sched_ok (Some m)" using sched_machine.inv_reachable [of "Some (channel_manager config limits)" earlier] by auto
  then show ?thesis using overtaken_potential [of m k later] overtake_potential_bound [of m k] Some by simp
qed simp

text \<open>
  The bound is reached: a bulk frame can be passed over by forty frames, two weighted rounds,
  when the class spent its token while the other classes were idle.
\<close>

theorem scheduler_bound_tight:
  "overtaken FC_bulk (replicate 41 (ChPump True))
     (run channel_step sample_fill (Some (channel_manager default_channel_budget default_limits))) =
   2 * round_of_others FC_bulk"
  by (simp add: channel_eval sample_fill_def replicate_numeral round_of_others_def)

text \<open>
  C7: The budgets of a session are exact.  Whatever calls a session makes, as long as its frames can
  be encoded and control-class frames use channel 0, the counters equal the contents of the queues,
  every queue stays within the channel's, the peer's and the control budget, and no call dereferences
  a null result.
\<close>

theorem channel_budgets_exact:
  assumes "validate_channel_budget_config config = Inr ()" "list_all (channel_op_ok limits) ops"
  shows "\<exists>m. run channel_step ops (Some (channel_manager config limits)) = Some m \<and> channel_inv m"
  using channel_machine.guarded_reachable [of limits "Some (channel_manager config limits)" ops] assms
  by (auto simp: channel_start_def channel_state_ok_def)

theorem channel_budgets_exact_witness:
  "\<exists>m. run channel_step sample_wait (Some (channel_manager small_budget default_limits)) = Some m \<and> channel_inv m"
  by (rule channel_budgets_exact)
    (simp_all add: small_budget_valid sample_wait_def channel_op_ok_def sample_frame_size)

text \<open>
  C29: The scheduler always answers, with a frame whenever one is queued: the head of the first class
  that has both a frame and a token, after one refill when no class has both.
\<close>

theorem next_to_send_total:
  assumes "channel_inv m" and "cm_queues m j \<noteq> []"
  shows "\<exists>k m'. next_to_send m = Some (Some (hd (cm_queues m k)), m') \<and> cm_queues m k \<noteq> [] \<and>
    ready_class (charged m) = Some k \<and> cm_queues m' = (cm_queues m)(k := tl (cm_queues m k))"
proof -
  have s: "has_sendable_frames m" using assms(2) by (auto simp: has_sendable_iff)
  obtain k m' where k: "ready_class (charged m) = Some k"
      "next_to_send m = Some (Some (hd (cm_queues m k)), m')" "acct m' = acct (sent k (charged m))"
    using next_to_send_inv [OF assms(1) s] by blast
  have "cm_queues m' = (cm_queues m)(k := tl (cm_queues m k))"
    using arg_cong [OF k(3), of cm_queues] by (simp add: sent_def Let_def)
  then show ?thesis using k ready_classD [OF k(1)] by auto
qed

theorem next_to_send_total_witness:
  "\<exists>m k m'. cm_queues m FC_bulk \<noteq> [] \<and> next_to_send m = Some (Some (hd (cm_queues m k)), m')"
  using sample_queued next_to_send_total [of _ FC_bulk] by blast

text \<open>
  Giving a frame back undoes taking it: the queues, the counters and every channel's share are
  what they were before.
\<close>

theorem return_to_send_restores:
  assumes "channel_inv m" and "next_to_send m = Some (Some q, m1)"
  shows "\<exists>m2. return_to_send q m1 = Some m2 \<and> cm_queues m2 = cm_queues m \<and>
    total_queued_frames m2 = total_queued_frames m \<and> total_queued_bytes m2 = total_queued_bytes m \<and>
    map (map_prod id plain) (cm_channels m2) = map (map_prod id plain) (cm_channels m)"
proof -
  obtain m2 t where m2: "return_to_send q m1 = Some m2" "acct m2 = acct (m\<lparr>cm_tokens := t\<rparr>)"
    using return_to_send_next [OF assms] by blast
  show ?thesis
    using m2(1) arg_cong [OF m2(2), of cm_queues] arg_cong [OF m2(2), of total_queued_frames]
      arg_cong [OF m2(2), of total_queued_bytes] arg_cong [OF m2(2), of cm_channels]
    by (simp add: total_queued_frames_def total_queued_bytes_def)
qed

theorem return_to_send_restores_witness:
  "\<exists>m q m1 m2. next_to_send m = Some (Some q, m1) \<and> return_to_send q m1 = Some m2 \<and> cm_queues m2 = cm_queues m"
proof -
  obtain m where m: "channel_inv m" "has_sendable_frames m" using sample_queued by (auto simp: has_sendable_iff)
  then obtain q m1 where n: "next_to_send m = Some (Some q, m1)" using next_to_send_inv by blast
  then show ?thesis using return_to_send_restores [OF m(1) n] by blast
qed

text \<open>
  A control-class frame that is still queued when its business channel closes is dropped but
  never uncharged.  Opening, using and closing a channel \<open>n\<close> times leaves \<open>n\<close> frames charged to the
  control reservation with every queue empty, until all further control frames are refused.
\<close>

theorem control_reservation_leak:
  assumes "validate_channel_budget_config config = Inr ()" "frame_wire_size limits f = Some sz"
    and "cb_control_reserved_frames config * sz \<le> cb_control_reserved_bytes config"
  shows "\<exists>m. run channel_step (concat (replicate (cb_control_reserved_frames config) (leak_cycle f)))
       (Some (channel_manager config limits)) = Some m \<and>
     \<not> has_sendable_frames m \<and> cm_channels m = [] \<and>
     enqueue 0 FC_control g m = Some (Inl (session_channel_error EC_would_block ''control_reservation_full''), m)"
proof -
  have "cb_control_reserved_frames config \<le> 65536"
    using assms(1) by (auto simp: validate_channel_budget_config_def Let_def split: if_splits)
  then show ?thesis unfolding leak_cycles [OF assms(1,2) order.refl assms(3)]
    by (auto simp: leaked_def channel_manager_def has_sendable_frames_def frame_classes_def enqueue_def enqueue_control_def Let_def)
qed

theorem control_reservation_leak_witness:
  "\<exists>m. run channel_step (leak_cycle (sample_frame ft_stream_window_update 1))
       (Some (channel_manager small_budget default_limits)) = Some m \<and> \<not> has_sendable_frames m \<and>
     enqueue 0 FC_control (sample_frame ft_ping 0) m =
       Some (Inl (session_channel_error EC_would_block ''control_reservation_full''), m)"
  using control_reservation_leak [of small_budget default_limits "sample_frame ft_stream_window_update 1" 20
      "sample_frame ft_ping 0"]
  by (simp add: small_budget_valid sample_frame_size) (auto simp: small_budget_def default_channel_budget_def)

text \<open>
  A wait for capacity can be forgotten.  The wait on channel 3 was refused immediate completion
  because another channel had used up the peer's budget; that channel's frame has been sent, a new
  wait would complete at once, and yet no later round of the pump completes the old one.
\<close>

theorem capacity_wait_forgotten:
  "\<exists>m. run channel_step (sample_wait @ map ChPump later) (Some (channel_manager small_budget default_limits)) = Some m \<and>
     \<not> has_sendable_frames m \<and> cm_completions m = [] \<and> map_of (cm_waiters m) 1 = Some 0 \<and>
     (\<exists>a. fst (wait_for_capacity 3 m) = Inr a \<and>
       (a, Inr ()) \<in> set (cm_completions (snd (wait_for_capacity 3 m))))"
  using sample_wait_result idle_pump by (force simp: run_append)

text \<open>
  C32: On an open channel with the reject policy, a business frame is refused exactly when it would
  exceed the peer's budget, else exactly when it would exceed the channel's capacity, with the error
  that says which; a refusal leaves the queues and the counters alone, and otherwise the frame is
  appended to the queue of its class.
\<close>

theorem enqueue_reject_exact:
  assumes inv: "channel_inv m" and ch: "map_of (cm_channels m) cid = Some ch" "cs_policy ch = QP_reject"
    and k: "k \<noteq> FC_control" and sz: "frame_wire_size (cm_limits m) f = Some sz"
  shows "\<exists>r m'. enqueue cid k f m = Some (r, m') \<and>
    (if cm_business_queued_frames m = cb_per_peer_queued_frames (cm_config m) \<or>
        cm_business_queued_bytes m + sz > cb_per_peer_queued_bytes (cm_config m) then
       r = Inl (session_channel_error EC_would_block ''per_peer_budget_full'') \<and> acct m' = acct m
     else if cs_queued_frames ch = cs_queued_frame_capacity ch \<or>
        cs_queued_bytes ch + sz > cs_queued_byte_capacity ch then
       r = Inl (session_channel_error EC_would_block ''channel_queue_full'') \<and> acct m' = acct m
     else r = Inr \<lparr>rc_admitted = True, rc_dropped_previous = False, rc_dropped_frames = 0\<rparr> \<and>
       cm_queues m' = (cm_queues m)(k := cm_queues m k @
         [\<lparr>qs_channel_id = cid, qs_frame_class = k, qs_frame = f\<rparr>]))"
proof -
  have ok: "channel_ok m cid ch" using inv ch(1) by (rule channel_inv_channel)
  have bud: "budgets_ok m" and wf: "om_wf (cm_channels m)" using inv by (simp_all add: channel_inv_def)
  note b = channel_inv_bounds [OF inv] frame_wire_size_bounds [OF sz]
  have peer: "sz_add (cm_business_queued_frames m) (Suc 0) > cb_per_peer_queued_frames (cm_config m) \<longleftrightarrow>
      cm_business_queued_frames m = cb_per_peer_queued_frames (cm_config m)"
    "sz_add (cm_business_queued_bytes m) sz = cm_business_queued_bytes m + sz"
    using b bud by (auto simp: budgets_ok_def)
  have full: "queue_full sz ch \<longleftrightarrow> cs_queued_frames ch = cs_queued_frame_capacity ch \<or>
      cs_queued_bytes ch + sz > cs_queued_byte_capacity ch"
    using b ok by (auto simp: channel_ok_def queue_full_def)
  have rej: "acct (put_channel cid (ch\<lparr>cs_stats := st\<rparr>) m) = acct m" for st
    by (rule acct_put_same [OF wf ch(1)]) simp
  have "enqueue cid k f m = enqueue_business cid ch k f m"
    using ch ok k by (simp add: enqueue_def channel_ok_def)
  then show ?thesis using ch(2) sz rej
    by (simp add: enqueue_business_def peer full evict_def admit_business_def reject_frame_def push_back_def)
qed

theorem enqueue_reject_exact_witness:
  "\<exists>m m'. channel_inv m \<and> enqueue 1 FC_bulk (sample_frame ft_file_chunk 1) m =
     Some (Inl (session_channel_error EC_would_block ''per_peer_budget_full''), m')"
proof -
  obtain m ch where m: "channel_inv m" "map_of (cm_channels m) 1 = Some ch" "cs_policy ch = QP_reject"
      "cm_config m = small_budget" "cm_limits m = default_limits" "cm_business_queued_frames m = 1"
    using sample_queued by blast
  then have "frame_wire_size (cm_limits m) (sample_frame ft_file_chunk 1) = Some 20"
    by (simp add: sample_frame_size)
  from enqueue_reject_exact [OF m(1,2,3) FrameClass.distinct(6) this] show ?thesis
    using m by (auto simp: small_budget_def)
qed

end
