(* ===== verification/Heyaki_Capacity_Waits.thy ===== *)
theory Heyaki_Capacity_Waits
  imports Heyaki_Scheduler
begin

text \<open>
  The tickets of capacity waits: their control blocks are shared by the tickets' holders and the
  manager, and every one of them calls its completion exactly once.
\<close>

section \<open>Capacity waits\<close>

text \<open>
  A ticket is known by the address of its control block.  A block is either registered with the
  manager or has called its completion; a block that is gone has called it too.  The first argument bounds the waiter ids that have been given out.
\<close>

definition registered_ok :: "SessionChannelManager \<Rightarrow> u64 \<Rightarrow> nat \<Rightarrow> bool" where
  "registered_ok m wid a \<longleftrightarrow> wid < cm_next_waiter_id m \<and>
     (\<exists>c. map_of (cm_controls m) a = Some c \<and> tc_waiter_id c = wid \<and> tc_manager c)"

definition control_ok :: "SessionChannelManager \<Rightarrow> nat \<Rightarrow> TicketControl \<Rightarrow> bool" where
  "control_ok m a c \<longleftrightarrow> a < cm_next_address m \<and>
     (tc_manager c \<longrightarrow> map_of (cm_waiters m) (tc_waiter_id c) = Some a) \<and>
     tc_completed c = (\<not> tc_manager c) \<and> (a \<in> fst ` set (cm_completions m) \<longleftrightarrow> tc_completed c)"

definition wait_inv :: "nat \<Rightarrow> SessionChannelManager \<Rightarrow> bool" where
  "wait_inv n m \<longleftrightarrow> unat (cm_next_waiter_id m) \<le> n \<and> om_wf (cm_waiters m) \<and> om_wf (cm_controls m) \<and> distinct (map fst (cm_completions m)) \<and>
     (\<forall>wid a. map_of (cm_waiters m) wid = Some a \<longrightarrow> registered_ok m wid a) \<and>
     (\<forall>a c. map_of (cm_controls m) a = Some c \<longrightarrow> control_ok m a c) \<and>
     (\<forall>a. map_of (cm_controls m) a = None \<longrightarrow> (a \<in> fst ` set (cm_completions m) \<longleftrightarrow> a < cm_next_address m))"

definition waits :: "SessionChannelManager \<Rightarrow> (u64, nat) omap \<times> (nat, TicketControl) omap \<times> (nat \<times> unit result) list \<times> u64 \<times> nat" where
  "waits m = (cm_waiters m, cm_controls m, cm_completions m, cm_next_waiter_id m, cm_next_address m)"

lemma wait_inv_cong: "waits m' = waits m \<Longrightarrow> wait_inv n m \<Longrightarrow> wait_inv n m'"
  by (simp add: waits_def wait_inv_def registered_ok_def control_ok_def)

lemma wait_inv_complete:
  assumes inv: "wait_inv n m"
  shows "wait_inv n (complete_waiter w r m)"
proof (cases "map_of (cm_waiters m) w")
  case (Some a)
  then obtain c where c: "map_of (cm_controls m) a = Some c" "tc_waiter_id c = w" "tc_manager c"
    using inv by (auto simp: wait_inv_def registered_ok_def)
  let ?m = "complete_waiter w r m"
  have m': "?m = m\<lparr>cm_waiters := om_del w (cm_waiters m),
      cm_controls := om_put a (c\<lparr>tc_manager := False, tc_completed := True\<rparr>) (cm_controls m),
      cm_completions := cm_completions m @ [(a, r)]\<rparr>"
    using Some c by (simp add: complete_waiter_def)
  have ca: "control_ok m a c" using inv c by (simp add: wait_inv_def)
  then have na: "a \<notin> fst ` set (cm_completions m)" "a < cm_next_address m" using c by (simp_all add: control_ok_def)
  have wf: "om_wf (cm_controls m)" using inv by (simp add: wait_inv_def)
  have "registered_ok ?m wid b" if "registered_ok m wid b" "wid \<noteq> w" for wid b
    using that c wf by (auto simp: registered_ok_def m' om_simps)
  moreover have "control_ok ?m b d" if "control_ok m b d" "b \<noteq> a" for b d
    using that Some by (auto simp: control_ok_def m' om_simps)
  moreover have "control_ok ?m a (c\<lparr>tc_manager := False, tc_completed := True\<rparr>)"
    using ca by (simp add: control_ok_def m')
  ultimately show ?thesis using inv na wf unfolding wait_inv_def
    by (simp add: m' om_simps image_iff)
qed (use inv in \<open>simp add: complete_waiter_def\<close>)

lemma waits_notify: "wait_inv n m \<Longrightarrow> wait_inv n (notify_capacity cid m)"
proof (induction cid m rule: notify_capacity.induct)
  case (1 cid m)
  have "wait_inv n (put_channel cid ch m)" for ch
    by (rule wait_inv_cong [OF _ "1.prems"]) (simp add: waits_def)
  then have "wait_inv n (complete_waiter w r (put_channel cid ch m))" for w r ch by (rule wait_inv_complete)
  then show ?case using 1 by (subst notify_capacity.simps) (auto split: option.splits list.splits)
qed

lemma waits_channels [simp]:
  "waits (put_channel cid ch m) = waits m" "waits (m\<lparr>cm_queues := qs\<rparr>) = waits m"
  "waits (m\<lparr>cm_tokens := t\<rparr>) = waits m" "waits (m\<lparr>cm_business_queued_frames := a\<rparr>) = waits m"
  "waits (m\<lparr>cm_business_queued_bytes := a\<rparr>) = waits m" "waits (m\<lparr>cm_control_queued_frames := a\<rparr>) = waits m"
  "waits (m\<lparr>cm_control_queued_bytes := a\<rparr>) = waits m" "waits (push_back k q m) = waits m"
  "waits (refill_class_tokens m) = waits m" "waits (m\<lparr>cm_channels := chs\<rparr>) = waits m"
  by (simp_all add: waits_def push_back_def refill_class_tokens_def)

lemma waits_charge_drop: "charge_drop cid ch n b m = (ch1, m1) \<Longrightarrow> waits m1 = waits m"
  by (auto simp: charge_drop_def Let_def)

lemma waits_evict: "evict cid ch m = Some (Some (ch1, m1, r)) \<Longrightarrow> waits m1 = waits m"
  by (auto simp: evict_def Let_def split: QueueFullPolicy.splits option.splits prod.splits if_splits
      dest!: waits_charge_drop)

lemma waits_enqueue: "enqueue cid k f m = Some (r, m') \<Longrightarrow> waits m' = waits m"
  by (auto simp: enqueue_def enqueue_control_def enqueue_business_def reject_frame_def admit_business_def
      Let_def split: option.splits prod.splits if_splits dest!: waits_evict)

lemma waits_open [simp]: "waits (snd (open_channel cid domain policy fc bc m)) = waits m"
  by (simp add: open_channel_def Let_def)

lemma waits_allocate:
  "allocate_channel role domain policy fc bc m = Some (r, m') \<Longrightarrow> waits m' = waits m"
  by (auto simp: allocate_channel_def split: option.splits prod.splits sum.splits) (metis waits_open snd_conv)+

lemma waits_return: "return_to_send q m = Some m' \<Longrightarrow> waits m' = waits m"
  by (auto simp: return_to_send_def Let_def split: option.splits if_splits)

lemma wait_inv_return: "return_to_send q m = Some m' \<Longrightarrow> wait_inv n m \<Longrightarrow> wait_inv n m'"
  by (blast dest: waits_return intro: wait_inv_cong)

lemma wait_inv_close: "wait_inv n m \<Longrightarrow> wait_inv n (close_channel cid m)"
proof -
  assume inv: "wait_inv n m"
  have f: "wait_inv n (fold (\<lambda>w. complete_waiter w r) ws m)" if "wait_inv n m" for ws r m
    using that by (induction ws arbitrary: m) (auto intro: wait_inv_complete)
  show ?thesis
  proof (cases "map_of (cm_channels m) cid")
    case (Some ch)
    let ?m = "fold (\<lambda>w. complete_waiter w (Inl (session_channel_error EC_cancelled ''channel_closed'')))
      (cs_waiters ch) (put_channel cid (ch\<lparr>cs_open := False, cs_waiters := []\<rparr>) m)"
    have "wait_inv n ?m" by (intro f wait_inv_cong [OF waits_channels(1) inv])
    moreover have "waits (close_channel cid m) = waits ?m" using Some by (simp add: close_channel_def Let_def)
    ultimately show ?thesis using wait_inv_cong by blast
  qed (use inv in \<open>simp add: close_channel_def\<close>)
qed

lemma wait_inv_close_all: "wait_inv n m \<Longrightarrow> wait_inv n (close_all m)"
proof -
  have "wait_inv n m \<Longrightarrow> wait_inv n (fold close_channel cs m)" for cs
    by (induction cs arbitrary: m) (auto intro: wait_inv_close)
  then show "wait_inv n m \<Longrightarrow> wait_inv n (close_all m)" by (simp add: close_all_def)
qed

lemma wait_inv_transmit:
  assumes inv: "wait_inv n m" and t: "transmit k m = Some (q, m')"
  shows "wait_inv n m'"
proof -
  have "wait_inv n (put_channel cid ch m1)" if "waits m1 = waits m" for cid ch m1
    by (rule wait_inv_cong [OF _ inv]) (simp add: that)
  then have "wait_inv n (credit_channel cid sz m1)" if "waits m1 = waits m" for cid sz m1
    using that wait_inv_cong [OF that inv]
    by (auto simp: credit_channel_def Let_def split: option.splits intro!: waits_notify)
  then show ?thesis using inv t
    by (auto simp: transmit_def Let_def split: option.splits if_splits intro: wait_inv_cong)
qed

lemma wait_inv_pump: "wait_inv n m \<Longrightarrow> pump_round w m = Some m' \<Longrightarrow> wait_inv n m'"
proof (cases "has_sendable_frames m")
  case True
  assume inv: "wait_inv n m" and p: "pump_round w m = Some m'"
  obtain k where n: "next_to_send m = map_option (apfst Some) (transmit k (charged m))"
    using next_to_send_charged [OF True] by blast
  have "wait_inv n (charged m)" by (rule wait_inv_cong [OF _ inv]) (simp add: charged_def)
  then have "wait_inv n m1" if "transmit k (charged m) = Some (q, m1)" for q m1 using that by (rule wait_inv_transmit)
  then show ?thesis using p n
    by (auto simp: pump_round_def split: option.splits if_splits intro: wait_inv_return)
qed (simp add: pump_round_def next_to_send_idle)

lemma wait_inv_detach:
  assumes inv: "wait_inv n m"
  shows "wait_inv n (ticket_detach a m)"
proof (cases "map_of (cm_controls m) a")
  case (Some c)
  let ?m = "ticket_detach a m"
  have ca: "control_ok m a c" using inv Some by (simp add: wait_inv_def)
  show ?thesis
  proof (cases "tc_manager c")
    case True
    have w: "map_of (cm_waiters m) (tc_waiter_id c) = Some a" "a \<notin> fst ` set (cm_completions m)" "a < cm_next_address m"
      using ca True by (simp_all add: control_ok_def)
    have m': "cm_waiters ?m = om_del (tc_waiter_id c) (cm_waiters m)" "cm_controls ?m = om_del a (cm_controls m)"
      "cm_completions ?m = cm_completions m @ [(a, Inl (session_channel_error EC_cancelled ''capacity_wait_cancelled''))]"
      "cm_next_waiter_id ?m = cm_next_waiter_id m" "cm_next_address ?m = cm_next_address m"
      using Some True ca by (simp_all add: ticket_detach_def detach_waiter_def Let_def control_ok_def)
    have "registered_ok ?m wid b" if "registered_ok m wid b" "wid \<noteq> tc_waiter_id c" for wid b
      using that Some by (auto simp: registered_ok_def m' om_simps)
    moreover have "control_ok ?m b d" if "control_ok m b d" "b \<noteq> a" for b d
      using that w by (auto simp: control_ok_def m' om_simps)
    ultimately show ?thesis using inv w unfolding wait_inv_def by (auto simp: m' om_simps)
  next
    case False
    have m': "cm_waiters ?m = cm_waiters m" "cm_controls ?m = om_del a (cm_controls m)"
      "cm_completions ?m = cm_completions m"
      "cm_next_waiter_id ?m = cm_next_waiter_id m" "cm_next_address ?m = cm_next_address m"
      using Some False ca by (simp_all add: ticket_detach_def Let_def control_ok_def)
    have "registered_ok ?m wid b" if "registered_ok m wid b" for wid b
      using that Some False by (auto simp: registered_ok_def m' om_simps)
    moreover have "control_ok ?m b d" if "control_ok m b d" for b d
      using that by (auto simp: control_ok_def m')
    ultimately show ?thesis using inv ca False unfolding wait_inv_def by (auto simp: m' om_simps control_ok_def)
  qed
qed (use inv in \<open>simp add: ticket_detach_def\<close>)

lemma wait_cases:
  assumes "map_of (cm_waiters m) (cm_next_waiter_id m) = None"
  shows "waits (snd (wait_for_capacity cid m)) = waits m \<or>
    waits (snd (wait_for_capacity cid m)) = (cm_waiters m, om_put (cm_next_address m)
      \<lparr>tc_channel_id = cid, tc_waiter_id = 0, tc_completed = True, tc_manager = False\<rparr> (cm_controls m),
      cm_completions m @ [(cm_next_address m, Inr ())], cm_next_waiter_id m, Suc (cm_next_address m)) \<or>
    waits (snd (wait_for_capacity cid m)) = (om_put (cm_next_waiter_id m) (cm_next_address m) (cm_waiters m),
      om_put (cm_next_address m) \<lparr>tc_channel_id = cid, tc_waiter_id = cm_next_waiter_id m,
        tc_completed = False, tc_manager = True\<rparr> (cm_controls m),
      cm_completions m, cm_next_waiter_id m + 1, Suc (cm_next_address m))"
proof (cases "map_of (cm_channels m) cid")
  case (Some ch)
  then show ?thesis using assms
    by (cases "cs_open ch"; cases "has_capacity ch \<and> cm_business_queued_frames m < cb_per_peer_queued_frames (cm_config m)";
        cases "length (cm_waiters m) \<ge> cm_waiter_capacity m") (simp_all add: wait_for_capacity_def waits_def Let_def)
qed (simp add: wait_for_capacity_def)

text \<open>A new control block, immediate or registered under a fresh waiter id.\<close>

lemma wait_inv_wait:
  assumes inv: "wait_inv n m" and small: "n + 1 < 2 ^ 64"
  shows "wait_inv (Suc n) (snd (wait_for_capacity cid m))"
proof -
  let ?m = "snd (wait_for_capacity cid m)" and ?a = "cm_next_address m" and ?w = "cm_next_waiter_id m"
  have room: "unat ?w \<le> n" "unat ?w + 1 < 2 ^ 64" using inv small by (simp_all add: wait_inv_def)
  have nxt: "unat (?w + 1) = unat ?w + 1" using room(2) by (subst unat_add_lem [THEN iffD1]) auto
  have wf: "om_wf (cm_controls m)" "om_wf (cm_waiters m)" using inv by (simp_all add: wait_inv_def)
  have fresh: "map_of (cm_controls m) ?a = None" "?a \<notin> fst ` set (cm_completions m)" "map_of (cm_waiters m) ?w = None"
  proof -
    show c: "map_of (cm_controls m) ?a = None"
      using inv by (cases "map_of (cm_controls m) ?a") (auto simp: wait_inv_def control_ok_def)
    then show "?a \<notin> fst ` set (cm_completions m)" using inv by (auto simp: wait_inv_def)
    show "map_of (cm_waiters m) ?w = None"
      using inv by (cases "map_of (cm_waiters m) ?w") (auto simp: wait_inv_def registered_ok_def)
  qed
  let ?imm = "\<lparr>tc_channel_id = cid, tc_waiter_id = 0, tc_completed = True, tc_manager = False\<rparr>"
  let ?pend = "\<lparr>tc_channel_id = cid, tc_waiter_id = ?w, tc_completed = False, tc_manager = True\<rparr>"
  consider "waits ?m = waits m"
    | (imm) "waits ?m = (cm_waiters m, om_put ?a ?imm (cm_controls m), cm_completions m @ [(?a, Inr ())], ?w, Suc ?a)"
    | (pend) "waits ?m = (om_put ?w ?a (cm_waiters m), om_put ?a ?pend (cm_controls m), cm_completions m, ?w + 1, Suc ?a)"
    using wait_cases [OF fresh(3), of cid] by blast
  then show ?thesis
  proof cases
    case imm
    have "registered_ok ?m wid b" if "registered_ok m wid b" for wid b
      using that fresh(1) wf imm by (auto simp: registered_ok_def waits_def om_simps)
    moreover have "control_ok ?m b d" if "control_ok m b d" for b d
      using that imm by (auto simp: control_ok_def waits_def)
    moreover have "control_ok ?m ?a ?imm" using imm by (simp add: control_ok_def waits_def)
    ultimately show ?thesis using inv fresh imm wf room unfolding wait_inv_def
      by (auto simp: waits_def om_simps less_Suc_eq)
  next
    case pend
    have "registered_ok ?m wid b" if "registered_ok m wid b" for wid b
      using that fresh(1) wf pend nxt by (auto simp: registered_ok_def waits_def om_simps word_less_nat_alt)
    moreover have "registered_ok ?m ?w ?a" using wf pend nxt
      by (auto simp: registered_ok_def waits_def om_simps word_less_nat_alt)
    moreover have "control_ok ?m b d" if "control_ok m b d" for b d
      using that pend wf fresh by (auto simp: control_ok_def waits_def om_simps)
    moreover have "control_ok ?m ?a ?pend" using pend wf fresh by (simp add: control_ok_def waits_def om_simps)
    ultimately show ?thesis using inv fresh pend wf nxt room unfolding wait_inv_def
      by (auto simp: waits_def om_simps less_Suc_eq)
    next
    case 1
    then show ?thesis using wait_inv_cong [OF 1 inv] by (simp add: wait_inv_def)
  qed
qed


lemma channel_step_waits:
  assumes inv: "wait_inv n m" and small: "n + 1 < 2 ^ 64" and st: "channel_step x (Some m) = Some m'"
  shows "wait_inv (Suc n) m'"
proof -
  have up: "wait_inv n m1 \<Longrightarrow> wait_inv (Suc n) m1" for m1 by (simp add: wait_inv_def)
  have same: "waits m1 = waits m \<Longrightarrow> wait_inv n m1" for m1 using inv wait_inv_cong by blast
  show ?thesis
  proof (cases x)
    case (ChWait cid)
    then show ?thesis using st wait_inv_wait [OF inv small, of cid] by simp
  next
    case (ChEnqueue cid k f)
    then show ?thesis using st waits_enqueue [of cid k f m _ m'] same up by auto
  next
    case (ChAllocate role domain policy fc bc)
    then show ?thesis using st waits_allocate [of role domain policy fc bc m _ m'] same up by auto
  next
    case (ChOpen cid domain policy fc bc)
    then show ?thesis using st same [OF waits_open] up by auto
  qed (use st inv up wait_inv_close wait_inv_close_all wait_inv_pump wait_inv_detach in auto)
qed

lemma run_waits:
  assumes "length ops < 2 ^ 64 - 2" "run channel_step ops (Some (channel_manager config limits)) = Some m"
  shows "wait_inv (Suc (length ops)) m"
  using assms
proof (induction ops arbitrary: m rule: rev_induct)
  case Nil
  then show ?case by (auto simp: channel_manager_def wait_inv_def)
next
  case (snoc x ops)
  then obtain m0 where m0: "run channel_step ops (Some (channel_manager config limits)) = Some m0"
      "channel_step x (Some m0) = Some m"
    by (cases "run channel_step ops (Some (channel_manager config limits))") (auto simp: run_append)
  then show ?case using snoc channel_step_waits [of "Suc (length ops)" m0 x m] by simp
qed

lemma destroy_waits: "wait_inv n m \<Longrightarrow> wait_inv n (manager_destroy m) \<and> cm_waiters (manager_destroy m) = [] \<and>
   cm_next_address (manager_destroy m) = cm_next_address m"
proof (induction m rule: manager_destroy.induct)
  case (1 m)
  show ?case
  proof (cases "cm_waiters m")
    case (Cons p ws)
    then obtain w a where p: "p = (w, a)" by (cases p)
    have "manager_destroy m = manager_destroy (complete_waiter w
        (Inl (session_channel_error EC_cancelled ''session_channels_closed'')) m)"
      using Cons p by (subst manager_destroy.simps) simp
    then show ?thesis using 1(1) [OF Cons p [symmetric] wait_inv_complete [OF 1(2)]] by simp
  qed (use 1 in \<open>simp add: manager_destroy.simps [of m]\<close>)
qed

text \<open>
  C25: A capacity wait completes exactly once.  After any calls, no ticket's callback has run twice,
  and once the manager is destroyed the callback of every ticket ever returned has run, whether its
  holder still keeps it or has dropped it.
\<close>

theorem capacity_wait_exactly_once:
  assumes "length ops < 2 ^ 64 - 2"
    and "run channel_step ops (Some (channel_manager config limits)) = Some m"
  shows "distinct (map fst (cm_completions m)) \<and> distinct (map fst (cm_completions (manager_destroy m))) \<and>
    (\<forall>a. a \<in> fst ` set (cm_completions (manager_destroy m)) \<longleftrightarrow> a < cm_next_address m)"
proof -
  let ?d = "manager_destroy m"
  note inv = run_waits [OF assms] and d = destroy_waits [OF run_waits [OF assms]]
  have "a \<in> fst ` set (cm_completions ?d) \<longleftrightarrow> a < cm_next_address ?d" for a
    using d by (cases "map_of (cm_controls ?d) a") (auto simp: wait_inv_def control_ok_def)
  then show ?thesis using inv d by (simp add: wait_inv_def)
qed

theorem capacity_wait_exactly_once_witness:
  "\<exists>m. run channel_step [ChOpen 1 CD_rpc QP_reject 1 1, ChWait 1] (Some (channel_manager default_channel_budget default_limits)) = Some m \<and>
     distinct (map fst (cm_completions m)) \<and> 0 \<in> fst ` set (cm_completions (manager_destroy m))"
proof -
  have "\<exists>m. run channel_step [ChOpen 1 CD_rpc QP_reject 1 1, ChWait 1]
      (Some (channel_manager default_channel_budget default_limits)) = Some m \<and> cm_next_address m = 1"
    by (simp add: channel_manager_def default_channel_budget_def open_channel_def Let_def om_put_def
        wait_for_capacity_def has_capacity_def)
  then obtain m where m: "run channel_step [ChOpen 1 CD_rpc QP_reject 1 1, ChWait 1]
      (Some (channel_manager default_channel_budget default_limits)) = Some m" "cm_next_address m = 1" by blast
  then show ?thesis using capacity_wait_exactly_once [OF _ m(1)] by simp
qed

end
