(* ===== verification/Heyaki_Message_Codec.thy ===== *)
theory Heyaki_Message_Codec
  imports Heyaki_Message
begin

text \<open>
  The contract the Protobuf message codecs of the application protocols share.  A value is encoded
  by appending its fields; the parser accepts the encoding and returns the value, and whatever the
  parser returns satisfies the rules of the encoder.
\<close>

section \<open>Invariants of field handlers\<close>

lemma fold_result_inv:
  assumes "\<And>f s t. field_wf f \<Longrightarrow> P s \<Longrightarrow> handle f s = Inr t \<Longrightarrow> P t"
  shows "\<forall>f \<in> set fs. field_wf f \<Longrightarrow> P s \<Longrightarrow> fold_result handle fs s = Inr t \<Longrightarrow> P t"
proof (induction fs arbitrary: s)
  case (Cons f fs)
  then obtain s1 where "handle f s = Inr s1" "fold_result handle fs s1 = Inr t"
    by (auto split: sum.splits)
  then show ?case using Cons assms [of f s s1] by simp
qed simp

lemma read_all_inv:
  assumes "\<And>f s t. field_wf f \<Longrightarrow> P s \<Longrightarrow> handle f s = Inr t \<Longrightarrow> P t" "P s"
    "read_all handle bs co s = Inr t"
  shows "P t"
proof -
  obtain fs where "\<forall>f \<in> set fs. field_wf f" "fold_result handle fs s = Inr t"
    using proto_loop_accepts [of handle "\<lparr>pr_rest = bs, pr_component = co\<rparr>" s t] assms(3)
    by (auto simp: read_all_def)
  then show ?thesis using fold_result_inv [of P handle fs s t] assms(1,2) by blast
qed

lemma field_wf_bytes: "field_wf f \<Longrightarrow> length (pf_bytes f) < 2 ^ 64"
  by (auto simp: field_wf_def)

section \<open>The contract\<close>

text \<open>
  \<open>ok\<close> is what the C++ type of the message guarantees by itself: the sizes of its identifier arrays
  and that its buffers are shorter than \<open>2\<^sup>6\<^sup>4\<close> octets.
\<close>

locale message_codec =
  fixes ok :: "'a \<Rightarrow> bool"
    and enc :: "'a \<Rightarrow> bytes result"
    and par :: "bytes \<Rightarrow> 'a result"
  assumes parse_encoded: "ok a \<Longrightarrow> enc a = Inr bs \<Longrightarrow> par bs = Inr a"
    and parsed_encodes: "par bs = Inr a \<Longrightarrow> ok a \<and> (\<exists>cs. enc a = Inr cs)"
begin

lemma encode_inject: "ok a \<Longrightarrow> ok b \<Longrightarrow> enc a = Inr bs \<Longrightarrow> enc b = Inr bs \<Longrightarrow> a = b"
  by (metis parse_encoded sum.inject(2))

lemma parsed_iff: "(\<exists>bs. par bs = Inr a) \<longleftrightarrow> ok a \<and> (\<exists>bs. enc a = Inr bs)"
  using parse_encoded parsed_encodes by blast

lemma reencode: "par bs = Inr a \<Longrightarrow> \<exists>cs. enc a = Inr cs \<and> par cs = Inr a"
  using parse_encoded parsed_encodes by blast

end

end
