(* ===== verification/Heyaki_Event.thy ===== *)
theory Heyaki_Event
  imports Heyaki_Message_Codec "HOL-Library.Sublist"
begin

text \<open>
  The event protocol of \<open>event.hpp\<close> and \<open>event_protocol.cpp\<close>: topic names and topic matching, and
  the codecs of the subscribe, item and unsubscribe bodies.
\<close>

section \<open>Topics\<close>

text \<open>An enumeration value that is neither of the two wire values is \<open>EQ_other\<close>.\<close>

datatype EventQos = EQ_best_effort_latest | EQ_reliable_live | EQ_other u32

fun event_qos_value :: "EventQos \<Rightarrow> u32" where
  "event_qos_value EQ_best_effort_latest = 1"
| "event_qos_value EQ_reliable_live = 2"
| "event_qos_value (EQ_other v) = v"

fun event_qos_name :: "EventQos \<Rightarrow> string" where
  "event_qos_name EQ_best_effort_latest = ''best_effort_latest''"
| "event_qos_name EQ_reliable_live = ''reliable_live''"
| "event_qos_name (EQ_other v) = ''unknown''"

abbreviation (input) max_event_topic_bytes :: nat where "max_event_topic_bytes \<equiv> 256"
abbreviation (input) max_event_topic_segments :: nat where "max_event_topic_segments \<equiv> 16"
abbreviation (input) max_event_topic_segment_bytes :: nat where "max_event_topic_segment_bytes \<equiv> 64"

definition event_error :: "string \<Rightarrow> Error" where
  "event_error detail = err EC_protocol ''event'' detail"

definition topic_segment_token :: "string \<Rightarrow> bool" where
  "topic_segment_token segment \<longleftrightarrow>
     list_all (\<lambda>c. (CHR ''a'' \<le> c \<and> c \<le> CHR ''z'') \<or> (CHR ''A'' \<le> c \<and> c \<le> CHR ''Z'') \<or>
       (CHR ''0'' \<le> c \<and> c \<le> CHR ''9'') \<or> c = CHR ''_'' \<or> c = CHR ''-'') segment"

text \<open>The loop of \<open>valid_event_topic\<close>, from \<open>index\<close> on.\<close>

function topic_scan :: "string \<Rightarrow> nat \<Rightarrow> nat \<Rightarrow> nat \<Rightarrow> bool" where
  "topic_scan topic index segments segment_start =
    (if index > length topic then True
     else if index = length topic \<or> topic ! index = CHR ''.'' then
       (let segment = take (index - segment_start) (drop segment_start topic) in
        if segment = [] \<or> length segment > max_event_topic_segment_bytes \<or>
           \<not> topic_segment_token segment then False
        else if segments + 1 > max_event_topic_segments then False
        else topic_scan topic (index + 1) (segments + 1) (index + 1))
     else topic_scan topic (index + 1) segments segment_start)"
  by auto
termination
  by (relation "measure (\<lambda>(t, i, n, s). length t + 1 - i)") auto

declare topic_scan.simps [simp del]

definition valid_event_topic :: "string \<Rightarrow> bool" where
  "valid_event_topic topic =
    (if topic = [] \<or> length topic > max_event_topic_bytes then False
     else topic_scan topic 0 0 0)"

definition event_topic_matches :: "string \<Rightarrow> bool \<Rightarrow> string \<Rightarrow> bool" where
  "event_topic_matches pattern prefix_match topic =
    (if pattern = topic then True
     else if \<not> prefix_match then False
     else if length topic \<le> length pattern then False
     else if take (length pattern) topic \<noteq> pattern then False
     else topic ! length pattern = CHR ''.'')"

section \<open>Bodies\<close>

record EventSubscribeBody =
  es_subscription_id :: id_bytes
  es_topic :: string
  es_prefix_match :: bool
  es_qos :: EventQos

record EventItemBody =
  ei_subscription_id :: id_bytes
  ei_event_id :: id_bytes
  ei_publisher_device_id :: id_bytes
  ei_publisher_sequence :: u64
  ei_schema_version :: u32
  ei_wall_time_unix_milliseconds :: "u64 option"
  ei_qos :: EventQos
  ei_payload :: bytes

record EventUnsubscribeBody =
  eu_subscription_id :: id_bytes

definition parse_qos :: "u64 \<Rightarrow> EventQos result" where
  "parse_qos v = (if v = 1 then Inr EQ_best_effort_latest
     else if v = 2 then Inr EQ_reliable_live else Inl (event_error ''qos_invalid''))"

definition validate_event_payload_size :: "nat \<Rightarrow> Limits \<Rightarrow> unit result" where
  "validate_event_payload_size payload_size limits =
    (if payload_size > max_event_payload_bytes limits then
       Inl (event_error ''payload_oversized'') else Inr ())"

section \<open>Subscribe\<close>

definition encode_event_subscribe :: "EventSubscribeBody \<Rightarrow> Limits \<Rightarrow> bytes result" where
  "encode_event_subscribe subscribe limits =
    (if id_is_zero (es_subscription_id subscribe) then
       Inl (event_error ''subscription_id_missing'')
     else if \<not> valid_event_topic (es_topic subscribe) then Inl (event_error ''topic_invalid'')
     else if es_qos subscribe \<noteq> EQ_best_effort_latest \<and> es_qos subscribe \<noteq> EQ_reliable_live then
       Inl (event_error ''qos_invalid'')
     else Inr (append_bytes 1 (es_subscription_id subscribe) @
               append_text 2 (es_topic subscribe) @
               (if es_prefix_match subscribe then append_uint 3 1 else []) @
               append_uint 4 (ucast (event_qos_value (es_qos subscribe)))))"

record SubscribeParse =
  sp_body :: EventSubscribeBody
  sp_have_id :: bool
  sp_have_topic :: bool
  sp_have_qos :: bool

definition subscribe_field :: "ProtoField \<Rightarrow> SubscribeParse \<Rightarrow> SubscribeParse result" where
  "subscribe_field f p =
    (let b = sp_body p in
     if pf_number f = 1 \<and> pf_wire_type f = 2 then
       (if length (pf_bytes f) \<noteq> 16 then Inl (event_error ''subscription_id_field_invalid'')
        else Inr (p\<lparr>sp_body := b\<lparr>es_subscription_id := pf_bytes f\<rparr>, sp_have_id := True\<rparr>))
     else if pf_number f = 2 \<and> pf_wire_type f = 2 then
       Inr (p\<lparr>sp_body := b\<lparr>es_topic := text_of (pf_bytes f)\<rparr>, sp_have_topic := True\<rparr>)
     else if pf_number f = 3 \<and> pf_wire_type f = 0 then
       Inr (p\<lparr>sp_body := b\<lparr>es_prefix_match := pf_integer f \<noteq> 0\<rparr>\<rparr>)
     else if pf_number f = 4 \<and> pf_wire_type f = 0 then
       (case parse_qos (pf_integer f) of Inl e \<Rightarrow> Inl e
        | Inr q \<Rightarrow> Inr (p\<lparr>sp_body := b\<lparr>es_qos := q\<rparr>, sp_have_qos := True\<rparr>))
     else Inr p)"

definition parse_event_subscribe :: "bytes \<Rightarrow> Limits \<Rightarrow> EventSubscribeBody result" where
  "parse_event_subscribe payload limits =
    (case read_all subscribe_field payload ''proto''
       \<lparr>sp_body = \<lparr>es_subscription_id = replicate 16 0, es_topic = [], es_prefix_match = False,
          es_qos = EQ_best_effort_latest\<rparr>,
        sp_have_id = False, sp_have_topic = False, sp_have_qos = False\<rparr> of
       Inl e \<Rightarrow> Inl e
     | Inr p \<Rightarrow>
       if \<not> sp_have_id p \<or> \<not> sp_have_topic p \<or> \<not> sp_have_qos p then
         Inl (event_error ''subscribe_field_missing'')
       else if id_is_zero (es_subscription_id (sp_body p)) then
         Inl (event_error ''subscription_id_missing'')
       else if \<not> valid_event_topic (es_topic (sp_body p)) then Inl (event_error ''topic_invalid'')
       else Inr (sp_body p))"

section \<open>Item\<close>

definition encode_event_item :: "EventItemBody \<Rightarrow> Limits \<Rightarrow> bytes result" where
  "encode_event_item item limits =
    (if id_is_zero (ei_subscription_id item) then Inl (event_error ''subscription_id_missing'')
     else if id_is_zero (ei_event_id item) then Inl (event_error ''event_id_missing'')
     else if id_is_zero (ei_publisher_device_id item) then Inl (event_error ''publisher_missing'')
     else if ei_schema_version item = 0 then Inl (event_error ''schema_version_invalid'')
     else if ei_qos item \<noteq> EQ_best_effort_latest \<and> ei_qos item \<noteq> EQ_reliable_live then
       Inl (event_error ''qos_invalid'')
     else case validate_event_payload_size (length (ei_payload item)) limits of Inl e \<Rightarrow> Inl e
     | Inr _ \<Rightarrow>
       Inr (append_bytes 1 (ei_subscription_id item) @
            append_bytes 2 (ei_event_id item) @
            append_bytes 3 (ei_publisher_device_id item) @
            append_uint 4 (ei_publisher_sequence item) @
            append_uint 5 (ucast (ei_schema_version item)) @
            (case ei_wall_time_unix_milliseconds item of None \<Rightarrow> [] | Some t \<Rightarrow> append_uint 6 t) @
            append_uint 7 (ucast (event_qos_value (ei_qos item))) @
            append_bytes 8 (ei_payload item)))"

record ItemParse =
  ip_body :: EventItemBody
  ip_have_subscription :: bool
  ip_have_event_id :: bool
  ip_have_publisher :: bool
  ip_have_sequence :: bool
  ip_have_schema :: bool
  ip_have_qos :: bool

definition item_field :: "ProtoField \<Rightarrow> ItemParse \<Rightarrow> ItemParse result" where
  "item_field f p =
    (let b = ip_body p in
     if pf_number f = 1 \<and> pf_wire_type f = 2 then
       (if length (pf_bytes f) \<noteq> 16 then Inl (event_error ''subscription_id_field_invalid'')
        else Inr (p\<lparr>ip_body := b\<lparr>ei_subscription_id := pf_bytes f\<rparr>, ip_have_subscription := True\<rparr>))
     else if pf_number f = 2 \<and> pf_wire_type f = 2 then
       (if length (pf_bytes f) \<noteq> 16 then Inl (event_error ''event_id_field_invalid'')
        else Inr (p\<lparr>ip_body := b\<lparr>ei_event_id := pf_bytes f\<rparr>, ip_have_event_id := True\<rparr>))
     else if pf_number f = 3 \<and> pf_wire_type f = 2 then
       (if length (pf_bytes f) \<noteq> 32 then Inl (event_error ''publisher_field_invalid'')
        else Inr (p\<lparr>ip_body := b\<lparr>ei_publisher_device_id := pf_bytes f\<rparr>, ip_have_publisher := True\<rparr>))
     else if pf_number f = 4 \<and> pf_wire_type f = 0 then
       Inr (p\<lparr>ip_body := b\<lparr>ei_publisher_sequence := pf_integer f\<rparr>, ip_have_sequence := True\<rparr>)
     else if pf_number f = 5 \<and> pf_wire_type f = 0 then
       (if pf_integer f = 0 \<or> pf_integer f > 0xFFFFFFFF then
          Inl (event_error ''schema_version_invalid'')
        else Inr (p\<lparr>ip_body := b\<lparr>ei_schema_version := ucast (pf_integer f)\<rparr>, ip_have_schema := True\<rparr>))
     else if pf_number f = 6 \<and> pf_wire_type f = 0 then
       Inr (p\<lparr>ip_body := b\<lparr>ei_wall_time_unix_milliseconds := Some (pf_integer f)\<rparr>\<rparr>)
     else if pf_number f = 7 \<and> pf_wire_type f = 0 then
       (case parse_qos (pf_integer f) of Inl e \<Rightarrow> Inl e
        | Inr q \<Rightarrow> Inr (p\<lparr>ip_body := b\<lparr>ei_qos := q\<rparr>, ip_have_qos := True\<rparr>))
     else if pf_number f = 8 \<and> pf_wire_type f = 2 then
       Inr (p\<lparr>ip_body := b\<lparr>ei_payload := pf_bytes f\<rparr>\<rparr>)
     else Inr p)"

definition item_start :: ItemParse where
  "item_start = \<lparr>ip_body = \<lparr>ei_subscription_id = replicate 16 0, ei_event_id = replicate 16 0,
       ei_publisher_device_id = replicate 32 0, ei_publisher_sequence = 0, ei_schema_version = 1,
       ei_wall_time_unix_milliseconds = None, ei_qos = EQ_best_effort_latest, ei_payload = []\<rparr>,
     ip_have_subscription = False, ip_have_event_id = False, ip_have_publisher = False,
     ip_have_sequence = False, ip_have_schema = False, ip_have_qos = False\<rparr>"

definition parse_event_item :: "bytes \<Rightarrow> Limits \<Rightarrow> EventItemBody result" where
  "parse_event_item payload limits =
    (case read_all item_field payload ''proto'' item_start of
       Inl e \<Rightarrow> Inl e
     | Inr p \<Rightarrow>
       (let item = ip_body p in
        if \<not> ip_have_subscription p \<or> \<not> ip_have_event_id p \<or> \<not> ip_have_publisher p \<or>
           \<not> ip_have_sequence p \<or> \<not> ip_have_schema p \<or> \<not> ip_have_qos p then
          Inl (event_error ''item_field_missing'')
        else if id_is_zero (ei_subscription_id item) then
          Inl (event_error ''subscription_id_missing'')
        else if id_is_zero (ei_event_id item) then Inl (event_error ''event_id_missing'')
        else if id_is_zero (ei_publisher_device_id item) then
          Inl (event_error ''publisher_missing'')
        else case validate_event_payload_size (length (ei_payload item)) limits of
            Inl e \<Rightarrow> Inl e
          | Inr _ \<Rightarrow> Inr item))"

section \<open>Unsubscribe\<close>

definition encode_event_unsubscribe :: "EventUnsubscribeBody \<Rightarrow> bytes result" where
  "encode_event_unsubscribe unsubscribe =
    (if id_is_zero (eu_subscription_id unsubscribe) then
       Inl (event_error ''subscription_id_missing'')
     else Inr (append_bytes 1 (eu_subscription_id unsubscribe)))"

definition unsubscribe_field ::
  "ProtoField \<Rightarrow> EventUnsubscribeBody \<times> bool \<Rightarrow> (EventUnsubscribeBody \<times> bool) result" where
  "unsubscribe_field f s =
    (if pf_number f = 1 \<and> pf_wire_type f = 2 then
       (if length (pf_bytes f) \<noteq> 16 then Inl (event_error ''subscription_id_field_invalid'')
        else Inr (\<lparr>eu_subscription_id = pf_bytes f\<rparr>, True))
     else Inr s)"

definition parse_event_unsubscribe :: "bytes \<Rightarrow> EventUnsubscribeBody result" where
  "parse_event_unsubscribe payload =
    (case read_all unsubscribe_field payload ''proto''
            (\<lparr>eu_subscription_id = replicate 16 0\<rparr>, False) of
       Inl e \<Rightarrow> Inl e
     | Inr (unsubscribe, have_id) \<Rightarrow>
       if \<not> have_id then Inl (event_error ''unsubscribe_field_missing'')
       else if id_is_zero (eu_subscription_id unsubscribe) then
         Inl (event_error ''subscription_id_missing'')
       else Inr unsubscribe)"

section \<open>Topics as segment lists\<close>

fun topic_segments :: "string \<Rightarrow> string list" where
  "topic_segments [] = [[]]"
| "topic_segments (c # cs) =
    (if c = CHR ''.'' then [] # topic_segments cs
     else case topic_segments cs of [] \<Rightarrow> [[c]] | s # ss \<Rightarrow> (c # s) # ss)"

definition segment_ok :: "string \<Rightarrow> bool" where
  "segment_ok s \<longleftrightarrow> s \<noteq> [] \<and> length s \<le> 64 \<and> topic_segment_token s"

lemma topic_segments_nonempty [simp]: "topic_segments t \<noteq> []"
  by (induction t) (auto split: list.splits)

lemma topic_scan_end: "topic_scan t (Suc (length t)) n (Suc (length t))"
  by (simp add: topic_scan.simps)

lemma topic_scan_segments:
  assumes "st \<le> i" "i \<le> length t" "n \<le> 16"
    "cur = take (i - st) (drop st t)" "topic_segments (drop i t) = s # ss"
  shows "topic_scan t i n st \<longleftrightarrow>
    segment_ok (cur @ s) \<and> list_all segment_ok ss \<and> n + 1 + length ss \<le> 16"
  using assms
proof (induction t i n st arbitrary: cur s ss rule: topic_scan.induct)
  case (1 t i n st)
  show ?case
  proof (cases "i = length t")
    case True
    then show ?thesis
      using 1(5-) by (subst topic_scan.simps) (auto simp: Let_def segment_ok_def topic_scan_end)
  next
    case False
    then have d: "drop i t = t ! i # drop (Suc i) t" using 1(4) by (simp add: Cons_nth_drop_Suc)
    obtain s1 ss1 where n1: "topic_segments (drop (Suc i) t) = s1 # ss1"
      by (meson neq_Nil_conv topic_segments_nonempty)
    show ?thesis
    proof (cases "t ! i = CHR ''.''")
      case True
      have ih: "segment_ok cur \<Longrightarrow> Suc n \<le> 16 \<Longrightarrow> topic_scan t (Suc i) (Suc n) (Suc i) \<longleftrightarrow>
          segment_ok s1 \<and> list_all segment_ok ss1 \<and> n + 2 + length ss1 \<le> 16"
        using 1(1) [of cur "[]" s1 ss1] True False 1(3-) n1
        by (simp add: segment_ok_def [of "take (i - st) (drop st t)"])
      have "s = []" "ss = s1 # ss1" using 1(7) d True n1 by auto
      then show ?thesis using ih True False 1(4,6)
        by (subst topic_scan.simps) (auto simp: Let_def segment_ok_def)
    next
      case nd: False
      have "s = t ! i # s1" "ss = ss1" using 1(7) d nd n1 by auto
      moreover have "take (Suc i - st) (drop st t) = cur @ [t ! i]"
        using 1(3,4,6) False by (simp add: Suc_diff_le take_Suc_conv_app_nth)
      ultimately show ?thesis
        using 1(2) [of "cur @ [t ! i]" s1 ss1] nd False 1(3-5) n1 by (subst topic_scan.simps) simp
    qed
  qed
qed

lemma valid_topic_segments:
  "valid_event_topic t \<longleftrightarrow> t \<noteq> [] \<and> length t \<le> 256 \<and> length (topic_segments t) \<le> 16 \<and>
     list_all segment_ok (topic_segments t)"
proof -
  obtain s ss where "topic_segments t = s # ss" by (meson neq_Nil_conv topic_segments_nonempty)
  then show ?thesis using topic_scan_segments [of 0 0 t 0 "[]" s ss] by (auto simp: valid_event_topic_def)
qed

lemma topic_prefix_segments:
  "prefix (topic_segments p) (topic_segments t) \<longleftrightarrow> p = t \<or> prefix (p @ ''.'') t"
proof (induction p arbitrary: t)
  case Nil
  show ?case by (cases t) (auto split: list.splits)
next
  case (Cons c p)
  obtain s ss where p: "topic_segments p = s # ss" by (meson neq_Nil_conv topic_segments_nonempty)
  show ?case
  proof (cases t)
    case Nil then show ?thesis using p by auto
  next
    case (Cons d u)
    obtain s1 ss1 where u: "topic_segments u = s1 # ss1" by (meson neq_Nil_conv topic_segments_nonempty)
    show ?thesis using Cons.IH [of u] Cons p u by auto
  qed
qed


section \<open>Round trips\<close>

definition subscribe_ok :: "EventSubscribeBody \<Rightarrow> bool" where
  "subscribe_ok s \<longleftrightarrow> length (es_subscription_id s) = 16"

definition item_ok :: "EventItemBody \<Rightarrow> bool" where
  "item_ok i \<longleftrightarrow> length (ei_subscription_id i) = 16 \<and> length (ei_event_id i) = 16 \<and>
     length (ei_publisher_device_id i) = 32 \<and> length (ei_payload i) < 2 ^ 64"

definition unsubscribe_ok :: "EventUnsubscribeBody \<Rightarrow> bool" where
  "unsubscribe_ok u \<longleftrightarrow> length (eu_subscription_id u) = 16"

definition subscribe_fields :: "EventSubscribeBody \<Rightarrow> ProtoField list" where
  "subscribe_fields s = [bytes_field 1 (es_subscription_id s), bytes_field 2 (char_bytes (es_topic s))] @
     (if es_prefix_match s then [uint_field 3 1] else []) @
     [uint_field 4 (ucast (event_qos_value (es_qos s)))]"

definition item_fields :: "EventItemBody \<Rightarrow> ProtoField list" where
  "item_fields i =
     [bytes_field 1 (ei_subscription_id i), bytes_field 2 (ei_event_id i),
      bytes_field 3 (ei_publisher_device_id i), uint_field 4 (ei_publisher_sequence i),
      uint_field 5 (ucast (ei_schema_version i))] @
     (case ei_wall_time_unix_milliseconds i of None \<Rightarrow> [] | Some t \<Rightarrow> [uint_field 6 t]) @
     [uint_field 7 (ucast (event_qos_value (ei_qos i))), bytes_field 8 (ei_payload i)]"

lemma ucast_u32_bound [simp]: "\<not> (0xFFFFFFFF :: u64) < ucast (v :: u32)"
  using unat_u32_bound [of v] by (simp add: word_less_nat_alt unat_ucast)

lemma ucast_u32_zero [simp]: "(ucast (v :: u32) :: u64) = 0 \<longleftrightarrow> v = 0"
  by (metis ucast_u32_u64 unsigned_0)

lemma ucast_u64_zero: "\<not> (0xFFFFFFFF :: u64) < v \<Longrightarrow> (ucast v :: u32) = 0 \<longleftrightarrow> v = 0"
  by (simp add: word_less_nat_alt unat_ucast word_unat_eq_iff)

lemma subscribe_roundtrip:
  assumes "subscribe_ok s" "encode_event_subscribe s l = Inr bs"
  shows "parse_event_subscribe bs l = Inr s"
proof -
  have v: "valid_event_topic (es_topic s)" "\<not> id_is_zero (es_subscription_id s)"
    "es_qos s = EQ_best_effort_latest \<or> es_qos s = EQ_reliable_live"
    and bs: "bs = concat (map field_bytes (subscribe_fields s))"
    using assms(2) by (auto simp: encode_event_subscribe_def subscribe_fields_def append_text_def split: if_splits)
  have "\<forall>f \<in> set (subscribe_fields s). field_wf f"
    using assms(1) v(1) by (auto simp: subscribe_fields_def field_wf_def subscribe_ok_def valid_event_topic_def split: if_splits)
  note r = read_all_encoded [OF this, of subscribe_field "''proto''", folded bs]
  show ?thesis
    using v assms(1) unfolding parse_event_subscribe_def r
    by (cases s) (auto simp: subscribe_fields_def subscribe_field_def subscribe_ok_def parse_qos_def Let_def)
qed

lemma subscribe_field_inv:
  "subscribe_field f p = Inr q \<Longrightarrow>
   subscribe_ok (sp_body p) \<and> (es_qos (sp_body p) = EQ_best_effort_latest \<or> es_qos (sp_body p) = EQ_reliable_live) \<Longrightarrow>
   subscribe_ok (sp_body q) \<and> (es_qos (sp_body q) = EQ_best_effort_latest \<or> es_qos (sp_body q) = EQ_reliable_live)"
  by (auto simp: subscribe_field_def subscribe_ok_def parse_qos_def Let_def split: if_splits sum.splits)

lemma subscribe_parsed:
  assumes "parse_event_subscribe bs l = Inr s"
  shows "subscribe_ok s \<and> (\<exists>cs. encode_event_subscribe s l = Inr cs)"
proof -
  let ?P = "\<lambda>p. subscribe_ok (sp_body p) \<and>
    (es_qos (sp_body p) = EQ_best_effort_latest \<or> es_qos (sp_body p) = EQ_reliable_live)"
  obtain p where r: "read_all subscribe_field bs ''proto''
       \<lparr>sp_body = \<lparr>es_subscription_id = replicate 16 0, es_topic = [], es_prefix_match = False,
          es_qos = EQ_best_effort_latest\<rparr>,
        sp_have_id = False, sp_have_topic = False, sp_have_qos = False\<rparr> = Inr p"
    and p: "s = sp_body p" "\<not> id_is_zero (es_subscription_id s)" "valid_event_topic (es_topic s)"
    using assms by (auto simp: parse_event_subscribe_def split: if_splits sum.splits)
  have "?P p"
    by (rule read_all_inv [of ?P subscribe_field, OF subscribe_field_inv _ r]) (auto simp: subscribe_ok_def)
  with p show ?thesis by (auto simp: encode_event_subscribe_def)
qed

lemma item_roundtrip:
  assumes "item_ok i" "encode_event_item i l = Inr bs"
  shows "parse_event_item bs l = Inr i"
proof -
  have v: "\<not> id_is_zero (ei_subscription_id i)" "\<not> id_is_zero (ei_event_id i)"
    "\<not> id_is_zero (ei_publisher_device_id i)" "ei_schema_version i \<noteq> 0"
    "validate_event_payload_size (length (ei_payload i)) l = Inr ()"
    and q: "ei_qos i = EQ_best_effort_latest \<or> ei_qos i = EQ_reliable_live"
    and bs: "bs = concat (map field_bytes (item_fields i))"
    using assms(2) by (auto simp: encode_event_item_def item_fields_def split: if_splits sum.splits option.splits)
  have "\<forall>f \<in> set (item_fields i). field_wf f"
    using assms(1) by (auto simp: item_fields_def field_wf_def item_ok_def split: option.splits)
  note r = read_all_encoded [OF this, of item_field "''proto''", folded bs]
  have "fold_result item_field (item_fields i) item_start =
    Inr \<lparr>ip_body = i, ip_have_subscription = True, ip_have_event_id = True, ip_have_publisher = True,
     ip_have_sequence = True, ip_have_schema = True, ip_have_qos = True\<rparr>"
    using q v(4) assms(1)
    by (cases i) (auto simp: item_fields_def item_field_def item_ok_def item_start_def parse_qos_def Let_def split: option.splits)
  then show ?thesis using v unfolding parse_event_item_def r by simp
qed

lemma item_field_inv:
  "field_wf f \<Longrightarrow> item_ok (ip_body p) \<and> ei_schema_version (ip_body p) \<noteq> 0 \<and>
     (ei_qos (ip_body p) = EQ_best_effort_latest \<or> ei_qos (ip_body p) = EQ_reliable_live) \<Longrightarrow>
   item_field f p = Inr q \<Longrightarrow>
   item_ok (ip_body q) \<and> ei_schema_version (ip_body q) \<noteq> 0 \<and>
     (ei_qos (ip_body q) = EQ_best_effort_latest \<or> ei_qos (ip_body q) = EQ_reliable_live)"
  using field_wf_bytes [of f]
  by (auto simp: item_field_def item_ok_def parse_qos_def Let_def ucast_u64_zero split: if_splits sum.splits)

lemma item_parsed:
  assumes "parse_event_item bs l = Inr i"
  shows "item_ok i \<and> (\<exists>cs. encode_event_item i l = Inr cs)"
proof -
  let ?P = "\<lambda>p. item_ok (ip_body p) \<and> ei_schema_version (ip_body p) \<noteq> 0 \<and>
     (ei_qos (ip_body p) = EQ_best_effort_latest \<or> ei_qos (ip_body p) = EQ_reliable_live)"
  obtain p where r: "read_all item_field bs ''proto'' item_start = Inr p"
    and p: "i = ip_body p" "\<not> id_is_zero (ei_subscription_id i)" "\<not> id_is_zero (ei_event_id i)"
      "\<not> id_is_zero (ei_publisher_device_id i)" "validate_event_payload_size (length (ei_payload i)) l = Inr ()"
    using assms by (auto simp: parse_event_item_def Let_def split: if_splits sum.splits)
  have "?P p" by (rule read_all_inv [of ?P item_field, OF item_field_inv _ r])
    (auto simp: item_ok_def item_start_def)
  with p show ?thesis by (auto simp: encode_event_item_def)
qed

lemma unsubscribe_roundtrip:
  assumes "unsubscribe_ok u" "encode_event_unsubscribe u = Inr bs"
  shows "parse_event_unsubscribe bs = Inr u"
proof -
  let ?fs = "[bytes_field 1 (eu_subscription_id u)]"
  have bs: "bs = concat (map field_bytes ?fs)" and z: "\<not> id_is_zero (eu_subscription_id u)"
    using assms(2) by (auto simp: encode_event_unsubscribe_def split: if_splits)
  have "\<forall>f \<in> set ?fs. field_wf f" using assms(1) by (simp add: field_wf_def unsubscribe_ok_def)
  from read_all_encoded [OF this, of unsubscribe_field "''proto''", folded bs] show ?thesis
    using z assms(1) by (simp add: parse_event_unsubscribe_def unsubscribe_field_def unsubscribe_ok_def)
qed

lemma unsubscribe_parsed:
  assumes "parse_event_unsubscribe bs = Inr u"
  shows "unsubscribe_ok u \<and> (\<exists>cs. encode_event_unsubscribe u = Inr cs)"
proof -
  obtain h where r: "read_all unsubscribe_field bs ''proto'' (\<lparr>eu_subscription_id = replicate 16 0\<rparr>, False) = Inr (u, h)"
    and z: "\<not> id_is_zero (eu_subscription_id u)"
    using assms by (auto simp: parse_event_unsubscribe_def split: if_splits sum.splits)
  have "unsubscribe_ok (fst (u, h))"
    by (rule read_all_inv [of "\<lambda>s. unsubscribe_ok (fst s)" unsubscribe_field, OF _ _ r])
       (auto simp: unsubscribe_field_def unsubscribe_ok_def split: if_splits)
  with z show ?thesis by (simp add: encode_event_unsubscribe_def)
qed

interpretation subscribe_codec:
  message_codec subscribe_ok "\<lambda>s. encode_event_subscribe s limits" "\<lambda>bs. parse_event_subscribe bs limits"
  for limits
  by unfold_locales (rule subscribe_roundtrip subscribe_parsed, assumption+)+

interpretation item_codec:
  message_codec item_ok "\<lambda>i. encode_event_item i limits" "\<lambda>bs. parse_event_item bs limits"
  for limits
  by unfold_locales (rule item_roundtrip item_parsed, assumption+)+

interpretation unsubscribe_codec:
  message_codec unsubscribe_ok encode_event_unsubscribe parse_event_unsubscribe
  by unfold_locales (rule unsubscribe_roundtrip unsubscribe_parsed, assumption+)+

section \<open>Properties\<close>

text \<open>
  C38: the values the receiver can obtain by parsing are exactly the values the sender can encode,
  for each of the three event bodies; parsing what was encoded returns the value that was sent.
\<close>

theorem event_codec_exact:
  "((\<exists>bs. parse_event_subscribe bs l = Inr s) \<longleftrightarrow>
      length (es_subscription_id s) = 16 \<and> (\<exists>bs. encode_event_subscribe s l = Inr bs)) \<and>
   ((\<exists>bs. parse_event_item bs l = Inr i) \<longleftrightarrow> item_ok i \<and> (\<exists>bs. encode_event_item i l = Inr bs)) \<and>
   ((\<exists>bs. parse_event_unsubscribe bs = Inr u) \<longleftrightarrow>
      length (eu_subscription_id u) = 16 \<and> (\<exists>bs. encode_event_unsubscribe u = Inr bs)) \<and>
   (length (es_subscription_id s) = 16 \<and> encode_event_subscribe s l = Inr b1 \<longrightarrow>
      parse_event_subscribe b1 l = Inr s) \<and>
   (item_ok i \<and> encode_event_item i l = Inr b2 \<longrightarrow> parse_event_item b2 l = Inr i) \<and>
   (length (eu_subscription_id u) = 16 \<and> encode_event_unsubscribe u = Inr b3 \<longrightarrow>
      parse_event_unsubscribe b3 = Inr u)"
  using subscribe_codec.parsed_iff [of l s] item_codec.parsed_iff [of l i] unsubscribe_codec.parsed_iff [of u]
    item_roundtrip [of i l b2] subscribe_roundtrip [of s l b1] unsubscribe_roundtrip [of u b3]
  unfolding subscribe_ok_def unsubscribe_ok_def by blast

theorem event_codec_exact_witness:
  "let i = \<lparr>ei_subscription_id = replicate 16 1, ei_event_id = replicate 16 2,
         ei_publisher_device_id = replicate 32 3, ei_publisher_sequence = 7, ei_schema_version = 1,
         ei_wall_time_unix_milliseconds = Some 5, ei_qos = EQ_reliable_live, ei_payload = [4]\<rparr>;
       bs = [0x0a, 16] @ replicate 16 1 @ [0x12, 16] @ replicate 16 2 @ [0x1a, 32] @ replicate 32 3 @
         [0x20, 7, 0x28, 1, 0x30, 5, 0x38, 2, 0x42, 1, 4]
   in encode_event_item i default_limits = Inr bs \<and> parse_event_item bs default_limits = Inr i"
proof -
  let ?i = "\<lparr>ei_subscription_id = replicate 16 1, ei_event_id = replicate 16 2,
         ei_publisher_device_id = replicate 32 3, ei_publisher_sequence = 7, ei_schema_version = 1,
         ei_wall_time_unix_milliseconds = Some 5, ei_qos = EQ_reliable_live, ei_payload = [4]\<rparr>"
  let ?bs = "[0x0a, 16] @ replicate 16 1 @ [0x12, 16] @ replicate 16 2 @ [0x1a, 32] @ replicate 32 3 @
         [0x20, 7, 0x28, 1, 0x30, 5, 0x38, 2, 0x42, 1, 4] :: bytes"
  have "encode_event_item ?i default_limits = Inr ?bs"
    by (simp add: encode_event_item_def validate_event_payload_size_def id_is_zero_iff default_limits_def)
       (simp add: append_bytes_def append_uint_def append_tag_def append_varint64.simps)
  moreover have "item_ok ?i" by (simp add: item_ok_def)
  ultimately show ?thesis using event_codec_exact [of default_limits undefined ?i undefined "[]" ?bs "[]"]
    by (simp add: Let_def)
qed

text \<open>
  C35: the index loop accepts a topic name exactly when it has between one and sixteen dot-separated
  segments, each a non-empty token of at most 64 characters, in at most 256 characters; and a
  subscription matches a topic exactly when it is the topic or, for a prefix subscription, its
  segment list is a prefix of the topic's.
\<close>

theorem event_topics_by_segments:
  "(valid_event_topic t \<longleftrightarrow> t \<noteq> [] \<and> length t \<le> 256 \<and> length (topic_segments t) \<le> 16 \<and>
      list_all (\<lambda>s. s \<noteq> [] \<and> length s \<le> 64 \<and> topic_segment_token s) (topic_segments t)) \<and>
   (event_topic_matches p prefix_match t \<longleftrightarrow>
      p = t \<or> prefix_match \<and> prefix (topic_segments p) (topic_segments t))"
proof
  show "valid_event_topic t \<longleftrightarrow> t \<noteq> [] \<and> length t \<le> 256 \<and> length (topic_segments t) \<le> 16 \<and>
      list_all (\<lambda>s. s \<noteq> [] \<and> length s \<le> 64 \<and> topic_segment_token s) (topic_segments t)"
    using valid_topic_segments [of t] by (simp add: segment_ok_def [abs_def])
  have "prefix (p @ ''.'') t \<longleftrightarrow> length p < length t \<and> take (length p) t = p \<and> t ! length p = CHR ''.''"
    by (auto simp: prefix_def nth_append)
       (metis append_take_drop_id id_take_nth_drop)
  then show "event_topic_matches p prefix_match t \<longleftrightarrow>
      p = t \<or> prefix_match \<and> prefix (topic_segments p) (topic_segments t)"
    by (auto simp: event_topic_matches_def topic_prefix_segments)
qed

end
