(* ===== verification/Heyaki_Rpc.thy ===== *)
theory Heyaki_Rpc
  imports Heyaki_Message_Codec
begin

text \<open>
  The unary RPC bodies and the service registry of \<open>rpc.hpp\<close> and \<open>rpc_protocol.cpp\<close>.
  \<open>StableStatus\<close> has a fixed underlying type, so any 32-bit value is one of its values.
\<close>

section \<open>Bodies\<close>

type_synonym StableStatus = u32

abbreviation (input) status_unspecified :: StableStatus where "status_unspecified \<equiv> 0"
abbreviation (input) status_ok :: StableStatus where "status_ok \<equiv> 1"
abbreviation (input) status_cancelled :: StableStatus where "status_cancelled \<equiv> 2"
abbreviation (input) status_deadline_exceeded :: StableStatus where "status_deadline_exceeded \<equiv> 3"
abbreviation (input) status_unauthenticated :: StableStatus where "status_unauthenticated \<equiv> 4"
abbreviation (input) status_permission_denied :: StableStatus where "status_permission_denied \<equiv> 5"
abbreviation (input) status_not_found :: StableStatus where "status_not_found \<equiv> 6"
abbreviation (input) status_already_exists :: StableStatus where "status_already_exists \<equiv> 7"
abbreviation (input) status_resource_exhausted :: StableStatus where "status_resource_exhausted \<equiv> 8"
abbreviation (input) status_failed_precondition :: StableStatus where "status_failed_precondition \<equiv> 9"
abbreviation (input) status_unavailable :: StableStatus where "status_unavailable \<equiv> 10"
abbreviation (input) status_internal :: StableStatus where "status_internal \<equiv> 11"
abbreviation (input) status_unimplemented :: StableStatus where "status_unimplemented \<equiv> 12"
abbreviation (input) status_protocol_error :: StableStatus where "status_protocol_error \<equiv> 13"
abbreviation (input) status_outcome_unknown :: StableStatus where "status_outcome_unknown \<equiv> 14"

abbreviation (input) max_rpc_service_name_bytes :: nat where "max_rpc_service_name_bytes \<equiv> 128"
abbreviation (input) max_rpc_method_name_bytes :: nat where "max_rpc_method_name_bytes \<equiv> 128"
abbreviation (input) max_rpc_schema_version :: u32 where "max_rpc_schema_version \<equiv> 65535"
abbreviation (input) min_rpc_deadline_milliseconds :: u32 where "min_rpc_deadline_milliseconds \<equiv> 1"
abbreviation (input) max_rpc_deadline_milliseconds :: u32 where "max_rpc_deadline_milliseconds \<equiv> 600000"
abbreviation (input) default_rpc_deadline_milliseconds :: u32 where
  "default_rpc_deadline_milliseconds \<equiv> 10000"
abbreviation (input) max_rpc_metadata_entries :: nat where "max_rpc_metadata_entries \<equiv> 64"
abbreviation (input) max_rpc_metadata_name_bytes :: nat where "max_rpc_metadata_name_bytes \<equiv> 64"
abbreviation (input) max_rpc_metadata_value_bytes :: nat where "max_rpc_metadata_value_bytes \<equiv> 256"
abbreviation (input) max_rpc_idempotency_key_bytes :: nat where "max_rpc_idempotency_key_bytes \<equiv> 64"

record RpcMetadataEntry =
  rme_name :: string
  rme_value :: bytes

record RpcRequestBody =
  rq_request_id :: id_bytes
  rq_service :: string
  rq_method :: string
  rq_schema_version :: u32
  rq_deadline_remaining_milliseconds :: u32
  rq_idempotency_key :: "bytes option"
  rq_metadata :: "RpcMetadataEntry list"
  rq_payload :: bytes

record RpcResponseBody =
  rs_request_id :: id_bytes
  rs_status :: StableStatus
  rs_safe_detail :: string
  rs_payload :: bytes

record RpcCancelBody =
  rc_request_id :: id_bytes

definition rpc_error :: "string \<Rightarrow> Error" where
  "rpc_error detail = err EC_protocol ''rpc'' detail"

definition printable_ascii :: "string \<Rightarrow> bool" where
  "printable_ascii value \<longleftrightarrow>
     list_all (\<lambda>c. let b = of_char c :: byte in \<not> (b < 0x20 \<or> b > 0x7E)) value"

fun validate_metadata :: "RpcMetadataEntry list \<Rightarrow> unit result" where
  "validate_metadata [] = Inr ()"
| "validate_metadata (e # es) =
    (if rme_name e = [] \<or> length (rme_name e) > max_rpc_metadata_name_bytes \<or>
        \<not> printable_ascii (rme_name e) then Inl (rpc_error ''metadata_name_invalid'')
     else if length (rme_value e) > max_rpc_metadata_value_bytes then
       Inl (rpc_error ''metadata_value_oversized'')
     else validate_metadata es)"

definition validate_request_domain :: "RpcRequestBody \<Rightarrow> Limits \<Rightarrow> unit result" where
  "validate_request_domain request limits =
    (if id_is_zero (rq_request_id request) then Inl (rpc_error ''request_id_missing'')
     else if rq_service request = [] \<or> length (rq_service request) > max_rpc_service_name_bytes \<or>
             \<not> printable_ascii (rq_service request) then Inl (rpc_error ''service_name_invalid'')
     else if rq_method request = [] \<or> length (rq_method request) > max_rpc_method_name_bytes \<or>
             \<not> printable_ascii (rq_method request) then Inl (rpc_error ''method_name_invalid'')
     else if rq_schema_version request = 0 \<or> rq_schema_version request > max_rpc_schema_version then
       Inl (rpc_error ''schema_version_invalid'')
     else if rq_deadline_remaining_milliseconds request < min_rpc_deadline_milliseconds \<or>
             rq_deadline_remaining_milliseconds request > max_rpc_deadline_milliseconds then
       Inl (rpc_error ''deadline_out_of_range'')
     else if (case rq_idempotency_key request of None \<Rightarrow> False
              | Some k \<Rightarrow> k = [] \<or> length k > max_rpc_idempotency_key_bytes) then
       Inl (rpc_error ''idempotency_key_invalid'')
     else if length (rq_metadata request) > max_rpc_metadata_entries then
       Inl (rpc_error ''metadata_count_exceeded'')
     else case validate_metadata (rq_metadata request) of Inl e \<Rightarrow> Inl e | Inr _ \<Rightarrow>
     if length (rq_payload request) > max_rpc_payload_bytes limits then
       Inl (rpc_error ''payload_oversized'')
     else Inr ())"

section \<open>Request\<close>

definition append_metadata_entry :: "RpcMetadataEntry \<Rightarrow> bytes" where
  "append_metadata_entry e =
     append_bytes 7 (append_text 1 (rme_name e) @ append_bytes 2 (rme_value e))"

definition encode_rpc_request :: "RpcRequestBody \<Rightarrow> Limits \<Rightarrow> bytes result" where
  "encode_rpc_request request limits =
    (case validate_request_domain request limits of Inl e \<Rightarrow> Inl e | Inr _ \<Rightarrow>
     Inr (append_bytes 1 (rq_request_id request) @
          append_text 2 (rq_service request) @
          append_text 3 (rq_method request) @
          append_uint 4 (ucast (rq_schema_version request)) @
          append_bytes 5 (append_uint 1 (ucast (rq_deadline_remaining_milliseconds request))) @
          (case rq_idempotency_key request of None \<Rightarrow> [] | Some k \<Rightarrow> append_bytes 6 k) @
          concat (map append_metadata_entry (rq_metadata request)) @
          append_bytes 8 (rq_payload request)))"

record RequestParse =
  qp_body :: RpcRequestBody
  qp_have_id :: bool
  qp_have_service :: bool
  qp_have_method :: bool
  qp_have_schema :: bool
  qp_have_deadline :: bool

definition deadline_field :: "ProtoField \<Rightarrow> RequestParse \<Rightarrow> RequestParse result" where
  "deadline_field f p =
    (if pf_number f = 1 \<and> pf_wire_type f = 0 then
       Inr (p\<lparr>qp_body := (qp_body p)\<lparr>rq_deadline_remaining_milliseconds := ucast (pf_integer f)\<rparr>,
              qp_have_deadline := True\<rparr>)
     else Inr p)"

definition metadata_field ::
  "ProtoField \<Rightarrow> RpcMetadataEntry \<times> bool \<Rightarrow> (RpcMetadataEntry \<times> bool) result" where
  "metadata_field f s =
    (case s of (entry, have_key) \<Rightarrow>
     if pf_number f = 1 \<and> pf_wire_type f = 2 then
       Inr (entry\<lparr>rme_name := text_of (pf_bytes f)\<rparr>, True)
     else if pf_number f = 2 \<and> pf_wire_type f = 2 then
       Inr (entry\<lparr>rme_value := pf_bytes f\<rparr>, have_key)
     else Inr (entry, have_key))"

definition request_field :: "ProtoField \<Rightarrow> RequestParse \<Rightarrow> RequestParse result" where
  "request_field f p =
    (let b = qp_body p in
     if pf_number f = 1 \<and> pf_wire_type f = 2 then
       (if length (pf_bytes f) \<noteq> 16 then Inl (rpc_error ''request_id_field_invalid'')
        else Inr (p\<lparr>qp_body := b\<lparr>rq_request_id := pf_bytes f\<rparr>, qp_have_id := True\<rparr>))
     else if pf_number f = 2 \<and> pf_wire_type f = 2 then
       Inr (p\<lparr>qp_body := b\<lparr>rq_service := text_of (pf_bytes f)\<rparr>, qp_have_service := True\<rparr>)
     else if pf_number f = 3 \<and> pf_wire_type f = 2 then
       Inr (p\<lparr>qp_body := b\<lparr>rq_method := text_of (pf_bytes f)\<rparr>, qp_have_method := True\<rparr>)
     else if pf_number f = 4 \<and> pf_wire_type f = 0 then
       Inr (p\<lparr>qp_body := b\<lparr>rq_schema_version := ucast (pf_integer f)\<rparr>, qp_have_schema := True\<rparr>)
     else if pf_number f = 5 \<and> pf_wire_type f = 2 then
       read_all deadline_field (pf_bytes f) ''proto'' p
     else if pf_number f = 6 \<and> pf_wire_type f = 2 then
       Inr (p\<lparr>qp_body := b\<lparr>rq_idempotency_key := Some (pf_bytes f)\<rparr>\<rparr>)
     else if pf_number f = 7 \<and> pf_wire_type f = 2 then
       (if length (rq_metadata b) \<ge> max_rpc_metadata_entries then
          Inl (rpc_error ''metadata_count_exceeded'')
        else case read_all metadata_field (pf_bytes f) ''proto''
                    (\<lparr>rme_name = [], rme_value = []\<rparr>, False) of
            Inl e \<Rightarrow> Inl e
          | Inr (entry, have_key) \<Rightarrow>
            if \<not> have_key then Inl (rpc_error ''metadata_key_missing'')
            else Inr (p\<lparr>qp_body := b\<lparr>rq_metadata := rq_metadata b @ [entry]\<rparr>\<rparr>))
     else if pf_number f = 8 \<and> pf_wire_type f = 2 then
       Inr (p\<lparr>qp_body := b\<lparr>rq_payload := pf_bytes f\<rparr>\<rparr>)
     else Inr p)"

definition request_start :: RequestParse where
  "request_start = \<lparr>qp_body = \<lparr>rq_request_id = replicate 16 0, rq_service = [], rq_method = [],
       rq_schema_version = 1, rq_deadline_remaining_milliseconds = default_rpc_deadline_milliseconds,
       rq_idempotency_key = None, rq_metadata = [], rq_payload = []\<rparr>,
     qp_have_id = False, qp_have_service = False, qp_have_method = False, qp_have_schema = False,
     qp_have_deadline = False\<rparr>"

definition parse_rpc_request :: "bytes \<Rightarrow> Limits \<Rightarrow> RpcRequestBody result" where
  "parse_rpc_request payload limits =
    (if length payload > sz_add (max_rpc_payload_bytes limits) 1024 then
       Inl (rpc_error ''request_oversized'')
     else case read_all request_field payload ''proto'' request_start of
       Inl e \<Rightarrow> Inl e
     | Inr p \<Rightarrow>
       if \<not> qp_have_id p \<or> \<not> qp_have_service p \<or> \<not> qp_have_method p \<or> \<not> qp_have_schema p \<or>
          \<not> qp_have_deadline p then Inl (rpc_error ''request_field_missing'')
       else case validate_request_domain (qp_body p) limits of
           Inl e \<Rightarrow> Inl e
         | Inr _ \<Rightarrow> Inr (qp_body p))"

section \<open>Response and cancellation\<close>

definition encode_rpc_response :: "RpcResponseBody \<Rightarrow> Limits \<Rightarrow> bytes result" where
  "encode_rpc_response response limits =
    (if id_is_zero (rs_request_id response) then Inl (rpc_error ''request_id_missing'')
     else if rs_status response = status_unspecified then Inl (rpc_error ''status_unspecified'')
     else if length (rs_payload response) > max_rpc_payload_bytes limits then
       Inl (rpc_error ''payload_oversized'')
     else if \<not> is_safe_detail_token (rs_safe_detail response) then
       Inl (rpc_error ''safe_detail_invalid'')
     else Inr (append_bytes 1 (rs_request_id response) @
               append_uint 2 (ucast (rs_status response)) @
               append_text 3 (rs_safe_detail response) @
               append_bytes 4 (rs_payload response)))"

definition response_field ::
  "ProtoField \<Rightarrow> RpcResponseBody \<times> bool \<Rightarrow> (RpcResponseBody \<times> bool) result" where
  "response_field f s =
    (case s of (b, have_id) \<Rightarrow>
     if pf_number f = 1 \<and> pf_wire_type f = 2 then
       (if length (pf_bytes f) \<noteq> 16 then Inl (rpc_error ''request_id_field_invalid'')
        else Inr (b\<lparr>rs_request_id := pf_bytes f\<rparr>, True))
     else if pf_number f = 2 \<and> pf_wire_type f = 0 then
       Inr (b\<lparr>rs_status := ucast (pf_integer f)\<rparr>, have_id)
     else if pf_number f = 3 \<and> pf_wire_type f = 2 then
       Inr (b\<lparr>rs_safe_detail := text_of (pf_bytes f)\<rparr>, have_id)
     else if pf_number f = 4 \<and> pf_wire_type f = 2 then
       Inr (b\<lparr>rs_payload := pf_bytes f\<rparr>, have_id)
     else Inr (b, have_id))"

definition parse_rpc_response :: "bytes \<Rightarrow> Limits \<Rightarrow> RpcResponseBody result" where
  "parse_rpc_response payload limits =
    (if length payload > sz_add (max_rpc_payload_bytes limits) 1024 then
       Inl (rpc_error ''response_oversized'')
     else case read_all response_field payload ''proto''
         (\<lparr>rs_request_id = replicate 16 0, rs_status = status_unspecified, rs_safe_detail = [],
           rs_payload = []\<rparr>, False) of
       Inl e \<Rightarrow> Inl e
     | Inr (response, have_id) \<Rightarrow>
       if \<not> have_id then Inl (rpc_error ''request_id_field_missing'')
       else if id_is_zero (rs_request_id response) then Inl (rpc_error ''request_id_missing'')
       else if rs_status response = status_unspecified then Inl (rpc_error ''status_unspecified'')
       else if \<not> is_safe_detail_token (rs_safe_detail response) then
         Inl (rpc_error ''safe_detail_invalid'')
       else Inr response)"

definition encode_rpc_cancel :: "RpcCancelBody \<Rightarrow> bytes result" where
  "encode_rpc_cancel cancel =
    (if id_is_zero (rc_request_id cancel) then Inl (rpc_error ''request_id_missing'')
     else Inr (append_bytes 1 (rc_request_id cancel)))"

definition cancel_field :: "ProtoField \<Rightarrow> RpcCancelBody \<times> bool \<Rightarrow> (RpcCancelBody \<times> bool) result" where
  "cancel_field f s =
    (if pf_number f = 1 \<and> pf_wire_type f = 2 then
       (if length (pf_bytes f) \<noteq> 16 then Inl (rpc_error ''request_id_field_invalid'')
        else Inr (\<lparr>rc_request_id = pf_bytes f\<rparr>, True))
     else Inr s)"

definition parse_rpc_cancel :: "bytes \<Rightarrow> RpcCancelBody result" where
  "parse_rpc_cancel payload =
    (case read_all cancel_field payload ''proto'' (\<lparr>rc_request_id = replicate 16 0\<rparr>, False) of
       Inl e \<Rightarrow> Inl e
     | Inr (cancel, have_id) \<Rightarrow>
       if \<not> have_id then Inl (rpc_error ''request_id_field_missing'')
       else if id_is_zero (rc_request_id cancel) then Inl (rpc_error ''request_id_missing'')
       else Inr cancel)"

section \<open>Service registry\<close>

text \<open>The type of handlers is a parameter; a null \<open>std::function\<close> is \<open>None\<close>.\<close>

record RpcMethodDescriptor =
  md_service :: string
  md_method :: string
  md_schema_version :: u32
  md_required_scope :: string
  md_streaming :: bool
  md_handler_enforced_scope :: bool

record RpcMethodSummary =
  ms_service :: string
  ms_method :: string
  ms_schema_version :: u32
  ms_required_scope :: string
  ms_streaming :: bool

type_synonym 'h ServiceRegistry = "(string \<times> string, RpcMethodDescriptor \<times> 'h) omap"

definition register_method ::
  "RpcMethodDescriptor \<Rightarrow> 'h option \<Rightarrow> 'h ServiceRegistry \<Rightarrow> unit result \<times> 'h ServiceRegistry" where
  "register_method d handler methods =
    (case handler of None \<Rightarrow> (Inl (rpc_error ''handler_missing''), methods) | Some h \<Rightarrow>
     if md_service d = [] \<or> length (md_service d) > max_rpc_service_name_bytes \<or>
        \<not> printable_ascii (md_service d) then (Inl (rpc_error ''service_name_invalid''), methods)
     else if md_method d = [] \<or> length (md_method d) > max_rpc_method_name_bytes \<or>
        \<not> printable_ascii (md_method d) then (Inl (rpc_error ''method_name_invalid''), methods)
     else if md_schema_version d = 0 \<or> md_schema_version d > max_rpc_schema_version then
       (Inl (rpc_error ''schema_version_invalid''), methods)
     else if md_required_scope d = [] \<or> \<not> printable_ascii (md_required_scope d) then
       (Inl (rpc_error ''required_scope_invalid''), methods)
     else if map_of methods (md_service d, md_method d) \<noteq> None then
       (Inl (rpc_error ''method_already_registered''), methods)
     else (Inr (), om_put (md_service d, md_method d) (d, h) methods))"

definition unregister_method ::
  "string \<Rightarrow> string \<Rightarrow> 'h ServiceRegistry \<Rightarrow> unit result \<times> 'h ServiceRegistry" where
  "unregister_method service method_name methods =
    (if map_of methods (service, method_name) = None then
       (Inl (rpc_error ''method_not_registered''), methods)
     else (Inr (), om_del (service, method_name) methods))"

definition registry_lookup ::
  "string \<Rightarrow> string \<Rightarrow> 'h ServiceRegistry \<Rightarrow> (RpcMethodDescriptor \<times> 'h) option" where
  "registry_lookup service method_name methods = map_of methods (service, method_name)"

definition registry_methods :: "'h ServiceRegistry \<Rightarrow> RpcMethodSummary list" where
  "registry_methods methods =
     map (\<lambda>(k, d, h). \<lparr>ms_service = md_service d, ms_method = md_method d,
       ms_schema_version = md_schema_version d, ms_required_scope = md_required_scope d,
       ms_streaming = md_streaming d\<rparr>) methods"

definition registered_methods :: "'h ServiceRegistry \<Rightarrow> nat" where
  "registered_methods methods = length methods"

section \<open>Round trips\<close>

definition metadata_proto :: "RpcMetadataEntry \<Rightarrow> ProtoField" where
  "metadata_proto e = bytes_field 7 (append_text 1 (rme_name e) @ append_bytes 2 (rme_value e))"

definition request_fields :: "RpcRequestBody \<Rightarrow> ProtoField list" where
  "request_fields r =
     [bytes_field 1 (rq_request_id r), bytes_field 2 (char_bytes (rq_service r)),
      bytes_field 3 (char_bytes (rq_method r)), uint_field 4 (ucast (rq_schema_version r)),
      bytes_field 5 (append_uint 1 (ucast (rq_deadline_remaining_milliseconds r)))] @
     (case rq_idempotency_key r of None \<Rightarrow> [] | Some k \<Rightarrow> [bytes_field 6 k]) @
     map metadata_proto (rq_metadata r) @ [bytes_field 8 (rq_payload r)]"

lemma append_metadata_proto: "append_metadata_entry = (\<lambda>e. field_bytes (metadata_proto e))"
  by (simp add: fun_eq_iff append_metadata_entry_def metadata_proto_def)

lemma encode_request_fields:
  "encode_rpc_request r l = Inr bs \<Longrightarrow>
     validate_request_domain r l = Inr () \<and> bs = concat (map field_bytes (request_fields r))"
  by (auto simp: encode_rpc_request_def request_fields_def append_text_def comp_def
    append_metadata_proto split: sum.splits option.splits)

lemma validate_metadata_all:
  "validate_metadata es = Inr () \<Longrightarrow> \<forall>e \<in> set es. length (rme_name e) \<le> 64 \<and> length (rme_value e) \<le> 256"
  by (induction es) (auto split: if_splits)

lemma validate_request_bounds:
  assumes "validate_request_domain r l = Inr ()"
  shows "length (rq_service r) \<le> 128" "length (rq_method r) \<le> 128" "length (rq_metadata r) \<le> 64"
    "length (rq_payload r) \<le> max_rpc_payload_bytes l"
    "\<forall>e \<in> set (rq_metadata r). length (rme_name e) \<le> 64 \<and> length (rme_value e) \<le> 256"
    "\<forall>k. rq_idempotency_key r = Some k \<longrightarrow> length k \<le> 64"
  using assms validate_metadata_all [of "rq_metadata r"]
  by (auto simp: validate_request_domain_def split: if_splits sum.splits option.splits)

lemma length_append_uint_le: "length (append_uint n v) \<le> 20"
  using length_append_varint64 [of "tag_of n 0"] length_append_varint64 [of v]
  by (simp add: append_uint_def append_tag_of)

lemma metadata_proto_wf: "length (rme_name e) \<le> 64 \<and> length (rme_value e) \<le> 256 \<Longrightarrow> field_wf (metadata_proto e)"
  using length_append_bytes [of 1 "char_bytes (rme_name e)"] length_append_bytes [of 2 "rme_value e"]
  by (simp add: field_wf_def metadata_proto_def append_text_def)

lemma request_fields_wf:
  assumes "validate_request_domain r l = Inr ()" "length (rq_request_id r) = 16" "max_rpc_payload_bytes l < 2 ^ 64"
  shows "\<forall>f \<in> set (request_fields r). field_wf f"
proof -
  note b = validate_request_bounds [OF assms(1)]
  have "\<forall>e \<in> set (rq_metadata r). field_wf (metadata_proto e)" using b(5) metadata_proto_wf by blast
  then show ?thesis
    using b(1,2,4,6) assms(2,3) length_append_uint_le [of 1 "ucast (rq_deadline_remaining_milliseconds r)"]
    by (cases "rq_idempotency_key r") (auto simp: request_fields_def field_wf_def)
qed

lemma metadata_roundtrip:
  assumes "length (rme_name e) \<le> 64" "length (rme_value e) \<le> 256"
  shows "read_all metadata_field (append_text 1 (rme_name e) @ append_bytes 2 (rme_value e)) co s = Inr (e, True)"
proof -
  let ?fs = "[bytes_field 1 (char_bytes (rme_name e)), bytes_field 2 (rme_value e)]"
  have "\<forall>f \<in> set ?fs. field_wf f" using assms by (simp add: field_wf_def)
  from read_all_encoded [OF this, of metadata_field co s] show ?thesis
    by (cases s) (simp add: append_text_def metadata_field_def)
qed

lemma deadline_roundtrip:
  "read_all deadline_field (append_uint 1 (ucast v)) co p =
     Inr (p\<lparr>qp_body := (qp_body p)\<lparr>rq_deadline_remaining_milliseconds := v\<rparr>, qp_have_deadline := True\<rparr>)"
  using read_all_encoded [of "[uint_field 1 (ucast v)]" deadline_field co p]
  by (simp add: field_wf_def deadline_field_def)

lemma fold_metadata:
  "\<forall>e \<in> set es. length (rme_name e) \<le> 64 \<and> length (rme_value e) \<le> 256 \<Longrightarrow>
   length (rq_metadata (qp_body p)) + length es \<le> 64 \<Longrightarrow>
   fold_result request_field (map metadata_proto es) p =
     Inr (p\<lparr>qp_body := (qp_body p)\<lparr>rq_metadata := rq_metadata (qp_body p) @ es\<rparr>\<rparr>)"
proof (induction es arbitrary: p)
  case (Cons e es)
  have "request_field (metadata_proto e) p =
    Inr (p\<lparr>qp_body := (qp_body p)\<lparr>rq_metadata := rq_metadata (qp_body p) @ [e]\<rparr>\<rparr>)"
    using Cons.prems metadata_roundtrip [of e] by (simp add: request_field_def metadata_proto_def Let_def)
  then show ?case using Cons by simp
qed simp

lemma fold_request:
  assumes "validate_request_domain r l = Inr ()" "length (rq_request_id r) = 16"
  shows "fold_result request_field (request_fields r) request_start =
    Inr \<lparr>qp_body = r, qp_have_id = True, qp_have_service = True, qp_have_method = True,
      qp_have_schema = True, qp_have_deadline = True\<rparr>"
proof -
  note b = validate_request_bounds [OF assms(1)]
  define p where "p = \<lparr>qp_body = r\<lparr>rq_metadata := [], rq_payload := []\<rparr>, qp_have_id = True,
     qp_have_service = True, qp_have_method = True, qp_have_schema = True, qp_have_deadline = True\<rparr>"
  have "fold_result request_field ([bytes_field 1 (rq_request_id r), bytes_field 2 (char_bytes (rq_service r)),
      bytes_field 3 (char_bytes (rq_method r)), uint_field 4 (ucast (rq_schema_version r)),
      bytes_field 5 (append_uint 1 (ucast (rq_deadline_remaining_milliseconds r)))] @
     (case rq_idempotency_key r of None \<Rightarrow> [] | Some k \<Rightarrow> [bytes_field 6 k])) request_start = Inr p"
    using assms(2)
    by (cases r) (auto simp: request_field_def request_start_def p_def Let_def deadline_roundtrip split: option.splits)
  moreover have "fold_result request_field (map metadata_proto (rq_metadata r)) p =
      Inr (p\<lparr>qp_body := (qp_body p)\<lparr>rq_metadata := rq_metadata r\<rparr>\<rparr>)"
    using fold_metadata [of "rq_metadata r" p] b(3,5) by (simp add: p_def)
  ultimately show ?thesis
    unfolding request_fields_def append_assoc [symmetric] fold_result_append
    by (cases r) (auto simp: request_field_def p_def)
qed

lemma parse_encoded_request:
  assumes "encode_rpc_request r l = Inr bs" "length (rq_request_id r) = 16" "max_rpc_payload_bytes l + 1024 < 2 ^ 64"
  shows "parse_rpc_request bs l =
    (if length bs \<le> max_rpc_payload_bytes l + 1024 then Inr r else Inl (rpc_error ''request_oversized''))"
  using encode_request_fields [OF assms(1)] request_fields_wf [of r l] assms(2,3) fold_request [OF _ assms(2)]
  by (auto simp: parse_rpc_request_def read_all_encoded)

definition response_fields :: "RpcResponseBody \<Rightarrow> ProtoField list" where
  "response_fields r = [bytes_field 1 (rs_request_id r), uint_field 2 (ucast (rs_status r)),
     bytes_field 3 (char_bytes (rs_safe_detail r)), bytes_field 4 (rs_payload r)]"

lemma parse_response_fields:
  assumes "length (rs_request_id r) = 16" "length (rs_payload r) < 2 ^ 64" "max_rpc_payload_bytes l + 1024 < 2 ^ 64"
    "\<not> id_is_zero (rs_request_id r)" "rs_status r \<noteq> 0" "is_safe_detail_token (rs_safe_detail r)"
    "bs = concat (map field_bytes (response_fields r))"
  shows "parse_rpc_response bs l =
    (if length bs \<le> max_rpc_payload_bytes l + 1024 then Inr r else Inl (rpc_error ''response_oversized''))"
proof -
  have "\<forall>f \<in> set (response_fields r). field_wf f"
    using assms(1,2,6) by (auto simp: response_fields_def field_wf_def is_safe_detail_token_def max_safe_detail_bytes_def)
  from read_all_encoded [OF this, of response_field "''proto''"] show ?thesis
    using assms unfolding parse_rpc_response_def
    by (cases r) (auto simp: response_fields_def response_field_def)
qed

lemma length_response_fields:
  assumes "length (rs_request_id r) = 16" "is_safe_detail_token (rs_safe_detail r)"
  shows "length (concat (map field_bytes (response_fields r))) \<le> length (rs_payload r) + 224"
  using assms length_append_bytes [of 1 "rs_request_id r"] length_append_uint_le [of 2 "ucast (rs_status r)"]
    length_append_bytes [of 3 "char_bytes (rs_safe_detail r)"] length_append_bytes [of 4 "rs_payload r"]
  by (simp add: response_fields_def is_safe_detail_token_def max_safe_detail_bytes_def)

definition cancel_ok :: "RpcCancelBody \<Rightarrow> bool" where
  "cancel_ok c \<longleftrightarrow> length (rc_request_id c) = 16"

lemma cancel_roundtrip:
  assumes "cancel_ok c" "encode_rpc_cancel c = Inr bs"
  shows "parse_rpc_cancel bs = Inr c"
proof -
  let ?fs = "[bytes_field 1 (rc_request_id c)]"
  have bs: "bs = concat (map field_bytes ?fs)" and z: "\<not> id_is_zero (rc_request_id c)"
    using assms(2) by (auto simp: encode_rpc_cancel_def split: if_splits)
  have "\<forall>f \<in> set ?fs. field_wf f" using assms(1) by (simp add: field_wf_def cancel_ok_def)
  from read_all_encoded [OF this, of cancel_field "''proto''", folded bs] show ?thesis
    using z assms(1) by (simp add: parse_rpc_cancel_def cancel_field_def cancel_ok_def)
qed

lemma cancel_parsed:
  assumes "parse_rpc_cancel bs = Inr c"
  shows "cancel_ok c \<and> (\<exists>cs. encode_rpc_cancel c = Inr cs)"
proof -
  obtain h where r: "read_all cancel_field bs ''proto'' (\<lparr>rc_request_id = replicate 16 0\<rparr>, False) = Inr (c, h)"
    and z: "\<not> id_is_zero (rc_request_id c)"
    using assms by (auto simp: parse_rpc_cancel_def split: if_splits sum.splits)
  have "cancel_ok (fst (c, h))"
    by (rule read_all_inv [of "\<lambda>s. cancel_ok (fst s)" cancel_field, OF _ _ r])
       (auto simp: cancel_field_def cancel_ok_def split: if_splits)
  with z show ?thesis by (simp add: encode_rpc_cancel_def)
qed

interpretation cancel_codec: message_codec cancel_ok encode_rpc_cancel parse_rpc_cancel
  by unfold_locales (rule cancel_roundtrip cancel_parsed, assumption+)+

section \<open>The registry as a map\<close>

definition registry_ok :: "'h ServiceRegistry \<Rightarrow> bool" where
  "registry_ok m \<longleftrightarrow> om_wf m \<and>
     (\<forall>((s, n), d, h) \<in> set m. md_service d = s \<and> md_method d = n \<and> s \<noteq> [] \<and> n \<noteq> [] \<and>
        length s \<le> 128 \<and> length n \<le> 128 \<and> md_schema_version d \<noteq> 0 \<and> md_required_scope d \<noteq> [])"

datatype 'h RegistryOp =
    RO_register RpcMethodDescriptor "'h option"
  | RO_unregister string string

fun registry_step :: "'h RegistryOp \<Rightarrow> 'h ServiceRegistry \<Rightarrow> 'h ServiceRegistry" where
  "registry_step (RO_register d h) m = snd (register_method d h m)"
| "registry_step (RO_unregister s n) m = snd (unregister_method s n m)"

lemma register_ok: "registry_ok m \<Longrightarrow> registry_ok (snd (register_method d h m))"
  by (auto simp: register_method_def registry_ok_def set_om_put split: option.splits)

lemma unregister_ok: "registry_ok m \<Longrightarrow> registry_ok (snd (unregister_method s n m))"
  by (auto simp: unregister_method_def registry_ok_def om_del_def)

interpretation registry_machine: invariant_machine "\<lambda>m. m = []" registry_step registry_ok
proof
  fix m :: "'a ServiceRegistry" and x
  show "registry_ok m \<Longrightarrow> registry_ok (registry_step x m)" by (cases x) (auto intro: register_ok unregister_ok)
qed (simp add: registry_ok_def)

definition descriptor_ok :: "RpcMethodDescriptor \<Rightarrow> bool" where
  "descriptor_ok d \<longleftrightarrow> md_service d \<noteq> [] \<and> length (md_service d) \<le> 128 \<and> printable_ascii (md_service d) \<and>
     md_method d \<noteq> [] \<and> length (md_method d) \<le> 128 \<and> printable_ascii (md_method d) \<and>
     md_schema_version d \<noteq> 0 \<and> md_schema_version d \<le> 65535 \<and>
     md_required_scope d \<noteq> [] \<and> printable_ascii (md_required_scope d)"

lemma register_cases:
  "register_method d h m =
    (if h \<noteq> None \<and> descriptor_ok d \<and> map_of m (md_service d, md_method d) = None
     then (Inr (), om_put (md_service d, md_method d) (d, the h) m)
     else (Inl (the (case fst (register_method d h m) of Inl e \<Rightarrow> Some e | Inr _ \<Rightarrow> None)), m))"
  by (auto simp: register_method_def descriptor_ok_def split: option.splits)

lemma sorted_wrt_summaries:
  "registry_ok m \<Longrightarrow> sorted_wrt (<) (map (\<lambda>s. (ms_service s, ms_method s)) (registry_methods m))"
proof -
  assume ok: "registry_ok m"
  have "map (\<lambda>s. (ms_service s, ms_method s)) (registry_methods m) = map fst m"
    using ok by (auto simp: registry_methods_def registry_ok_def)
  then show ?thesis using ok by (simp add: registry_ok_def om_wf_def)
qed

section \<open>Properties\<close>

text \<open>
  C20: a request that the caller encodes is what the callee parses, field for field and metadata in
  order, exactly when the encoding is at most 1024 octets larger than the payload limit; and every
  request the callee parses satisfies the rules of the caller.
\<close>

theorem rpc_request_roundtrip:
  assumes "encode_rpc_request r l = Inr bs"
    and "length (rq_request_id r) = 16" and "max_rpc_payload_bytes l + 1024 < 2 ^ 64"
  shows "parse_rpc_request bs l =
      (if length bs \<le> max_rpc_payload_bytes l + 1024 then Inr r
       else Inl (rpc_error ''request_oversized'')) \<and>
    (parse_rpc_request cs l = Inr q \<longrightarrow> validate_request_domain q l = Inr ())"
  using parse_encoded_request [OF assms]
  by (auto simp: parse_rpc_request_def split: if_splits sum.splits)

theorem rpc_request_roundtrip_witness:
  "let r = \<lparr>rq_request_id = replicate 16 5, rq_service = ''s'', rq_method = ''m'',
         rq_schema_version = 1, rq_deadline_remaining_milliseconds = 300,
         rq_idempotency_key = Some [8], rq_metadata = [\<lparr>rme_name = ''k'', rme_value = [9]\<rparr>],
         rq_payload = [1, 2]\<rparr>;
       bs = [0x0a, 16] @ replicate 16 5 @ [0x12, 1, 0x73, 0x1a, 1, 0x6d, 0x20, 1, 0x2a, 3, 8, 0xac, 2,
         0x32, 1, 8, 0x3a, 6, 0x0a, 1, 0x6b, 0x12, 1, 9, 0x42, 2, 1, 2]
   in encode_rpc_request r default_limits = Inr bs \<and> parse_rpc_request bs default_limits = Inr r"
proof -
  let ?r = "\<lparr>rq_request_id = replicate 16 5, rq_service = ''s'', rq_method = ''m'',
         rq_schema_version = 1, rq_deadline_remaining_milliseconds = 300,
         rq_idempotency_key = Some [8], rq_metadata = [\<lparr>rme_name = ''k'', rme_value = [9]\<rparr>],
         rq_payload = [1, 2]\<rparr>"
  let ?bs = "[0x0a, 16] @ replicate 16 5 @ [0x12, 1, 0x73, 0x1a, 1, 0x6d, 0x20, 1, 0x2a, 3, 8, 0xac, 2,
         0x32, 1, 8, 0x3a, 6, 0x0a, 1, 0x6b, 0x12, 1, 9, 0x42, 2, 1, 2] :: bytes"
  have "validate_request_domain ?r default_limits = Inr ()"
    by (simp add: validate_request_domain_def printable_ascii_def id_is_zero_iff default_limits_def)
  then have "encode_rpc_request ?r default_limits = Inr ?bs"
    by (simp add: encode_rpc_request_def)
       (simp add: append_text_def append_metadata_entry_def append_bytes_def
         append_uint_def append_tag_def append_varint64.simps char_bytes_def)
  from rpc_request_roundtrip [OF this] this show ?thesis by (simp add: Let_def default_limits_def)
qed

text \<open>
  A request with a payload and metadata values of more than 1024 octets beyond the payload
  limit passes the caller's encoder and is refused by every callee with the same limits.
\<close>

theorem rpc_request_metadata_refused:
  assumes "encode_rpc_request r l = Inr bs"
    and "length (rq_request_id r) = 16" and "max_rpc_payload_bytes l + 1024 < 2 ^ 64"
    and "max_rpc_payload_bytes l + 1024 <
      length (rq_payload r) + sum_list (map (\<lambda>e. length (rme_value e)) (rq_metadata r))"
  shows "parse_rpc_request bs l = Inl (rpc_error ''request_oversized'')"
proof -
  have e: "length (rme_value e) \<le> length (append_metadata_entry e)" for e
    by (simp add: append_metadata_entry_def append_bytes_def)
  have "sum_list (map (\<lambda>e. length (rme_value e)) es) \<le> length (concat (map append_metadata_entry es))" for es
    by (induction es) (simp_all add: add_mono e)
  from this [of "rq_metadata r"] have "max_rpc_payload_bytes l + 1024 < length bs"
    using assms(1,4) by (auto simp: encode_rpc_request_def append_bytes_def [of 8] split: sum.splits)
  then show ?thesis using parse_encoded_request [OF assms(1-3)] by simp
qed

theorem rpc_request_metadata_refused_witness:
  "let l = default_limits\<lparr>max_rpc_payload_bytes := 1024\<rparr>;
       r = \<lparr>rq_request_id = replicate 16 5, rq_service = ''s'', rq_method = ''m'',
         rq_schema_version = 1, rq_deadline_remaining_milliseconds = 300,
         rq_idempotency_key = None, rq_metadata = replicate 5 \<lparr>rme_name = ''k'', rme_value = replicate 256 0\<rparr>,
         rq_payload = replicate 1024 0\<rparr>
   in \<exists>bs. encode_rpc_request r l = Inr bs \<and>
       parse_rpc_request bs l = Inl (rpc_error ''request_oversized'')"
proof -
  let ?l = "default_limits\<lparr>max_rpc_payload_bytes := 1024\<rparr>"
  let ?r = "\<lparr>rq_request_id = replicate 16 5, rq_service = ''s'', rq_method = ''m'',
         rq_schema_version = 1, rq_deadline_remaining_milliseconds = 300,
         rq_idempotency_key = None, rq_metadata = replicate 5 \<lparr>rme_name = ''k'', rme_value = replicate 256 0\<rparr>,
         rq_payload = replicate 1024 0\<rparr>"
  have "replicate 5 x = [x, x, x, x, x]" for x :: "RpcMetadataEntry" by (simp add: eval_nat_numeral)
  note five = this
  have "validate_request_domain ?r ?l = Inr ()" unfolding five
    by (simp add: validate_request_domain_def printable_ascii_def id_is_zero_iff)
  then obtain bs where "encode_rpc_request ?r ?l = Inr bs" by (simp add: encode_rpc_request_def)
  from rpc_request_metadata_refused [OF this] this show ?thesis unfolding Let_def
    by (auto simp: five)
qed

text \<open>
  A response that the callee encodes is always what the caller parses; but the parser does not
  hold a response to the payload limit, so it accepts payloads up to 800 octets larger than any the
  encoder would send.
\<close>

theorem rpc_response_limits:
  assumes "length (rs_request_id r) = 16" and "max_rpc_payload_bytes l + 1024 < 2 ^ 64"
  shows "(encode_rpc_response r l = Inr bs \<longrightarrow> parse_rpc_response bs l = Inr r) \<and>
    (\<not> id_is_zero (rs_request_id r) \<and> rs_status r \<noteq> 0 \<and> is_safe_detail_token (rs_safe_detail r) \<and>
     max_rpc_payload_bytes l < length (rs_payload r) \<and>
     length (rs_payload r) \<le> max_rpc_payload_bytes l + 800 \<longrightarrow>
       encode_rpc_response r l = Inl (rpc_error ''payload_oversized'') \<and>
       (\<exists>cs. parse_rpc_response cs l = Inr r))"
proof (intro conjI impI)
  assume "encode_rpc_response r l = Inr bs"
  then show "parse_rpc_response bs l = Inr r"
    using parse_response_fields [OF assms(1) _ assms(2), of bs] length_response_fields [OF assms(1)] assms(2)
    by (auto simp: encode_rpc_response_def response_fields_def append_text_def split: if_splits)
next
  assume a: "\<not> id_is_zero (rs_request_id r) \<and> rs_status r \<noteq> 0 \<and> is_safe_detail_token (rs_safe_detail r) \<and>
     max_rpc_payload_bytes l < length (rs_payload r) \<and> length (rs_payload r) \<le> max_rpc_payload_bytes l + 800"
  then show "encode_rpc_response r l = Inl (rpc_error ''payload_oversized'')" by (simp add: encode_rpc_response_def)
  show "\<exists>cs. parse_rpc_response cs l = Inr r"
    using parse_response_fields [OF assms(1) _ assms(2)] length_response_fields [OF assms(1)] assms(2) a
    by fastforce
qed

theorem rpc_response_limits_witness:
  "let l = default_limits\<lparr>max_rpc_payload_bytes := 4\<rparr>;
       r = \<lparr>rs_request_id = replicate 16 5, rs_status = status_ok, rs_safe_detail = ''ok'',
            rs_payload = [1, 2, 3, 4, 5]\<rparr>
   in encode_rpc_response r l = Inl (rpc_error ''payload_oversized'') \<and>
      (\<exists>cs. parse_rpc_response cs l = Inr r)"
  using rpc_response_limits [of "\<lparr>rs_request_id = replicate 16 5, rs_status = status_ok, rs_safe_detail = ''ok'',
            rs_payload = [1, 2, 3, 4, 5]\<rparr>" "default_limits\<lparr>max_rpc_payload_bytes := 4\<rparr>" "[]"]
  by (simp add: Let_def id_is_zero_iff is_safe_detail_token_def is_safe_detail_char_def
    max_safe_detail_bytes_def less_eq_char_def)

text \<open>
  C31: after any sequence of registrations and removals the registry behaves as a finite map.  A
  registration succeeds exactly for a handler, a valid descriptor and a free name, and then changes
  the lookup of that name only; a removal succeeds exactly for a registered name; the listing is in
  strictly increasing order of service and method and has one entry per registered name.
\<close>

theorem registry_refines_map:
  "let m = run registry_step xs []; reg = register_method d h m; del = unregister_method s n m in
   (fst reg = Inr () \<longleftrightarrow>
      h \<noteq> None \<and> descriptor_ok d \<and> registry_lookup (md_service d) (md_method d) m = None) \<and>
   registry_lookup s n (snd reg) =
     (if fst reg = Inr () \<and> s = md_service d \<and> n = md_method d then Some (d, the h)
      else registry_lookup s n m) \<and>
   (fst del = Inr () \<longleftrightarrow> registry_lookup s n m \<noteq> None) \<and>
   registry_lookup s1 n1 (snd del) = (if s1 = s \<and> n1 = n then None else registry_lookup s1 n1 m) \<and>
   sorted_wrt (<) (map (\<lambda>x. (ms_service x, ms_method x)) (registry_methods m)) \<and>
   registered_methods m = card {(a, b). registry_lookup a b m \<noteq> None} \<and>
   length (registry_methods m) = registered_methods m"
proof -
  have ok: "registry_ok (run registry_step xs [])" (is "registry_ok ?m") by (rule registry_machine.inv_reachable) simp
  then have wf: "om_wf ?m" by (simp add: registry_ok_def)
  have "{(a, b). registry_lookup a b ?m \<noteq> None} = dom (map_of ?m)" by (auto simp: registry_lookup_def)
  then have "registered_methods ?m = card {(a, b). registry_lookup a b ?m \<noteq> None}"
    using om_wf_distinct [OF wf] by (metis dom_map_of_conv_image_fst distinct_card length_map
      list.set_map registered_methods_def)
  moreover have "length (registry_methods ?m) = registered_methods ?m"
    by (simp add: registry_methods_def registered_methods_def)
  ultimately show ?thesis unfolding Let_def
    using wf sorted_wrt_summaries [OF ok]
    by (subst (1 2 3) register_cases) (auto simp: registry_lookup_def unregister_method_def om_simps)
qed

end
