(* ===== verification/Heyaki_Gateway.thy ===== *)
theory Heyaki_Gateway
  imports Heyaki_Rpc
begin

text \<open>
  The gateway policy of \<open>gateway.hpp\<close> and \<open>gateway_protocol.cpp\<close>: host names and IP literals, CIDR
  ranges, the connect body and the prelude, profiles, and the admission engine.  The addresses a
  host name resolves to are an argument, as in the code.
\<close>

section \<open>Literals\<close>

definition gateway_error :: "ErrorCode \<Rightarrow> string \<Rightarrow> Error" where
  "gateway_error code detail = err code ''gateway'' detail"

abbreviation (input) char_in :: "char \<Rightarrow> char \<Rightarrow> char \<Rightarrow> bool" where
  "char_in lo hi c \<equiv> lo \<le> c \<and> c \<le> hi"

definition valid_ldh_label :: "string \<Rightarrow> bool" where
  "valid_ldh_label label =
    (if label = [] \<or> length label > 63 then False
     else if hd label = CHR ''-'' \<or> last label = CHR ''-'' then False
     else list_all (\<lambda>c. char_in CHR ''a'' CHR ''z'' c \<or> char_in CHR ''A'' CHR ''Z'' c \<or>
            char_in CHR ''0'' CHR ''9'' c \<or> c = CHR ''-'') label)"

text \<open>
  \<open>rest.find(c)\<close> followed by \<open>substr\<close>: the group before the first separator, and what follows
  the separator (nothing when there is none).
\<close>

definition group_of :: "char \<Rightarrow> string \<Rightarrow> string" where
  "group_of c rest = takeWhile (\<lambda>x. x \<noteq> c) rest"

definition after_group :: "char \<Rightarrow> string \<Rightarrow> string" where
  "after_group c rest = drop (length (group_of c rest) + 1) rest"

lemma after_group_shorter [simp]: "rest \<noteq> [] \<Longrightarrow> length (after_group c rest) < length rest"
  by (simp add: after_group_def)

fun decimal_value :: "string \<Rightarrow> nat \<Rightarrow> nat option" where
  "decimal_value [] value = Some value"
| "decimal_value (c # cs) value =
    (if \<not> char_in CHR ''0'' CHR ''9'' c then None
     else decimal_value cs (value * 10 + (of_char c - of_char CHR ''0'')))"

function ipv4_loop :: "string \<Rightarrow> bytes \<Rightarrow> bytes option" where
  "ipv4_loop rest octets =
    (if rest = [] then (if length octets \<noteq> 4 then None else Some octets)
     else let g = group_of CHR ''.'' rest in
       if g = [] \<or> length g > 3 \<or> length octets \<ge> 4 then None
       else if length g > 1 \<and> hd g = CHR ''0'' then None
       else case decimal_value g 0 of None \<Rightarrow> None | Some v \<Rightarrow>
         if v > 255 then None
         else ipv4_loop (after_group CHR ''.'' rest) (octets @ [of_nat v]))"
  by auto
termination
  by (relation "measure (\<lambda>(r, os). length r)") auto

declare ipv4_loop.simps [simp del]

definition ipv4_octets :: "string \<Rightarrow> bytes option" where
  "ipv4_octets literal =
    (if literal = [] \<or> hd literal = CHR ''.'' \<or> last literal = CHR ''.'' then None
     else ipv4_loop literal [])"

definition hex_digit :: "char \<Rightarrow> u16 option" where
  "hex_digit c =
    (if char_in CHR ''0'' CHR ''9'' c then Some (of_nat (of_char c - of_char CHR ''0''))
     else if char_in CHR ''a'' CHR ''f'' c then Some (of_nat (of_char c - of_char CHR ''a'' + 10))
     else if char_in CHR ''A'' CHR ''F'' c then Some (of_nat (of_char c - of_char CHR ''A'' + 10))
     else None)"

fun hex_value :: "string \<Rightarrow> u16 \<Rightarrow> u16 option" where
  "hex_value [] value = Some value"
| "hex_value (c # cs) value =
    (case hex_digit c of None \<Rightarrow> None | Some d \<Rightarrow> hex_value cs (push_bit 4 value OR d))"

text \<open>The groups one piece between colons expands into.\<close>

definition ipv6_values :: "bool \<Rightarrow> bool \<Rightarrow> string \<Rightarrow> u16 list option" where
  "ipv6_values allow_v4_tail is_last g =
    (if CHR ''.'' \<in> set g then
       (if \<not> allow_v4_tail \<or> \<not> is_last then None
        else case ipv4_octets g of None \<Rightarrow> None | Some os \<Rightarrow>
          Some [push_bit 8 (ucast (os ! 0)) OR ucast (os ! 1),
                push_bit 8 (ucast (os ! 2)) OR ucast (os ! 3)])
     else if g = [] \<or> length g > 4 then None
     else case hex_value g 0 of None \<Rightarrow> None | Some v \<Rightarrow> Some [v])"

function ipv6_loop :: "bool \<Rightarrow> string \<Rightarrow> u16 list \<Rightarrow> u16 list option" where
  "ipv6_loop allow_v4_tail rest groups =
    (if rest = [] then Some groups
     else let g = group_of CHR '':'' rest; is_last = CHR '':'' \<notin> set rest in
       case ipv6_values allow_v4_tail is_last g of None \<Rightarrow> None | Some vs \<Rightarrow>
         if length groups + length vs > 8 then None
         else ipv6_loop allow_v4_tail (after_group CHR '':'' rest) (groups @ vs))"
  by auto
termination
  by (relation "measure (\<lambda>(a, r, gs). length r)") auto

declare ipv6_loop.simps [simp del]

definition parse_ipv6_part :: "string \<Rightarrow> bool \<Rightarrow> u16 list option" where
  "parse_ipv6_part part allow_v4_tail =
    (if part = [] then Some []
     else if hd part = CHR '':'' \<or> last part = CHR '':'' then None
     else ipv6_loop allow_v4_tail part [])"

text \<open>\<open>text.find("::")\<close>.\<close>

fun find_compression :: "string \<Rightarrow> nat option" where
  "find_compression (c # d # cs) =
    (if c = CHR '':'' \<and> d = CHR '':'' then Some 0
     else map_option Suc (find_compression (d # cs)))"
| "find_compression _ = None"

definition ipv6_groups :: "string \<Rightarrow> u16 list option" where
  "ipv6_groups literal =
    (if length literal < 2 then None
     else case find_compression literal of
       None \<Rightarrow>
         (case parse_ipv6_part literal True of None \<Rightarrow> None | Some head \<Rightarrow>
          if length head \<noteq> 8 then None else Some head)
     | Some compression \<Rightarrow>
         if find_compression (drop (compression + 2) literal) \<noteq> None then None
         else case parse_ipv6_part (take compression literal) False of None \<Rightarrow> None | Some head \<Rightarrow>
           (case parse_ipv6_part (drop (compression + 2) literal) True of None \<Rightarrow> None | Some tail \<Rightarrow>
            if length head + length tail > 7 then None
            else Some (head @ replicate (8 - length tail - length head) 0 @ tail)))"

section \<open>Hosts and connect requests\<close>

function ldh_loop :: "string \<Rightarrow> bool" where
  "ldh_loop rest =
    (if rest = [] then True
     else let label = group_of CHR ''.'' rest in
       if CHR ''.'' \<notin> set rest then valid_ldh_label label
       else if \<not> valid_ldh_label label then False
       else ldh_loop (after_group CHR ''.'' rest))"
  by auto
termination
  by (relation "measure length") auto

declare ldh_loop.simps [simp del]

abbreviation (input) max_gateway_host_bytes :: nat where "max_gateway_host_bytes \<equiv> 253"
abbreviation (input) max_gateway_profile_bytes :: nat where "max_gateway_profile_bytes \<equiv> 64"

definition valid_gateway_host :: "string \<Rightarrow> bool" where
  "valid_gateway_host host =
    (if host = [] \<or> length host > max_gateway_host_bytes then False
     else if \<not> list_all (\<lambda>c. let b = of_char c :: nat in 0x21 \<le> b \<and> b \<le> 0x7e \<and> c \<noteq> CHR '' '') host
       then False
     else if CHR '':'' \<in> set host then ipv6_groups host \<noteq> None
     else if hd host = CHR ''.'' \<or> last host = CHR ''.'' then False
     else if list_all (\<lambda>c. char_in CHR ''0'' CHR ''9'' c \<or> c = CHR ''.'') host then
       ipv4_octets host \<noteq> None
     else ldh_loop host)"

definition safe_gateway_profile_name :: "string \<Rightarrow> bool" where
  "safe_gateway_profile_name name =
    (if name = [] \<or> length name > max_gateway_profile_bytes then False
     else list_all (\<lambda>c. char_in CHR ''a'' CHR ''z'' c \<or> char_in CHR ''0'' CHR ''9'' c \<or>
            c = CHR ''_'' \<or> c = CHR ''.'' \<or> c = CHR ''-'') name)"

definition gateway_provide_scope :: "string \<Rightarrow> string" where
  "gateway_provide_scope profile = ''gateway.provide:'' @ profile"

record GatewayConnect =
  gc_host :: string
  gc_port :: u16
  gc_profile :: string

definition validate_gateway_connect :: "GatewayConnect \<Rightarrow> unit result" where
  "validate_gateway_connect connect =
    (if \<not> valid_gateway_host (gc_host connect) then
       Inl (gateway_error EC_permission ''gateway_host_invalid'')
     else if gc_port connect = 0 then Inl (gateway_error EC_permission ''gateway_port_invalid'')
     else if gc_profile connect \<noteq> [] \<and> \<not> safe_gateway_profile_name (gc_profile connect) then
       Inl (gateway_error EC_permission ''gateway_profile_invalid'')
     else Inr ())"

definition encode_gateway_connect :: "GatewayConnect \<Rightarrow> bytes result" where
  "encode_gateway_connect connect =
    (if \<not> valid_gateway_host (gc_host connect) then
       Inl (gateway_error EC_protocol ''gateway_host_invalid'')
     else if gc_port connect = 0 then Inl (gateway_error EC_protocol ''gateway_port_invalid'')
     else if gc_profile connect \<noteq> [] \<and> \<not> safe_gateway_profile_name (gc_profile connect) then
       Inl (gateway_error EC_protocol ''gateway_profile_invalid'')
     else Inr (append_text 1 (gc_host connect) @
               append_uint 2 (ucast (gc_port connect)) @
               (if gc_profile connect \<noteq> [] then append_text 3 (gc_profile connect) else [])))"

record ConnectParse =
  cp_body :: GatewayConnect
  cp_have_host :: bool
  cp_have_port :: bool

definition connect_field :: "ProtoField \<Rightarrow> ConnectParse \<Rightarrow> ConnectParse result" where
  "connect_field f p =
    (let b = cp_body p in
     if pf_number f = 1 \<and> pf_wire_type f = 2 then
       (if cp_have_host p then Inl (gateway_error EC_protocol ''gateway_field_conflict'')
        else Inr (p\<lparr>cp_body := b\<lparr>gc_host := text_of (pf_bytes f)\<rparr>, cp_have_host := True\<rparr>))
     else if pf_number f = 2 \<and> pf_wire_type f = 0 then
       (if cp_have_port p then Inl (gateway_error EC_protocol ''gateway_field_conflict'')
        else if pf_integer f = 0 \<or> pf_integer f > 65535 then
          Inl (gateway_error EC_protocol ''gateway_port_invalid'')
        else Inr (p\<lparr>cp_body := b\<lparr>gc_port := ucast (pf_integer f)\<rparr>, cp_have_port := True\<rparr>))
     else if pf_number f = 3 \<and> pf_wire_type f = 2 then
       (if gc_profile b \<noteq> [] then Inl (gateway_error EC_protocol ''gateway_field_conflict'')
        else Inr (p\<lparr>cp_body := b\<lparr>gc_profile := text_of (pf_bytes f)\<rparr>\<rparr>))
     else Inl (gateway_error EC_protocol ''gateway_unknown_field''))"

definition parse_gateway_connect :: "bytes \<Rightarrow> GatewayConnect result" where
  "parse_gateway_connect payload =
    (case read_all connect_field payload ''proto''
       \<lparr>cp_body = \<lparr>gc_host = [], gc_port = 0, gc_profile = []\<rparr>, cp_have_host = False,
        cp_have_port = False\<rparr> of
       Inl e \<Rightarrow> Inl e
     | Inr p \<Rightarrow>
       if \<not> cp_have_host p \<or> \<not> cp_have_port p then
         Inl (gateway_error EC_protocol ''gateway_field_missing'')
       else Inr (cp_body p))"

definition encode_gateway_prelude :: "u16 \<Rightarrow> bytes" where
  "encode_gateway_prelude status = [ucast (drop_bit 8 status), ucast status]"

definition parse_gateway_prelude :: "bytes \<Rightarrow> u16 result" where
  "parse_gateway_prelude payload =
    (if length payload \<noteq> 2 then Inl (gateway_error EC_protocol ''gateway_prelude_length'')
     else let status = push_bit 8 (ucast (payload ! 0)) OR ucast (payload ! 1) in
       if status \<noteq> 0 then Inl (gateway_error EC_protocol ''gateway_prelude_status_invalid'')
       else Inr status)"

section \<open>Refusals and dial samples\<close>

datatype GatewayRefusal =
    GR_capability_not_negotiated | GR_invalid_target | GR_not_enabled | GR_scope_denied
  | GR_policy_denied | GR_quota_exhausted | GR_dial_failed | GR_dial_deadline | GR_local_failure

fun gateway_refusal_status :: "GatewayRefusal \<Rightarrow> StableStatus" where
  "gateway_refusal_status GR_capability_not_negotiated = status_protocol_error"
| "gateway_refusal_status GR_invalid_target = status_permission_denied"
| "gateway_refusal_status GR_scope_denied = status_permission_denied"
| "gateway_refusal_status GR_policy_denied = status_permission_denied"
| "gateway_refusal_status GR_quota_exhausted = status_resource_exhausted"
| "gateway_refusal_status GR_not_enabled = status_unimplemented"
| "gateway_refusal_status GR_dial_failed = status_unavailable"
| "gateway_refusal_status GR_dial_deadline = status_deadline_exceeded"
| "gateway_refusal_status GR_local_failure = status_internal"

fun gateway_refusal_name :: "GatewayRefusal \<Rightarrow> string" where
  "gateway_refusal_name GR_capability_not_negotiated = ''capability_not_negotiated''"
| "gateway_refusal_name GR_invalid_target = ''invalid_target''"
| "gateway_refusal_name GR_not_enabled = ''not_enabled''"
| "gateway_refusal_name GR_scope_denied = ''scope_denied''"
| "gateway_refusal_name GR_policy_denied = ''policy_denied''"
| "gateway_refusal_name GR_quota_exhausted = ''quota_exhausted''"
| "gateway_refusal_name GR_dial_failed = ''dial_failed''"
| "gateway_refusal_name GR_dial_deadline = ''dial_deadline''"
| "gateway_refusal_name GR_local_failure = ''local_failure''"

text \<open>The dial window of \<open>GatewayServiceStats\<close>.\<close>

abbreviation (input) dial_sample_window :: nat where "dial_sample_window \<equiv> 256"

record GatewayDialWindow =
  dw_samples :: "u32 list"
  dw_count :: nat
  dw_next :: nat

definition record_gateway_dial_sample :: "GatewayDialWindow \<Rightarrow> u32 \<Rightarrow> GatewayDialWindow" where
  "record_gateway_dial_sample w milliseconds =
     w\<lparr>dw_samples := (dw_samples w)[dw_next w := milliseconds],
       dw_next := (dw_next w + 1) mod dial_sample_window,
       dw_count := (if dw_count w < dial_sample_window then dw_count w + 1 else dw_count w)\<rparr>"

definition gateway_dial_p95 :: "GatewayDialWindow \<Rightarrow> u32" where
  "gateway_dial_p95 w =
    (if dw_count w = 0 then 0
     else let window = sort (take (dw_count w) (dw_samples w));
              index = (if dw_count w \<ge> 20 then dw_count w - dw_count w div 20 else dw_count w - 1)
          in window ! index)"

section \<open>Addresses and ranges\<close>

text \<open>\<open>gi_bytes\<close> has 16 octets; an IPv4 address uses the first four.\<close>

record GatewayIp =
  gi_bytes :: bytes
  gi_v4 :: bool

definition parse_gateway_ip :: "string \<Rightarrow> GatewayIp option" where
  "parse_gateway_ip literal =
    (if CHR '':'' \<notin> set literal then
       (case ipv4_octets literal of None \<Rightarrow> None
        | Some octets \<Rightarrow> Some \<lparr>gi_bytes = octets @ replicate 12 0, gi_v4 = True\<rparr>)
     else case ipv6_groups literal of None \<Rightarrow> None
        | Some groups \<Rightarrow>
          Some \<lparr>gi_bytes = concat (map (\<lambda>v. [ucast (drop_bit 8 v), ucast v]) groups),
                gi_v4 = False\<rparr>)"

text \<open>\<open>std::to_string\<close> of an octet.\<close>

definition digit_char :: "nat \<Rightarrow> char" where
  "digit_char d = char_of (48 + d)"

definition octet_string :: "byte \<Rightarrow> string" where
  "octet_string b = (let n = unat b in
     (if n \<ge> 100 then [digit_char (n div 100)] else []) @
     (if n \<ge> 10 then [digit_char (n div 10 mod 10)] else []) @ [digit_char (n mod 10)])"

definition hex_char :: "u16 \<Rightarrow> char" where
  "hex_char nibble = ''0123456789abcdef'' ! unat nibble"

fun hex_group_loop :: "u16 \<Rightarrow> nat list \<Rightarrow> bool \<Rightarrow> string" where
  "hex_group_loop v [] significant = []"
| "hex_group_loop v (shift # shifts) significant =
    (let nibble = drop_bit shift v AND 0xF in
     if nibble \<noteq> 0 \<or> significant \<or> shift = 0 then
       hex_char nibble # hex_group_loop v shifts True
     else hex_group_loop v shifts significant)"

definition hex_group :: "u16 \<Rightarrow> string" where
  "hex_group v = hex_group_loop v [12, 8, 4, 0] False"

text \<open>
  The search for the longest run of zero groups; \<open>(best_start, best_length)\<close>.  A run found at \<open>index\<close> has
  at least one group.
\<close>

function best_zero_run :: "u16 list \<Rightarrow> nat \<Rightarrow> nat \<times> nat \<Rightarrow> nat \<times> nat" where
  "best_zero_run groups index best =
    (if index \<ge> 8 then best
     else if groups ! index \<noteq> 0 then best_zero_run groups (index + 1) best
     else let run_len = length (takeWhile (\<lambda>g. g = 0) (drop index groups)) in
       best_zero_run groups (index + max 1 run_len)
         (if run_len > snd best \<and> run_len \<ge> 2 then (index, run_len) else best))"
  by auto
termination
  by (relation "measure (\<lambda>(gs, i, b). 8 - i)") auto

declare best_zero_run.simps [simp del]

function format_groups :: "u16 list \<Rightarrow> nat \<Rightarrow> nat \<Rightarrow> nat \<Rightarrow> string" where
  "format_groups groups best_start best_length index =
    (if index \<ge> 8 then []
     else if best_length \<noteq> 0 \<and> index = best_start then
       ''::'' @ format_groups groups best_start best_length (index + (best_length - 1) + 1)
     else (if index \<noteq> 0 \<and> \<not> (best_length \<noteq> 0 \<and> index = best_start + best_length) then '':'' else []) @
       hex_group (groups ! index) @ format_groups groups best_start best_length (index + 1))"
  by auto
termination
  by (relation "measure (\<lambda>(gs, s, l, i). 8 - i)") auto

declare format_groups.simps [simp del]

definition dotted_quad :: "bytes \<Rightarrow> string" where
  "dotted_quad os = octet_string (os ! 0) @ ''.'' @ octet_string (os ! 1) @ ''.'' @
     octet_string (os ! 2) @ ''.'' @ octet_string (os ! 3)"

definition format_gateway_ip :: "GatewayIp \<Rightarrow> string" where
  "format_gateway_ip address =
    (if gi_v4 address then dotted_quad (gi_bytes address)
     else let groups = map (\<lambda>g. push_bit 8 (ucast (gi_bytes address ! (2 * g))) OR
                                 ucast (gi_bytes address ! (2 * g + 1))) [0..<8];
              best = best_zero_run groups 0 (8, 0)
          in if list_all (\<lambda>g. g = 0) (take 5 groups) \<and> groups ! 5 = 0xFFFF then
               ''::ffff:'' @ dotted_quad
                 [ucast (drop_bit 8 (groups ! 6) AND 0xFF), ucast (groups ! 6 AND 0xFF),
                  ucast (drop_bit 8 (groups ! 7) AND 0xFF), ucast (groups ! 7 AND 0xFF)]
             else format_groups groups (fst best) (snd best) 0)"

record GatewayCidr =
  ci_address :: GatewayIp
  ci_prefix_bits :: int

definition parse_gateway_cidr :: "string \<Rightarrow> GatewayCidr option" where
  "parse_gateway_cidr cidr_text =
    (if CHR ''/'' \<notin> set cidr_text then None
     else case parse_gateway_ip (group_of CHR ''/'' cidr_text) of None \<Rightarrow> None | Some address \<Rightarrow>
       let bits_text = after_group CHR ''/'' cidr_text in
       if bits_text = [] \<or> length bits_text > 3 then None
       else case decimal_value bits_text 0 of None \<Rightarrow> None | Some bits \<Rightarrow>
         if bits > (if gi_v4 address then 32 else 128) then None
         else Some \<lparr>ci_address = address, ci_prefix_bits = int bits\<rparr>)"

definition bit_at :: "nat \<Rightarrow> GatewayIp \<Rightarrow> nat \<Rightarrow> byte" where
  "bit_at width value bit_index =
    (if bit_index \<ge> width * 8 then 0
     else drop_bit (7 - bit_index mod 8) (gi_bytes value ! (bit_index div 8)) AND 1)"

definition gateway_cidr_contains :: "GatewayCidr \<Rightarrow> GatewayIp \<Rightarrow> bool" where
  "gateway_cidr_contains cidr address =
    (if gi_v4 (ci_address cidr) \<noteq> gi_v4 address then False
     else let width = (if gi_v4 (ci_address cidr) then 4 else 16) in
       list_all (\<lambda>i. bit_at width (ci_address cidr) i = bit_at width address i)
         [0..<nat (ci_prefix_bits cidr)])"

definition gateway_cidr_is_catch_all :: "GatewayCidr \<Rightarrow> bool" where
  "gateway_cidr_is_catch_all cidr \<longleftrightarrow> ci_prefix_bits cidr = 0"

section \<open>Profiles\<close>

datatype GatewayConfirmMode = GCM_never | GCM_first_use | GCM_always

record GatewayPortRange =
  pr_low :: u16
  pr_high :: u16

record GatewayProfileConfig =
  gp_name :: string
  gp_allowed_cidrs :: "GatewayCidr list"
  gp_denied_cidrs :: "GatewayCidr list"
  gp_allowed_ports :: "GatewayPortRange list"
  gp_allow_internet :: bool
  gp_max_concurrent_streams_per_session :: nat
  gp_max_concurrent_streams_per_profile :: nat
  gp_max_profile_bytes :: u64
  gp_max_profile_bytes_per_second :: u64
  gp_stream_idle_timeout :: milliseconds
  gp_stream_max_duration :: milliseconds
  gp_dial_deadline :: milliseconds
  gp_confirm :: GatewayConfirmMode

definition validate_gateway_profile :: "GatewayProfileConfig \<Rightarrow> unit result" where
  "validate_gateway_profile p =
    (if \<not> safe_gateway_profile_name (gp_name p) then
       Inl (gateway_error EC_configuration ''gateway_profile_name_invalid'')
     else if gp_allowed_cidrs p = [] then
       Inl (gateway_error EC_configuration ''gateway_profile_targets_empty'')
     else if list_ex (\<lambda>c. gateway_cidr_is_catch_all c \<and> \<not> gp_allow_internet p) (gp_allowed_cidrs p) then
       Inl (gateway_error EC_configuration ''gateway_profile_catch_all_without_internet'')
     else if list_ex (\<lambda>r. pr_low r = 0 \<or> pr_low r > pr_high r) (gp_allowed_ports p) then
       Inl (gateway_error EC_configuration ''gateway_profile_ports_invalid'')
     else if gp_max_concurrent_streams_per_session p = 0 \<or>
             gp_max_concurrent_streams_per_session p > 64 \<or>
             gp_max_concurrent_streams_per_profile p = 0 \<or>
             gp_max_concurrent_streams_per_profile p > 64 then
       Inl (gateway_error EC_configuration ''gateway_profile_concurrency_invalid'')
     else if gp_max_profile_bytes p = 0 \<or> gp_max_profile_bytes p > 1099511627776 \<or>
             gp_max_profile_bytes_per_second p = 0 \<or>
             gp_max_profile_bytes_per_second p > 268435456 then
       Inl (gateway_error EC_configuration ''gateway_profile_quota_invalid'')
     else if gp_stream_idle_timeout p < 1000 \<or> gp_stream_idle_timeout p > 3600000 \<or>
             gp_stream_max_duration p < 1000 \<or> gp_stream_max_duration p > 86400000 \<or>
             gp_dial_deadline p < 1000 \<or> gp_dial_deadline p > 30000 then
       Inl (gateway_error EC_configuration ''gateway_profile_timeout_invalid'')
     else Inr ())"

fun validate_each_profile :: "GatewayProfileConfig list \<Rightarrow> unit result" where
  "validate_each_profile [] = Inr ()"
| "validate_each_profile (p # ps) =
    (case validate_gateway_profile p of Inl e \<Rightarrow> Inl e | Inr _ \<Rightarrow> validate_each_profile ps)"

definition validate_gateway_profiles :: "GatewayProfileConfig list \<Rightarrow> unit result" where
  "validate_gateway_profiles profiles =
    (if length profiles > 64 then
       Inl (gateway_error EC_configuration ''gateway_profile_count_invalid'')
     else case validate_each_profile profiles of Inl e \<Rightarrow> Inl e | Inr _ \<Rightarrow>
       if list_ex (\<lambda>l. list_ex (\<lambda>r. gp_name (profiles ! l) = gp_name (profiles ! r))
            [l + 1..<length profiles]) [0..<length profiles] then
         Inl (gateway_error EC_configuration ''gateway_profile_name_duplicate'')
       else Inr ())"

section \<open>Admission\<close>

definition builtin_gateway_deny_ranges :: "string list" where
  "builtin_gateway_deny_ranges =
    [''0.0.0.0/8'', ''127.0.0.0/8'', ''169.254.0.0/16'', ''224.0.0.0/4'', ''255.255.255.255/32'',
     ''100.64.0.0/10'', ''::/128'', ''::1/128'', ''fe80::/10'', ''ff00::/8'', ''::ffff:0:0/96'']"

definition cidr_list_contains :: "GatewayCidr list \<Rightarrow> GatewayIp \<Rightarrow> bool" where
  "cidr_list_contains ranges address \<longleftrightarrow> list_ex (\<lambda>c. gateway_cidr_contains c address) ranges"

record GatewayAdmissionContext =
  ga_streams_active_session :: nat
  ga_streams_active_profile :: nat
  ga_profile_bytes_used :: u64

text \<open>\<open>ad_profile\<close> is the profile the pointer names; \<open>None\<close> is the null pointer.\<close>

record GatewayAdmission =
  ad_allowed :: bool
  ad_refusal :: GatewayRefusal
  ad_profile :: "GatewayProfileConfig option"
  ad_dial_addresses :: "GatewayIp list"

definition resolve_gateway_profile ::
  "GatewayProfileConfig list \<Rightarrow> string \<Rightarrow> GatewayProfileConfig option" where
  "resolve_gateway_profile profiles name =
    (if name = [] then (if length profiles = 1 then Some (hd profiles) else None)
     else find (\<lambda>p. gp_name p = name) profiles)"

definition gateway_address_denied :: "GatewayProfileConfig \<Rightarrow> GatewayIp \<Rightarrow> bool" where
  "gateway_address_denied p address \<longleftrightarrow>
     list_ex (\<lambda>cidr_text. case parse_gateway_cidr cidr_text of None \<Rightarrow> False
       | Some cidr \<Rightarrow> gateway_cidr_contains cidr address) builtin_gateway_deny_ranges \<or>
     cidr_list_contains (gp_denied_cidrs p) address"

definition admit_gateway_connection ::
  "GatewayProfileConfig list \<Rightarrow> GatewayConnect \<Rightarrow> GatewayIp list \<Rightarrow> GatewayAdmissionContext \<Rightarrow>
   GatewayAdmission" where
  "admit_gateway_connection profiles connect resolved context =
    (let refuse = (\<lambda>r. \<lparr>ad_allowed = False, ad_refusal = r, ad_profile = None,
                        ad_dial_addresses = []\<rparr>) in
     case resolve_gateway_profile profiles (gc_profile connect) of
       None \<Rightarrow> refuse (if gc_profile connect = [] then GR_not_enabled else GR_policy_denied)
     | Some p \<Rightarrow>
       if \<not> list_ex (\<lambda>r. pr_low r \<le> gc_port connect \<and> gc_port connect \<le> pr_high r)
            (gp_allowed_ports p) then refuse GR_policy_denied
       else let dial = filter (\<lambda>a. \<not> gateway_address_denied p a \<and>
                                     cidr_list_contains (gp_allowed_cidrs p) a) resolved in
         if dial = [] then refuse GR_policy_denied
         else if ga_streams_active_session context \<ge> gp_max_concurrent_streams_per_session p \<or>
                 ga_streams_active_profile context \<ge> gp_max_concurrent_streams_per_profile p then
           refuse GR_quota_exhausted
         else if ga_profile_bytes_used context \<ge> gp_max_profile_bytes p then
           refuse GR_quota_exhausted
         else \<lparr>ad_allowed = True, ad_refusal = GR_policy_denied, ad_profile = Some p,
               ad_dial_addresses = dial\<rparr>)"

end
