(* ===== verification/Heyaki_Gateway_Literals.thy ===== *)
theory Heyaki_Gateway_Literals
  imports Heyaki_Gateway
begin

text \<open>
  IP literals: the canonical text of an address parses back to it, and every parsed literal is a
  well-formed address.
\<close>

section \<open>Groups between separators\<close>

lemma takeWhile_sep: "c \<notin> set g \<Longrightarrow> takeWhile (\<lambda>x. x \<noteq> c) (g @ c # r) = g"
  by (induction g) auto

lemma takeWhile_none: "c \<notin> set g \<Longrightarrow> takeWhile (\<lambda>x. x \<noteq> c) g = g"
  by (induction g) auto

lemma group_of_sep: "c \<notin> set g \<Longrightarrow> group_of c (g @ c # r) = g \<and> after_group c (g @ c # r) = r"
  by (simp add: group_of_def after_group_def takeWhile_sep)

lemma group_of_last: "c \<notin> set g \<Longrightarrow> group_of c g = g \<and> after_group c g = []"
  by (simp add: group_of_def after_group_def takeWhile_none)

section \<open>Dotted quads\<close>

lemma digit_char_cases:
  assumes "d < 10"
  shows "CHR ''0'' \<le> digit_char d" "digit_char d \<le> CHR ''9''"
    "(of_char (digit_char d) :: nat) = 48 + d" "digit_char d = CHR ''0'' \<longleftrightarrow> d = 0"
    "digit_char d \<noteq> CHR ''.''" "digit_char d \<noteq> CHR '':''"
proof -
  have "d \<in> {0, 1, 2, 3, 4, 5, 6, 7, 8, 9}" using assms by auto
  then show "CHR ''0'' \<le> digit_char d" "digit_char d \<le> CHR ''9''"
    "(of_char (digit_char d) :: nat) = 48 + d" "digit_char d = CHR ''0'' \<longleftrightarrow> d = 0"
    "digit_char d \<noteq> CHR ''.''" "digit_char d \<noteq> CHR '':''"
    by (auto simp: digit_char_def less_eq_char_def char_of_eq_iff)
qed

lemma octet_digits:
  "n < 256 \<Longrightarrow> n div 100 < 10" "(n :: nat) mod 10 < 10" "n div 10 mod 10 < 10"
  "n < 100 \<Longrightarrow> n div 10 < 10"
  by auto

lemma octet_string_parses:
  "octet_string b \<noteq> []" "length (octet_string b) \<le> 3"
  "1 < length (octet_string b) \<Longrightarrow> hd (octet_string b) \<noteq> CHR ''0''"
  "decimal_value (octet_string b) 0 = Some (unat b)"
  "CHR ''.'' \<notin> set (octet_string b)" "CHR '':'' \<notin> set (octet_string b)"
proof -
  define n h t u where hn: "n = unat b" "h = n div 100" "t = n div 10 mod 10" "u = n mod 10"
  have n: "n < 256" unfolding hn by (rule unat_byte_bound)
  have "n div 10 = h * 10 + t"
    using div_mult_mod_eq [of "n div 10" 10] unfolding hn(2,3) by (simp add: div_mult2_eq [symmetric])
  then have e: "h * 100 + t * 10 + u = n" using div_mult_mod_eq [of n 10] unfolding hn(4) by simp
  have lt: "h < 10" "t < 10" "u < 10" using n by (auto simp: hn(2-4))
  have o: "octet_string b = (if n \<ge> 100 then [digit_char h] else []) @
     (if n \<ge> 10 then [digit_char t] else []) @ [digit_char u]"
    by (simp add: octet_string_def Let_def hn)
  note d = digit_char_cases [OF lt(1)] digit_char_cases [OF lt(2)] digit_char_cases [OF lt(3)]
  show "octet_string b \<noteq> []" "length (octet_string b) \<le> 3" by (simp_all add: o)
  show "1 < length (octet_string b) \<Longrightarrow> hd (octet_string b) \<noteq> CHR ''0''"
    using e lt d by (auto simp: o)
  show "decimal_value (octet_string b) 0 = Some (unat b)"
    using d e lt unfolding o hn(1) [symmetric] by (cases "n \<ge> 100"; cases "n \<ge> 10") auto
  show "CHR ''.'' \<notin> set (octet_string b)" "CHR '':'' \<notin> set (octet_string b)"
    using d by (auto simp: o)
qed

lemma octet_group:
  "group_of CHR ''.'' (octet_string b @ CHR ''.'' # r) = octet_string b"
  "after_group CHR ''.'' (octet_string b @ CHR ''.'' # r) = r"
  "group_of CHR ''.'' (octet_string b) = octet_string b" "after_group CHR ''.'' (octet_string b) = []"
  using octet_string_parses(5) [of b] group_of_sep [of "CHR ''.''" "octet_string b" r]
    group_of_last [of "CHR ''.''" "octet_string b"] by simp_all

lemma octet_not_zero_led:
  "\<not> (Suc 0 < length (octet_string b) \<and> hd (octet_string b) = CHR ''0'')"
  using octet_string_parses(3) [of b] by auto

lemma octet_fits: "\<not> 255 < unat (b :: byte)" "\<not> 3 < length (octet_string b)"
  using unat_byte_bound [of b] octet_string_parses(2) [of b] by auto

lemma ipv4_loop_octet:
  "length os < 4 \<Longrightarrow> ipv4_loop (octet_string b @ CHR ''.'' # r) os = ipv4_loop r (os @ [b])"
  by (subst ipv4_loop.simps)
     (simp add: Let_def octet_group octet_string_parses(1,4) octet_not_zero_led octet_fits)

lemma ipv4_loop_last:
  "length os < 4 \<Longrightarrow> ipv4_loop (octet_string b) os = ipv4_loop [] (os @ [b])"
  by (subst ipv4_loop.simps)
     (simp add: Let_def octet_group octet_string_parses(1,4) octet_not_zero_led octet_fits)

lemma dotted_quad_ends:
  "hd (dotted_quad os) \<noteq> CHR ''.''" "last (dotted_quad os) \<noteq> CHR ''.''" "dotted_quad os \<noteq> []"
  using octet_string_parses(1,5) [of "os ! 0"] octet_string_parses(1,5) [of "os ! 3"]
  by (auto simp: dotted_quad_def hd_append last_append dest: hd_in_set last_in_set)

lemma ipv4_octets_dotted_quad:
  "ipv4_octets (dotted_quad os) = Some [os ! 0, os ! 1, os ! 2, os ! 3]"
  using dotted_quad_ends [of os]
  by (simp add: ipv4_octets_def) (simp add: dotted_quad_def ipv4_loop_octet ipv4_loop_last ipv4_loop.simps [of "[]"])

section \<open>Hexadecimal groups\<close>

lemma nibble_step: "push_bit 4 (drop_bit (k + 4) (v :: u16)) OR (drop_bit k v AND 0xF) = drop_bit k v"
proof -
  have "(0xF :: u16) = mask 4" by (simp add: mask_eq_exp_minus_1)
  then have "drop_bit k v AND 0xF = take_bit 4 (drop_bit k v)" by (simp add: take_bit_eq_mask)
  moreover have "push_bit 4 (drop_bit 4 w) OR take_bit 4 w = w" for w :: u16
    by (rule bit_word_eqI) (auto simp: bit_simps)
  moreover have "drop_bit (k + 4) v = drop_bit 4 (drop_bit k v)" by (simp add: add.commute)
  ultimately show ?thesis by metis
qed

lemma unat_u16_bound: "unat (w :: u16) < 65536"
  using unsigned_less [of w] by simp

lemma nibble_top: "drop_bit 12 (v :: u16) AND 0xF = drop_bit 12 v"
proof -
  have m: "(0xF :: u16) = mask 4" by (simp add: mask_eq_exp_minus_1)
  have "unat (drop_bit 12 v) < 2 ^ 4" using unat_u16_bound [of v] by (simp add: unat_drop_bit)
  then show ?thesis unfolding m word_unat_eq_iff unat_and_mask by (rule mod_less)
qed

lemma nibble_lt: "unat (w AND 0xF :: u16) < 16"
  using unat_and_mask [of w 4] by (simp add: mask_eq_exp_minus_1)

lemma hex_char_digit:
  assumes "unat n < 16"
  shows "hex_digit (hex_char n) = Some n" "hex_char n \<noteq> CHR ''.''" "hex_char n \<noteq> CHR '':''"
proof -
  have "unat n \<in> set [0..<16]" using assms by simp
  then have "n \<in> of_nat ` set [0..<16]" using of_nat_unat [of n] by (metis image_eqI ucast_id)
  then have "n \<in> {0, 1, 2, 3, 4, 5, 6, 7, 8, 9, 10, 11, 12, 13, 14, 15}" by (simp add: upt_rec)
  then show "hex_digit (hex_char n) = Some n" "hex_char n \<noteq> CHR ''.''" "hex_char n \<noteq> CHR '':''"
    by (auto simp: hex_char_def hex_digit_def less_eq_char_def)
qed

lemma hex_value_char: "unat n < 16 \<Longrightarrow> hex_value (hex_char n # cs) a = hex_value cs (push_bit 4 a OR n)"
  by (simp add: hex_char_digit)

lemma hex_group_parses:
  "hex_value (hex_group v) 0 = Some v" "hex_group v \<noteq> []" "length (hex_group v) \<le> 4"
  "CHR ''.'' \<notin> set (hex_group v)" "CHR '':'' \<notin> set (hex_group v)"
proof -
  define n3 n2 n1 n0 where n: "n3 = drop_bit 12 v AND 0xF" "n2 = drop_bit 8 v AND 0xF"
    "n1 = drop_bit 4 v AND 0xF" "n0 = v AND 0xF"
  define d2 d1 where d: "d2 = drop_bit 8 v" "d1 = drop_bit 4 v"
  have lt: "unat n3 < 16" "unat n2 < 16" "unat n1 < 16" "unat n0 < 16" unfolding n by (rule nibble_lt)+
  have e: "push_bit 4 n3 OR n2 = d2" "push_bit 4 d2 OR n1 = d1" "push_bit 4 d1 OR n0 = v"
    using nibble_step [of 8 v] nibble_step [of 4 v] nibble_step [of 0 v] nibble_top [of v] by (simp_all add: n d)
  have z: "push_bit 4 (0 :: u16) = 0" by simp
  have g: "hex_group v = (if n3 \<noteq> 0 then [hex_char n3, hex_char n2, hex_char n1, hex_char n0]
     else if n2 \<noteq> 0 then [hex_char n2, hex_char n1, hex_char n0]
     else if n1 \<noteq> 0 then [hex_char n1, hex_char n0] else [hex_char n0])"
    by (simp add: hex_group_def Let_def n)
  have a0: "hex_value [hex_char n0] d1 = Some v" by (subst hex_value_char [OF lt(4)]) (simp only: e hex_value.simps(1))
  then have a1: "hex_value [hex_char n1, hex_char n0] d2 = Some v" by (simp only: hex_value_char [OF lt(3)] e)
  then have a2: "hex_value [hex_char n2, hex_char n1, hex_char n0] n3 = Some v"
    by (simp only: hex_value_char [OF lt(2)] e)
  then have a3: "hex_value [hex_char n3, hex_char n2, hex_char n1, hex_char n0] 0 = Some v"
    by (simp only: hex_value_char [OF lt(1)] z or.left_neutral)
  have "n3 = 0 \<Longrightarrow> n2 = 0 \<Longrightarrow> d2 = 0" "d2 = 0 \<Longrightarrow> n1 = 0 \<Longrightarrow> d1 = 0" using e by auto
  then show "hex_value (hex_group v) 0 = Some v" using a0 a1 a2 a3 unfolding g by presburger
  show "hex_group v \<noteq> []" "length (hex_group v) \<le> 4" by (auto simp: g)
  show "CHR ''.'' \<notin> set (hex_group v)" "CHR '':'' \<notin> set (hex_group v)"
    using hex_char_digit(2,3) [OF lt(1)] hex_char_digit(2,3) [OF lt(2)]
      hex_char_digit(2,3) [OF lt(3)] hex_char_digit(2,3) [OF lt(4)] by (auto simp: g)
qed

section \<open>Colon-separated groups\<close>

fun colon_join :: "string list \<Rightarrow> string" where
  "colon_join [] = []"
| "colon_join [g] = g"
| "colon_join (g # gs) = g @ CHR '':'' # colon_join gs"

lemma colon_join_Cons: "gs \<noteq> [] \<Longrightarrow> colon_join (g # gs) = g @ CHR '':'' # colon_join gs"
  by (cases gs) auto

lemma hex_group_ends: "hd (hex_group v) \<noteq> CHR '':''" "last (hex_group v) \<noteq> CHR '':''"
  using hex_group_parses(2,5) [of v] by (metis hd_in_set) (metis hex_group_parses(2,5) last_in_set)

lemma colon_join_nonempty: "vs \<noteq> [] \<Longrightarrow> colon_join (map hex_group vs) \<noteq> []"
  by (cases vs; cases "tl vs") (auto simp: hex_group_parses(2) colon_join_Cons)

lemma colon_join_ends:
  assumes "vs \<noteq> []"
  shows "hd (colon_join (map hex_group vs)) \<noteq> CHR '':''" "last (colon_join (map hex_group vs)) \<noteq> CHR '':''"
proof -
  show "hd (colon_join (map hex_group vs)) \<noteq> CHR '':''"
    using assms by (cases vs; cases "tl vs") (auto simp: hd_append colon_join_Cons hex_group_ends hex_group_parses(2))
  show "last (colon_join (map hex_group vs)) \<noteq> CHR '':''" using assms
  proof (induction vs)
    case (Cons v vs)
    then show ?case using colon_join_nonempty [of vs]
      by (cases "vs = []") (auto simp: colon_join_Cons hex_group_ends)
  qed simp
qed

lemma ipv6_values_group: "ipv6_values a l (hex_group v) = Some [v]"
  using hex_group_parses [of v] by (simp add: ipv6_values_def not_less)

lemma ipv6_loop_group:
  "length gs < 8 \<Longrightarrow> ipv6_loop a (hex_group v @ CHR '':'' # r) gs = ipv6_loop a r (gs @ [v])"
  using group_of_sep [of "CHR '':''" "hex_group v" r] hex_group_parses(5) [of v]
  by (subst ipv6_loop.simps) (simp add: Let_def ipv6_values_group)

lemma ipv6_loop_last: "length gs < 8 \<Longrightarrow> ipv6_loop a (hex_group v) gs = Some (gs @ [v])"
  using group_of_last [of "CHR '':''" "hex_group v"] hex_group_parses(2,5) [of v]
  by (subst ipv6_loop.simps) (simp add: Let_def ipv6_values_group ipv6_loop.simps [of a "[]"])

lemma ipv6_loop_join:
  "length gs + length vs \<le> 8 \<Longrightarrow> vs \<noteq> [] \<Longrightarrow> ipv6_loop a (colon_join (map hex_group vs)) gs = Some (gs @ vs)"
proof (induction vs arbitrary: gs)
  case (Cons v vs)
  then show ?case by (cases "vs = []") (simp_all add: ipv6_loop_last colon_join_Cons ipv6_loop_group)
qed simp

lemma parse_ipv6_join: "length vs \<le> 8 \<Longrightarrow> parse_ipv6_part (colon_join (map hex_group vs)) a = Some vs"
  using colon_join_ends [of vs] colon_join_nonempty [of vs] ipv6_loop_join [of "[]" vs a]
  by (cases "vs = []") (simp_all add: parse_ipv6_part_def)

section \<open>The search for the compression\<close>

lemma find_compression_skip:
  "CHR '':'' \<notin> set g \<Longrightarrow> find_compression (g @ r) = map_option (\<lambda>i. length g + i) (find_compression r)"
proof (induction g)
  case Nil
  then show ?case by (cases "find_compression r") auto
next
  case (Cons c g)
  have "find_compression ((c # g) @ r) = map_option Suc (find_compression (g @ r))"
    using Cons.prems by (cases "g @ r") auto
  with Cons show ?case by (cases "find_compression r") auto
qed

lemma find_compression_colon:
  "r = [] \<or> hd r \<noteq> CHR '':'' \<Longrightarrow> find_compression (CHR '':'' # r) = map_option Suc (find_compression r)"
  by (cases r) auto

lemma find_compression_join:
  "vs \<noteq> [] \<Longrightarrow> find_compression (colon_join (map hex_group vs) @ r) =
     map_option (\<lambda>i. length (colon_join (map hex_group vs)) + i) (find_compression r)"
proof (induction vs)
  case (Cons v vs)
  show ?case
  proof (cases "vs = []")
    case True
    then show ?thesis using find_compression_skip [OF hex_group_parses(5)] by simp
  next
    case False
    have "find_compression (CHR '':'' # colon_join (map hex_group vs) @ r) =
        map_option Suc (find_compression (colon_join (map hex_group vs) @ r))"
      using colon_join_ends(1) [OF False] colon_join_nonempty [OF False] by (intro find_compression_colon) simp
    then show ?thesis
      using Cons.IH False find_compression_skip [OF hex_group_parses(5) [of v]]
      by (cases "find_compression r") (simp_all add: colon_join_Cons)
  qed
qed simp

lemma find_compression_none: "find_compression (colon_join (map hex_group vs)) = None"
  using find_compression_join [of vs "[]"] by (cases "vs = []") auto

lemma ipv6_groups_plain:
  assumes "length vs = 8"
  shows "ipv6_groups (colon_join (map hex_group vs)) = Some vs"
proof -
  obtain a b ws where vs: "vs = a # b # ws" using assms by (cases vs; cases "tl vs") auto
  have "length (colon_join (map hex_group vs)) \<ge> 2"
    using hex_group_parses(2) [of a] by (cases "hex_group a") (auto simp: vs colon_join_Cons)
  then show ?thesis using assms parse_ipv6_join [of vs True] find_compression_none [of vs]
    by (simp add: ipv6_groups_def)
qed

lemma ipv6_groups_compressed:
  assumes "length hs + length ts \<le> 7"
  shows "ipv6_groups (colon_join (map hex_group hs) @ ''::'' @ colon_join (map hex_group ts)) =
    Some (hs @ replicate (8 - length ts - length hs) 0 @ ts)"
proof -
  have f: "find_compression (colon_join (map hex_group hs) @ ''::'' @ colon_join (map hex_group ts)) =
      Some (length (colon_join (map hex_group hs)))"
    using find_compression_join [of hs "''::'' @ colon_join (map hex_group ts)"] by (cases "hs = []") auto
  show ?thesis
    using assms parse_ipv6_join [of hs False] parse_ipv6_join [of ts True] find_compression_none [of ts]
    unfolding ipv6_groups_def f by simp
qed

section \<open>The formatted text\<close>

definition zero_run :: "u16 list \<Rightarrow> nat \<times> nat \<Rightarrow> bool" where
  "zero_run gs b \<longleftrightarrow> snd b = 0 \<or> (2 \<le> snd b \<and> fst b + snd b \<le> 8 \<and>
     (\<forall>i. fst b \<le> i \<and> i < fst b + snd b \<longrightarrow> gs ! i = 0))"

lemma takeWhile_zero_nth:
  assumes "i < length (takeWhile (\<lambda>g. g = 0) (drop k gs))"
  shows "gs ! (k + i) = (0 :: u16)"
proof -
  have "takeWhile (\<lambda>g. g = 0) (drop k gs) ! i = 0" using nth_mem [OF assms] set_takeWhileD by fastforce
  moreover have "i < length (drop k gs)"
    using assms length_takeWhile_le [of "\<lambda>g. g = 0" "drop k gs"] by linarith
  ultimately show ?thesis using assms by (simp add: takeWhile_nth)
qed

lemma zero_run_here:
  assumes "length gs = 8" "n = length (takeWhile (\<lambda>g. g = 0) (drop k gs))" "2 \<le> n"
  shows "zero_run gs (k, n)"
proof -
  have "k + n \<le> 8" using length_takeWhile_le [of "\<lambda>g. g = 0" "drop k gs"] assms by simp
  moreover have "gs ! i = 0" if "k \<le> i" "i < k + n" for i
    using takeWhile_zero_nth [of "i - k" k gs] that assms(2) by simp
  ultimately show ?thesis using assms(3) by (auto simp: zero_run_def)
qed

lemma best_zero_run_zeros:
  "length gs = 8 \<Longrightarrow> zero_run gs best \<Longrightarrow> zero_run gs (best_zero_run gs index best)"
proof (induction gs index best rule: best_zero_run.induct)
  case (1 gs index best)
  let ?n = "length (takeWhile (\<lambda>g. g = 0) (drop index gs))"
  consider "index \<ge> 8" | "index < 8" "gs ! index \<noteq> 0" | "index < 8" "gs ! index = 0" by linarith
  then show ?case
  proof cases
    case 1
    then show ?thesis using \<open>zero_run gs best\<close> by (simp add: best_zero_run.simps)
  next
    case 2
    then show ?thesis using "1.IH"(1) "1.prems" by (subst best_zero_run.simps) simp
  next
    case 3
    have "zero_run gs (best_zero_run gs (index + max 1 ?n)
         (if ?n > snd best \<and> ?n \<ge> 2 then (index, ?n) else best))"
      by (rule "1.IH"(2)) (use 3 "1.prems" zero_run_here [of gs ?n index] in simp_all)
    then show ?thesis using 3 by (subst best_zero_run.simps) (simp add: Let_def)
  qed
qed

lemma format_groups_plain:
  "length gs = 8 \<Longrightarrow> format_groups gs b 0 0 = colon_join (map hex_group gs)"
proof -
  assume "length gs = 8"
  then obtain a b c d e f g h where "gs = [a, b, c, d, e, f, g, h]"
    by (auto simp: numeral_eq_Suc length_Suc_conv)
  then show ?thesis by (simp add: format_groups.simps)
qed

lemma format_groups_after:
  assumes "length gs = 8" "0 < l" "s + l \<le> i" "i \<le> 8"
  shows "format_groups gs s l i =
    (if i < 8 \<and> i \<noteq> s + l then '':'' else []) @ colon_join (map hex_group (drop i gs))"
  using assms(3,4)
proof (induction "8 - i" arbitrary: i)
  case 0
  then show ?case using assms(1) by (simp add: format_groups.simps)
next
  case (Suc n)
  then have lt: "i < 8" by simp
  have "format_groups gs s l (i + 1) = (if i + 1 < 8 then '':'' else []) @ colon_join (map hex_group (drop (i + 1) gs))"
    using Suc(1) [of "i + 1"] Suc(2-) lt by simp
  moreover have "drop i gs = gs ! i # drop (i + 1) gs" using lt assms(1) by (simp add: Cons_nth_drop_Suc)
  moreover have "i + 1 < 8 \<longleftrightarrow> drop (i + 1) gs \<noteq> []" using assms(1) by auto
  ultimately show ?case using lt Suc(3) assms(2)
    by (subst format_groups.simps) (auto simp: colon_join_Cons)
qed

lemma format_groups_before:
  assumes "length gs = 8" "0 < l" "s + l \<le> 8" "i \<le> s"
  shows "format_groups gs s l i = (if 0 < i \<and> i < s then '':'' else []) @
    colon_join (map hex_group (drop i (take s gs))) @ ''::'' @ colon_join (map hex_group (drop (s + l) gs))"
  using assms(4)
proof (induction "s - i" arbitrary: i)
  case 0
  then have "i = s" by simp
  then show ?case using assms format_groups_after [OF assms(1,2), of s "s + l"]
    by (subst format_groups.simps) simp
next
  case (Suc n)
  then have lt: "i < s" by simp
  have "format_groups gs s l (i + 1) = (if i + 1 < s then '':'' else []) @
    colon_join (map hex_group (drop (i + 1) (take s gs))) @ ''::'' @ colon_join (map hex_group (drop (s + l) gs))"
    using Suc(1) [of "i + 1"] Suc(2-) lt by simp
  moreover have "drop i (take s gs) = gs ! i # drop (i + 1) (take s gs)"
    using lt assms(1,3) by (simp add: Cons_nth_drop_Suc [symmetric])
  moreover have "i + 1 < s \<longleftrightarrow> drop (i + 1) (take s gs) \<noteq> []" using assms(1,3) by auto
  ultimately show ?case using lt assms(2,3)
    by (subst format_groups.simps) (auto simp: colon_join_Cons)
qed

lemma format_groups_compressed:
  assumes "length gs = 8" "2 \<le> l" "s + l \<le> 8"
  shows "format_groups gs s l 0 =
    colon_join (map hex_group (take s gs)) @ ''::'' @ colon_join (map hex_group (drop (s + l) gs))"
  using format_groups_before [of gs l s 0] assms by simp

lemma zero_run_split:
  assumes "length gs = 8" "zero_run gs (s, l)" "l \<noteq> 0"
  shows "take s gs @ replicate (8 - length (drop (s + l) gs) - length (take s gs)) 0 @ drop (s + l) gs = gs"
proof -
  have b: "2 \<le> l" "s + l \<le> 8" "\<forall>i. s \<le> i \<and> i < s + l \<longrightarrow> gs ! i = 0" using assms(2,3) by (auto simp: zero_run_def)
  have "take l (drop s gs) = replicate l 0"
    using b assms(1) by (auto intro!: nth_equalityI)
  moreover have "gs = take s gs @ take l (drop s gs) @ drop (s + l) gs"
    by (metis append_take_drop_id drop_drop add.commute)
  moreover have "8 - length (drop (s + l) gs) - length (take s gs) = l" using b assms(1) by simp
  ultimately show ?thesis by metis
qed

lemma ipv6_groups_formatted:
  assumes "length gs = 8"
  shows "ipv6_groups (format_groups gs (fst (best_zero_run gs 0 (8, 0))) (snd (best_zero_run gs 0 (8, 0))) 0) = Some gs"
proof -
  obtain s l where b: "best_zero_run gs 0 (8, 0) = (s, l)" by fastforce
  have z: "zero_run gs (s, l)" using best_zero_run_zeros [OF assms, of "(8, 0)" 0] b by (simp add: zero_run_def)
  show ?thesis
  proof (cases "l = 0")
    case True
    then show ?thesis using assms by (simp add: b format_groups_plain ipv6_groups_plain)
  next
    case False
    then have le: "2 \<le> l" "s + l \<le> 8" using z by (auto simp: zero_run_def)
    show ?thesis
      using ipv6_groups_compressed [of "take s gs" "drop (s + l) gs"] zero_run_split [OF assms z False] le assms
      by (simp add: b format_groups_compressed)
  qed
qed

lemma format_groups_has_colon:
  assumes "length gs = 8" "zero_run gs (s, l)"
  shows "CHR '':'' \<in> set (format_groups gs s l 0)"
proof (cases "l = 0")
  case True
  obtain a b ws where "gs = a # b # ws" using assms(1) by (cases gs; cases "tl gs") auto
  then show ?thesis using assms True by (simp add: format_groups_plain colon_join_Cons)
next
  case False
  then show ?thesis using assms by (auto simp: zero_run_def format_groups_compressed)
qed

lemma ipv6_groups_mapped:
  "ipv6_groups (''::ffff:'' @ dotted_quad os) =
     Some [0, 0, 0, 0, 0, 0xFFFF, push_bit 8 (ucast (os ! 0)) OR ucast (os ! 1),
           push_bit 8 (ucast (os ! 2)) OR ucast (os ! 3)]"
proof -
  have nc: "CHR '':'' \<notin> set (dotted_quad os)" "CHR ''.'' \<in> set (dotted_quad os)"
    using octet_string_parses(6) by (auto simp: dotted_quad_def)
  note q = dotted_quad_ends [of os] ipv4_octets_dotted_quad [of os]
  have lh: "last (dotted_quad os) \<noteq> CHR '':''" "hd (dotted_quad os) \<noteq> CHR '':''"
    using last_in_set [OF q(3)] hd_in_set [OF q(3)] nc(1) by metis+
  then have l: "last (''ffff:'' @ dotted_quad os) \<noteq> CHR '':''" using q(3) by simp
  have h: "ipv6_values True b ''ffff'' = Some [0xFFFF]" for b
    by (simp add: ipv6_values_def hex_digit_def less_eq_char_def)
  have g: "group_of CHR '':'' (''ffff:'' @ dotted_quad os) = ''ffff''"
    "after_group CHR '':'' (''ffff:'' @ dotted_quad os) = dotted_quad os"
    using group_of_sep [of "CHR '':''" "''ffff''" "dotted_quad os"] by simp_all
  have "ipv6_loop True (''ffff:'' @ dotted_quad os) [] = ipv6_loop True (dotted_quad os) [0xFFFF]"
    by (subst ipv6_loop.simps, simp only: g Let_def h) simp
  also have "\<dots> = Some [0xFFFF, push_bit 8 (ucast (os ! 0)) OR ucast (os ! 1), push_bit 8 (ucast (os ! 2)) OR ucast (os ! 3)]"
    using group_of_last [OF nc(1)] nc q(3)
    by (subst ipv6_loop.simps) (simp add: Let_def ipv6_values_def q(4) ipv6_loop.simps [of True "[]"])
  finally have p: "parse_ipv6_part (''ffff:'' @ dotted_quad os) True =
      Some [0xFFFF, push_bit 8 (ucast (os ! 0)) OR ucast (os ! 1), push_bit 8 (ucast (os ! 2)) OR ucast (os ! 3)]"
    using l by (simp add: parse_ipv6_part_def)
  have "find_compression (''ffff:'' @ dotted_quad os) = None"
  proof -
    have d: "find_compression (dotted_quad os) = None" using find_compression_skip [OF nc(1), of "[]"] by simp
    have "find_compression (CHR '':'' # dotted_quad os) = None"
      using d lh(2) by (subst find_compression_colon) auto
    then show ?thesis using find_compression_skip [of "''ffff''" "CHR '':'' # dotted_quad os"] by simp
  qed
  then show ?thesis using p by (simp add: ipv6_groups_def parse_ipv6_part_def [of "[]"] eval_nat_numeral)
qed

section \<open>Octets and groups\<close>

definition ip_wf :: "GatewayIp \<Rightarrow> bool" where
  "ip_wf a \<longleftrightarrow> length (gi_bytes a) = 16 \<and> (gi_v4 a \<longrightarrow> drop 4 (gi_bytes a) = replicate 12 0)"

lemma group_high_octet:
  "(ucast (drop_bit 8 (push_bit 8 (ucast (a :: byte))) OR drop_bit 8 (ucast (b :: byte)) :: u16) :: byte) = a"
  by (rule bit_word_eqI) (auto simp: bit_simps dest: bit_imp_le_length)

lemma group_low_octet: "(ucast (push_bit 8 (ucast (a :: byte)) OR ucast (b :: byte) :: u16) :: byte) = b"
  by (rule bit_word_eqI) (auto simp: bit_simps)

lemma octets_group:
  "push_bit 8 (ucast (ucast (drop_bit 8 w AND 0xFF) :: byte)) OR ucast (ucast (w AND 0xFF) :: byte) = (w :: u16)"
proof -
  have m: "(0xFF :: u16) = mask 8" by (simp add: mask_eq_exp_minus_1)
  show ?thesis unfolding m by (rule bit_word_eqI) (auto simp: bit_simps)
qed

lemma list16_cases:
  assumes "length bs = 16"
  obtains b0 b1 b2 b3 b4 b5 b6 b7 b8 b9 b10 b11 b12 b13 b14 b15
  where "bs = [b0, b1, b2, b3, b4, b5, b6, b7, b8, b9, b10, b11, b12, b13, b14, b15]"
  using assms by (auto simp: numeral_eq_Suc length_Suc_conv)

lemma groups_to_octets:
  assumes "length bs = 16"
  shows "concat (map (\<lambda>v. [ucast (drop_bit 8 v), ucast v])
    (map (\<lambda>g. push_bit 8 (ucast (bs ! (2 * g))) OR ucast (bs ! (2 * g + 1)) :: u16) [0..<8])) = (bs :: bytes)"
proof -
  have "[0..<8] = [0, 1, 2, 3, 4, 5, 6, 7::nat]" by (simp add: upt_rec)
  then show ?thesis using assms by (elim list16_cases) (simp add: group_high_octet group_low_octet)
qed

lemma format_ipv6_groups:
  assumes "length bs = 16"
  shows "ipv6_groups (format_gateway_ip \<lparr>gi_bytes = bs, gi_v4 = False\<rparr>) =
      Some (map (\<lambda>g. push_bit 8 (ucast (bs ! (2 * g))) OR ucast (bs ! (2 * g + 1))) [0..<8]) \<and>
    CHR '':'' \<in> set (format_gateway_ip \<lparr>gi_bytes = bs, gi_v4 = False\<rparr>)"
proof -
  define gs where "gs = map (\<lambda>g. push_bit 8 (ucast (bs ! (2 * g))) OR ucast (bs ! (2 * g + 1)) :: u16) [0..<8]"
  have l: "length gs = 8" by (simp add: gs_def)
  show ?thesis
  proof (cases "list_all (\<lambda>g. g = 0) (take 5 gs) \<and> gs ! 5 = 0xFFFF")
    case True
    obtain a b c d e f g h where gs: "gs = [a, b, c, d, e, f, g, h]" using l by (auto simp: numeral_eq_Suc length_Suc_conv)
    have "format_gateway_ip \<lparr>gi_bytes = bs, gi_v4 = False\<rparr> = ''::ffff:'' @ dotted_quad
       [ucast (drop_bit 8 (gs ! 6) AND 0xFF), ucast (gs ! 6 AND 0xFF),
        ucast (drop_bit 8 (gs ! 7) AND 0xFF), ucast (gs ! 7 AND 0xFF)]"
      using True by (simp only: format_gateway_ip_def Let_def gs_def [symmetric] GatewayIp.select_convs if_False if_True simp_thms)
    moreover have "gs = [0, 0, 0, 0, 0, 0xFFFF, gs ! 6, gs ! 7]" using True by (simp add: gs)
    moreover have "ipv6_groups (''::ffff:'' @ dotted_quad
       [ucast (drop_bit 8 (gs ! 6) AND 0xFF), ucast (gs ! 6 AND 0xFF),
        ucast (drop_bit 8 (gs ! 7) AND 0xFF), ucast (gs ! 7 AND 0xFF)]) = Some [0, 0, 0, 0, 0, 0xFFFF, gs ! 6, gs ! 7]"
      unfolding ipv6_groups_mapped by (simp add: octets_group)
    ultimately show ?thesis unfolding gs_def [symmetric] by simp
  next
    case False
    then have f: "format_gateway_ip \<lparr>gi_bytes = bs, gi_v4 = False\<rparr> =
        format_groups gs (fst (best_zero_run gs 0 (8, 0))) (snd (best_zero_run gs 0 (8, 0))) 0"
      by (simp only: format_gateway_ip_def Let_def gs_def [symmetric] GatewayIp.select_convs if_False simp_thms)
    have "zero_run gs (best_zero_run gs 0 (8, 0))" by (rule best_zero_run_zeros [OF l]) (simp add: zero_run_def)
    then show ?thesis unfolding f gs_def [symmetric]
      using ipv6_groups_formatted [OF l] format_groups_has_colon [OF l] by (metis prod.collapse)
  qed
qed

lemma parse_formatted_ip:
  assumes "ip_wf a"
  shows "parse_gateway_ip (format_gateway_ip a) = Some a"
proof (cases "gi_v4 a")
  case True
  have b: "length (gi_bytes a) = 16" "drop 4 (gi_bytes a) = replicate 12 0" using assms True by (auto simp: ip_wf_def)
  have "[gi_bytes a ! 0, gi_bytes a ! 1, gi_bytes a ! 2, gi_bytes a ! 3] = take 4 (gi_bytes a)"
    using b(1) by (elim list16_cases) simp
  then have "[gi_bytes a ! 0, gi_bytes a ! 1, gi_bytes a ! 2, gi_bytes a ! 3] @ replicate 12 0 = gi_bytes a"
    using b(2) by (metis append_take_drop_id)
  moreover have "CHR '':'' \<notin> set (dotted_quad (gi_bytes a))" using octet_string_parses(6) by (auto simp: dotted_quad_def)
  ultimately show ?thesis using True
    by (cases a) (simp add: parse_gateway_ip_def format_gateway_ip_def ipv4_octets_dotted_quad)
next
  case False
  have "a = \<lparr>gi_bytes = gi_bytes a, gi_v4 = False\<rparr>" using False by (cases a) simp
  then show ?thesis
    using format_ipv6_groups [of "gi_bytes a"] groups_to_octets [of "gi_bytes a"] assms
    by (simp add: parse_gateway_ip_def ip_wf_def)
qed

section \<open>What parses is well-formed\<close>

lemma ipv4_loop_length: "ipv4_loop r os = Some os' \<Longrightarrow> length os' = 4"
  by (induction r os rule: ipv4_loop.induct)
     (auto simp: ipv4_loop.simps Let_def split: if_splits option.splits)

lemma ipv6_groups_length: "ipv6_groups s = Some gs \<Longrightarrow> length gs = 8"
  by (auto simp: ipv6_groups_def split: if_splits option.splits)

lemma length_group_octets: "length (concat (map (\<lambda>v. [f v, g v]) gs)) = 2 * length gs"
  by (induction gs) auto

lemma parsed_ip_wf: "parse_gateway_ip s = Some a \<Longrightarrow> ip_wf a"
  by (auto simp: parse_gateway_ip_def ip_wf_def ipv4_octets_def length_group_octets
    dest!: ipv4_loop_length ipv6_groups_length split: if_splits option.splits)

lemma parsed_cidr_wf:
  "parse_gateway_cidr s = Some c \<Longrightarrow> ip_wf (ci_address c) \<and> 0 \<le> ci_prefix_bits c \<and>
     ci_prefix_bits c \<le> (if gi_v4 (ci_address c) then 32 else 128)"
  by (auto simp: parse_gateway_cidr_def Let_def dest: parsed_ip_wf split: if_splits option.splits)

section \<open>Properties\<close>

text \<open>
  C15: the canonical text of every well-formed address, IPv4, IPv6 or IPv4-mapped, with the longest
  zero run compressed, parses back to exactly that address; and the well-formed addresses are
  exactly those that some literal denotes.
\<close>

theorem gateway_ip_text:
  "(ip_wf a \<longrightarrow> parse_gateway_ip (format_gateway_ip a) = Some a) \<and>
   ((\<exists>s. parse_gateway_ip s = Some a) \<longleftrightarrow> ip_wf a)"
  using parse_formatted_ip parsed_ip_wf by blast

theorem gateway_ip_text_witness:
  "let a = \<lparr>gi_bytes = [0xfe, 0x80] @ replicate 13 0 @ [1], gi_v4 = False\<rparr> in
   format_gateway_ip a = ''fe80::1'' \<and> parse_gateway_ip ''fe80::1'' = Some a"
proof -
  have "format_gateway_ip \<lparr>gi_bytes = [0xfe, 0x80] @ replicate 13 0 @ [1], gi_v4 = False\<rparr> = ''fe80::1''"
    by code_simp
  then show ?thesis
    using gateway_ip_text [of "\<lparr>gi_bytes = [0xfe, 0x80] @ replicate 13 0 @ [1], gi_v4 = False\<rparr>"]
    by (simp add: ip_wf_def Let_def)
qed

text \<open>
  What the parsers of addresses and ranges return is well-typed: an address has 16 octets, an
  IPv4 address uses the first four and leaves the others zero, and the prefix of a range is within
  the width of its family.
\<close>

theorem gateway_address_typed:
  "(parse_gateway_ip s = Some a \<longrightarrow>
      length (gi_bytes a) = 16 \<and> (gi_v4 a \<longrightarrow> drop 4 (gi_bytes a) = replicate 12 0)) \<and>
   (parse_gateway_cidr t = Some c \<longrightarrow>
      length (gi_bytes (ci_address c)) = 16 \<and> 0 \<le> ci_prefix_bits c \<and>
      ci_prefix_bits c \<le> (if gi_v4 (ci_address c) then 32 else 128))"
  using parsed_ip_wf [of s a] parsed_cidr_wf [of t c] by (auto simp: ip_wf_def)

theorem gateway_address_typed_witness:
  "parse_gateway_ip ''10.0.0.1'' = Some \<lparr>gi_bytes = [10, 0, 0, 1] @ replicate 12 0, gi_v4 = True\<rparr> \<and>
   length (gi_bytes \<lparr>gi_bytes = [10, 0, 0, 1 :: byte] @ replicate 12 0, gi_v4 = True\<rparr>) = 16"
proof -
  have "parse_gateway_ip ''10.0.0.1'' = Some \<lparr>gi_bytes = [10, 0, 0, 1] @ replicate 12 0, gi_v4 = True\<rparr>"
    by code_simp
  then show ?thesis
    using gateway_address_typed [of "''10.0.0.1''" "\<lparr>gi_bytes = [10, 0, 0, 1] @ replicate 12 0, gi_v4 = True\<rparr>" "[]" undefined]
    by blast
qed

end
