(* ===== verification/Heyaki_Gateway_Policy.thy ===== *)
theory Heyaki_Gateway_Policy
  imports Heyaki_Gateway_Literals
begin

text \<open>
  What the gateway's ranges and its admission engine decide, in terms of addresses read as numbers.
\<close>

section \<open>Ranges as intervals of numbers\<close>

definition ip_width :: "GatewayIp \<Rightarrow> nat" where
  "ip_width a = (if gi_v4 a then 4 else 16)"

definition ip_value :: "GatewayIp \<Rightarrow> nat" where
  "ip_value a = val256 (take (ip_width a) (gi_bytes a))"

lemma bit_horner:
  assumes "y < 256"
  shows "bit (x * 256 + y :: nat) n \<longleftrightarrow> (if n < 8 then bit y n else bit x (n - 8))"
proof (cases "n < 8")
  case True
  then have "(2::nat) ^ (8 - n) * 2 ^ n = 2 ^ 8" by (simp flip: power_add)
  then have "(x * 256 + y) div 2 ^ n = (y + x * 2 ^ (8 - n) * 2 ^ n) div 2 ^ n" by (simp add: ac_simps)
  also have "\<dots> = y div 2 ^ n + x * 2 ^ (8 - n)" by simp
  finally show ?thesis using True by (simp add: bit_iff_odd)
next
  case False
  then have "(2::nat) ^ n = 256 * 2 ^ (n - 8)" using power_add [of "2::nat" 8 "n - 8"] by simp
  then have "(x * 256 + y) div 2 ^ n = (x * 256 + y) div 256 div 2 ^ (n - 8)" by (simp add: div_mult2_eq)
  then show ?thesis using False assms by (simp add: bit_iff_odd)
qed

lemma bit_val256:
  "n < 8 * length bs \<Longrightarrow> bit (val256 bs) n \<longleftrightarrow> bit (bs ! (length bs - 1 - n div 8)) (n mod 8)"
proof (induction bs arbitrary: n rule: rev_induct)
  case (snoc b bs)
  have v: "val256 (bs @ [b]) = val256 bs * 256 + unat b" by (simp add: radix_append)
  show ?case
  proof (cases "n < 8")
    case True
    then show ?thesis unfolding v bit_horner [OF unat_byte_bound] by (simp add: bit_unsigned_iff nth_append)
  next
    case False
    have "(n - 8) div 8 = n div 8 - 1" "(n - 8) mod 8 = n mod 8" using False by (auto simp: le_div_geq le_mod_geq)
    moreover have "n div 8 \<ge> 1" "n div 8 \<le> length bs" "n - 8 < 8 * length bs" using False snoc.prems by auto
    moreover from this have "length bs - n div 8 < length bs" by linarith
    ultimately show ?thesis unfolding v bit_horner [OF unat_byte_bound]
      using False snoc.IH [of "n - 8"] by (simp add: nth_append)
  qed
qed simp

lemma val256_bound: "val256 bs < 2 ^ (8 * length bs)"
proof (induction bs rule: rev_induct)
  case (snoc b bs)
  have "val256 bs * 256 + unat b < (val256 bs + 1) * 256" using unat_byte_bound [of b] by simp
  also have "\<dots> \<le> 2 ^ (8 * length bs) * 256" using snoc by (intro mult_right_mono) auto
  finally show ?case by (simp add: radix_append power_add)
qed simp

lemma ip_value_bound: "ip_wf a \<Longrightarrow> ip_value a < 2 ^ (8 * ip_width a)"
  using val256_bound [of "take (ip_width a) (gi_bytes a)"] by (simp add: ip_wf_def ip_value_def ip_width_def split: if_splits)

lemma index_reversed:
  assumes "i < 8 * (w :: nat)"
  shows "w - 1 - (8 * w - 1 - i) div 8 = i div 8" "(8 * w - 1 - i) mod 8 = 7 - i mod 8"
proof -
  have i: "i = 8 * (i div 8) + i mod 8" "i mod 8 < 8" "i div 8 < w" using assms by auto
  have e: "8 * w - 1 - i = 8 * (w - 1 - i div 8) + (7 - i mod 8)" using i by arith
  show "w - 1 - (8 * w - 1 - i) div 8 = i div 8" unfolding e using i by auto
  have m: "(8 * q + r) mod 8 = r" if "r < 8" for q r :: nat using that by simp
  show "(8 * w - 1 - i) mod 8 = 7 - i mod 8" unfolding e by (rule m) simp
qed

lemma drop_bit_and_one: "drop_bit k b AND 1 = (of_bool (bit b k) :: 'a::len word)"
  by (simp add: and_one_eq mod_2_eq_odd bit_iff_odd_drop_bit)

lemma bit_at_value:
  assumes "ip_wf a" "i < 8 * ip_width a"
  shows "bit_at (ip_width a) a i = of_bool (bit (ip_value a) (8 * ip_width a - 1 - i))"
proof -
  have l: "length (take (ip_width a) (gi_bytes a)) = ip_width a" "ip_width a \<le> length (gi_bytes a)"
    using assms(1) by (auto simp: ip_wf_def ip_width_def)
  have "i div 8 < ip_width a" using assms(2) by auto
  then show ?thesis
    using assms(2) bit_val256 [of "8 * ip_width a - 1 - i" "take (ip_width a) (gi_bytes a)"] l index_reversed [OF assms(2)]
    by (simp add: bit_at_def ip_value_def drop_bit_and_one)
qed

lemma high_bits_equal:
  assumes "x < 2 ^ W" "y < 2 ^ W" "p \<le> W"
  shows "(\<forall>i < p. bit x (W - 1 - i) = bit y (W - 1 - i)) \<longleftrightarrow> x div 2 ^ (W - p) = (y div 2 ^ (W - p) :: nat)"
proof
  assume a: "\<forall>i < p. bit x (W - 1 - i) = bit y (W - 1 - i)"
  have b: "bit x n = bit y n" if "W - p \<le> n" for n
  proof (cases "n < W")
    case True
    then show ?thesis using a [rule_format, of "W - 1 - n"] that assms(3) by auto
  next
    case False
    then have "2 ^ W \<le> (2::nat) ^ n" by simp
    then have "x < 2 ^ n" "y < 2 ^ n" using assms(1,2) by linarith+
    then have "x div 2 ^ n = 0" "y div 2 ^ n = 0" by simp_all
    then show ?thesis by (simp add: bit_iff_odd)
  qed
  show "x div 2 ^ (W - p) = y div 2 ^ (W - p)"
    unfolding drop_bit_eq_div [symmetric] by (rule bit_eqI) (simp add: bit_drop_bit_eq b)
next
  assume e: "x div 2 ^ (W - p) = y div 2 ^ (W - p)"
  have "bit x n = bit y n" if "W - p \<le> n" for n
    using arg_cong [OF e, of "\<lambda>z. bit z (n - (W - p))"] that
    unfolding drop_bit_eq_div [symmetric] by (simp add: bit_drop_bit_eq)
  then show "\<forall>i < p. bit x (W - 1 - i) = bit y (W - 1 - i)" using assms(3) by auto
qed

lemma cidr_contains_value:
  assumes "ip_wf (ci_address c)" "ip_wf a" "0 \<le> ci_prefix_bits c"
    "ci_prefix_bits c \<le> int (8 * ip_width (ci_address c))"
  shows "gateway_cidr_contains c a \<longleftrightarrow> gi_v4 (ci_address c) = gi_v4 a \<and>
    ip_value (ci_address c) div 2 ^ (8 * ip_width a - nat (ci_prefix_bits c)) =
      ip_value a div 2 ^ (8 * ip_width a - nat (ci_prefix_bits c))"
proof (cases "gi_v4 (ci_address c) = gi_v4 a")
  case True
  let ?c = "ci_address c" and ?p = "nat (ci_prefix_bits c)" and ?W = "8 * ip_width a"
  have w: "ip_width ?c = ip_width a" using True by (simp add: ip_width_def)
  have p: "?p \<le> ?W" using assms(4) w by simp
  have "gateway_cidr_contains c a \<longleftrightarrow> (\<forall>i < ?p. bit_at (ip_width ?c) ?c i = bit_at (ip_width a) a i)"
    using True by (auto simp: gateway_cidr_contains_def ip_width_def list_all_iff Let_def)
  also have "\<dots> \<longleftrightarrow> (\<forall>i < ?p. bit (ip_value ?c) (?W - 1 - i) = bit (ip_value a) (?W - 1 - i))"
  proof (intro all_cong1 imp_cong refl)
    fix i assume "i < ?p"
    then have "i < 8 * ip_width ?c" "i < ?W" using p w by auto
    then show "bit_at (ip_width ?c) ?c i = bit_at (ip_width a) a i \<longleftrightarrow>
        bit (ip_value ?c) (?W - 1 - i) = bit (ip_value a) (?W - 1 - i)"
      using bit_at_value [OF assms(1), of i] bit_at_value [OF assms(2), of i] w by simp
  qed
  also have "\<dots> \<longleftrightarrow> ip_value ?c div 2 ^ (?W - ?p) = ip_value a div 2 ^ (?W - ?p)"
    using ip_value_bound [OF assms(1)] ip_value_bound [OF assms(2)] w p by (intro high_bits_equal) auto
  finally show ?thesis using True by simp
qed (simp add: gateway_cidr_contains_def)

section \<open>The deny list\<close>

definition reserved_address :: "GatewayIp \<Rightarrow> bool" where
  "reserved_address a \<longleftrightarrow> (let v = ip_value a in
     if gi_v4 a then v div 2 ^ 24 = 0 \<or> v div 2 ^ 24 = 127 \<or> v div 2 ^ 16 = 169 * 256 + 254 \<or>
       v div 2 ^ 28 = 14 \<or> v = 2 ^ 32 - 1 \<or> v div 2 ^ 22 = 100 * 4 + 1
     else v = 0 \<or> v = 1 \<or> v div 2 ^ 118 = 0x3FA \<or> v div 2 ^ 120 = 0xFF \<or> v div 2 ^ 32 = 0xFFFF)"

definition v4_of :: "byte \<Rightarrow> byte \<Rightarrow> byte \<Rightarrow> byte \<Rightarrow> GatewayIp" where
  "v4_of a b c d = \<lparr>gi_bytes = [a, b, c, d] @ replicate 12 0, gi_v4 = True\<rparr>"

definition v6_of :: "bytes \<Rightarrow> bytes \<Rightarrow> GatewayIp" where
  "v6_of hi lo = \<lparr>gi_bytes = hi @ replicate (16 - length hi - length lo) 0 @ lo, gi_v4 = False\<rparr>"

definition deny_ranges :: "GatewayCidr list" where
  "deny_ranges = map (\<lambda>(a, p). \<lparr>ci_address = a, ci_prefix_bits = p\<rparr>)
     [(v4_of 0 0 0 0, 8), (v4_of 127 0 0 0, 8), (v4_of 169 254 0 0, 16), (v4_of 224 0 0 0, 4),
      (v4_of 255 255 255 255, 32), (v4_of 100 64 0 0, 10), (v6_of [] [], 128), (v6_of [] [1], 128),
      (v6_of [0xfe, 0x80] [], 10), (v6_of [0xff] [], 8), (v6_of [] [0xff, 0xff, 0, 0, 0, 0], 96)]"

lemma deny_ranges_parsed: "map parse_gateway_cidr builtin_gateway_deny_ranges = map Some deny_ranges"
  by code_simp

lemma deny_ranges_ex:
  "list_ex (\<lambda>t. case parse_gateway_cidr t of None \<Rightarrow> False | Some c \<Rightarrow> gateway_cidr_contains c a)
     builtin_gateway_deny_ranges \<longleftrightarrow> list_ex (\<lambda>c. gateway_cidr_contains c a) deny_ranges"
proof -
  have "list_ex (\<lambda>t. case parse_gateway_cidr t of None \<Rightarrow> False | Some c \<Rightarrow> gateway_cidr_contains c a) xs \<longleftrightarrow>
      list_ex (\<lambda>o'. case o' of None \<Rightarrow> False | Some c \<Rightarrow> gateway_cidr_contains c a) (map parse_gateway_cidr xs)" for xs
    by (induction xs) auto
  moreover have "list_ex (\<lambda>o'. case o' of None \<Rightarrow> False | Some c \<Rightarrow> gateway_cidr_contains c a) (map Some cs) \<longleftrightarrow>
      list_ex (\<lambda>c. gateway_cidr_contains c a) cs" for cs
    by (induction cs) auto
  ultimately show ?thesis by (simp add: deny_ranges_parsed)
qed

lemma v4_of_value: "ip_wf (v4_of a b c d)" "gi_v4 (v4_of a b c d)" "ip_width (v4_of a b c d) = 4"
  "ip_value (v4_of a b c d) = ((unat a * 256 + unat b) * 256 + unat c) * 256 + unat d"
  by (simp_all add: v4_of_def ip_wf_def ip_value_def ip_width_def radix_def)

lemma radix_zeros: "radix B (replicate n 0) = 0"
  by (induction n) simp_all

lemma v6_of_value:
  assumes "length hi + length lo \<le> 16"
  shows "ip_wf (v6_of hi lo)" "\<not> gi_v4 (v6_of hi lo)" "ip_width (v6_of hi lo) = 16"
    "ip_value (v6_of hi lo) = val256 hi * 256 ^ (16 - length hi) + val256 lo"
  using assms by (simp_all add: v6_of_def ip_wf_def ip_value_def ip_width_def radix_append radix_zeros)

lemma v4_range:
  assumes "ip_wf a" "p \<le> 32"
  shows "gateway_cidr_contains \<lparr>ci_address = v4_of x y z w, ci_prefix_bits = int p\<rparr> a \<longleftrightarrow>
    gi_v4 a \<and> ip_value a div 2 ^ (32 - p) = (((unat x * 256 + unat y) * 256 + unat z) * 256 + unat w) div 2 ^ (32 - p)"
  using cidr_contains_value [of "\<lparr>ci_address = v4_of x y z w, ci_prefix_bits = int p\<rparr>" a] assms
  by (auto simp: v4_of_value ip_width_def [of a])

lemma v6_range:
  assumes "ip_wf a" "p \<le> 128" "length hi + length lo \<le> 16"
  shows "gateway_cidr_contains \<lparr>ci_address = v6_of hi lo, ci_prefix_bits = int p\<rparr> a \<longleftrightarrow>
    \<not> gi_v4 a \<and> ip_value a div 2 ^ (128 - p) = (val256 hi * 256 ^ (16 - length hi) + val256 lo) div 2 ^ (128 - p)"
  using cidr_contains_value [of "\<lparr>ci_address = v6_of hi lo, ci_prefix_bits = int p\<rparr>" a] assms
  by (auto simp: v6_of_value ip_width_def [of a])

lemma deny_ranges_reserved:
  assumes "ip_wf a"
  shows "list_ex (\<lambda>c. gateway_cidr_contains c a) deny_ranges \<longleftrightarrow> reserved_address a"
  using v4_range [OF assms, of 8 0 0 0 0] v4_range [OF assms, of 8 127 0 0 0] v4_range [OF assms, of 16 169 254 0 0]
    v4_range [OF assms, of 4 224 0 0 0] v4_range [OF assms, of 32 255 255 255 255] v4_range [OF assms, of 10 100 64 0 0]
    v6_range [OF assms, of 128 "[]" "[]"] v6_range [OF assms, of 128 "[]" "[1]"] v6_range [OF assms, of 10 "[0xfe, 0x80]" "[]"]
    v6_range [OF assms, of 8 "[0xff]" "[]"] v6_range [OF assms, of 96 "[]" "[0xff, 0xff, 0, 0, 0, 0]"]
  by (simp add: deny_ranges_def reserved_address_def Let_def)

section \<open>Dial latencies\<close>

definition dial_ok :: "GatewayDialWindow \<Rightarrow> bool" where
  "dial_ok w \<longleftrightarrow> length (dw_samples w) = 256 \<and> dw_next w < 256 \<and> dw_count w \<le> 256"

definition dial_start :: GatewayDialWindow where
  "dial_start = \<lparr>dw_samples = replicate 256 0, dw_count = 0, dw_next = 0\<rparr>"

interpretation dial_machine: invariant_machine "\<lambda>w. w = dial_start" "\<lambda>ms w. record_gateway_dial_sample w ms" dial_ok
  by unfold_locales (auto simp: dial_ok_def dial_start_def record_gateway_dial_sample_def)

lemma sorted_at_least:
  assumes "sorted xs" "i < length xs"
  shows "length (filter (\<lambda>x. x \<le> xs ! i) xs) \<ge> i + 1"
proof -
  have "filter (\<lambda>x. x \<le> xs ! i) (take (i + 1) xs) = take (i + 1) xs"
    using assms by (auto simp: filter_id_conv in_set_conv_nth sorted_nth_mono)
  then have "filter (\<lambda>x. x \<le> xs ! i) xs = take (i + 1) xs @ filter (\<lambda>x. x \<le> xs ! i) (drop (i + 1) xs)"
    by (metis append_take_drop_id filter_append)
  then show ?thesis using assms(2) by simp
qed

lemma p95_rank:
  assumes "dial_ok w" "0 < dw_count w"
  shows "gateway_dial_p95 w \<in> set (take (dw_count w) (dw_samples w)) \<and>
    19 * dw_count w \<le> 20 * length (filter (\<lambda>x. x \<le> gateway_dial_p95 w) (take (dw_count w) (dw_samples w)))"
proof -
  let ?n = "dw_count w" and ?xs = "take (dw_count w) (dw_samples w)"
  define i where "i = (if ?n \<ge> 20 then ?n - ?n div 20 else ?n - 1)"
  have l: "length ?xs = ?n" using assms(1) by (simp add: dial_ok_def)
  have "?n div 20 \<ge> 1" if "?n \<ge> 20" using that by auto
  then have i: "i < ?n" "19 * ?n \<le> 20 * (i + 1)" using assms(2) by (auto simp: i_def)
  have p: "gateway_dial_p95 w = sort ?xs ! i" using assms(2) by (simp add: gateway_dial_p95_def i_def Let_def)
  have "i + 1 \<le> length (filter (\<lambda>x. x \<le> sort ?xs ! i) (sort ?xs))" by (rule sorted_at_least) (use i l in auto)
  also have "\<dots> = length (filter (\<lambda>x. x \<le> sort ?xs ! i) ?xs)"
    by (metis length_sort filter_sort)
  finally have "19 * ?n \<le> 20 * length (filter (\<lambda>x. x \<le> sort ?xs ! i) ?xs)" using i by simp
  moreover have "sort ?xs ! i \<in> set ?xs" using i l by (metis length_sort nth_mem set_sort)
  ultimately show ?thesis unfolding p by blast
qed

section \<open>The connect body\<close>

lemma connect_parses:
  assumes "encode_gateway_connect c = Inr bs"
  shows "parse_gateway_connect bs = Inr c"
proof -
  let ?fs = "[bytes_field 1 (char_bytes (gc_host c)), uint_field 2 (ucast (gc_port c))] @
     (if gc_profile c \<noteq> [] then [bytes_field 3 (char_bytes (gc_profile c))] else [])"
  have v: "valid_gateway_host (gc_host c)" "gc_port c \<noteq> 0" "gc_profile c \<noteq> [] \<longrightarrow> safe_gateway_profile_name (gc_profile c)"
    and bs: "bs = concat (map field_bytes ?fs)"
    using assms by (auto simp: encode_gateway_connect_def append_text_def split: if_splits)
  have u: "unat (ucast (gc_port c) :: u64) = unat (gc_port c)" using unat_u16_bound [of "gc_port c"] by (simp add: unat_ucast)
  have p: "(ucast (gc_port c) :: u64) \<noteq> 0" "\<not> (65535 :: u64) < ucast (gc_port c)" "ucast (ucast (gc_port c) :: u64) = gc_port c"
    using v(2) u unat_u16_bound [of "gc_port c"] by (auto simp: word_unat_eq_iff word_less_nat_alt unat_ucast)
  have "\<forall>f \<in> set ?fs. field_wf f"
    using v by (auto simp: field_wf_def valid_gateway_host_def safe_gateway_profile_name_def split: if_splits)
  from read_all_encoded [OF this, of connect_field "''proto''", folded bs] show ?thesis
    using p by (cases c) (simp add: parse_gateway_connect_def connect_field_def)
qed

section \<open>Properties\<close>

text \<open>
  C27: the bit-by-bit comparison of a range decides exactly whether the address is of the range's
  family and agrees with it, as a number, in the leading prefix bits.
\<close>

theorem gateway_cidr_exact:
  assumes "ip_wf (ci_address c)" and "ip_wf a" and "0 \<le> ci_prefix_bits c"
    and "ci_prefix_bits c \<le> (if gi_v4 (ci_address c) then 32 else 128)"
  shows "gateway_cidr_contains c a \<longleftrightarrow> gi_v4 (ci_address c) = gi_v4 a \<and>
    (let low = (if gi_v4 a then 32 else 128) - nat (ci_prefix_bits c)
     in ip_value (ci_address c) div 2 ^ low = ip_value a div 2 ^ low)"
  using cidr_contains_value [of c a] assms by (auto simp: ip_width_def Let_def split: if_splits)

theorem gateway_cidr_exact_witness:
  "gateway_cidr_contains \<lparr>ci_address = v4_of 10 0 0 0, ci_prefix_bits = 8\<rparr> (v4_of 10 1 2 3)"
  using gateway_cidr_exact [of "\<lparr>ci_address = v4_of 10 0 0 0, ci_prefix_bits = 8\<rparr>" "v4_of 10 1 2 3"]
  by (simp add: v4_of_value)

text \<open>
  C9: the admission engine allows a connection exactly when the selected profile exists, its port
  ranges contain the port, some resolved address survives, and neither stream counter nor the byte
  quota is used up.  The addresses to dial are then the resolved ones, in order, that lie in an
  allowed range and in no denied one, and none of them is a loopback, link-local, multicast,
  broadcast, shared, unspecified or IPv4-mapped address.  A refusal gives no address to dial.
\<close>

theorem gateway_admission_exact:
  assumes "\<forall>a \<in> set resolved. ip_wf a"
    and "resolve_gateway_profile profiles (gc_profile connect) = Some p"
  shows "let adm = admit_gateway_connection profiles connect resolved ctx;
      dial = filter (\<lambda>a. \<not> reserved_address a \<and> \<not> cidr_list_contains (gp_denied_cidrs p) a \<and>
                         cidr_list_contains (gp_allowed_cidrs p) a) resolved in
    (ad_allowed adm \<longleftrightarrow>
       (\<exists>r \<in> set (gp_allowed_ports p). pr_low r \<le> gc_port connect \<and> gc_port connect \<le> pr_high r) \<and>
       dial \<noteq> [] \<and>
       ga_streams_active_session ctx < gp_max_concurrent_streams_per_session p \<and>
       ga_streams_active_profile ctx < gp_max_concurrent_streams_per_profile p \<and>
       ga_profile_bytes_used ctx < gp_max_profile_bytes p) \<and>
    ad_dial_addresses adm = (if ad_allowed adm then dial else []) \<and>
    ad_profile adm = (if ad_allowed adm then Some p else None)"
proof -
  have "filter (\<lambda>a. \<not> gateway_address_denied p a \<and> cidr_list_contains (gp_allowed_cidrs p) a) resolved =
    filter (\<lambda>a. \<not> reserved_address a \<and> \<not> cidr_list_contains (gp_denied_cidrs p) a \<and>
       cidr_list_contains (gp_allowed_cidrs p) a) resolved"
    using assms(1) by (intro filter_cong refl) (auto simp: gateway_address_denied_def deny_ranges_ex deny_ranges_reserved)
  then show ?thesis using assms(2)
    by (auto simp: admit_gateway_connection_def Let_def list_ex_iff not_le not_less)
qed

definition sample_profile :: "GatewayCidr list \<Rightarrow> GatewayProfileConfig" where
  "sample_profile cidrs = \<lparr>gp_name = ''lan'', gp_allowed_cidrs = cidrs, gp_denied_cidrs = [],
     gp_allowed_ports = [\<lparr>pr_low = 22, pr_high = 22\<rparr>], gp_allow_internet = False,
     gp_max_concurrent_streams_per_session = 8, gp_max_concurrent_streams_per_profile = 16,
     gp_max_profile_bytes = 1000, gp_max_profile_bytes_per_second = 1000,
     gp_stream_idle_timeout = 300000, gp_stream_max_duration = 3600000, gp_dial_deadline = 10000,
     gp_confirm = GCM_never\<rparr>"

theorem gateway_admission_exact_witness:
  "let p = sample_profile [\<lparr>ci_address = v4_of 10 0 0 0, ci_prefix_bits = 8\<rparr>, \<lparr>ci_address = v4_of 127 0 0 0, ci_prefix_bits = 8\<rparr>]
   in ad_dial_addresses (admit_gateway_connection [p] \<lparr>gc_host = ''h'', gc_port = 22, gc_profile = []\<rparr>
     [v4_of 127 0 0 1, v4_of 10 1 2 3] \<lparr>ga_streams_active_session = 0, ga_streams_active_profile = 0, ga_profile_bytes_used = 0\<rparr>)
     = [v4_of 10 1 2 3]"
proof -
  let ?p = "sample_profile [\<lparr>ci_address = v4_of 10 0 0 0, ci_prefix_bits = 8\<rparr>, \<lparr>ci_address = v4_of 127 0 0 0, ci_prefix_bits = 8\<rparr>]"
  let ?c = "\<lparr>gc_host = ''h'', gc_port = 22, gc_profile = []\<rparr>"
  have "cidr_list_contains (gp_allowed_cidrs ?p) (v4_of 10 1 2 3)"
    using v4_range [of "v4_of 10 1 2 3" 8 10 0 0 0] by (simp add: cidr_list_contains_def sample_profile_def v4_of_value)
  moreover have "\<not> reserved_address (v4_of 10 1 2 3)" "reserved_address (v4_of 127 0 0 1)"
    by (simp_all add: reserved_address_def v4_of_value)
  ultimately show ?thesis
    using gateway_admission_exact [of "[v4_of 127 0 0 1, v4_of 10 1 2 3]" "[?p]" ?c ?p
      "\<lparr>ga_streams_active_session = 0, ga_streams_active_profile = 0, ga_profile_bytes_used = 0\<rparr>"]
    by (simp add: v4_of_value resolve_gateway_profile_def Let_def sample_profile_def cidr_list_contains_def)
qed

text \<open>
  A connect request the initiator can encode passes the server's validation and is parsed back
  unchanged, and of all preludes only the one that says connected is accepted.
\<close>

theorem gateway_connect_roundtrip:
  "(encode_gateway_connect c = Inr bs \<longrightarrow>
      parse_gateway_connect bs = Inr c \<and> validate_gateway_connect c = Inr ()) \<and>
   parse_gateway_prelude (encode_gateway_prelude s) =
     (if s = 0 then Inr 0 else Inl (gateway_error EC_protocol ''gateway_prelude_status_invalid''))"
proof -
  have "push_bit 8 (ucast (ucast (drop_bit 8 s) :: byte)) OR ucast (ucast s :: byte) = s"
    by (rule bit_word_eqI) (auto simp: bit_simps)
  then have "parse_gateway_prelude (encode_gateway_prelude s) =
     (if s = 0 then Inr 0 else Inl (gateway_error EC_protocol ''gateway_prelude_status_invalid''))"
    by (simp add: parse_gateway_prelude_def encode_gateway_prelude_def)
  moreover have "encode_gateway_connect c = Inr bs \<Longrightarrow> validate_gateway_connect c = Inr ()"
    by (auto simp: encode_gateway_connect_def validate_gateway_connect_def split: if_splits)
  ultimately show ?thesis using connect_parses by blast
qed

theorem gateway_connect_roundtrip_witness:
  "let c = \<lparr>gc_host = ''10.0.0.1'', gc_port = 22, gc_profile = ''lan''\<rparr>;
       bs = [0x0a, 8, 0x31, 0x30, 0x2e, 0x30, 0x2e, 0x30, 0x2e, 0x31, 0x10, 22, 0x1a, 3, 0x6c, 0x61, 0x6e]
   in encode_gateway_connect c = Inr bs \<and> parse_gateway_connect bs = Inr c"
proof -
  have "encode_gateway_connect \<lparr>gc_host = ''10.0.0.1'', gc_port = 22, gc_profile = ''lan''\<rparr> =
    Inr [0x0a, 8, 0x31, 0x30, 0x2e, 0x30, 0x2e, 0x30, 0x2e, 0x31, 0x10, 22, 0x1a, 3, 0x6c, 0x61, 0x6e]"
    by code_simp
  with gateway_connect_roundtrip [of "\<lparr>gc_host = ''10.0.0.1'', gc_port = 22, gc_profile = ''lan''\<rparr>"
    "[0x0a, 8, 0x31, 0x30, 0x2e, 0x30, 0x2e, 0x30, 0x2e, 0x31, 0x10, 22, 0x1a, 3, 0x6c, 0x61, 0x6e]" 0]
  show ?thesis by (simp only: Let_def)
qed

text \<open>
  After any sequence of dial samples the reported percentile is one of the samples in the
  window, and at least nineteen in twenty of the samples in the window are no larger.
\<close>

theorem gateway_dial_p95_rank:
  assumes "samples \<noteq> []"
  shows "let w = run (\<lambda>ms w. record_gateway_dial_sample w ms) samples dial_start;
      window = take (dw_count w) (dw_samples w) in
    gateway_dial_p95 w \<in> set window \<and>
    19 * length window \<le> 20 * length (filter (\<lambda>x. x \<le> gateway_dial_p95 w) window)"
proof -
  let ?w = "run (\<lambda>ms w. record_gateway_dial_sample w ms) samples dial_start"
  have ok: "dial_ok ?w" by (rule dial_machine.inv_reachable) simp
  have "0 < dw_count w \<Longrightarrow> 0 < dw_count (run (\<lambda>ms w. record_gateway_dial_sample w ms) xs w)" for xs w
    by (induction xs arbitrary: w) (auto simp: record_gateway_dial_sample_def)
  moreover obtain x xs where "samples = x # xs" using assms by (cases samples) auto
  ultimately have "0 < dw_count ?w" by (simp add: record_gateway_dial_sample_def dial_start_def)
  with p95_rank [OF ok] ok show ?thesis by (simp add: Let_def dial_ok_def)
qed

theorem gateway_dial_p95_rank_witness:
  "gateway_dial_p95 (run (\<lambda>ms w. record_gateway_dial_sample w ms) [7] dial_start) \<in> {7}"
  using gateway_dial_p95_rank [of "[7]"] replicate_Suc [of 255 "0 :: u32"]
  by (simp add: Let_def record_gateway_dial_sample_def dial_start_def)

text \<open>
  A profile that does not opt in to the internet passes validation with two ranges that
  together contain every IPv4 address.
\<close>

theorem gateway_catch_all_bypassed:
  "let p = sample_profile [\<lparr>ci_address = v4_of 0 0 0 0, ci_prefix_bits = 1\<rparr>, \<lparr>ci_address = v4_of 128 0 0 0, ci_prefix_bits = 1\<rparr>]
   in validate_gateway_profile p = Inr () \<and> \<not> gp_allow_internet p \<and>
      (\<forall>a. ip_wf a \<and> gi_v4 a \<longrightarrow> cidr_list_contains (gp_allowed_cidrs p) a)"
proof -
  have "cidr_list_contains [\<lparr>ci_address = v4_of 0 0 0 0, ci_prefix_bits = 1\<rparr>, \<lparr>ci_address = v4_of 128 0 0 0, ci_prefix_bits = 1\<rparr>] a"
    if a: "ip_wf a" "gi_v4 a" for a
  proof -
    have "ip_value a < 2 ^ 32" using ip_value_bound [OF a(1)] a(2) by (simp add: ip_width_def)
    then have "ip_value a div 2 ^ 31 < 2" by (simp add: less_mult_imp_div_less)
    then have "ip_value a div 2 ^ 31 = 0 \<or> ip_value a div 2 ^ 31 = 1" by linarith
    then show ?thesis using v4_range [OF a(1), of 1 0 0 0 0] v4_range [OF a(1), of 1 128 0 0 0] a(2)
      by (auto simp: cidr_list_contains_def)
  qed
  then show ?thesis
    by (simp add: Let_def sample_profile_def validate_gateway_profile_def safe_gateway_profile_name_def
      gateway_cidr_is_catch_all_def less_eq_char_def)
qed

end
