(* ===== verification/Heyaki_Byte_Stream.thy ===== *)
theory Heyaki_Byte_Stream
  imports Heyaki_Gateway Heyaki_Channels
begin

text \<open>
  Byte streams with dual (octet and frame) credit: \<open>byte_stream.hpp\<close> and \<open>byte_stream.cpp\<close>.

  A \<open>ByteStreamHandle\<close> may outlive its entry in the service's map, because the application keeps a
  shared pointer; the handles therefore live in a store and the map holds their addresses.  The
  calls of user callbacks are recorded, in order, as events; a callback is named by a number and
  does not call the service.  The session is an interface: the result and the effect of each of its
  calls are arguments of the model.
\<close>

section \<open>Wire helpers\<close>

definition stream_error :: "ErrorCode \<Rightarrow> string \<Rightarrow> Error" where
  "stream_error code detail = err code ''byte_stream'' detail"

definition append_u64 :: "u64 \<Rightarrow> bytes" where
  "append_u64 v = map (\<lambda>i. ucast (drop_bit (56 - i * 8) v)) [0..<8]"

definition append_u32 :: "u32 \<Rightarrow> bytes" where
  "append_u32 v = map (\<lambda>i. ucast (drop_bit (24 - i * 8) v)) [0..<4]"

text \<open>The span is indexed without a test; an index beyond it is undefined and gives \<open>None\<close>.\<close>

definition read_u64 :: "bytes \<Rightarrow> nat \<Rightarrow> u64 option" where
  "read_u64 input offset =
    (if offset + 8 > length input then None
     else Some (foldl (\<lambda>v i. push_bit 8 v OR ucast (input ! (offset + i))) 0 [0..<8]))"

definition read_u32 :: "bytes \<Rightarrow> nat \<Rightarrow> u32 option" where
  "read_u32 input offset =
    (if offset + 4 > length input then None
     else Some (foldl (\<lambda>v i. push_bit 8 v OR ucast (input ! (offset + i))) 0 [0..<4]))"

definition parse_stream_id :: "bytes \<Rightarrow> id_bytes result" where
  "parse_stream_id payload =
    (if length payload < 16 then Inl (stream_error EC_protocol ''stream_id_truncated'')
     else if id_is_zero (take 16 payload) then Inl (stream_error EC_protocol ''stream_id_zero'')
     else Inr (take 16 payload))"

definition parse_pb_stream_id :: "bytes \<Rightarrow> id_bytes result" where
  "parse_pb_stream_id payload =
    (if length payload < 18 then Inl (stream_error EC_protocol ''stream_id_field_truncated'')
     else if payload ! 0 \<noteq> 0x0A \<or> payload ! 1 \<noteq> 16 then
       Inl (stream_error EC_protocol ''stream_id_field_invalid'')
     else if id_is_zero (take 16 (drop 2 payload)) then
       Inl (stream_error EC_protocol ''stream_id_zero'')
     else Inr (take 16 (drop 2 payload)))"

section \<open>State\<close>

datatype StreamState =
  SS_opening | SS_open | SS_half_closed_local | SS_half_closed_remote | SS_closed | SS_reset

fun stream_state_name :: "StreamState \<Rightarrow> string" where
  "stream_state_name SS_opening = ''opening''"
| "stream_state_name SS_open = ''open''"
| "stream_state_name SS_half_closed_local = ''half_closed_local''"
| "stream_state_name SS_half_closed_remote = ''half_closed_remote''"
| "stream_state_name SS_closed = ''closed''"
| "stream_state_name SS_reset = ''reset''"

record ByteStreamLimits =
  bl_max_data_chunk_bytes :: nat
  bl_default_receive_window_bytes :: nat
  bl_default_receive_window_frames :: u32
  bl_max_concurrent_streams :: nat
  bl_pending_write_bytes :: nat
  bl_max_pending_reads :: nat
  bl_max_pending_writes :: nat

definition default_stream_limits :: ByteStreamLimits where
  "default_stream_limits = \<lparr>bl_max_data_chunk_bytes = 16384,
     bl_default_receive_window_bytes = 262144, bl_default_receive_window_frames = 64,
     bl_max_concurrent_streams = 16, bl_pending_write_bytes = 524288, bl_max_pending_reads = 16,
     bl_max_pending_writes = 16\<rparr>"

definition validate_byte_stream_limits :: "ByteStreamLimits \<Rightarrow> unit result" where
  "validate_byte_stream_limits l =
    (if bl_max_data_chunk_bytes l = 0 \<or> bl_max_data_chunk_bytes l > 1048576 then
       Inl (stream_error EC_configuration ''data_chunk_limit_invalid'')
     else if bl_default_receive_window_bytes l = 0 \<or>
             bl_default_receive_window_bytes l > 67108864 then
       Inl (stream_error EC_configuration ''receive_window_limit_invalid'')
     else if bl_default_receive_window_frames l = 0 \<or> bl_default_receive_window_frames l > 65536 then
       Inl (stream_error EC_configuration ''receive_window_frames_invalid'')
     else if bl_max_concurrent_streams l = 0 \<or> bl_max_concurrent_streams l > 1024 then
       Inl (stream_error EC_configuration ''concurrent_stream_limit_invalid'')
     else if bl_pending_write_bytes l = 0 \<or> bl_pending_write_bytes l > 67108864 \<or>
             bl_max_pending_reads l = 0 \<or> bl_max_pending_reads l > 4096 \<or>
             bl_max_pending_writes l = 0 \<or> bl_max_pending_writes l > 4096 then
       Inl (stream_error EC_configuration ''pending_limit_invalid'')
     else Inr ())"

record PendingWrite =
  pw_data :: bytes
  pw_offset :: nat
  pw_handler :: nat
  pw_deadline :: "u64 option"
  pw_fin_after :: bool

text \<open>\<open>rd_size\<close> is the size of the caller's buffer.\<close>

record PendingRead =
  rd_size :: nat
  rd_handler :: nat
  rd_deadline :: "u64 option"

record ByteStreamHandle =
  st_id :: id_bytes
  st_channel_id :: u32
  st_state :: StreamState
  st_max_pending_reads :: nat
  st_max_pending_writes :: nat
  st_max_pending_write_bytes :: nat
  st_next_receive_offset :: u64
  st_receive_window_bytes :: u64
  st_receive_window_frames :: u32
  st_remaining_bytes :: u64
  st_remaining_frames :: u32
  st_receive_chunks :: "bytes list"
  st_receive_buffered_bytes :: u64
  st_consumed_through_offset :: u64
  st_reported_consumed_bytes :: u64
  st_reported_consumed_frames :: u32
  st_fin_received :: bool
  st_final_receive_offset :: u64
  st_next_send_offset :: u64
  st_send_consumed_by_peer :: u64
  st_send_credit_bytes :: u64
  st_send_credit_frames :: u32
  st_fin_sent :: bool
  st_reset_reason :: "StableStatus option"
  st_gateway :: bool
  st_gateway_initiator :: bool
  st_gateway_prelude_pending :: bool
  st_gateway_prelude :: bytes
  st_gateway_dial_deadline :: u64
  st_gateway_connected_handler :: "nat option"
  st_gateway_connected_fired :: bool
  st_writes :: "PendingWrite list"
  st_reads :: "PendingRead list"

text \<open>
  The prelude buffer and its fill count are one list: its length is the number of octets received.
\<close>

definition new_stream_handle ::
  "ByteStreamLimits \<Rightarrow> id_bytes \<Rightarrow> u32 \<Rightarrow> u64 \<Rightarrow> u32 \<Rightarrow> ByteStreamHandle" where
  "new_stream_handle limits sid cid window_bytes window_frames =
    \<lparr>st_id = sid, st_channel_id = cid, st_state = SS_opening,
     st_max_pending_reads = bl_max_pending_reads limits,
     st_max_pending_writes = bl_max_pending_writes limits,
     st_max_pending_write_bytes = bl_pending_write_bytes limits,
     st_next_receive_offset = 0, st_receive_window_bytes = window_bytes,
     st_receive_window_frames = window_frames, st_remaining_bytes = window_bytes,
     st_remaining_frames = window_frames, st_receive_chunks = [],
     st_receive_buffered_bytes = 0, st_consumed_through_offset = 0,
     st_reported_consumed_bytes = 0, st_reported_consumed_frames = 0,
     st_fin_received = False, st_final_receive_offset = 0, st_next_send_offset = 0,
     st_send_consumed_by_peer = 0, st_send_credit_bytes = 0, st_send_credit_frames = 0,
     st_fin_sent = False, st_reset_reason = None, st_gateway = False,
     st_gateway_initiator = False, st_gateway_prelude_pending = False, st_gateway_prelude = [],
     st_gateway_dial_deadline = 0, st_gateway_connected_handler = None,
     st_gateway_connected_fired = False, st_writes = [], st_reads = []\<rparr>"

text \<open>
  The callbacks the service calls: the completion of a read with the octets copied into the
  caller's buffer, the completion of a write with the octets that entered the window, the one-shot
  connect outcome, and the two handlers of inbound streams with the address of the stream.
\<close>

datatype StreamEvent =
    SE_read nat bytes "Error option"
  | SE_write nat nat "Error option"
  | SE_connected nat "unit result"
  | SE_inbound nat
  | SE_gateway_inbound nat GatewayConnect

text \<open>The calls the service makes on its \<open>PeerSession\<close>.\<close>

record 's SessionApi =
  sa_send :: "u32 \<Rightarrow> FrameClass \<Rightarrow> Frame \<Rightarrow> 's \<Rightarrow> unit result \<times> 's"
  sa_open :: "ChannelDomain \<Rightarrow> QueueFullPolicy \<Rightarrow> nat \<Rightarrow> nat \<Rightarrow> 's \<Rightarrow> u32 result \<times> 's"
  sa_adopt :: "u32 \<Rightarrow> ChannelDomain \<Rightarrow> QueueFullPolicy \<Rightarrow> nat \<Rightarrow> nat \<Rightarrow> 's \<Rightarrow> u32 result \<times> 's"
  sa_close :: "u32 \<Rightarrow> 's \<Rightarrow> 's"
  sa_fail :: "u32 \<Rightarrow> 's \<Rightarrow> 's"
  sa_has :: "u32 \<Rightarrow> 's \<Rightarrow> bool"
  sa_set_domain_handler :: "bool \<Rightarrow> 's \<Rightarrow> 's"
  sa_gateway_negotiated :: "'s \<Rightarrow> bool"

record 's ByteStreamService =
  sv_session :: 's
  sv_limits :: ByteStreamLimits
  sv_channel_id :: "u32 option"
  sv_owned_channels :: "u32 list"
  sv_streams :: "(id_bytes, nat) omap"
  sv_handles :: "nat \<Rightarrow> ByteStreamHandle"
  sv_next_address :: nat
  sv_inbound_handler :: bool
  sv_gateway_inbound_handler :: bool
  sv_attached :: bool
  sv_events :: "StreamEvent list"

abbreviation hget :: "nat \<Rightarrow> 's ByteStreamService \<Rightarrow> ByteStreamHandle" where
  "hget r s \<equiv> sv_handles s r"

definition hput :: "nat \<Rightarrow> ByteStreamHandle \<Rightarrow> 's ByteStreamService \<Rightarrow> 's ByteStreamService" where
  "hput r h s = s\<lparr>sv_handles := (sv_handles s)(r := h)\<rparr>"

definition emit :: "StreamEvent list \<Rightarrow> 's ByteStreamService \<Rightarrow> 's ByteStreamService" where
  "emit es s = s\<lparr>sv_events := sv_events s @ es\<rparr>"

section \<open>Sending and finishing\<close>

definition send_stream_frame :: "'s SessionApi \<Rightarrow> u32 \<Rightarrow> byte \<Rightarrow> bytes \<Rightarrow> FrameClass \<Rightarrow>
    's ByteStreamService \<Rightarrow> unit result \<times> 's ByteStreamService" where
  "send_stream_frame api cid type payload klass s =
    (let (res, sess) = sa_send api cid klass
           \<lparr>fr_type = type, fr_flags = 0, fr_channel_id = cid, fr_message_id = replicate 16 0,
            fr_payload = payload\<rparr> (sv_session s)
     in (res, s\<lparr>sv_session := sess\<rparr>))"

definition send_reset :: "'s SessionApi \<Rightarrow> u32 \<Rightarrow> id_bytes \<Rightarrow> StableStatus \<Rightarrow>
    's ByteStreamService \<Rightarrow> 's ByteStreamService" where
  "send_reset api cid sid reason s =
     snd (send_stream_frame api cid ft_stream_reset
       (append_bytes 1 sid @ append_uint 2 (ucast reason)) FC_control s)"

definition send_fin :: "'s SessionApi \<Rightarrow> nat \<Rightarrow> 's ByteStreamService \<Rightarrow>
    unit result \<times> 's ByteStreamService" where
  "send_fin api r s =
     send_stream_frame api (st_channel_id (hget r s)) ft_stream_fin
       (append_bytes 1 (st_id (hget r s)) @ append_uint 2 (st_next_send_offset (hget r s)))
       FC_control s"

text \<open>\<open>std::to_string\<close> of an unsigned value.\<close>

fun unsigned_string :: "nat \<Rightarrow> string" where
  "unsigned_string n =
    (if n < 10 then [digit_char n] else unsigned_string (n div 10) @ [digit_char (n mod 10)])"

declare unsigned_string.simps [simp del]

definition clean_end :: "StreamState \<Rightarrow> bool" where
  "clean_end terminal \<longleftrightarrow> terminal = SS_closed \<or> terminal = SS_half_closed_remote"

definition connect_failure :: "StreamState \<Rightarrow> ByteStreamHandle \<Rightarrow> Error" where
  "connect_failure terminal h =
    (if clean_end terminal then err EC_cancelled ''byte_stream'' ''gateway_connect_closed''
     else err EC_remote_error ''byte_stream'' (''gateway_connect_failed_'' @
       unsigned_string (unat (case st_reset_reason h of None \<Rightarrow> status_unspecified | Some x \<Rightarrow> x))))"

definition finish_stream :: "'s SessionApi \<Rightarrow> nat \<Rightarrow> StreamState \<Rightarrow> 's ByteStreamService \<Rightarrow>
    's ByteStreamService" where
  "finish_stream api r terminal s =
    (let h = hget r s;
         fire = st_gateway_initiator h \<and> \<not> st_gateway_connected_fired h \<and>
                st_gateway_connected_handler h \<noteq> None;
         e = stream_error EC_cancelled ''stream_reset'';
         events = (if fire then [SE_connected (the (st_gateway_connected_handler h))
                                  (Inl (connect_failure terminal h))] else []) @
           map (\<lambda>rd. SE_read (rd_handler rd) [] (if clean_end terminal then None else Some e)) (st_reads h) @
           map (\<lambda>w. SE_write (pw_handler w) (pw_offset w) (Some e)) (st_writes h);
         h1 = h\<lparr>st_state := terminal,
                st_gateway_connected_fired := st_gateway_connected_fired h \<or> fire,
                st_gateway_connected_handler := (if fire then None else st_gateway_connected_handler h),
                st_reads := [], st_writes := []\<rparr>;
         s1 = emit events (hput r h1 s)
     in if terminal = SS_reset \<or> terminal = SS_closed then
          let s2 = s1\<lparr>sv_streams := om_del (st_id h) (sv_streams s1)\<rparr> in
          if st_gateway h then
            s2\<lparr>sv_owned_channels := removeAll (st_channel_id h) (sv_owned_channels s2),
               sv_session := sa_close api (st_channel_id h) (sv_session s2)\<rparr>
          else s2
        else s1)"

definition handle_reset_frame_for :: "'s SessionApi \<Rightarrow> nat \<Rightarrow> StableStatus \<Rightarrow>
    's ByteStreamService \<Rightarrow> 's ByteStreamService" where
  "handle_reset_frame_for api r reason s =
    (let h = hget r s;
         s1 = (if st_state h \<noteq> SS_reset then send_reset api (st_channel_id h) (st_id h) reason s
               else s)
     in finish_stream api r SS_reset s1)"

lemma send_stream_frame_same [simp]:
  "sv_handles (snd (send_stream_frame api c t p k s)) = sv_handles s"
  "sv_streams (snd (send_stream_frame api c t p k s)) = sv_streams s"
  "sv_events (snd (send_stream_frame api c t p k s)) = sv_events s"
  "sv_limits (snd (send_stream_frame api c t p k s)) = sv_limits s"
  "sv_owned_channels (snd (send_stream_frame api c t p k s)) = sv_owned_channels s"
  by (simp_all add: send_stream_frame_def split_beta)

lemma hget_hput [simp]: "hget r (hput r h s) = h" "r \<noteq> q \<Longrightarrow> hget q (hput r h s) = hget q s"
  by (simp_all add: hput_def)

lemma hput_same [simp]:
  "sv_streams (hput r h s) = sv_streams s" "sv_events (hput r h s) = sv_events s"
  "sv_limits (hput r h s) = sv_limits s" "sv_session (hput r h s) = sv_session s"
  "sv_owned_channels (hput r h s) = sv_owned_channels s"
  by (simp_all add: hput_def)

lemma emit_same [simp]:
  "sv_streams (emit es s) = sv_streams s" "sv_handles (emit es s) = sv_handles s"
  "sv_limits (emit es s) = sv_limits s" "sv_session (emit es s) = sv_session s"
  "sv_events (emit es s) = sv_events s @ es" "sv_owned_channels (emit es s) = sv_owned_channels s"
  by (simp_all add: emit_def)

lemma finish_stream_empties [simp]:
  "st_reads (hget r (finish_stream api r t s)) = []" "st_writes (hget r (finish_stream api r t s)) = []"
  "st_state (hget r (finish_stream api r t s)) = t"
  by (simp_all add: finish_stream_def Let_def)

section \<open>Receiving side of a handle\<close>

definition complete_read :: "nat \<Rightarrow> bytes \<Rightarrow> Error option \<Rightarrow> 's ByteStreamService \<Rightarrow>
    's ByteStreamService" where
  "complete_read r data error s =
    (case st_reads (hget r s) of [] \<Rightarrow> s
     | rd # rest \<Rightarrow> emit [SE_read (rd_handler rd) data error] (hput r ((hget r s)\<lparr>st_reads := rest\<rparr>) s))"

definition maybe_send_window_update :: "'s SessionApi \<Rightarrow> nat \<Rightarrow> 's ByteStreamService \<Rightarrow>
    's ByteStreamService" where
  "maybe_send_window_update api r s =
    (let h = hget r s;
         consumed_bytes = st_consumed_through_offset h - st_reported_consumed_bytes h;
         consumed_frames = st_remaining_frames h - st_reported_consumed_frames h;
         window_drained = (st_remaining_bytes h = 0);
         enough_credit = (consumed_bytes \<ge> st_receive_window_bytes h div 4);
         sent = send_stream_frame api (st_channel_id h) ft_stream_window_update
            (append_bytes 1 (st_id h) @ append_uint 2 (st_consumed_through_offset h) @
             append_uint 3 consumed_bytes @ append_uint 4 (ucast consumed_frames)) FC_control s
     in if \<not> window_drained \<and> \<not> enough_credit then s
        else case fst sent of
          Inl e \<Rightarrow> snd sent
        | Inr _ \<Rightarrow>
          hput r (h\<lparr>
            st_reported_consumed_bytes := st_consumed_through_offset h,
            st_reported_consumed_frames := st_remaining_frames h,
            st_remaining_bytes := min (st_remaining_bytes h + consumed_bytes)
                                      (st_receive_window_bytes h)\<rparr>) (snd sent))"

lemma window_update_reads [simp]:
  "st_reads (hget r (maybe_send_window_update api r s)) = st_reads (hget r s)"
  by (simp add: maybe_send_window_update_def Let_def split: sum.split)

text \<open>The part of \<open>try_dispatch_reads\<close> that moves octets of the first chunk to the first read.\<close>

definition deliver_chunk :: "nat \<Rightarrow> 's ByteStreamService \<Rightarrow> 's ByteStreamService" where
  "deliver_chunk r s =
    (let h = hget r s; chunk = hd (st_receive_chunks h);
         n = min (rd_size (hd (st_reads h))) (length chunk);
         h1 = h\<lparr>st_consumed_through_offset := st_consumed_through_offset h + of_nat n,
                st_receive_buffered_bytes := st_receive_buffered_bytes h - of_nat n\<rparr>;
         h2 = (if n = length chunk then
                 h1\<lparr>st_receive_chunks := tl (st_receive_chunks h),
                    st_remaining_frames := min (st_remaining_frames h + 1) (st_receive_window_frames h)\<rparr>
               else h1\<lparr>st_receive_chunks := drop n chunk # tl (st_receive_chunks h)\<rparr>)
     in complete_read r (take n chunk) None (hput r h2 s))"

function try_dispatch_reads :: "'s SessionApi \<Rightarrow> nat \<Rightarrow> 's ByteStreamService \<Rightarrow>
    's ByteStreamService" where
  "try_dispatch_reads api r s =
    (let h = hget r s in
     if st_reads h = [] then s
     else if st_receive_chunks h = [] then
       (if st_fin_received h \<and> st_next_receive_offset h = st_final_receive_offset h then
          let s1 = complete_read r [] None s;
              s2 = (if st_fin_sent h then finish_stream api r SS_closed s1 else s1)
          in try_dispatch_reads api r s2
        else s)
     else try_dispatch_reads api r (maybe_send_window_update api r (deliver_chunk r s)))"
  by auto
termination
  by (relation "measure (\<lambda>(api, r, s). length (st_reads (hget r s)))")
     (auto simp: complete_read_def deliver_chunk_def Let_def split: list.splits)

declare try_dispatch_reads.simps [simp del]

definition async_read_some :: "'s SessionApi \<Rightarrow> nat \<Rightarrow> nat \<Rightarrow> nat \<Rightarrow> u64 option \<Rightarrow>
    's ByteStreamService \<Rightarrow> 's ByteStreamService" where
  "async_read_some api r out_size handler deadline s =
    (let h = hget r s in
     if out_size = 0 then
       emit [SE_read handler [] (Some (stream_error EC_configuration ''read_buffer_empty''))] s
     else if st_state h = SS_reset then
       emit [SE_read handler [] (Some (stream_error EC_cancelled ''stream_reset''))] s
     else if length (st_reads h) \<ge> st_max_pending_reads h then
       emit [SE_read handler [] (Some (stream_error EC_resource_exhausted ''read_limit''))] s
     else try_dispatch_reads api r
       (hput r (h\<lparr>st_reads := st_reads h @
         [\<lparr>rd_size = out_size, rd_handler = handler, rd_deadline = deadline\<rparr>]\<rparr>) s))"

section \<open>Sending side of a handle\<close>

definition complete_write :: "PendingWrite \<Rightarrow> nat \<Rightarrow> Error option \<Rightarrow> 's ByteStreamService \<Rightarrow>
    's ByteStreamService" where
  "complete_write w n error s = emit [SE_write (pw_handler w) n error] s"

definition data_payload :: "ByteStreamHandle \<Rightarrow> bytes \<Rightarrow> bytes" where
  "data_payload h chunk =
     st_id h @ append_u64 (st_next_send_offset h) @ append_u32 (of_nat (length chunk)) @ chunk"

definition next_chunk :: "ByteStreamLimits \<Rightarrow> ByteStreamHandle \<Rightarrow> PendingWrite \<Rightarrow> bytes" where
  "next_chunk limits h w =
    (let n = min (bl_max_data_chunk_bytes limits)
               (min (length (pw_data w) - pw_offset w) (unat (st_send_credit_bytes h)))
     in take n (drop (pw_offset w) (pw_data w)))"

text \<open>The accounting of a DATA frame the session took.\<close>

definition charge_chunk :: "bytes \<Rightarrow> ByteStreamHandle \<Rightarrow> ByteStreamHandle" where
  "charge_chunk chunk h =
    (case st_writes h of [] \<Rightarrow> h
     | w # ws \<Rightarrow>
       h\<lparr>st_send_credit_bytes := st_send_credit_bytes h - of_nat (length chunk),
         st_send_credit_frames := st_send_credit_frames h - 1,
         st_next_send_offset := st_next_send_offset h + of_nat (length chunk),
         st_writes := w\<lparr>pw_offset := pw_offset w + length chunk\<rparr> # ws\<rparr>)"

function pump_loop :: "'s SessionApi \<Rightarrow> nat \<Rightarrow> 's ByteStreamService \<Rightarrow> 's ByteStreamService" where
  "pump_loop api r s =
    (let h = hget r s in
     case st_writes h of [] \<Rightarrow> s
     | w # ws \<Rightarrow>
       if pw_offset w < length (pw_data w) then
         (if st_send_credit_bytes h = 0 \<or> st_send_credit_frames h = 0 then s
          else let chunk = next_chunk (sv_limits s) h w;
                   sent = send_stream_frame api (st_channel_id h) ft_stream_data
                            (data_payload h chunk) FC_bulk s
               in case fst sent of
                    Inl e \<Rightarrow>
                      if err_code e = EC_would_block then snd sent
                      else handle_reset_frame_for api r status_unavailable
                             (hput r (h\<lparr>st_writes := ws\<rparr>)
                               (complete_write w (pw_offset w) (Some e) (snd sent)))
                  | Inr _ \<Rightarrow> pump_loop api r (hput r (charge_chunk chunk h) (snd sent)))
       else
         let s1 = hput r (h\<lparr>st_writes := ws\<rparr>) (complete_write w (length (pw_data w)) None s) in
         if pw_fin_after w then
           finish_stream api r (if st_fin_received h then SS_closed else SS_half_closed_local)
             (snd (send_fin api r s1))
         else pump_loop api r s1)"
  by auto
termination
  by (relation "measures [\<lambda>(api, r, s). length (st_writes (hget r s)),
        \<lambda>(api, r, s). unat (st_send_credit_frames (hget r s))]")
     (auto simp: charge_chunk_def complete_write_def unat_minus_one unat_gt_0)

declare pump_loop.simps [simp del]

definition pump_writes :: "'s SessionApi \<Rightarrow> nat \<Rightarrow> 's ByteStreamService \<Rightarrow> 's ByteStreamService" where
  "pump_writes api r s =
    (if st_state (hget r s) = SS_reset \<or> st_state (hget r s) = SS_closed then s
     else pump_loop api r s)"

section \<open>Deadlines\<close>

definition expired :: "u64 \<Rightarrow> u64 option \<Rightarrow> bool" where
  "expired now deadline \<longleftrightarrow> (case deadline of None \<Rightarrow> False | Some d \<Rightarrow> now > d)"

definition sweep_handle :: "u64 \<Rightarrow> nat \<Rightarrow> 's ByteStreamService \<Rightarrow> 's ByteStreamService" where
  "sweep_handle now r s =
    (let h = hget r s in
     emit (map (\<lambda>rd. SE_read (rd_handler rd) [] (Some (stream_error EC_timeout ''read_deadline'')))
             (filter (\<lambda>rd. expired now (rd_deadline rd)) (st_reads h)) @
           map (\<lambda>w. SE_write (pw_handler w) (pw_offset w) (Some (stream_error EC_timeout ''write_deadline'')))
             (filter (\<lambda>w. expired now (pw_deadline w)) (st_writes h)))
       (hput r (h\<lparr>st_reads := filter (\<lambda>rd. \<not> expired now (rd_deadline rd)) (st_reads h),
                  st_writes := filter (\<lambda>w. \<not> expired now (pw_deadline w)) (st_writes h)\<rparr>) s))"

definition dial_expired :: "u64 \<Rightarrow> ByteStreamHandle \<Rightarrow> bool" where
  "dial_expired now h \<longleftrightarrow> st_gateway_initiator h \<and> st_gateway_prelude_pending h \<and>
     st_gateway_dial_deadline h \<noteq> 0 \<and> now > st_gateway_dial_deadline h"

definition check_deadlines :: "'s SessionApi \<Rightarrow> u64 \<Rightarrow> 's ByteStreamService \<Rightarrow>
    's ByteStreamService" where
  "check_deadlines api now s =
    (let refs = map snd (sv_streams s);
         late = filter (\<lambda>r. dial_expired now (hget r s)) refs;
         s1 = fold (sweep_handle now) refs s
     in fold (\<lambda>r t. if map_of (sv_streams t) (st_id (hget r t)) \<noteq> None
                    then handle_reset_frame_for api r status_deadline_exceeded t else t) late s1)"

section \<open>Operations of a handle\<close>

definition async_write :: "'s SessionApi \<Rightarrow> nat \<Rightarrow> bytes \<Rightarrow> nat \<Rightarrow> u64 option \<Rightarrow> u64 \<Rightarrow>
    's ByteStreamService \<Rightarrow> 's ByteStreamService" where
  "async_write api r data handler deadline now s =
    (let h = hget r s;
         fail = (\<lambda>code detail. emit [SE_write handler 0 (Some (stream_error code detail))] s);
         pending = sum_list (map (\<lambda>w. length (pw_data w) - pw_offset w) (st_writes h))
     in if st_state h = SS_reset \<or> st_state h = SS_closed then
          fail EC_cancelled ''stream_not_writable''
        else if st_fin_sent h \<or> st_state h = SS_half_closed_local then
          fail EC_protocol ''write_after_fin''
        else if data = [] then emit [SE_write handler 0 None] s
        else if pending + length data > st_max_pending_write_bytes h then
          fail EC_would_block ''write_backlog_full''
        else if length (st_writes h) \<ge> st_max_pending_writes h then
          fail EC_resource_exhausted ''write_limit''
        else check_deadlines api now (pump_writes api r
          (hput r (h\<lparr>st_writes := st_writes h @ [\<lparr>pw_data = data, pw_offset = 0, pw_handler = handler,
             pw_deadline = deadline, pw_fin_after = False\<rparr>]\<rparr>) s)))"

definition shutdown_write :: "'s SessionApi \<Rightarrow> nat \<Rightarrow> 's ByteStreamService \<Rightarrow>
    unit result \<times> 's ByteStreamService" where
  "shutdown_write api r s =
    (let h = hget r s in
     if st_fin_sent h \<or> st_state h = SS_reset \<or> st_state h = SS_closed then
       (Inl (stream_error EC_protocol ''fin_not_sendable''), s)
     else if st_writes h \<noteq> [] then
       (Inr (), hput r (h\<lparr>st_writes := butlast (st_writes h) @
          [(last (st_writes h))\<lparr>pw_fin_after := True\<rparr>], st_fin_sent := True\<rparr>) s)
     else case send_fin api r (hput r (h\<lparr>st_fin_sent := True\<rparr>) s) of
         (Inl e, s1) \<Rightarrow> (Inl e, s1)
       | (Inr _, s1) \<Rightarrow>
         (Inr (), finish_stream api r
            (if st_fin_received h then SS_closed else SS_half_closed_local) s1))"

definition stream_reset :: "'s SessionApi \<Rightarrow> nat \<Rightarrow> StableStatus \<Rightarrow> 's ByteStreamService \<Rightarrow>
    's ByteStreamService" where
  "stream_reset api r reason s =
    (if st_state (hget r s) = SS_reset \<or> st_state (hget r s) = SS_closed then s
     else handle_reset_frame_for api r reason s)"

section \<open>The service\<close>

abbreviation (input) stream_channel_frame_capacity :: nat where
  "stream_channel_frame_capacity \<equiv> 1024"
abbreviation (input) stream_channel_byte_capacity :: nat where
  "stream_channel_byte_capacity \<equiv> 8388608"

definition byte_stream_service :: "'s \<Rightarrow> ByteStreamLimits \<Rightarrow> 's ByteStreamService" where
  "byte_stream_service sess limits = \<lparr>sv_session = sess, sv_limits = limits, sv_channel_id = None,
     sv_owned_channels = [], sv_streams = [],
     sv_handles = (\<lambda>_. new_stream_handle limits [] 0 0 0), sv_next_address = 0,
     sv_inbound_handler = False, sv_gateway_inbound_handler = False, sv_attached = False,
     sv_events = []\<rparr>"

definition attach :: "'s SessionApi \<Rightarrow> 's ByteStreamService \<Rightarrow>
    unit result \<times> 's ByteStreamService" where
  "attach api s =
    (case validate_byte_stream_limits (sv_limits s) of Inl e \<Rightarrow> (Inl e, s) | Inr _ \<Rightarrow>
     case sa_open api CD_stream QP_reject stream_channel_frame_capacity
            stream_channel_byte_capacity (sv_session s) of
       (Inl e, sess) \<Rightarrow> (Inl e, s\<lparr>sv_session := sess\<rparr>)
     | (Inr cid, sess) \<Rightarrow>
       (Inr (), s\<lparr>sv_session := sa_set_domain_handler api True sess, sv_channel_id := Some cid,
                  sv_owned_channels := sv_owned_channels s @ [cid], sv_attached := True\<rparr>))"

text \<open>A new handle takes the next address of the store.\<close>

definition alloc_handle :: "ByteStreamHandle \<Rightarrow> 's ByteStreamService \<Rightarrow> nat \<times> 's ByteStreamService" where
  "alloc_handle h s =
     (sv_next_address s, hput (sv_next_address s) h (s\<lparr>sv_next_address := sv_next_address s + 1\<rparr>))"

text \<open>\<open>streams_.emplace\<close> keeps the entry of an identifier that is already there.\<close>

definition emplace_stream :: "nat \<Rightarrow> 's ByteStreamService \<Rightarrow> 's ByteStreamService" where
  "emplace_stream r s =
    (if map_of (sv_streams s) (st_id (hget r s)) \<noteq> None then s
     else s\<lparr>sv_streams := om_put (st_id (hget r s)) r (sv_streams s)\<rparr>)"

definition send_stream_open :: "'s SessionApi \<Rightarrow> nat \<Rightarrow> GatewayConnect option \<Rightarrow>
    's ByteStreamService \<Rightarrow> unit result \<times> 's ByteStreamService" where
  "send_stream_open api r gateway s =
    (let h = hget r s;
         payload = append_bytes 1 (st_id h) @ append_uint 2 (st_receive_window_bytes h) @
                   append_uint 3 (ucast (st_receive_window_frames h))
     in case gateway of
          None \<Rightarrow> send_stream_frame api (st_channel_id h) ft_stream_open payload FC_standard s
        | Some g \<Rightarrow>
          (case encode_gateway_connect g of Inl e \<Rightarrow> (Inl e, s)
           | Inr body \<Rightarrow> send_stream_frame api (st_channel_id h) ft_stream_open
                           (payload @ append_bytes 4 body) FC_standard s))"

text \<open>The random identifier of a new stream is an argument.\<close>

definition open_stream :: "'s SessionApi \<Rightarrow> id_bytes \<Rightarrow> u64 \<Rightarrow> u32 \<Rightarrow> 's ByteStreamService \<Rightarrow>
    nat result \<times> 's ByteStreamService" where
  "open_stream api sid window_bytes window_frames s =
    (if \<not> sv_attached s then
       (Inl (stream_error EC_configuration ''service_not_attached''), s)
     else if window_bytes = 0 \<or> window_frames = 0 then
       (Inl (stream_error EC_configuration ''receive_window_invalid''), s)
     else if length (sv_streams s) \<ge> bl_max_concurrent_streams (sv_limits s) then
       (Inl (stream_error EC_resource_exhausted ''stream_limit''), s)
     else let (r, s1) = alloc_handle (new_stream_handle (sv_limits s) sid (the (sv_channel_id s))
                          window_bytes window_frames) s
          in case send_stream_open api r None s1 of
               (Inl e, s2) \<Rightarrow> (Inl e, s2)
             | (Inr _, s2) \<Rightarrow>
               (Inr r, emplace_stream r (hput r ((hget r s2)\<lparr>st_state := SS_open\<rparr>) s2)))"

definition open_gateway_stream :: "'s SessionApi \<Rightarrow> id_bytes \<Rightarrow> GatewayConnect \<Rightarrow> u64 \<Rightarrow> u32 \<Rightarrow>
    u64 \<Rightarrow> nat option \<Rightarrow> 's ByteStreamService \<Rightarrow> nat result \<times> 's ByteStreamService" where
  "open_gateway_stream api sid target window_bytes window_frames dial_deadline on_connected s =
    (if \<not> sv_attached s then
       (Inl (stream_error EC_configuration ''service_not_attached''), s)
     else if window_bytes = 0 \<or> window_frames = 0 then
       (Inl (stream_error EC_configuration ''receive_window_invalid''), s)
     else case validate_gateway_connect target of Inl e \<Rightarrow> (Inl e, s) | Inr _ \<Rightarrow>
     if \<not> sa_gateway_negotiated api (sv_session s) then
       (Inl (stream_error EC_protocol ''gateway_not_negotiated''), s)
     else if length (sv_streams s) \<ge> bl_max_concurrent_streams (sv_limits s) then
       (Inl (stream_error EC_resource_exhausted ''stream_limit''), s)
     else case sa_open api CD_stream QP_reject stream_channel_frame_capacity
                 stream_channel_byte_capacity (sv_session s) of
       (Inl e, sess) \<Rightarrow> (Inl e, s\<lparr>sv_session := sess\<rparr>)
     | (Inr cid, sess) \<Rightarrow>
       (let s1 = s\<lparr>sv_session := sess, sv_owned_channels := sv_owned_channels s @ [cid]\<rparr>;
            h = (new_stream_handle (sv_limits s) sid cid window_bytes window_frames)
                  \<lparr>st_gateway := True, st_gateway_initiator := True,
                   st_gateway_prelude_pending := True, st_gateway_dial_deadline := dial_deadline,
                   st_gateway_connected_handler := on_connected\<rparr>;
            (r, s2) = alloc_handle h s1
        in case send_stream_open api r (Some target) s2 of
             (Inl e, s3) \<Rightarrow>
               (Inl e, s3\<lparr>sv_session := sa_close api cid (sv_session s3),
                          sv_owned_channels := removeAll cid (sv_owned_channels s3)\<rparr>)
           | (Inr _, s3) \<Rightarrow> (Inr r, emplace_stream r s3)))"

definition active_streams :: "'s ByteStreamService \<Rightarrow> nat" where
  "active_streams s = length (sv_streams s)"

definition stream_ids :: "'s ByteStreamService \<Rightarrow> id_bytes list" where
  "stream_ids s = map fst (sv_streams s)"

definition fail_handle :: "Error \<Rightarrow> nat \<Rightarrow> 's ByteStreamService \<Rightarrow> 's ByteStreamService" where
  "fail_handle error r s =
    (let h = hget r s;
         fire = st_gateway_initiator h \<and> \<not> st_gateway_connected_fired h \<and>
                st_gateway_connected_handler h \<noteq> None;
         events = (if fire then [SE_connected (the (st_gateway_connected_handler h))
               (Inl (err EC_cancelled ''byte_stream'' ''gateway_connect_closed''))] else []) @
           map (\<lambda>rd. SE_read (rd_handler rd) [] (Some error)) (st_reads h) @
           map (\<lambda>w. SE_write (pw_handler w) (pw_offset w) (Some error)) (st_writes h)
     in emit events (hput r (h\<lparr>st_state := SS_reset,
          st_gateway_connected_fired := st_gateway_connected_fired h \<or> fire,
          st_gateway_connected_handler := (if fire then None else st_gateway_connected_handler h),
          st_reads := [], st_writes := []\<rparr>) s))"

definition fail_all :: "Error \<Rightarrow> 's ByteStreamService \<Rightarrow> 's ByteStreamService" where
  "fail_all error s = (fold (fail_handle error) (map snd (sv_streams s)) s)\<lparr>sv_streams := []\<rparr>"

definition service_destroy :: "'s SessionApi \<Rightarrow> 's ByteStreamService \<Rightarrow> 's ByteStreamService" where
  "service_destroy api s =
    (let s1 = fail_all (stream_error EC_cancelled ''service_closed'') s;
         sess = sa_set_domain_handler api False (sv_session s1)
     in s1\<lparr>sv_session := fold (sa_close api) (sv_owned_channels s1) sess\<rparr>)"

definition find_stream :: "id_bytes \<Rightarrow> 's ByteStreamService \<Rightarrow> nat option" where
  "find_stream sid s = map_of (sv_streams s) sid"

section \<open>Inbound frames\<close>

record OpenFields =
  of_window_bytes :: "u64 option"
  of_window_frames :: "u64 option"
  of_gateway :: "bytes option"

definition open_field :: "ProtoField \<Rightarrow> OpenFields \<Rightarrow> OpenFields result" where
  "open_field f o1 =
    (if pf_number f = 2 \<and> pf_wire_type f = 0 then Inr (o1\<lparr>of_window_bytes := Some (pf_integer f)\<rparr>)
     else if pf_number f = 3 \<and> pf_wire_type f = 0 then Inr (o1\<lparr>of_window_frames := Some (pf_integer f)\<rparr>)
     else if pf_number f = 4 \<and> pf_wire_type f = 2 then
       (if of_gateway o1 \<noteq> None then Inl (stream_error EC_protocol ''gateway_field_repeated'')
        else Inr (o1\<lparr>of_gateway := Some (pf_bytes f)\<rparr>))
     else Inr o1)"

text \<open>The grant of the receive window; its outcome is discarded.\<close>

definition grant_initial_credit :: "'s SessionApi \<Rightarrow> nat \<Rightarrow> 's ByteStreamService \<Rightarrow>
    's ByteStreamService" where
  "grant_initial_credit api r s =
    (let h = hget r s in
     snd (send_stream_frame api (st_channel_id h) ft_stream_window_update
       (append_bytes 1 (st_id h) @ append_uint 2 0 @ append_uint 3 (st_receive_window_bytes h) @
        append_uint 4 (ucast (st_receive_window_frames h))) FC_control s))"

text \<open>
  What both kinds of open do once the stream is admitted: adopt the frame's channel unless the
  session has it, create the handle with the peer's credit, and grant the peer its own.
\<close>

definition accept_stream :: "'s SessionApi \<Rightarrow> id_bytes \<Rightarrow> u32 \<Rightarrow> u64 \<Rightarrow> u64 \<Rightarrow> bool \<Rightarrow>
    's ByteStreamService \<Rightarrow> nat option \<times> 's ByteStreamService" where
  "accept_stream api sid cid window_bytes window_frames gateway s =
    (let adopted = (if sa_has api cid (sv_session s) then (True, s)
           else case sa_adopt api cid CD_stream QP_reject stream_channel_frame_capacity
                       stream_channel_byte_capacity (sv_session s) of
                  (Inl e, sess) \<Rightarrow> (False, s\<lparr>sv_session := sess\<rparr>)
                | (Inr _, sess) \<Rightarrow> (True, s\<lparr>sv_session := sess,
                    sv_owned_channels := sv_owned_channels s @ [cid]\<rparr>));
         (ok, s1) = adopted
     in if \<not> ok then (None, s1)
        else let h = (new_stream_handle (sv_limits s) sid cid
                   (of_nat (bl_default_receive_window_bytes (sv_limits s)))
                   (bl_default_receive_window_frames (sv_limits s)))
                 \<lparr>st_state := SS_open, st_gateway := gateway, st_send_credit_bytes := window_bytes,
                  st_send_credit_frames := ucast window_frames\<rparr>;
               (r, s2) = alloc_handle h s1
             in (Some r, grant_initial_credit api r (emplace_stream r s2)))"

text \<open>The end of an open that has no consumer.\<close>

definition drop_unconsumed :: "'s SessionApi \<Rightarrow> nat \<Rightarrow> StableStatus \<Rightarrow> 's ByteStreamService \<Rightarrow>
    's ByteStreamService" where
  "drop_unconsumed api r status s =
    (let h = hget r s in
     send_reset api (st_channel_id h) (st_id h) status
       ((hput r (h\<lparr>st_state := SS_reset\<rparr>) s)\<lparr>sv_streams := om_del (st_id h) (sv_streams s)\<rparr>))"

definition handle_gateway_open :: "'s SessionApi \<Rightarrow> id_bytes \<Rightarrow> u32 \<Rightarrow> u64 \<Rightarrow> u64 \<Rightarrow> bytes \<Rightarrow>
    's ByteStreamService \<Rightarrow> 's ByteStreamService" where
  "handle_gateway_open api sid cid window_bytes window_frames body s =
    (if \<not> sa_gateway_negotiated api (sv_session s) then
       s\<lparr>sv_session := sa_fail api cid (sv_session s)\<rparr>
     else case parse_gateway_connect body of
       Inl e \<Rightarrow> s\<lparr>sv_session := sa_fail api cid (sv_session s)\<rparr>
     | Inr connect \<Rightarrow>
       case validate_gateway_connect connect of
         Inl e \<Rightarrow> send_reset api cid sid (gateway_refusal_status GR_invalid_target) s
       | Inr _ \<Rightarrow>
       if length (sv_streams s) \<ge> bl_max_concurrent_streams (sv_limits s) then
         send_reset api cid sid (gateway_refusal_status GR_quota_exhausted) s
       else case accept_stream api sid cid window_bytes window_frames True s of
         (None, s1) \<Rightarrow> s1
       | (Some r, s1) \<Rightarrow>
         if sv_gateway_inbound_handler s1 then emit [SE_gateway_inbound r connect] s1
         else let s2 = drop_unconsumed api r (gateway_refusal_status GR_not_enabled) s1
              in s2\<lparr>sv_owned_channels := removeAll cid (sv_owned_channels s2),
                    sv_session := sa_close api cid (sv_session s2)\<rparr>)"

definition handle_plain_open :: "'s SessionApi \<Rightarrow> id_bytes \<Rightarrow> u32 \<Rightarrow> u64 \<Rightarrow> u64 \<Rightarrow>
    's ByteStreamService \<Rightarrow> 's ByteStreamService" where
  "handle_plain_open api sid cid window_bytes window_frames s =
    (if length (sv_streams s) \<ge> bl_max_concurrent_streams (sv_limits s) then
       send_reset api cid sid status_resource_exhausted s
     else case accept_stream api sid cid window_bytes window_frames False s of
       (None, s1) \<Rightarrow> s1
     | (Some r, s1) \<Rightarrow>
       if sv_inbound_handler s1 then emit [SE_inbound r] s1
       else drop_unconsumed api r status_permission_denied s1)"

definition handle_open :: "'s SessionApi \<Rightarrow> Frame \<Rightarrow> u32 \<Rightarrow> 's ByteStreamService \<Rightarrow>
    's ByteStreamService" where
  "handle_open api frame cid s =
    (case parse_pb_stream_id (fr_payload frame) of Inl e \<Rightarrow> s | Inr sid \<Rightarrow>
     case find_stream sid s of
       Some r \<Rightarrow> (if st_state (hget r s) \<noteq> SS_reset
                  then handle_reset_frame_for api r status_already_exists s else s)
     | None \<Rightarrow>
       (case read_all open_field (fr_payload frame) ''proto''
               \<lparr>of_window_bytes = None, of_window_frames = None, of_gateway = None\<rparr> of
          Inl e \<Rightarrow> s
        | Inr fields1 \<Rightarrow>
          case of_window_bytes fields1 of None \<Rightarrow> s | Some wbytes \<Rightarrow>
          case of_window_frames fields1 of None \<Rightarrow> s | Some wframes \<Rightarrow>
          if wbytes = 0 \<or> wframes = 0 \<or> wframes > 0xFFFFFFFF \<or> wbytes > 67108864 then s
          else case of_gateway fields1 of
              Some body \<Rightarrow> handle_gateway_open api sid cid wbytes wframes body s
            | None \<Rightarrow> handle_plain_open api sid cid wbytes wframes s))"

abbreviation (input) gateway_prelude_bytes :: nat where "gateway_prelude_bytes \<equiv> 2"
abbreviation (input) stream_data_header_bytes :: nat where "stream_data_header_bytes \<equiv> 28"

text \<open>
  The first two octets an initiating gateway stream receives are the prelude.  The result is the
  rest of the data, or \<open>None\<close> when a complete prelude is not valid.
\<close>

definition take_prelude :: "nat \<Rightarrow> bytes \<Rightarrow> 's ByteStreamService \<Rightarrow>
    bytes option \<times> 's ByteStreamService" where
  "take_prelude r data s =
    (let h = hget r s in
     if \<not> (st_gateway_initiator h \<and> st_gateway_prelude_pending h) then (Some data, s)
     else let needed = gateway_prelude_bytes - length (st_gateway_prelude h);
              n = min needed (length data);
              h1 = h\<lparr>st_gateway_prelude := st_gateway_prelude h @ take n data\<rparr>
          in if length (st_gateway_prelude h1) \<noteq> gateway_prelude_bytes then
               (Some (drop n data), hput r h1 s)
             else let h2 = h1\<lparr>st_gateway_prelude_pending := False\<rparr> in
               case parse_gateway_prelude (st_gateway_prelude h2) of
                 Inl e \<Rightarrow> (None, hput r h2 s)
               | Inr _ \<Rightarrow>
                 let h3 = (if st_state h2 = SS_opening then h2\<lparr>st_state := SS_open\<rparr> else h2) in
                 if st_gateway_connected_handler h3 \<noteq> None \<and> \<not> st_gateway_connected_fired h3 then
                   (Some (drop n data),
                    emit [SE_connected (the (st_gateway_connected_handler h3)) (Inr ())]
                      (hput r (h3\<lparr>st_gateway_connected_fired := True,
                                  st_gateway_connected_handler := None\<rparr>) s))
                 else (Some (drop n data), hput r h3 s))"

definition end_if_drained :: "'s SessionApi \<Rightarrow> nat \<Rightarrow> 's ByteStreamService \<Rightarrow>
    's ByteStreamService" where
  "end_if_drained api r s =
     finish_stream api r (if st_fin_sent (hget r s) then SS_closed else SS_half_closed_remote) s"

text \<open>The octets of an in-order DATA frame: window and offset are charged, then they are queued.\<close>

definition charge_data :: "bytes \<Rightarrow> ByteStreamHandle \<Rightarrow> ByteStreamHandle" where
  "charge_data data h =
     h\<lparr>st_remaining_bytes := st_remaining_bytes h - of_nat (length data),
       st_remaining_frames := st_remaining_frames h - 1,
       st_next_receive_offset := st_next_receive_offset h + of_nat (length data)\<rparr>"

definition queue_data :: "bytes \<Rightarrow> ByteStreamHandle \<Rightarrow> ByteStreamHandle" where
  "queue_data data h =
     h\<lparr>st_receive_buffered_bytes := st_receive_buffered_bytes h + of_nat (length data),
       st_receive_chunks := st_receive_chunks h @ (if data = [] then [] else [data])\<rparr>"

definition accept_data :: "'s SessionApi \<Rightarrow> nat \<Rightarrow> bytes \<Rightarrow> 's ByteStreamService \<Rightarrow>
    's ByteStreamService" where
  "accept_data api r data s =
    (case take_prelude r data (hput r (charge_data data (hget r s)) s) of
       (None, s1) \<Rightarrow> handle_reset_frame_for api r status_protocol_error s1
     | (Some deliverable, s1) \<Rightarrow>
       (let s2 = try_dispatch_reads api r (hput r (queue_data deliverable (hget r s1)) s1);
            h2 = hget r s2
        in if st_fin_received h2 \<and> st_next_receive_offset h2 = st_final_receive_offset h2 \<and>
              st_receive_chunks h2 = [] then end_if_drained api r s2 else s2))"

text \<open>\<open>None\<close>: the header is read beyond the payload.\<close>

definition handle_data :: "'s SessionApi \<Rightarrow> Frame \<Rightarrow> 's ByteStreamService \<Rightarrow>
    's ByteStreamService option" where
  "handle_data api frame s =
    (let payload = fr_payload frame in
     case parse_stream_id payload of Inl e \<Rightarrow> Some s | Inr sid \<Rightarrow>
     case find_stream sid s of None \<Rightarrow> Some s | Some r \<Rightarrow>
     let h = hget r s in
     if st_state h = SS_reset \<or> st_state h = SS_closed then Some s
     else case read_u64 payload 16 of None \<Rightarrow> None | Some offset \<Rightarrow>
     case read_u32 payload 24 of None \<Rightarrow> None | Some len \<Rightarrow>
     let data = drop stream_data_header_bytes payload in
     if stream_data_header_bytes + unat len \<noteq> length payload then
       Some (handle_reset_frame_for api r status_protocol_error s)
     else if offset < st_next_receive_offset h then Some s
     else if offset > st_next_receive_offset h then
       Some (handle_reset_frame_for api r status_protocol_error s)
     else if length data > unat (st_remaining_bytes h) \<or> st_remaining_frames h = 0 then
       Some (handle_reset_frame_for api r status_resource_exhausted s)
     else Some (accept_data api r data s))"

record UpdateFields =
  uf_consumed :: "u64 option"
  uf_additional_bytes :: "u64 option"
  uf_additional_frames :: "u64 option"

text \<open>The wire type of the fields is not looked at.\<close>

definition update_field :: "ProtoField \<Rightarrow> UpdateFields \<Rightarrow> UpdateFields result" where
  "update_field f u =
    (if pf_number f = 2 then Inr (u\<lparr>uf_consumed := Some (pf_integer f)\<rparr>)
     else if pf_number f = 3 then Inr (u\<lparr>uf_additional_bytes := Some (pf_integer f)\<rparr>)
     else if pf_number f = 4 then Inr (u\<lparr>uf_additional_frames := Some (pf_integer f)\<rparr>)
     else Inr u)"

text \<open>The frame credit is added at 64 bits, where it wraps, and then capped at 32.\<close>

definition add_credit :: "'s SessionApi \<Rightarrow> nat \<Rightarrow> u64 \<Rightarrow> u64 \<Rightarrow> u64 \<Rightarrow> 's ByteStreamService \<Rightarrow>
    's ByteStreamService" where
  "add_credit api r consumed additional_bytes additional_frames s =
    (let h = hget r s in
     if consumed < st_send_consumed_by_peer h then s
     else if consumed > st_next_send_offset h then
       handle_reset_frame_for api r status_protocol_error s
     else let h1 = h\<lparr>st_send_consumed_by_peer := consumed\<rparr> in
       if additional_bytes > - 1 - st_send_credit_bytes h then
         handle_reset_frame_for api r status_resource_exhausted (hput r h1 s)
       else pump_writes api r (hput r (h1\<lparr>
         st_send_credit_bytes := st_send_credit_bytes h + additional_bytes,
         st_send_credit_frames :=
           ucast (min (additional_frames + ucast (st_send_credit_frames h)) 0xFFFFFFFF)\<rparr>) s))"

definition handle_window_update :: "'s SessionApi \<Rightarrow> Frame \<Rightarrow> 's ByteStreamService \<Rightarrow>
    's ByteStreamService" where
  "handle_window_update api frame s =
    (case parse_pb_stream_id (fr_payload frame) of Inl e \<Rightarrow> s | Inr sid \<Rightarrow>
     case find_stream sid s of None \<Rightarrow> s | Some r \<Rightarrow>
     case read_all update_field (fr_payload frame) ''proto''
            \<lparr>uf_consumed = None, uf_additional_bytes = None, uf_additional_frames = None\<rparr> of
       Inl e \<Rightarrow> s
     | Inr u \<Rightarrow>
       case uf_consumed u of None \<Rightarrow> s | Some consumed \<Rightarrow>
       case uf_additional_bytes u of None \<Rightarrow> s | Some additional_bytes \<Rightarrow>
       case uf_additional_frames u of None \<Rightarrow> s | Some additional_frames \<Rightarrow>
       add_credit api r consumed additional_bytes additional_frames s)"

definition fin_field :: "ProtoField \<Rightarrow> u64 option \<Rightarrow> u64 option result" where
  "fin_field f o1 = Inr (if pf_number f = 2 then Some (pf_integer f) else o1)"

definition handle_fin :: "'s SessionApi \<Rightarrow> Frame \<Rightarrow> 's ByteStreamService \<Rightarrow>
    's ByteStreamService" where
  "handle_fin api frame s =
    (case parse_pb_stream_id (fr_payload frame) of Inl e \<Rightarrow> s | Inr sid \<Rightarrow>
     case find_stream sid s of None \<Rightarrow> s | Some r \<Rightarrow>
     let h = hget r s in
     if st_state h = SS_reset \<or> st_state h = SS_closed then s
     else case read_all fin_field (fr_payload frame) ''proto'' None of
       Inl e \<Rightarrow> s
     | Inr None \<Rightarrow> s
     | Inr (Some final_offset) \<Rightarrow>
       let s1 = hput r (h\<lparr>st_fin_received := True, st_final_receive_offset := final_offset\<rparr>) s in
       if final_offset \<noteq> st_next_receive_offset h then
         handle_reset_frame_for api r status_protocol_error s1
       else let s2 = try_dispatch_reads api r s1 in
         if st_receive_chunks (hget r s2) = [] then end_if_drained api r s2 else s2)"

text \<open>The reason of a RESET: the last one read before the end or the first malformed field.\<close>

function reset_reason :: "ProtoReader \<Rightarrow> StableStatus option \<Rightarrow> StableStatus option" where
  "reset_reason reader reason =
    (if reader_done reader then reason
     else case next_field reader of
       (Inl e, _) \<Rightarrow> reason
     | (Inr f, rest) \<Rightarrow>
       reset_reason rest
         (if pf_number f = 2 \<and> pf_wire_type f = 0 then Some (ucast (pf_integer f)) else reason))"
  by auto
termination
  by (relation "measure (\<lambda>(r, _). length (pr_rest r))") (auto dest: next_field_shrinks [OF sym])

declare reset_reason.simps [simp del]

definition handle_reset :: "'s SessionApi \<Rightarrow> Frame \<Rightarrow> 's ByteStreamService \<Rightarrow>
    's ByteStreamService" where
  "handle_reset api frame s =
    (case parse_pb_stream_id (fr_payload frame) of Inl e \<Rightarrow> s | Inr sid \<Rightarrow>
     case find_stream sid s of None \<Rightarrow> s | Some r \<Rightarrow>
     let h = hget r s in
     if st_state h = SS_reset then s
     else finish_stream api r SS_reset (hput r (h\<lparr>st_reset_reason :=
       reset_reason \<lparr>pr_rest = fr_payload frame, pr_component = ''proto''\<rparr> (st_reset_reason h)\<rparr>) s))"

definition admit_frame :: "'s SessionApi \<Rightarrow> u64 \<Rightarrow> Frame \<Rightarrow> 's ByteStreamService \<Rightarrow>
    (unit result \<times> 's ByteStreamService) option" where
  "admit_frame api now frame s0 =
    (let s = check_deadlines api now s0; type = fr_type frame in
     if type = ft_stream_open then Some (Inr (), handle_open api frame (fr_channel_id frame) s)
     else if type = ft_stream_data then map_option (Pair (Inr ())) (handle_data api frame s)
     else if type = ft_stream_window_update then Some (Inr (), handle_window_update api frame s)
     else if type = ft_stream_fin then Some (Inr (), handle_fin api frame s)
     else if type = ft_stream_reset then Some (Inr (), handle_reset api frame s)
     else Some (Inl (stream_error EC_protocol ''frame_not_stream_domain''), s))"

section \<open>Observers and sequences of calls\<close>

record StreamWindowSnapshot =
  ws_next_send_offset :: u64
  ws_send_credit_bytes :: u64
  ws_send_credit_frames :: u32
  ws_next_receive_offset :: u64
  ws_receive_window_bytes :: u64
  ws_receive_window_frames :: u32
  ws_receive_buffered_bytes :: u64
  ws_receive_buffered_frames :: u32
  ws_consumed_through_offset :: u64

definition stream_window :: "ByteStreamHandle \<Rightarrow> StreamWindowSnapshot" where
  "stream_window h = \<lparr>ws_next_send_offset = st_next_send_offset h,
     ws_send_credit_bytes = st_send_credit_bytes h, ws_send_credit_frames = st_send_credit_frames h,
     ws_next_receive_offset = st_next_receive_offset h,
     ws_receive_window_bytes = st_receive_window_bytes h,
     ws_receive_window_frames = st_receive_window_frames h,
     ws_receive_buffered_bytes = st_receive_buffered_bytes h,
     ws_receive_buffered_frames = of_nat (length (st_receive_chunks h)),
     ws_consumed_through_offset = st_consumed_through_offset h\<rparr>"

text \<open>
  The calls on a service: those of the application, on the handles it was given, and the frames of
  the session.  \<open>None\<close> is the state after an undefined access.
\<close>

datatype StreamOp =
    Op_read nat nat nat "u64 option"
  | Op_write nat bytes nat "u64 option" u64
  | Op_shutdown nat
  | Op_reset nat StableStatus
  | Op_attach
  | Op_open id_bytes u64 u32
  | Op_open_gateway id_bytes GatewayConnect u64 u32 u64 "nat option"
  | Op_set_inbound bool
  | Op_set_gateway_inbound bool
  | Op_deadlines u64
  | Op_fail_all Error
  | Op_frame u64 Frame

fun stream_call :: "'s SessionApi \<Rightarrow> StreamOp \<Rightarrow> 's ByteStreamService \<Rightarrow>
    's ByteStreamService option" where
  "stream_call api (Op_read r n k d) s =
     Some (if r < sv_next_address s then async_read_some api r n k d s else s)"
| "stream_call api (Op_write r data k d now) s =
     Some (if r < sv_next_address s then async_write api r data k d now s else s)"
| "stream_call api (Op_shutdown r) s =
     Some (if r < sv_next_address s then snd (shutdown_write api r s) else s)"
| "stream_call api (Op_reset r reason) s =
     Some (if r < sv_next_address s then stream_reset api r reason s else s)"
| "stream_call api Op_attach s = Some (snd (attach api s))"
| "stream_call api (Op_open sid wbytes wframes) s = Some (snd (open_stream api sid wbytes wframes s))"
| "stream_call api (Op_open_gateway sid target wbytes wframes d k) s =
     Some (snd (open_gateway_stream api sid target wbytes wframes d k s))"
| "stream_call api (Op_set_inbound b) s = Some (s\<lparr>sv_inbound_handler := b\<rparr>)"
| "stream_call api (Op_set_gateway_inbound b) s = Some (s\<lparr>sv_gateway_inbound_handler := b\<rparr>)"
| "stream_call api (Op_deadlines now) s = Some (check_deadlines api now s)"
| "stream_call api (Op_fail_all e) s = Some (fail_all e s)"
| "stream_call api (Op_frame now frame) s = map_option snd (admit_frame api now frame s)"

definition stream_step :: "'s SessionApi \<Rightarrow> StreamOp \<Rightarrow> 's ByteStreamService option \<Rightarrow>
    's ByteStreamService option" where
  "stream_step api x s = (case s of None \<Rightarrow> None | Some t \<Rightarrow> stream_call api x t)"

end
