(* ===== verification/Heyaki_Stream_Window.thy ===== *)
theory Heyaki_Stream_Window
  imports Heyaki_Byte_Stream
begin

text \<open>
  The receive window of byte streams: whatever frames a peer sends and whatever the application
  calls, every handle stays within its window, and the octets of the window are conserved.
\<close>

section \<open>One round of each loop\<close>

text \<open>
  The loops of \<open>try_dispatch_reads\<close> and \<open>pump_writes\<close> as iterations of one round; what every round
  keeps, the loop keeps.
\<close>

definition dispatch_round :: "'s SessionApi \<Rightarrow> nat \<Rightarrow> 's ByteStreamService \<Rightarrow>
    's ByteStreamService option" where
  "dispatch_round api r s =
    (let h = hget r s in
     if st_reads h = [] then None
     else if st_receive_chunks h = [] then
       (if st_fin_received h \<and> st_next_receive_offset h = st_final_receive_offset h then
          Some (if st_fin_sent h then finish_stream api r SS_closed (complete_read r [] None s)
                else complete_read r [] None s)
        else None)
     else Some (maybe_send_window_update api r (deliver_chunk r s)))"

lemma dispatch_iterates:
  "try_dispatch_reads api r s =
    (case dispatch_round api r s of None \<Rightarrow> s | Some t \<Rightarrow> try_dispatch_reads api r t)"
  by (subst try_dispatch_reads.simps) (simp add: dispatch_round_def Let_def)

lemma complete_read_reads [simp]:
  "st_reads (hget r (complete_read r data e s)) = tl (st_reads (hget r s))"
  by (cases "st_reads (hget r s)") (simp_all add: complete_read_def)

lemma deliver_chunk_reads [simp]: "st_reads (hget r (deliver_chunk r s)) = tl (st_reads (hget r s))"
  by (simp add: deliver_chunk_def Let_def)

lemma dispatch_round_shrinks:
  "dispatch_round api r s = Some t \<Longrightarrow> length (st_reads (hget r t)) < length (st_reads (hget r s))"
  unfolding dispatch_round_def Let_def by (cases "st_reads (hget r s)") (simp_all split: if_splits, auto)

lemma dispatch_induct:
  assumes step: "\<And>s. (\<And>t. dispatch_round api r s = Some t \<Longrightarrow> P t) \<Longrightarrow> P s"
  shows "P s"
proof (induction "length (st_reads (hget r s))" arbitrary: s rule: less_induct)
  case less
  show ?case
  proof (rule step)
    show "P t" if "dispatch_round api r s = Some t" for t
      using dispatch_round_shrinks [OF that] by (rule less)
  qed
qed

lemma dispatch_keeps:
  assumes "\<And>s t. I s \<Longrightarrow> dispatch_round api r s = Some t \<Longrightarrow> I t" "I s"
  shows "I (try_dispatch_reads api r s)"
  using assms(2)
proof (induction s rule: dispatch_induct [where api = api and r = r])
  case (1 s)
  then show ?case using assms(1) by (subst dispatch_iterates) (auto split: option.split)
qed

text \<open>The flag says that the loop goes on.\<close>

definition write_round :: "'s SessionApi \<Rightarrow> nat \<Rightarrow> 's ByteStreamService \<Rightarrow>
    bool \<times> 's ByteStreamService" where
  "write_round api r s =
    (let h = hget r s in
     case st_writes h of [] \<Rightarrow> (False, s)
     | w # ws \<Rightarrow>
       if pw_offset w < length (pw_data w) then
         (if st_send_credit_bytes h = 0 \<or> st_send_credit_frames h = 0 then (False, s)
          else let chunk = next_chunk (sv_limits s) h w;
                   sent = send_stream_frame api (st_channel_id h) ft_stream_data
                            (data_payload h chunk) FC_bulk s
               in case fst sent of
                    Inl e \<Rightarrow>
                      if err_code e = EC_would_block then (False, snd sent)
                      else (False, handle_reset_frame_for api r status_unavailable
                             (hput r (h\<lparr>st_writes := ws\<rparr>)
                               (complete_write w (pw_offset w) (Some e) (snd sent))))
                  | Inr _ \<Rightarrow> (True, hput r (charge_chunk chunk h) (snd sent)))
       else
         let s1 = hput r (h\<lparr>st_writes := ws\<rparr>) (complete_write w (length (pw_data w)) None s) in
         if pw_fin_after w then
           (False, finish_stream api r (if st_fin_received h then SS_closed else SS_half_closed_local)
             (snd (send_fin api r s1)))
         else (True, s1))"

lemma pump_iterates:
  "pump_loop api r s =
    (let (more, t) = write_round api r s in if more then pump_loop api r t else t)"
  by (subst pump_loop.simps) (simp add: write_round_def Let_def split: list.split sum.split)

lemma write_round_shrinks:
  "write_round api r s = (True, t) \<Longrightarrow>
     (t, s) \<in> measures [\<lambda>s. length (st_writes (hget r s)), \<lambda>s. unat (st_send_credit_frames (hget r s))]"
  by (cases "st_writes (hget r s)")
     (auto simp: write_round_def Let_def charge_chunk_def complete_write_def unat_minus_one unat_gt_0
        split: if_splits sum.splits)

lemma pump_induct:
  assumes step: "\<And>s. (\<And>t. write_round api r s = (True, t) \<Longrightarrow> P t) \<Longrightarrow> P s"
  shows "P s"
proof (rule wf_induct_rule [OF wf_measures [of "[\<lambda>s. length (st_writes (hget r s)),
    \<lambda>s. unat (st_send_credit_frames (hget r s))]"]], rule step)
  fix s t
  assume IH: "\<And>y. (y, s) \<in> measures [\<lambda>s. length (st_writes (hget r s)),
      \<lambda>s. unat (st_send_credit_frames (hget r s))] \<Longrightarrow> P y"
    and "write_round api r s = (True, t)"
  from write_round_shrinks [OF this(2)] show "P t" by (rule IH)
qed

lemma pump_keeps:
  assumes "\<And>s more t. I s \<Longrightarrow> write_round api r s = (more, t) \<Longrightarrow> I t" "I s"
  shows "I (pump_loop api r s)"
  using assms(2)
proof (induction s rule: pump_induct [where api = api and r = r])
  case (1 s)
  obtain more t where p: "write_round api r s = (more, t)" by fastforce
  with 1 assms(1) show ?case by (subst pump_iterates) auto
qed

section \<open>The invariant of a handle\<close>

definition chunk_octets :: "ByteStreamHandle \<Rightarrow> nat" where
  "chunk_octets h = sum_list (map length (st_receive_chunks h))"

definition bad_prelude :: "ByteStreamHandle \<Rightarrow> bool" where
  "bad_prelude h \<longleftrightarrow> length (st_gateway_prelude h) = 2 \<and> st_gateway_prelude h \<noteq> [0, 0]"

text \<open>
  The window splits into what may still arrive, what is buffered, what was read and not yet
  reported, and the prelude.  Only the frame with an invalid prelude, which resets the stream,
  loses octets.
\<close>

definition window_octets :: "ByteStreamHandle \<Rightarrow> nat" where
  "window_octets h = unat (st_remaining_bytes h) + chunk_octets h +
     unat (st_consumed_through_offset h - st_reported_consumed_bytes h) +
     length (st_gateway_prelude h)"

definition recv_wf :: "ByteStreamHandle \<Rightarrow> bool" where
  "recv_wf h \<longleftrightarrow>
     window_octets h \<le> unat (st_receive_window_bytes h) \<and>
     (\<not> bad_prelude h \<longrightarrow> window_octets h = unat (st_receive_window_bytes h) \<and>
        st_next_receive_offset h = st_consumed_through_offset h + st_receive_buffered_bytes h +
          of_nat (length (st_gateway_prelude h))) \<and>
     unat (st_receive_buffered_bytes h) = chunk_octets h \<and>
     unat (st_remaining_frames h) + length (st_receive_chunks h) \<le> unat (st_receive_window_frames h) \<and>
     [] \<notin> set (st_receive_chunks h) \<and>
     length (st_gateway_prelude h) \<le> 2 \<and>
     (st_gateway_initiator h \<and> st_gateway_prelude_pending h \<longrightarrow> length (st_gateway_prelude h) < 2)"

lemma recv_wf_upd [simp]:
  "recv_wf (h\<lparr>st_state := x1\<rparr>) = recv_wf h"
  "recv_wf (h\<lparr>st_reads := x2\<rparr>) = recv_wf h"
  "recv_wf (h\<lparr>st_writes := x3\<rparr>) = recv_wf h"
  "recv_wf (h\<lparr>st_gateway_connected_fired := x4\<rparr>) = recv_wf h"
  "recv_wf (h\<lparr>st_gateway_connected_handler := x5\<rparr>) = recv_wf h"
  "recv_wf (h\<lparr>st_fin_sent := x6\<rparr>) = recv_wf h"
  "recv_wf (h\<lparr>st_fin_received := x7\<rparr>) = recv_wf h"
  "recv_wf (h\<lparr>st_final_receive_offset := x8\<rparr>) = recv_wf h"
  "recv_wf (h\<lparr>st_reset_reason := x9\<rparr>) = recv_wf h"
  "recv_wf (h\<lparr>st_send_credit_bytes := y1\<rparr>) = recv_wf h"
  "recv_wf (h\<lparr>st_send_credit_frames := y2\<rparr>) = recv_wf h"
  "recv_wf (h\<lparr>st_next_send_offset := y3\<rparr>) = recv_wf h"
  "recv_wf (h\<lparr>st_send_consumed_by_peer := y4\<rparr>) = recv_wf h"
  "recv_wf (h\<lparr>st_gateway := y5\<rparr>) = recv_wf h"
  "recv_wf (h\<lparr>st_gateway_dial_deadline := y6\<rparr>) = recv_wf h"
  by (simp_all add: recv_wf_def window_octets_def chunk_octets_def bad_prelude_def)

lemma recv_wf_new [simp]: "recv_wf (new_stream_handle limits sid cid wb w)"
  by (simp add: recv_wf_def window_octets_def chunk_octets_def bad_prelude_def new_stream_handle_def)

lemma recv_wf_new_gateway [simp]:
  "recv_wf ((new_stream_handle limits sid cid wb w)\<lparr>st_gateway_initiator := a, st_gateway_prelude_pending := b\<rparr>)"
  by (simp add: recv_wf_def window_octets_def chunk_octets_def bad_prelude_def new_stream_handle_def)

section \<open>Primitive changes\<close>

lemma unat_add_nat:
  assumes "unat a + n < 18446744073709551616"
  shows "unat (a + of_nat n :: u64) = unat a + n"
proof -
  have "a + of_nat n = (of_nat (unat a + n) :: u64)" by simp
  then show ?thesis using assms by (simp only: unat_of_nat) simp
qed

lemma unat_diff_nat:
  assumes "n \<le> unat a"
  shows "unat (a - of_nat n :: u64) = unat a - n"
proof -
  have "a - of_nat n = (of_nat (unat a - n) :: u64)" using assms by (simp add: of_nat_diff)
  moreover have "unat a - n < 2 ^ LENGTH(64)" using unat_u64_bound [of a] by simp
  ultimately show ?thesis by (simp only: unat_of_nat) simp
qed

lemma take_chunk_octets:
  "st_receive_chunks h = c # cs \<Longrightarrow> chunk_octets h = length c + sum_list (map length cs)"
  by (simp add: chunk_octets_def)

lemma recv_wf_deliver:
  fixes h :: ByteStreamHandle
  assumes wf1: "recv_wf h" and c: "st_receive_chunks h = c # cs" and n: "n \<le> length c"
  shows "recv_wf (h\<lparr>st_consumed_through_offset := st_consumed_through_offset h + of_nat n,
           st_receive_buffered_bytes := st_receive_buffered_bytes h - of_nat n,
           st_receive_chunks := (if n = length c then cs else drop n c # cs),
           st_remaining_frames := (if n = length c then
              min (st_remaining_frames h + 1) (st_receive_window_frames h) else st_remaining_frames h)\<rparr>)"
proof -
  let ?d = "st_consumed_through_offset h - st_reported_consumed_bytes h"
  note w = wf1 [unfolded recv_wf_def window_octets_def take_chunk_octets [OF c]]
  have "unat ?d + n < 18446744073709551616" using w n unat_u64_bound [of "st_receive_window_bytes h"] by simp
  from unat_add_nat [OF this]
  have d: "unat (st_consumed_through_offset h + of_nat n - st_reported_consumed_bytes h) = unat ?d + n"
    by (simp add: algebra_simps)
  have b: "unat (st_receive_buffered_bytes h - of_nat n) = unat (st_receive_buffered_bytes h) - n"
    using w n by (intro unat_diff_nat) simp
  have "unat (st_remaining_frames h) + 1 \<le> unat (st_receive_window_frames h)" using w c by simp
  then have "unat (st_remaining_frames h + 1) \<le> unat (st_remaining_frames h) + 1"
    by (simp add: unat_word_ariths)
  then have f: "unat (min (st_remaining_frames h + 1) (st_receive_window_frames h)) \<le> unat (st_remaining_frames h) + 1"
    by (simp add: min_def word_le_nat_alt)
  show ?thesis using w n c d b f
    by (auto simp: recv_wf_def window_octets_def chunk_octets_def bad_prelude_def algebra_simps)
qed

lemma recv_wf_report:
  assumes wf1: "recv_wf h"
  shows "recv_wf (h\<lparr>st_reported_consumed_bytes := st_consumed_through_offset h,
           st_reported_consumed_frames := x,
           st_remaining_bytes := min (st_remaining_bytes h +
             (st_consumed_through_offset h - st_reported_consumed_bytes h)) (st_receive_window_bytes h)\<rparr>)"
proof -
  let ?d = "st_consumed_through_offset h - st_reported_consumed_bytes h"
  note w = wf1 [unfolded recv_wf_def window_octets_def]
  have "unat (st_remaining_bytes h) + unat ?d < 18446744073709551616"
    using w unat_u64_bound [of "st_receive_window_bytes h"] by simp
  from unat_add_nat [OF this] have s: "unat (st_remaining_bytes h + ?d) = unat (st_remaining_bytes h) + unat ?d"
    by simp
  then have "min (st_remaining_bytes h + ?d) (st_receive_window_bytes h) = st_remaining_bytes h + ?d"
    using w by (simp add: min_def word_le_nat_alt)
  then show ?thesis using w s
    by (auto simp: recv_wf_def window_octets_def chunk_octets_def bad_prelude_def)
qed

text \<open>An in-order frame within the window, of which the first \<open>p\<close> octets are prelude.\<close>

lemma recv_wf_data:
  assumes wf1: "recv_wf h" and fits: "length data \<le> unat (st_remaining_bytes h)" "st_remaining_frames h \<noteq> 0"
    and p: "p \<le> length data" "length (st_gateway_prelude h) + p \<le> 2"
    and pending: "\<not> b \<or> length (st_gateway_prelude h) + p < 2"
    and clean: "p = 0 \<or> length (st_gateway_prelude h) < 2"
  shows "recv_wf (queue_data (drop p data) ((charge_data data h)
           \<lparr>st_gateway_prelude := st_gateway_prelude h @ take p data, st_gateway_prelude_pending := b\<rparr>))"
proof -
  note w = wf1 [unfolded recv_wf_def window_octets_def]
  have r: "unat (st_remaining_bytes h - of_nat (length data)) = unat (st_remaining_bytes h) - length data"
    using fits by (intro unat_diff_nat)
  have f: "unat (st_remaining_frames h - 1) = unat (st_remaining_frames h) - 1" "unat (st_remaining_frames h) > 0"
    using fits by (simp_all add: unat_minus_one unat_gt_0)
  have room: "chunk_octets h + length data \<le> unat (st_receive_window_bytes h)"
    using conjunct1 [OF w] fits(1) by linarith
  then have "unat (st_receive_buffered_bytes h) + length (drop p data) < 18446744073709551616"
    using w unat_u64_bound [of "st_receive_window_bytes h"] by auto
  from unat_add_nat [OF this]
  have b: "unat (st_receive_buffered_bytes h + of_nat (length data - p)) =
      unat (st_receive_buffered_bytes h) + (length data - p)" by simp
  have split: "of_nat (length data) = (of_nat (length data - p) + of_nat p :: u64)"
    using p by (simp flip: of_nat_add)
  let ?h = "queue_data (drop p data) ((charge_data data h)
           \<lparr>st_gateway_prelude := st_gateway_prelude h @ take p data, st_gateway_prelude_pending := b\<rparr>)"
  have oct: "chunk_octets ?h = chunk_octets h + (length data - p)"
    by (auto simp: queue_data_def charge_data_def chunk_octets_def)
  have win: "window_octets ?h = window_octets h"
    using oct r p fits(1) by (simp add: window_octets_def) (simp add: queue_data_def charge_data_def)
  have bad: "bad_prelude h \<Longrightarrow> bad_prelude ?h"
    using clean(1) by (auto simp: queue_data_def charge_data_def bad_prelude_def)
  have off: "st_next_receive_offset ?h = st_next_receive_offset h + of_nat (length data)"
    "st_consumed_through_offset ?h = st_consumed_through_offset h"
    "st_receive_buffered_bytes ?h = st_receive_buffered_bytes h + of_nat (length data - p)"
    "length (st_gateway_prelude ?h) = length (st_gateway_prelude h) + p"
    "st_receive_window_bytes ?h = st_receive_window_bytes h"
    "st_receive_window_frames ?h = st_receive_window_frames h"
    "st_remaining_frames ?h = st_remaining_frames h - 1"
    "length (st_receive_chunks ?h) \<le> length (st_receive_chunks h) + 1"
    "[] \<in> set (st_receive_chunks ?h) \<longleftrightarrow> [] \<in> set (st_receive_chunks h)"
    "st_gateway_prelude_pending ?h = b"
    using p by (auto simp: queue_data_def charge_data_def)
  have fr: "unat (st_remaining_frames ?h) + length (st_receive_chunks ?h) \<le> unat (st_receive_window_frames ?h)"
  proof -
    have "unat (st_remaining_frames h) + length (st_receive_chunks h) \<le> unat (st_receive_window_frames h)"
      using w by simp
    then show ?thesis using off(8) f unfolding off(6,7) by linarith
  qed
  show ?thesis using wf1 bad pending p(2) b fr unfolding recv_wf_def win oct off(1-5,9,10)
    by (auto simp: split algebra_simps)
qed

section \<open>Every operation keeps the invariant\<close>

definition streams_wf :: "'s ByteStreamService \<Rightarrow> bool" where
  "streams_wf s \<longleftrightarrow> (\<forall>r. recv_wf (hget r s))"

named_theorems streams_wf_intros

lemma streams_wfD: "streams_wf s \<Longrightarrow> recv_wf (hget r s)"
  by (simp add: streams_wf_def)

lemma streams_wf_hput [streams_wf_intros]: "streams_wf s \<Longrightarrow> recv_wf h \<Longrightarrow> streams_wf (hput r h s)"
  by (simp add: streams_wf_def hput_def)

lemma streams_wf_same [simp]:
  "streams_wf (emit es s) = streams_wf s"
  "streams_wf (s\<lparr>sv_streams := a\<rparr>) = streams_wf s"
  "streams_wf (s\<lparr>sv_session := b\<rparr>) = streams_wf s"
  "streams_wf (s\<lparr>sv_owned_channels := c\<rparr>) = streams_wf s"
  "streams_wf (s\<lparr>sv_next_address := n\<rparr>) = streams_wf s"
  "streams_wf (s\<lparr>sv_inbound_handler := i\<rparr>) = streams_wf s"
  "streams_wf (s\<lparr>sv_gateway_inbound_handler := i\<rparr>) = streams_wf s"
  "streams_wf (s\<lparr>sv_attached := i\<rparr>) = streams_wf s"
  "streams_wf (s\<lparr>sv_channel_id := q\<rparr>) = streams_wf s"
  "streams_wf (snd (send_stream_frame api cid t p k s)) = streams_wf s"
  "streams_wf (send_reset api cid sid reason s) = streams_wf s"
  "streams_wf (snd (send_fin api r s)) = streams_wf s"
  "streams_wf (complete_write w m e s) = streams_wf s"
  by (simp_all add: streams_wf_def send_reset_def send_fin_def complete_write_def)

lemma finish_stream_wf [streams_wf_intros]: "streams_wf s \<Longrightarrow> streams_wf (finish_stream api r t s)"
  by (simp add: finish_stream_def Let_def streams_wf_hput streams_wfD)

lemma reset_for_wf [streams_wf_intros]: "streams_wf s \<Longrightarrow> streams_wf (handle_reset_frame_for api r x s)"
  by (simp add: handle_reset_frame_for_def Let_def finish_stream_wf)

lemma complete_read_wf [streams_wf_intros]: "streams_wf s \<Longrightarrow> streams_wf (complete_read r data e s)"
  by (simp add: complete_read_def streams_wf_hput streams_wfD split: list.split)

lemma streams_wf_split [streams_wf_intros]:
  "(q \<Longrightarrow> streams_wf a) \<Longrightarrow> (\<not> q \<Longrightarrow> streams_wf b) \<Longrightarrow> streams_wf (if q then a else b)"
  "(\<And>e. x = Inl e \<Longrightarrow> streams_wf (f e)) \<Longrightarrow> (\<And>v. x = Inr v \<Longrightarrow> streams_wf (g v)) \<Longrightarrow>
     streams_wf (case x of Inl e \<Rightarrow> f e | Inr v \<Rightarrow> g v)"
  "(y = None \<Longrightarrow> streams_wf b) \<Longrightarrow> (\<And>v. y = Some v \<Longrightarrow> streams_wf (k v)) \<Longrightarrow>
     streams_wf (case y of None \<Rightarrow> b | Some v \<Rightarrow> k v)"
  by (auto split: sum.split option.split)

lemma maybe_update_wf [streams_wf_intros]:
  assumes "streams_wf s" shows "streams_wf (maybe_send_window_update api r s)"
  unfolding maybe_send_window_update_def Let_def
  by (intro streams_wf_intros recv_wf_report streams_wfD) (use assms in simp_all)

lemma deliver_chunk_wf:
  assumes "streams_wf s" "st_receive_chunks (hget r s) \<noteq> []"
  shows "streams_wf (deliver_chunk r s)"
proof -
  let ?h = "hget r s"
  from assms(2) obtain c cs where c: "st_receive_chunks ?h = c # cs" by (cases "st_receive_chunks ?h") auto
  define n where "n = min (rd_size (hd (st_reads ?h))) (length c)"
  then have "n \<le> length c" by simp
  note wf1 = recv_wf_deliver [OF streams_wfD [OF assms(1)] c this]
  show ?thesis
  proof (cases "n = length c")
    case True
    then show ?thesis using wf1 unfolding deliver_chunk_def Let_def c
      by (intro complete_read_wf streams_wf_hput assms(1)) (simp add: n_def)
  next
    case False
    then show ?thesis using wf1 unfolding deliver_chunk_def Let_def c
      by (intro complete_read_wf streams_wf_hput assms(1)) (simp flip: n_def)
  qed
qed

lemma dispatch_wf [streams_wf_intros]: "streams_wf s \<Longrightarrow> streams_wf (try_dispatch_reads api r s)"
  by (rule dispatch_keeps)
     (auto simp: dispatch_round_def Let_def split: if_splits
        intro!: finish_stream_wf complete_read_wf maybe_update_wf deliver_chunk_wf)

lemma charge_chunk_wf [simp]: "recv_wf (charge_chunk c h) = recv_wf h"
  by (simp add: charge_chunk_def split: list.split)

lemma pump_loop_wf: "streams_wf s \<Longrightarrow> streams_wf (pump_loop api r s)"
  by (rule pump_keeps)
     (auto simp: write_round_def Let_def streams_wfD split: if_splits list.splits sum.splits
        intro!: finish_stream_wf reset_for_wf streams_wf_hput)

lemma pump_writes_wf [streams_wf_intros]: "streams_wf s \<Longrightarrow> streams_wf (pump_writes api r s)"
  by (simp add: pump_writes_def pump_loop_wf)

lemma fold_wf: "(\<And>x t. streams_wf t \<Longrightarrow> streams_wf (f x t)) \<Longrightarrow> streams_wf s \<Longrightarrow> streams_wf (fold f xs s)"
  by (induction xs arbitrary: s) auto

lemma check_deadlines_wf [streams_wf_intros]: "streams_wf s \<Longrightarrow> streams_wf (check_deadlines api now s)"
  unfolding check_deadlines_def Let_def
  by (intro fold_wf) (auto simp: sweep_handle_def Let_def streams_wfD intro: streams_wf_intros)

lemma fail_all_wf [streams_wf_intros]: "streams_wf s \<Longrightarrow> streams_wf (fail_all e s)"
  unfolding fail_all_def
  by (simp, intro fold_wf) (auto simp: fail_handle_def Let_def streams_wfD intro: streams_wf_intros)

lemma recv_wf_no_prelude:
  assumes "recv_wf h" "length data \<le> unat (st_remaining_bytes h)" "st_remaining_frames h \<noteq> 0"
  shows "recv_wf (queue_data data (charge_data data h))"
proof -
  have "recv_wf (queue_data (drop 0 data) ((charge_data data h)
      \<lparr>st_gateway_prelude := st_gateway_prelude h @ take 0 data, st_gateway_prelude_pending := False\<rparr>))"
    using assms by (intro recv_wf_data) (auto simp: recv_wf_def)
  then show ?thesis using assms(1)
    by (simp add: recv_wf_def window_octets_def chunk_octets_def bad_prelude_def queue_data_def charge_data_def)
qed

lemma queue_data_upd [simp]:
  "recv_wf (queue_data d (h\<lparr>st_state := x1\<rparr>)) = recv_wf (queue_data d h)"
  "recv_wf (queue_data d (h\<lparr>st_gateway_connected_fired := x4\<rparr>)) = recv_wf (queue_data d h)"
  "recv_wf (queue_data d (h\<lparr>st_gateway_connected_handler := x5\<rparr>)) = recv_wf (queue_data d h)"
  by (simp_all add: recv_wf_def window_octets_def chunk_octets_def bad_prelude_def queue_data_def)

text \<open>The frame whose prelude is invalid is charged and its octets are dropped.\<close>

lemma recv_wf_refused:
  assumes wf1: "recv_wf h" and fits: "length data \<le> unat (st_remaining_bytes h)" "st_remaining_frames h \<noteq> 0"
    and p: "p \<le> length data" "length (st_gateway_prelude h) + p = 2"
    and bad: "st_gateway_prelude h @ take p data \<noteq> [0, 0]"
  shows "recv_wf ((charge_data data h)
           \<lparr>st_gateway_prelude := st_gateway_prelude h @ take p data, st_gateway_prelude_pending := False\<rparr>)"
proof -
  have r: "unat (st_remaining_bytes h - of_nat (length data)) = unat (st_remaining_bytes h) - length data"
    using fits by (intro unat_diff_nat)
  have f: "unat (st_remaining_frames h - 1) = unat (st_remaining_frames h) - 1"
    using fits by (simp add: unat_minus_one)
  show ?thesis using wf1 r f p fits bad
    by (auto simp: recv_wf_def window_octets_def chunk_octets_def bad_prelude_def charge_data_def)
qed

lemma parse_prelude_error: "parse_gateway_prelude xs = Inl e \<Longrightarrow> xs \<noteq> [0, 0]"
  by (auto simp: parse_gateway_prelude_def)

lemma hput_hput [simp]: "hput r h (hput r h1 s) = hput r h s"
  by (simp add: hput_def)

lemma hput_emit [simp]: "hput r h (emit es s) = emit es (hput r h s)"
  by (simp add: hput_def emit_def)

lemma take_prelude_wf:
  assumes s: "streams_wf s" and fits: "length data \<le> unat (st_remaining_bytes (hget r s))"
    "st_remaining_frames (hget r s) \<noteq> 0"
  shows "case take_prelude r data (hput r (charge_data data (hget r s)) s) of
      (None, t) \<Rightarrow> streams_wf t
    | (Some d, t) \<Rightarrow> streams_wf (hput r (queue_data d (hget r t)) t)"
proof (cases "st_gateway_initiator (hget r s) \<and> st_gateway_prelude_pending (hget r s)")
  case False
  then show ?thesis using recv_wf_no_prelude [OF streams_wfD [OF s] fits]
    by (auto simp: take_prelude_def Let_def charge_data_def intro!: streams_wf_hput s)
next
  case True
  let ?h = "hget r s"
  define p where "p = min (2 - length (st_gateway_prelude ?h)) (length data)"
  have len: "length (st_gateway_prelude ?h) < 2" using True streams_wfD [OF s, of r] by (simp add: recv_wf_def)
  then have p: "p \<le> length data" "length (st_gateway_prelude ?h) + p \<le> 2" by (auto simp: p_def)
  let ?q = "\<lambda>b. (charge_data data ?h)\<lparr>st_gateway_prelude := st_gateway_prelude ?h @ take p data,
              st_gateway_prelude_pending := b\<rparr>"
  have t: "?q True = (charge_data data ?h)\<lparr>st_gateway_prelude := st_gateway_prelude ?h @ take p data\<rparr>"
    using True by (cases ?h) (simp add: charge_data_def)
  show ?thesis
  proof (cases "length (st_gateway_prelude ?h) + p = 2")
    case complete: True
    have ok: "recv_wf (queue_data (drop p data) (?q False))"
      using recv_wf_data [OF streams_wfD [OF s] fits p, of False] len by simp
    have refused: "parse_gateway_prelude (st_gateway_prelude ?h @ take p data) = Inl e \<Longrightarrow> recv_wf (?q False)" for e
      using recv_wf_refused [OF streams_wfD [OF s] fits p(1) complete parse_prelude_error] by blast
    show ?thesis using True complete p ok refused unfolding take_prelude_def Let_def p_def [symmetric]
      by (auto simp: charge_data_def p_def [symmetric] split: sum.split intro!: streams_wf_hput s)
  next
    case False
    have "recv_wf (queue_data (drop p data) (?q True))"
      using recv_wf_data [OF streams_wfD [OF s] fits p, of True] len p False by simp
    then show ?thesis using True False p unfolding t take_prelude_def Let_def
      by (auto simp: charge_data_def p_def [symmetric] intro!: streams_wf_hput s)
  qed
qed

lemma accept_data_wf:
  assumes "streams_wf s" "length data \<le> unat (st_remaining_bytes (hget r s))"
    "st_remaining_frames (hget r s) \<noteq> 0"
  shows "streams_wf (accept_data api r data s)"
  using take_prelude_wf [OF assms] unfolding accept_data_def end_if_drained_def Let_def
  by (auto split: prod.splits option.splits intro: streams_wf_intros)

lemma handle_data_wf: "streams_wf s \<Longrightarrow> handle_data api frame s = Some t \<Longrightarrow> streams_wf t"
  unfolding handle_data_def Let_def
  by (auto split: sum.splits option.splits if_splits simp: not_less
      intro: accept_data_wf streams_wf_intros)

lemma add_credit_wf [streams_wf_intros]: "streams_wf s \<Longrightarrow> streams_wf (add_credit api r a b c s)"
  unfolding add_credit_def Let_def by (intro streams_wf_intros) (simp_all add: streams_wfD)

lemma handle_window_update_wf [streams_wf_intros]: "streams_wf s \<Longrightarrow> streams_wf (handle_window_update api f s)"
  unfolding handle_window_update_def Let_def by (intro streams_wf_intros)

lemma handle_fin_wf [streams_wf_intros]: "streams_wf s \<Longrightarrow> streams_wf (handle_fin api f s)"
  unfolding handle_fin_def Let_def end_if_drained_def by (intro streams_wf_intros) (simp_all add: streams_wfD)

lemma handle_reset_wf [streams_wf_intros]: "streams_wf s \<Longrightarrow> streams_wf (handle_reset api f s)"
  unfolding handle_reset_def Let_def by (intro streams_wf_intros) (simp_all add: streams_wfD)

lemma alloc_wf [streams_wf_intros]: "streams_wf s \<Longrightarrow> recv_wf h \<Longrightarrow> streams_wf (snd (alloc_handle h s))"
  by (simp add: alloc_handle_def streams_wf_hput)

lemma emplace_wf [simp]: "streams_wf (emplace_stream r s) = streams_wf s"
  by (simp add: emplace_stream_def)

lemma grant_wf [simp]: "streams_wf (grant_initial_credit api r s) = streams_wf s"
  by (simp add: grant_initial_credit_def Let_def)

lemma send_stream_open_wf [simp]: "streams_wf (snd (send_stream_open api r g s)) = streams_wf s"
  by (simp add: send_stream_open_def Let_def split: option.split sum.split)

lemma accept_stream_wf: "streams_wf s \<Longrightarrow> accept_stream api sid cid wb w g s = (x, t) \<Longrightarrow> streams_wf t"
  by (auto simp: accept_stream_def Let_def alloc_handle_def split_beta split: if_splits sum.splits
      intro!: streams_wf_hput)

lemma drop_unconsumed_wf [streams_wf_intros]: "streams_wf s \<Longrightarrow> streams_wf (drop_unconsumed api r x s)"
  by (simp add: drop_unconsumed_def Let_def streams_wf_hput streams_wfD)

lemma handle_open_wf [streams_wf_intros]: "streams_wf s \<Longrightarrow> streams_wf (handle_open api f cid s)"
  unfolding handle_open_def handle_gateway_open_def handle_plain_open_def Let_def
  by (intro streams_wf_intros)
     (auto split: prod.split option.split intro!: streams_wf_intros dest: accept_stream_wf)

lemma async_read_some_wf [streams_wf_intros]: "streams_wf s \<Longrightarrow> streams_wf (async_read_some api r n k d s)"
  unfolding async_read_some_def Let_def by (intro streams_wf_intros) (simp_all add: streams_wfD)

lemma async_write_wf [streams_wf_intros]: "streams_wf s \<Longrightarrow> streams_wf (async_write api r data k d now s)"
  unfolding async_write_def Let_def by (intro streams_wf_intros) (simp_all add: streams_wfD)

lemma sent_wf:
  "send_fin api r s = (x, t) \<Longrightarrow> streams_wf t = streams_wf s"
  "send_stream_open api r g s = (x, t) \<Longrightarrow> streams_wf t = streams_wf s"
  using streams_wf_same(12) [of api r s] send_stream_open_wf [of api r g s] by (simp_all del: streams_wf_same send_stream_open_wf)

lemma shutdown_write_wf: "streams_wf s \<Longrightarrow> streams_wf (snd (shutdown_write api r s))"
  unfolding shutdown_write_def Let_def
  by (auto split: prod.split sum.split intro!: streams_wf_intros dest!: sent_wf(1) simp: streams_wfD streams_wf_hput)

lemma attach_wf: "streams_wf s \<Longrightarrow> streams_wf (snd (attach api s))"
  by (simp add: attach_def split: sum.split prod.split)

lemma open_stream_wf: "streams_wf s \<Longrightarrow> streams_wf (snd (open_stream api sid wb w s))"
  unfolding open_stream_def Let_def alloc_handle_def
  by (auto split: prod.split sum.split intro!: streams_wf_hput dest!: sent_wf(2) simp: streams_wf_hput streams_wfD)

lemma open_gateway_stream_wf:
  assumes "streams_wf s" shows "streams_wf (snd (open_gateway_stream api sid target wb w d k s))"
proof -
  have new: "recv_wf ((new_stream_handle limits sid cid wb w)\<lparr>st_gateway := True, st_gateway_initiator := True,
      st_gateway_prelude_pending := True, st_gateway_dial_deadline := d, st_gateway_connected_handler := k\<rparr>)"
    for limits cid
    using recv_wf_new [of limits sid cid wb w]
    by (simp add: recv_wf_def window_octets_def chunk_octets_def bad_prelude_def new_stream_handle_def)
  show ?thesis unfolding open_gateway_stream_def Let_def alloc_handle_def
    by (auto split: prod.split sum.split intro!: streams_wf_hput new dest!: sent_wf(2) simp: streams_wf_hput new assms)
qed

lemma admit_frame_wf: "streams_wf s \<Longrightarrow> admit_frame api now frame s = Some (x, t) \<Longrightarrow> streams_wf t"
  unfolding admit_frame_def Let_def
  by (auto split: if_splits intro: streams_wf_intros handle_data_wf [OF check_deadlines_wf])

lemma stream_call_wf:
  assumes "streams_wf s" "stream_call api x s = Some t" shows "streams_wf t"
  using assms
  by (cases x)
     (auto split: if_splits intro: streams_wf_intros shutdown_write_wf attach_wf open_stream_wf
        open_gateway_stream_wf admit_frame_wf simp: stream_reset_def)

interpretation stream_machine: invariant_machine
    "\<lambda>s. \<exists>sess limits. s = Some (byte_stream_service sess limits)" "stream_step api"
    "\<lambda>s. \<forall>t. s = Some t \<longrightarrow> streams_wf t"
  for api
proof
  show "\<forall>t. s = Some t \<longrightarrow> streams_wf t" if "\<exists>sess limits. s = Some (byte_stream_service sess limits)"
    for s :: "'a ByteStreamService option"
    using that by (auto simp: streams_wf_def byte_stream_service_def)
  show "\<forall>t. stream_step api x s = Some t \<longrightarrow> streams_wf t" if "\<forall>t. s = Some t \<longrightarrow> streams_wf t"
    for s :: "'a ByteStreamService option" and x
    using that stream_call_wf by (auto simp: stream_step_def split: option.splits)
qed

text \<open>A session that records what it is given, for concrete runs.\<close>

definition recording :: "Frame list SessionApi" where
  "recording = \<lparr>sa_send = (\<lambda>cid k f x. (Inr (), x @ [f])), sa_open = (\<lambda>d p m n x. (Inr 1, x)),
     sa_adopt = (\<lambda>cid d p m n x. (Inr cid, x)), sa_close = (\<lambda>cid x. x), sa_fail = (\<lambda>cid x. x),
     sa_has = (\<lambda>cid x. cid = 1), sa_set_domain_handler = (\<lambda>b x. x), sa_gateway_negotiated = (\<lambda>x. True)\<rparr>"

section \<open>Properties\<close>

text \<open>
  C4: receive window.  Whatever calls the application makes and whatever frames the peer sends, in
  whatever order, on every handle: the octets buffered are those of the queued chunks, they fit
  into the window, and the queued chunks fit into the frame window.  Unless a gateway peer sent an
  invalid prelude, the window is conserved: what may still arrive, what is buffered, what was read
  and not yet reported and the prelude add up to it, and the receive offset is the octets read,
  buffered and taken as prelude.
\<close>

theorem stream_window_conserved:
  assumes "run (stream_step api) calls (Some (byte_stream_service sess limits)) = Some s"
  shows "unat (st_receive_buffered_bytes (hget r s)) = chunk_octets (hget r s) \<and>
    chunk_octets (hget r s) \<le> unat (st_receive_window_bytes (hget r s)) \<and>
    length (st_receive_chunks (hget r s)) \<le> unat (st_receive_window_frames (hget r s)) \<and>
    (bad_prelude (hget r s) \<or>
      window_octets (hget r s) = unat (st_receive_window_bytes (hget r s)) \<and>
      st_next_receive_offset (hget r s) = st_consumed_through_offset (hget r s) +
        st_receive_buffered_bytes (hget r s) + of_nat (length (st_gateway_prelude (hget r s))))"
proof -
  have "streams_wf s"
    using stream_machine.inv_reachable [of "Some (byte_stream_service sess limits)" api calls] assms by blast
  then have "recv_wf (hget r s)" by (rule streams_wfD)
  then show ?thesis by (auto simp: recv_wf_def window_octets_def)
qed

theorem stream_window_conserved_witness:
  "\<exists>s. run (stream_step recording) [Op_attach, Op_open (replicate 16 7) 4 2, Op_read 0 8 1 None]
      (Some (byte_stream_service [] default_stream_limits)) = Some s \<and>
    chunk_octets (hget 0 s) \<le> unat (st_receive_window_bytes (hget 0 s))"
proof -
  obtain s where s: "run (stream_step recording) [Op_attach, Op_open (replicate 16 7) 4 2, Op_read 0 8 1 None]
      (Some (byte_stream_service [] default_stream_limits)) = Some s"
    by (simp add: run_def stream_step_def)
  from stream_window_conserved [OF s] s show ?thesis by blast
qed

end
