(* ===== verification/Heyaki_Stream_Transfer.thy ===== *)
theory Heyaki_Stream_Transfer
  imports Heyaki_Stream_Window
begin

text \<open>
  From the sender's pending writes to the receiver's reads: the DATA frames that \<open>pump_writes\<close>
  produces within its credit are accepted by \<open>handle_data\<close> in order and lose no octet.
\<close>

unbundle bit_operations_syntax

section \<open>The DATA header\<close>

lemma next_octet: "push_bit 8 (drop_bit (k + 8) v) OR ucast (ucast (drop_bit k v) :: byte) = (drop_bit k v :: 'a::len word)"
  by (rule bit_word_eqI) (auto simp: bit_simps not_le dest: bit_imp_le_length)

lemma length_append_u64 [simp]: "length (append_u64 v) = 8"
  by (simp add: append_u64_def)

lemma length_append_u32 [simp]: "length (append_u32 v) = 4"
  by (simp add: append_u32_def)

lemma foldl_octets:
  fixes v :: "'a::len word"
  assumes "\<And>i. i < m \<Longrightarrow> f i = (ucast (drop_bit (8 * (m - Suc i)) v) :: byte)" "LENGTH('a) \<le> 8 * m" "n \<le> m"
  shows "foldl (\<lambda>a i. push_bit 8 a OR ucast (f i)) 0 [0..<n] = drop_bit (8 * (m - n)) v"
  using assms(3)
proof (induction n)
  case 0
  show ?case using assms(2) by (intro bit_word_eqI) (auto simp: bit_simps dest: bit_imp_le_length)
next
  case (Suc n)
  have "8 * (m - n) = 8 * (m - Suc n) + 8" using Suc.prems by simp
  with Suc next_octet [of "8 * (m - Suc n)" v] assms(1) [of n] show ?case by simp
qed

lemma read_u64_append:
  assumes "length pre = k" shows "read_u64 (pre @ append_u64 v @ post) k = Some v"
proof -
  have "(pre @ append_u64 v @ post) ! (k + i) = ucast (drop_bit (8 * (8 - Suc i)) v)" if "i < 8" for i
  proof -
    have "56 - i * 8 = 8 * (8 - Suc i)" using that by simp
    then show ?thesis using that assms by (simp add: nth_append append_u64_def)
  qed
  from foldl_octets [of 8 "\<lambda>i. (pre @ append_u64 v @ post) ! (k + i)" v 8, OF this]
  show ?thesis using assms by (simp add: read_u64_def)
qed

lemma read_u32_append:
  assumes "length pre = k" shows "read_u32 (pre @ append_u32 v @ post) k = Some v"
proof -
  have "(pre @ append_u32 v @ post) ! (k + i) = ucast (drop_bit (8 * (4 - Suc i)) v)" if "i < 4" for i
  proof -
    have "24 - i * 8 = 8 * (4 - Suc i)" using that by simp
    then show ?thesis using that assms by (simp add: nth_append append_u32_def)
  qed
  from foldl_octets [of 4 "\<lambda>i. (pre @ append_u32 v @ post) ! (k + i)" v 4, OF this]
  show ?thesis using assms by (simp add: read_u32_def)
qed

section \<open>Delivery\<close>

text \<open>The octets the application got, in order, followed by those still buffered on a handle.\<close>

fun read_octets :: "StreamEvent list \<Rightarrow> bytes" where
  "read_octets [] = []"
| "read_octets (SE_read k data e # es) = data @ read_octets es"
| "read_octets (_ # es) = read_octets es"

definition delivered :: "nat \<Rightarrow> 's ByteStreamService \<Rightarrow> bytes" where
  "delivered r s = read_octets (sv_events s) @ concat (st_receive_chunks (hget r s))"

lemma read_octets_append [simp]: "read_octets (xs @ ys) = read_octets xs @ read_octets ys"
  by (induction xs rule: read_octets.induct) simp_all

text \<open>A receiver that can take what a sender may send.\<close>

definition can_take :: "id_bytes \<Rightarrow> u64 \<Rightarrow> nat \<Rightarrow> nat \<Rightarrow> ByteStreamHandle \<Rightarrow> bool" where
  "can_take sid offset octets frames h \<longleftrightarrow>
     st_id h = sid \<and> st_next_receive_offset h = offset \<and>
     octets \<le> unat (st_remaining_bytes h) \<and> frames \<le> unat (st_remaining_frames h) \<and>
     st_state h \<noteq> SS_reset \<and> st_state h \<noteq> SS_closed \<and> \<not> st_fin_received h \<and>
     \<not> (st_gateway_initiator h \<and> st_gateway_prelude_pending h)"

lemma can_take_upd [simp]:
  "can_take sid off m n (h\<lparr>st_reads := a\<rparr>) = can_take sid off m n h"
  "can_take sid off m n (h\<lparr>st_consumed_through_offset := b\<rparr>) = can_take sid off m n h"
  "can_take sid off m n (h\<lparr>st_receive_buffered_bytes := c\<rparr>) = can_take sid off m n h"
  "can_take sid off m n (h\<lparr>st_receive_chunks := d\<rparr>) = can_take sid off m n h"
  "can_take sid off m n (h\<lparr>st_reported_consumed_bytes := e\<rparr>) = can_take sid off m n h"
  "can_take sid off m n (h\<lparr>st_reported_consumed_frames := f\<rparr>) = can_take sid off m n h"
  by (simp_all add: can_take_def)

lemma can_take_update:
  assumes "recv_wf (hget r s)" "can_take sid off m n (hget r s)"
  shows "can_take sid off m n (hget r (maybe_send_window_update api r s))"
proof -
  let ?h = "hget r s"
  let ?d = "st_consumed_through_offset ?h - st_reported_consumed_bytes ?h"
  have "unat (st_remaining_bytes ?h) + unat ?d \<le> unat (st_receive_window_bytes ?h)"
    using assms(1) by (simp add: recv_wf_def window_octets_def)
  moreover from this have "unat (st_remaining_bytes ?h + ?d) = unat (st_remaining_bytes ?h) + unat ?d"
    using unat_u64_bound [of "st_receive_window_bytes ?h"] unat_add_nat [of "st_remaining_bytes ?h" "unat ?d"]
    by simp
  ultimately have "unat (st_remaining_bytes ?h) \<le> unat (min (st_remaining_bytes ?h + ?d) (st_receive_window_bytes ?h))"
    by (simp add: min_def word_le_nat_alt)
  with assms(2) have "can_take sid off m n (?h\<lparr>st_remaining_bytes := min (st_remaining_bytes ?h + ?d) (st_receive_window_bytes ?h)\<rparr>)"
    by (simp add: can_take_def)
  then show ?thesis using assms(2) unfolding maybe_send_window_update_def Let_def
    by (auto simp: can_take_def split: sum.split)
qed

lemma update_delivered [simp]:
  "delivered r (maybe_send_window_update api r s) = delivered r s"
  by (simp add: delivered_def maybe_send_window_update_def Let_def split: sum.split)

lemma update_streams [simp]: "sv_streams (maybe_send_window_update api r s) = sv_streams s"
  by (simp add: maybe_send_window_update_def Let_def split: sum.split)

lemma deliver_chunk_delivered:
  assumes "st_reads (hget r s) \<noteq> []" "st_receive_chunks (hget r s) \<noteq> []"
  shows "delivered r (deliver_chunk r s) = delivered r s"
  using assms by (cases "st_reads (hget r s)"; cases "st_receive_chunks (hget r s)")
    (auto simp: delivered_def deliver_chunk_def complete_read_def Let_def min_def)

lemma deliver_chunk_streams [simp]: "sv_streams (deliver_chunk r s) = sv_streams s"
  by (simp add: deliver_chunk_def complete_read_def Let_def split: list.split)

lemma deliver_can_take:
  assumes "recv_wf (hget r s)" "can_take sid off m n (hget r s)" "st_receive_chunks (hget r s) \<noteq> []"
  shows "can_take sid off m n (hget r (deliver_chunk r s))"
proof -
  let ?h = "hget r s"
  have f: "unat (st_remaining_frames ?h) + 1 \<le> unat (st_receive_window_frames ?h)"
    using assms(1,3) by (cases "st_receive_chunks ?h") (auto simp: recv_wf_def)
  then have "unat (st_remaining_frames ?h + 1) = unat (st_remaining_frames ?h) + 1"
    using unat_u32_bound [of "st_receive_window_frames ?h"] by (simp add: unat_word_ariths)
  with f have "unat (st_remaining_frames ?h) \<le> unat (min (st_remaining_frames ?h + 1) (st_receive_window_frames ?h))"
    by (simp add: min_def word_le_nat_alt)
  then show ?thesis using assms(2) unfolding deliver_chunk_def complete_read_def Let_def
    by (auto simp: can_take_def split: list.split)
qed

lemma dispatch_delivers:
  assumes "streams_wf s" "can_take sid off m n (hget r s)"
  shows "delivered r (try_dispatch_reads api r s) = delivered r s \<and>
    can_take sid off m n (hget r (try_dispatch_reads api r s)) \<and>
    sv_streams (try_dispatch_reads api r s) = sv_streams s"
proof -
  let ?I = "\<lambda>t. streams_wf t \<and> can_take sid off m n (hget r t) \<and> delivered r t = delivered r s \<and>
      sv_streams t = sv_streams s"
  have step: "?I t'" if "?I t" "dispatch_round api r t = Some t'" for t t'
    using that deliver_chunk_wf [of t r] deliver_can_take [of t r sid off m n]
      deliver_chunk_delivered [of t r] can_take_update [of "deliver_chunk r t" r sid off m n api]
    by (auto simp: dispatch_round_def Let_def can_take_def streams_wfD maybe_update_wf split: if_splits)
  have "?I (try_dispatch_reads api r s)"
    by (rule dispatch_keeps [where I = ?I, OF step]) (use assms in auto)
  then show ?thesis by blast
qed

lemma can_take_queue:
  assumes "can_take sid off (length data + m) (Suc n) h"
  shows "can_take sid (off + of_nat (length data)) m n (queue_data data (charge_data data h))"
proof -
  have "unat (st_remaining_bytes h - of_nat (length data)) = unat (st_remaining_bytes h) - length data"
    using assms by (intro unat_diff_nat) (simp add: can_take_def)
  moreover have "unat (st_remaining_frames h - 1) = unat (st_remaining_frames h) - 1"
    using assms by (intro unat_minus_one) (auto simp: can_take_def)
  ultimately show ?thesis using assms by (auto simp: can_take_def queue_data_def charge_data_def)
qed

lemma accept_data_delivers:
  assumes s: "streams_wf s" and c: "can_take sid off (length data + m) (Suc n) (hget r s)"
  shows "delivered r (accept_data api r data s) = delivered r s @ data \<and>
    can_take sid (off + of_nat (length data)) m n (hget r (accept_data api r data s)) \<and>
    sv_streams (accept_data api r data s) = sv_streams s"
proof -
  let ?s = "hput r (queue_data data (charge_data data (hget r s))) s"
  have fits: "length data \<le> unat (st_remaining_bytes (hget r s))" "st_remaining_frames (hget r s) \<noteq> 0"
    using c by (auto simp: can_take_def)
  have "streams_wf ?s" by (intro streams_wf_hput recv_wf_no_prelude streams_wfD s fits)
  moreover have "can_take sid (off + of_nat (length data)) m n (hget r ?s)"
    using can_take_queue [OF c] by simp
  ultimately have d: "delivered r (try_dispatch_reads api r ?s) = delivered r ?s \<and>
      can_take sid (off + of_nat (length data)) m n (hget r (try_dispatch_reads api r ?s)) \<and>
      sv_streams (try_dispatch_reads api r ?s) = sv_streams ?s" by (rule dispatch_delivers)
  have t: "take_prelude r data (hput r (charge_data data (hget r s)) s) =
      (Some data, hput r (charge_data data (hget r s)) s)"
    using c by (simp add: take_prelude_def Let_def can_take_def charge_data_def)
  from d have "\<not> st_fin_received (hget r (try_dispatch_reads api r ?s))" by (simp add: can_take_def)
  then have "accept_data api r data s = try_dispatch_reads api r ?s"
    by (simp add: accept_data_def t Let_def)
  moreover have "delivered r ?s = delivered r s @ data"
    by (simp add: delivered_def queue_data_def charge_data_def)
  ultimately show ?thesis using d by simp
qed

lemma handle_data_delivers:
  assumes s: "streams_wf s" and c: "can_take sid off (length data + m) (Suc n) (hget r s)"
    and f: "find_stream sid s = Some r" and sid: "length sid = 16" "\<not> id_is_zero sid"
    and len: "length data < 4294967296"
    and p: "fr_payload frame = sid @ append_u64 off @ append_u32 (of_nat (length data)) @ data"
  shows "handle_data api frame s = Some (accept_data api r data s)"
proof -
  have "read_u64 (fr_payload frame) 16 = Some off"
    unfolding p by (rule read_u64_append) (rule sid)
  moreover have "read_u32 (fr_payload frame) 24 = Some (of_nat (length data))"
    using read_u32_append [of "sid @ append_u64 off" 24] sid(1) by (simp add: p)
  moreover have "unat (of_nat (length data) :: u32) = length data"
    using len by (simp add: unat_of_nat)
  ultimately show ?thesis using c f sid
    by (auto simp: handle_data_def Let_def p parse_stream_id_def can_take_def)
qed

section \<open>Transfer\<close>

text \<open>
  The session may take or refuse a frame, for any reason and in any order.  \<open>log\<close> is what it took:
  a frame it accepted is appended, and neither a refusal nor the closing of a channel changes it.
\<close>

definition logs_frames :: "'s SessionApi \<Rightarrow> ('s \<Rightarrow> Frame list) \<Rightarrow> bool" where
  "logs_frames api log \<longleftrightarrow>
    (\<forall>cid k f x. log (snd (sa_send api cid k f x)) =
       (case fst (sa_send api cid k f x) of Inr _ \<Rightarrow> log x @ [f] | Inl _ \<Rightarrow> log x)) \<and>
    (\<forall>cid x. log (sa_close api cid x) = log x)"

lemma logs_send:
  assumes "logs_frames api log"
  shows "log (sv_session (snd (send_stream_frame api cid type payload k s))) = log (sv_session s) @
    (case fst (send_stream_frame api cid type payload k s) of
       Inr _ \<Rightarrow> [\<lparr>fr_type = type, fr_flags = 0, fr_channel_id = cid, fr_message_id = replicate 16 0,
                 fr_payload = payload\<rparr>]
     | Inl _ \<Rightarrow> [])"
  using assms by (simp add: logs_frames_def send_stream_frame_def split_beta split: sum.split)

lemma logs_finish:
  assumes "logs_frames api log"
  shows "log (sv_session (finish_stream api r terminal s)) = log (sv_session s)"
  using assms by (simp add: finish_stream_def Let_def logs_frames_def emit_def)

definition pending_octets :: "ByteStreamHandle \<Rightarrow> bytes" where
  "pending_octets h = concat (map (\<lambda>w. drop (pw_offset w) (pw_data w)) (st_writes h))"

text \<open>The receiver handles the frames in order.\<close>

fun handle_all :: "'s SessionApi \<Rightarrow> Frame list \<Rightarrow> 's ByteStreamService \<Rightarrow> 's ByteStreamService option" where
  "handle_all api [] s = Some s"
| "handle_all api (f # fs) s =
     (case handle_data api f s of None \<Rightarrow> None | Some t \<Rightarrow> handle_all api fs t)"

text \<open>What a receiver must have for a sender: the credit of the sender is within its window.\<close>

definition linked :: "ByteStreamHandle \<Rightarrow> nat \<Rightarrow> 's ByteStreamService \<Rightarrow> bool" where
  "linked h q R \<longleftrightarrow> streams_wf R \<and> find_stream (st_id h) R = Some q \<and>
     can_take (st_id h) (st_next_send_offset h) (unat (st_send_credit_bytes h))
       (unat (st_send_credit_frames h)) (hget q R)"

lemma drop_split: "drop k xs = take n (drop k xs) @ drop (k + n) xs"
  by (metis append_take_drop_id drop_drop add.commute)

lemma next_chunk_props:
  assumes "0 < bl_max_data_chunk_bytes limits" "pw_offset w < length (pw_data w)" "st_send_credit_bytes h \<noteq> 0"
  shows "0 < length (next_chunk limits h w)" "length (next_chunk limits h w) \<le> bl_max_data_chunk_bytes limits"
    "length (next_chunk limits h w) \<le> unat (st_send_credit_bytes h)"
    "drop (pw_offset w) (pw_data w) =
       next_chunk limits h w @ drop (pw_offset w + length (next_chunk limits h w)) (pw_data w)"
proof -
  let ?n = "min (bl_max_data_chunk_bytes limits) (min (length (pw_data w) - pw_offset w) (unat (st_send_credit_bytes h)))"
  have len: "length (next_chunk limits h w) = ?n" by (simp add: next_chunk_def Let_def)
  have "0 < unat (st_send_credit_bytes h)" using assms(3) by (simp add: unat_gt_0)
  then show "0 < length (next_chunk limits h w)" using assms len by simp
  show "length (next_chunk limits h w) \<le> bl_max_data_chunk_bytes limits"
    "length (next_chunk limits h w) \<le> unat (st_send_credit_bytes h)" using len by simp_all
  show "drop (pw_offset w) (pw_data w) =
       next_chunk limits h w @ drop (pw_offset w + length (next_chunk limits h w)) (pw_data w)"
    unfolding len using drop_split [of "pw_offset w" "pw_data w" ?n] by (simp add: next_chunk_def Let_def)
qed

text \<open>One DATA frame.\<close>

lemma transfer_chunk:
  fixes R :: "'t ByteStreamService"
  assumes w: "st_writes h = w # ws" "pw_offset w < length (pw_data w)"
    and limits: "0 < bl_max_data_chunk_bytes limits" "bl_max_data_chunk_bytes limits \<le> 1048576"
    and credit: "st_send_credit_bytes h \<noteq> 0" "st_send_credit_frames h \<noteq> 0"
    and sid: "length (st_id h) = 16" "\<not> id_is_zero (st_id h)"
    and l: "linked h q R" and p: "fr_payload frame = data_payload h (next_chunk limits h w)"
  shows "\<exists>R'. handle_data api frame R = Some R' \<and> linked (charge_chunk (next_chunk limits h w) h) q R' \<and>
    delivered q R' @ pending_octets (charge_chunk (next_chunk limits h w) h) = delivered q R @ pending_octets h"
proof -
  let ?d = "next_chunk limits h w"
  note d = next_chunk_props [OF limits(1) w(2) credit(1)]
  have cb: "unat (st_send_credit_bytes h) = length ?d + unat (st_send_credit_bytes h - of_nat (length ?d))"
    using unat_diff_nat [OF d(3)] d(3) by simp
  have cf: "unat (st_send_credit_frames h) = Suc (unat (st_send_credit_frames h - 1))"
    using credit(2) by (simp add: unat_minus_one unat_gt_0)
  have take: "can_take (st_id h) (st_next_send_offset h)
      (length ?d + unat (st_send_credit_bytes h - of_nat (length ?d)))
      (Suc (unat (st_send_credit_frames h - 1))) (hget q R)"
    using l unfolding linked_def cb [symmetric] cf [symmetric] by blast
  have R: "streams_wf R" "find_stream (st_id h) R = Some q" using l by (simp_all add: linked_def)
  have hd: "handle_data api frame R = Some (accept_data api q ?d R)"
    using R take sid d(2) limits(2) p
    by (intro handle_data_delivers [OF R(1) take R(2) sid]) (simp_all add: data_payload_def)
  have "streams_wf (accept_data api q ?d R)" using handle_data_wf [OF R(1) hd] .
  with accept_data_delivers [OF R(1) take, of api] R(2) hd w d(4) show ?thesis
    by (auto simp: linked_def charge_chunk_def pending_octets_def find_stream_def)
qed

text \<open>\<open>shutdown_write\<close> marks the last pending write and refuses later ones.\<close>

definition sender_ready :: "nat \<Rightarrow> 's ByteStreamService \<Rightarrow> bool" where
  "sender_ready r S \<longleftrightarrow> validate_byte_stream_limits (sv_limits S) = Inr () \<and>
     length (st_id (hget r S)) = 16 \<and> \<not> id_is_zero (st_id (hget r S)) \<and>
     list_all (\<lambda>w. \<not> pw_fin_after w) (butlast (st_writes (hget r S)))"

lemma valid_chunk_limit:
  "validate_byte_stream_limits l = Inr () \<Longrightarrow>
     0 < bl_max_data_chunk_bytes l \<and> bl_max_data_chunk_bytes l \<le> 1048576"
  by (auto simp: validate_byte_stream_limits_def split: if_splits)

text \<open>
  A step of the sender and the receiver's handling of the frames of that step: they stay linked,
  and the octets delivered followed by those still pending are the same.
\<close>

definition transfers :: "('s \<Rightarrow> Frame list) \<Rightarrow> 't SessionApi \<Rightarrow> nat \<Rightarrow> nat \<Rightarrow> 's ByteStreamService \<Rightarrow>
    't ByteStreamService \<Rightarrow> 's ByteStreamService \<Rightarrow> 't ByteStreamService \<Rightarrow> bool" where
  "transfers log rapi r q S R S' R' \<longleftrightarrow>
    (\<exists>fs. log (sv_session S') = log (sv_session S) @ fs \<and> list_all (\<lambda>f. fr_type f = ft_stream_data) fs \<and>
       handle_all rapi fs R = Some R') \<and>
    linked (hget r S') q R' \<and> sender_ready r S' \<and>
    delivered q R' @ pending_octets (hget r S') = delivered q R @ pending_octets (hget r S)"

text \<open>The DATA frame the pump sends next.\<close>

definition next_data_frame :: "nat \<Rightarrow> 's ByteStreamService \<Rightarrow> Frame" where
  "next_data_frame r S = \<lparr>fr_type = ft_stream_data, fr_flags = 0, fr_channel_id = st_channel_id (hget r S),
     fr_message_id = replicate 16 0,
     fr_payload = data_payload (hget r S) (next_chunk (sv_limits S) (hget r S) (hd (st_writes (hget r S))))\<rparr>"

text \<open>
  How the pump ends, when \<open>octets\<close> is what was delivered or pending before.  Either everything is
  accounted for and the pump stopped because nothing is left, a credit is used up or the session
  answered the next DATA frame with \<open>would_block\<close>; or the session refused a DATA frame for another reason, and then the stream was
  reset and the tail of what was pending is lost.
\<close>

definition pump_end :: "'s SessionApi \<Rightarrow> nat \<Rightarrow> nat \<Rightarrow> bytes \<Rightarrow> 's ByteStreamService \<Rightarrow> 't ByteStreamService \<Rightarrow> bool" where
  "pump_end api r q octets S' R' \<longleftrightarrow>
    delivered q R' @ pending_octets (hget r S') = octets \<and> linked (hget r S') q R' \<and>
      (st_writes (hget r S') = [] \<or> st_send_credit_bytes (hget r S') = 0 \<or>
       st_send_credit_frames (hget r S') = 0 \<or>
       (\<exists>x e. sa_send api (st_channel_id (hget r S')) FC_bulk (next_data_frame r S') x = (Inl e, sv_session S') \<and>
          err_code e = EC_would_block)) \<or>
    st_state (hget r S') = SS_reset \<and> (\<exists>lost. octets = delivered q R' @ lost) \<and>
      (\<exists>cid f x e y. sa_send api cid FC_bulk f x = (Inl e, y) \<and> fr_type f = ft_stream_data \<and>
         err_code e \<noteq> EC_would_block)"

text \<open>The DATA frames the session took, and after them at most frames of other types: FIN or RESET.\<close>

definition pump_outcome :: "'s SessionApi \<Rightarrow> ('s \<Rightarrow> Frame list) \<Rightarrow> 't SessionApi \<Rightarrow> nat \<Rightarrow> nat \<Rightarrow>
    's ByteStreamService \<Rightarrow> 't ByteStreamService \<Rightarrow> 's ByteStreamService \<Rightarrow> bool" where
  "pump_outcome api log rapi r q S R S' \<longleftrightarrow>
    (\<exists>fs gs R'. log (sv_session S') = log (sv_session S) @ fs @ gs \<and>
       list_all (\<lambda>f. fr_type f = ft_stream_data) fs \<and> list_all (\<lambda>f. fr_type f \<noteq> ft_stream_data) gs \<and>
       handle_all rapi fs R = Some R' \<and>
       pump_end api r q (delivered q R @ pending_octets (hget r S)) S' R')"

lemma handle_all_append:
  "handle_all api (fs @ gs) R = (case handle_all api fs R of None \<Rightarrow> None | Some t \<Rightarrow> handle_all api gs t)"
  by (induction fs arbitrary: R) (auto split: option.splits)

lemma transfers_trans:
  assumes "transfers log rapi r q S R S1 R1" "pump_outcome api log rapi r q S1 R1 S2"
  shows "pump_outcome api log rapi r q S R S2"
proof -
  from assms(1) obtain fs where fs: "log (sv_session S1) = log (sv_session S) @ fs"
    "list_all (\<lambda>f. fr_type f = ft_stream_data) fs" "handle_all rapi fs R = Some R1"
    and c: "delivered q R1 @ pending_octets (hget r S1) = delivered q R @ pending_octets (hget r S)"
    by (auto simp: transfers_def)
  from assms(2) [unfolded pump_outcome_def c] obtain gs hs R2 where
    gs: "log (sv_session S2) = log (sv_session S1) @ gs @ hs"
    "list_all (\<lambda>f. fr_type f = ft_stream_data) gs" "list_all (\<lambda>f. fr_type f \<noteq> ft_stream_data) hs"
    "handle_all rapi gs R1 = Some R2"
    "pump_end api r q (delivered q R @ pending_octets (hget r S)) S2 R2" by blast
  show ?thesis unfolding pump_outcome_def
    by (rule exI [of _ "fs @ gs"], rule exI [of _ hs], rule exI [of _ R2])
       (use fs gs in \<open>simp add: handle_all_append\<close>)
qed

text \<open>A pump that stops where it is: nothing is left, or it cannot go on.\<close>

lemma outcome_stop:
  assumes "linked (hget r S') q R" "pending_octets (hget r S') = pending_octets (hget r S)"
    "log (sv_session S') = log (sv_session S) @ gs" "list_all (\<lambda>f. fr_type f \<noteq> ft_stream_data) gs"
    "st_writes (hget r S') = [] \<or> st_send_credit_bytes (hget r S') = 0 \<or> st_send_credit_frames (hget r S') = 0 \<or>
     (\<exists>x e. sa_send api (st_channel_id (hget r S')) FC_bulk (next_data_frame r S') x = (Inl e, sv_session S') \<and>
        err_code e = EC_would_block)"
  shows "pump_outcome api log rapi r q S R S'"
  unfolding pump_outcome_def
  by (rule exI [of _ "[]"], rule exI [of _ gs], rule exI [of _ R]) (use assms in \<open>simp add: pump_end_def\<close>)

lemma finish_handle:
  "st_writes (hget r (finish_stream api r terminal s)) = []"
  "st_state (hget r (finish_stream api r terminal s)) = terminal"
  "linked (hget r (finish_stream api r terminal s)) q R = linked (hget r s) q R"
  by (simp_all add: finish_stream_def Let_def linked_def emit_def)

lemma pending_head [simp]:
  "st_writes h = w # ws \<Longrightarrow> \<not> pw_offset w < length (pw_data w) \<Longrightarrow>
     pending_octets (h\<lparr>st_writes := ws\<rparr>) = pending_octets h"
  by (simp add: pending_octets_def)

lemma linked_writes [simp]: "linked (h\<lparr>st_writes := ws\<rparr>) q R = linked h q R"
  by (simp add: linked_def)

lemma send_chunk_transfers:
  fixes R :: "'t ByteStreamService"
  assumes api: "logs_frames api log" and ready: "sender_ready r S" and l: "linked (hget r S) q R"
    and w: "st_writes (hget r S) = w # ws" "pw_offset w < length (pw_data w)"
    and credit: "st_send_credit_bytes (hget r S) \<noteq> 0" "st_send_credit_frames (hget r S) \<noteq> 0"
    and d: "d = next_chunk (sv_limits S) (hget r S) w"
    and sent: "send_stream_frame api (st_channel_id (hget r S)) ft_stream_data (data_payload (hget r S) d) FC_bulk S =
      (Inr u, S1)"
  shows "\<exists>R'. transfers log rapi r q S R (hput r (charge_chunk d (hget r S)) S1) R'"
proof -
  let ?h = "hget r S"
  define f where "f = \<lparr>fr_type = ft_stream_data, fr_flags = 0, fr_channel_id = st_channel_id ?h,
      fr_message_id = replicate 16 0, fr_payload = data_payload ?h d\<rparr>"
  let ?S = "hput r (charge_chunk d ?h) S1"
  have same: "sv_limits S1 = sv_limits S"
    using send_stream_frame_same(4) [of api "st_channel_id ?h" ft_stream_data "data_payload ?h d" FC_bulk S]
    unfolding sent by simp
  have "\<exists>R'. handle_data rapi f R = Some R' \<and> linked (charge_chunk d ?h) q R' \<and>
      delivered q R' @ pending_octets (charge_chunk d ?h) = delivered q R @ pending_octets ?h"
    unfolding d by (rule transfer_chunk [OF w])
      (use ready l credit valid_chunk_limit [of "sv_limits S"] in \<open>auto simp: sender_ready_def f_def d\<close>)
  then obtain R' where R': "handle_data rapi f R = Some R'" "linked (hget r ?S) q R'"
    "delivered q R' @ pending_octets (hget r ?S) = delivered q R @ pending_octets ?h" by auto
  have "sender_ready r ?S" using ready w same
    by (cases ws) (auto simp: sender_ready_def charge_chunk_def)
  moreover have "log (sv_session ?S) = log (sv_session S) @ [f] \<and> handle_all rapi [f] R = Some R' \<and>
      list_all (\<lambda>f. fr_type f = ft_stream_data) [f]"
    using logs_send [OF api, of "st_channel_id ?h" ft_stream_data "data_payload ?h d" FC_bulk S] sent R'(1)
    by (simp add: f_def)
  ultimately show ?thesis unfolding transfers_def using R' by blast
qed

text \<open>The session refuses a DATA frame and says other than that it would block.\<close>

lemma outcome_reset:
  fixes S' :: "'s ByteStreamService"
  assumes api: "logs_frames api log"
    and sent: "send_stream_frame api cid ft_stream_data payload FC_bulk S = (Inl e, S1)" "err_code e \<noteq> EC_would_block"
    and S': "S' = handle_reset_frame_for api r reason (hput r h (complete_write w n x S1))"
  shows "pump_outcome api log rapi r q S R S'"
proof -
  have "log (sv_session S1) = log (sv_session S)"
    using logs_send [OF api, of cid ft_stream_data payload FC_bulk S] sent(1) by simp
  then have "\<exists>gs. log (sv_session S') = log (sv_session S) @ gs \<and> list_all (\<lambda>f. fr_type f \<noteq> ft_stream_data) gs"
    unfolding S' handle_reset_frame_for_def Let_def logs_finish [OF api]
    by (simp add: send_reset_def logs_send [OF api] complete_write_def emit_def split: sum.split)
  then obtain gs where gs: "log (sv_session S') = log (sv_session S) @ gs" "list_all (\<lambda>f. fr_type f \<noteq> ft_stream_data) gs"
    by blast
  have "st_state (hget r S') = SS_reset"
    by (simp add: S' handle_reset_frame_for_def Let_def finish_handle)
  moreover have "\<exists>f y z. sa_send api cid FC_bulk f y = (Inl e, z) \<and> fr_type f = ft_stream_data"
    using sent(1) by (auto simp: send_stream_frame_def Let_def split: prod.splits) fastforce
  ultimately have "pump_end api r q (delivered q R @ pending_octets (hget r S)) S' R"
    unfolding pump_end_def using sent(2) by blast
  then show ?thesis unfolding pump_outcome_def
    by (rule_tac x = "[]" in exI, rule_tac x = gs in exI, rule_tac x = R in exI) (simp add: gs)
qed

lemma write_round_transfers:
  assumes api: "logs_frames api log" and ready: "sender_ready r S" and l: "linked (hget r S) q R"
    and round: "write_round api r S = (go, S')"
  shows "if go then \<exists>R'. transfers log rapi r q S R S' R' else pump_outcome api log rapi r q S R S'"
proof (cases "st_writes (hget r S)")
  case Nil
  then have "\<not> go" "S' = S" using round by (simp_all add: write_round_def)
  with Nil l outcome_stop [where S = S and S' = S and gs = "[]" and r = r and q = q and R = R] show ?thesis by simp
next
  case (Cons w ws)
  let ?h = "hget r S" and ?stop = "st_send_credit_bytes (hget r S) = 0 \<or> st_send_credit_frames (hget r S) = 0"
  let ?S = "hput r (?h\<lparr>st_writes := ws\<rparr>) (complete_write w (length (pw_data w)) None S)"
  consider (fin) "\<not> pw_offset w < length (pw_data w)" "pw_fin_after w"
    | (sent) "\<not> pw_offset w < length (pw_data w)" "\<not> pw_fin_after w"
    | (stop) "pw_offset w < length (pw_data w)" ?stop
    | (data) "pw_offset w < length (pw_data w)" "\<not> ?stop" by blast
  then show ?thesis
  proof cases
    case fin
    then have ws: "ws = []" using ready Cons by (cases ws) (auto simp: sender_ready_def)
    have m: "\<not> go" "S' = finish_stream api r (if st_fin_received ?h then SS_closed else SS_half_closed_local)
        (snd (send_fin api r ?S))" using fin Cons round by (simp_all add: write_round_def Let_def)
    have "\<exists>gs. log (sv_session S') = log (sv_session S) @ gs \<and> list_all (\<lambda>f. fr_type f \<noteq> ft_stream_data) gs"
      by (simp add: m(2) logs_finish [OF api] send_fin_def logs_send [OF api] complete_write_def emit_def split: sum.split)
    then obtain gs where gs: "log (sv_session S') = log (sv_session S) @ gs" "list_all (\<lambda>f. fr_type f \<noteq> ft_stream_data) gs"
      by blast
    have "linked (hget r S') q R" "st_writes (hget r S') = []"
      using l by (simp_all add: m(2) finish_handle send_fin_def)
    moreover have "pending_octets (hget r S') = pending_octets ?h"
      using calculation(2) ws fin Cons by (simp add: pending_octets_def)
    ultimately show ?thesis using m(1) gs by (simp add: outcome_stop)
  next
    case sent
    then have m: "go" "S' = ?S" using Cons round by (simp_all add: write_round_def Let_def)
    have "sender_ready r ?S" using ready Cons by (cases ws) (auto simp: sender_ready_def complete_write_def emit_def)
    then have "transfers log rapi r q S R ?S R"
      using l Cons sent unfolding transfers_def
      by (auto simp: complete_write_def emit_def intro!: exI [of _ "[]"])
    then show ?thesis using m by auto
  next
    case stop
    then have "\<not> go" "S' = S" using round Cons by (simp_all add: write_round_def)
    with stop l outcome_stop [where S = S and S' = S and gs = "[]" and r = r and q = q and R = R] show ?thesis by auto
  next
    case data
    define d where "d = next_chunk (sv_limits S) ?h w"
    obtain res S1 where snt: "send_stream_frame api (st_channel_id ?h) ft_stream_data (data_payload ?h d) FC_bulk S =
      (res, S1)" by fastforce
    show ?thesis
    proof (cases res)
      case (Inr u)
      then have "go" "S' = hput r (charge_chunk d ?h) S1"
        using round Cons data snt by (simp_all add: write_round_def Let_def d_def)
      with send_chunk_transfers [OF api ready l Cons data(1) _ _ d_def, of u S1 rapi] data snt Inr
      show ?thesis by auto
    next
      case (Inl e)
      show ?thesis
      proof (cases "err_code e = EC_would_block")
        case True
        then have m: "\<not> go" "S' = S1" using round Cons data snt Inl by (simp_all add: write_round_def Let_def d_def)
        have h: "sv_handles S1 = sv_handles S" "sv_limits S1 = sv_limits S"
          using send_stream_frame_same(1,4) [of api "st_channel_id ?h" ft_stream_data "data_payload ?h d" FC_bulk S] snt
          by simp_all
        have "log (sv_session S1) = log (sv_session S)"
          using logs_send [OF api, of "st_channel_id ?h" ft_stream_data "data_payload ?h d" FC_bulk S] snt Inl by simp
        moreover have "\<exists>x. sa_send api (st_channel_id (hget r S1)) FC_bulk (next_data_frame r S1) x = (Inl e, sv_session S1)"
          using snt Inl h Cons by (auto simp: send_stream_frame_def next_data_frame_def d_def Let_def split: prod.splits)
        ultimately show ?thesis using m l h True by (auto intro!: outcome_stop [where gs = "[]"])
      next
        case False
        then have "\<not> go" "S' = handle_reset_frame_for api r status_unavailable
            (hput r (?h\<lparr>st_writes := ws\<rparr>) (complete_write w (pw_offset w) (Some e) S1))"
          using round Cons data snt Inl by (simp_all add: write_round_def Let_def d_def)
        with outcome_reset [OF api _ False] snt Inl show ?thesis by auto
      qed
    qed
  qed
qed

lemma pump_transfers:
  assumes api: "logs_frames api log"
  shows "sender_ready r S \<Longrightarrow> linked (hget r S) q R \<Longrightarrow> pump_outcome api log rapi r q S R (pump_loop api r S)"
proof (induction S arbitrary: R rule: pump_induct [where api = api and r = r])
  case (1 S)
  obtain go S1 where round: "write_round api r S = (go, S1)" by fastforce
  note t = write_round_transfers [OF api 1(2,3) round, of rapi]
  have p: "pump_loop api r S = (if go then pump_loop api r S1 else S1)"
    using round by (subst pump_iterates) simp
  show ?case
  proof (cases go)
    case True
    then obtain R1 where R1: "transfers log rapi r q S R S1 R1" using t by auto
    then have "sender_ready r S1" "linked (hget r S1) q R1" by (simp_all add: transfers_def)
    from 1(1) [OF _ this] True round have "pump_outcome api log rapi r q S1 R1 (pump_loop api r S1)" by simp
    from transfers_trans [OF R1 this] True p show ?thesis by simp
  qed (use t p in simp)
qed

section \<open>Properties\<close>

text \<open>
  C3: transfer of a byte stream.  A sender pumps its pending writes into a session that takes or
  refuses frames as it likes; the receiver's window covers the sender's credit.  Handling the DATA
  frames the session took, in order, never goes wrong and resets nothing.  Unless the session
  refused a frame for another reason than that it would block, what the receiver's application has
  read or can read, followed by what the sender still has pending, is exactly what it was before,
  so no octet is lost, repeated or reordered at any split into chunks and reads; the window still
  covers the credit, and the pump stopped because everything is sent, a credit is used up or the
  session answered that it would block.  Otherwise the stream was reset and the receiver has a
  prefix.
\<close>

theorem stream_transfer:
  fixes R :: "'t ByteStreamService"
  assumes "logs_frames api log" "sender_ready r S" "linked (hget r S) q R"
    and "st_state (hget r S) \<noteq> SS_reset" "st_state (hget r S) \<noteq> SS_closed"
  shows "\<exists>fs gs R'. log (sv_session (pump_writes api r S)) = log (sv_session S) @ fs @ gs \<and>
    list_all (\<lambda>f. fr_type f = ft_stream_data) fs \<and> list_all (\<lambda>f. fr_type f \<noteq> ft_stream_data) gs \<and>
    handle_all rapi fs R = Some R' \<and>
    pump_end api r q (delivered q R @ pending_octets (hget r S)) (pump_writes api r S) R'"
proof -
  have "pump_writes api r S = pump_loop api r S" using assms(4,5) by (simp add: pump_writes_def)
  then show ?thesis using pump_transfers [OF assms(1-3), of rapi] by (simp add: pump_outcome_def)
qed

text \<open>A session that takes one frame and then would block.\<close>

definition one_frame :: "Frame list SessionApi" where
  "one_frame = recording\<lparr>sa_send := (\<lambda>cid k f x. if x = [] then (Inr (), [f])
     else (Inl (err EC_would_block ''session'' ''queue_full''), x))\<rparr>"

lemma one_frame_logs: "logs_frames one_frame (\<lambda>x. x)"
  by (auto simp: logs_frames_def one_frame_def recording_def)

lemma recording_logs: "logs_frames recording (\<lambda>x. x)"
  by (simp add: logs_frames_def recording_def)

definition sample_sender :: "Frame list ByteStreamService" where
  "sample_sender = hput 0 ((new_stream_handle default_stream_limits (replicate 16 7) 1 8 2)
     \<lparr>st_state := SS_open, st_send_credit_bytes := 4, st_send_credit_frames := 2,
      st_writes := [\<lparr>pw_data = [1, 2, 3], pw_offset = 0, pw_handler = 5, pw_deadline = None, pw_fin_after = False\<rparr>,
                    \<lparr>pw_data = [4, 5, 6], pw_offset = 0, pw_handler = 6, pw_deadline = None, pw_fin_after = True\<rparr>]\<rparr>)
     (byte_stream_service [] default_stream_limits)"

definition sample_receiver :: "Frame list ByteStreamService" where
  "sample_receiver = hput 0 ((new_stream_handle default_stream_limits (replicate 16 7) 1 8 2)
     \<lparr>st_state := SS_open, st_reads := [\<lparr>rd_size = 2, rd_handler = 9, rd_deadline = None\<rparr>]\<rparr>)
     ((byte_stream_service [] default_stream_limits)\<lparr>sv_streams := [(replicate 16 7, 0)]\<rparr>)"

theorem stream_transfer_witness:
  "\<exists>fs gs R'. sv_session (pump_writes one_frame 0 sample_sender) = fs @ gs \<and>
    handle_all recording fs sample_receiver = Some R' \<and>
    delivered 0 R' @ pending_octets (hget 0 (pump_writes one_frame 0 sample_sender)) = [1, 2, 3, 4, 5, 6]"
proof -
  have ready: "sender_ready 0 sample_sender"
    by (simp add: sender_ready_def sample_sender_def byte_stream_service_def new_stream_handle_def
        validate_byte_stream_limits_def default_stream_limits_def id_is_zero_iff)
  have linked: "linked (hget 0 sample_sender) 0 sample_receiver"
    unfolding linked_def
    by (auto simp: sample_sender_def sample_receiver_def find_stream_def can_take_def streams_wf_def hput_def
        byte_stream_service_def) (simp_all add: new_stream_handle_def)
  have open_s: "st_state (hget 0 sample_sender) = SS_open" by (simp add: sample_sender_def)
  have start: "delivered 0 sample_receiver = []" "pending_octets (hget 0 sample_sender) = [1, 2, 3, 4, 5, 6]"
    "sv_session sample_sender = []"
    by (simp_all add: delivered_def pending_octets_def sample_receiver_def sample_sender_def byte_stream_service_def
        new_stream_handle_def)
  have blocks: "\<not> (\<exists>cid f x e y. sa_send one_frame cid FC_bulk f x = (Inl e, y) \<and> fr_type f = ft_stream_data \<and>
      err_code e \<noteq> EC_would_block)"
    by (auto simp: one_frame_def split: if_splits)
  from stream_transfer [OF one_frame_logs ready linked, of recording] open_s obtain fs gs R' where
    "sv_session (pump_writes one_frame 0 sample_sender) = fs @ gs" "handle_all recording fs sample_receiver = Some R'"
    "pump_end one_frame 0 0 [1, 2, 3, 4, 5, 6] (pump_writes one_frame 0 sample_sender) R'"
    unfolding start by auto
  moreover from this(3) blocks have "delivered 0 R' @ pending_octets (hget 0 (pump_writes one_frame 0 sample_sender)) =
      [1, 2, 3, 4, 5, 6]" unfolding pump_end_def by blast
  ultimately show ?thesis by blast
qed

text \<open>
  C24: reading beyond the payload.  A DATA frame makes the receiver read outside the frame exactly when
  it carries the identifier of a live stream and fewer than 28 octets: the length is tested only
  after the offset and length fields were read.
\<close>

theorem handle_data_out_of_bounds:
  "handle_data api frame s = None \<longleftrightarrow>
    16 \<le> length (fr_payload frame) \<and> length (fr_payload frame) < 28 \<and>
    \<not> id_is_zero (take 16 (fr_payload frame)) \<and>
    (\<exists>r. find_stream (take 16 (fr_payload frame)) s = Some r \<and>
       st_state (hget r s) \<noteq> SS_reset \<and> st_state (hget r s) \<noteq> SS_closed)"
proof -
  let ?p = "fr_payload frame"
  have body: "handle_data api frame s = None \<longleftrightarrow> read_u64 ?p 16 = None \<or> read_u32 ?p 24 = None"
    if "parse_stream_id ?p = Inr sid" "find_stream sid s = Some r" "st_state (hget r s) \<noteq> SS_reset"
      "st_state (hget r s) \<noteq> SS_closed" for sid r
    using that by (simp add: handle_data_def Let_def split: option.split)
  have skip: "handle_data api frame s \<noteq> None"
    if "parse_stream_id ?p = Inr sid"
      "\<not> (\<exists>r. find_stream sid s = Some r \<and> st_state (hget r s) \<noteq> SS_reset \<and> st_state (hget r s) \<noteq> SS_closed)"
    for sid
    using that by (cases "find_stream sid s") (auto simp: handle_data_def Let_def)
  have short: "read_u64 ?p 16 = None \<or> read_u32 ?p 24 = None \<longleftrightarrow> length ?p < 28"
    by (auto simp: read_u64_def read_u32_def)
  show ?thesis
  proof (cases "length ?p < 16 \<or> id_is_zero (take 16 ?p)")
    case True
    then have "\<exists>e. parse_stream_id ?p = Inl e" by (auto simp: parse_stream_id_def)
    then have "handle_data api frame s \<noteq> None" by (auto simp: handle_data_def Let_def)
    with True show ?thesis by auto
  next
    case False
    then have "parse_stream_id ?p = Inr (take 16 ?p)" by (simp add: parse_stream_id_def)
    from body [OF this] skip [OF this] False short show ?thesis by (metis not_less)
  qed
qed


end
