(* ===== verification/Heyaki_Stream_Credit.thy ===== *)
theory Heyaki_Stream_Credit
  imports Heyaki_Stream_Transfer
begin

text \<open>
  The frame credit of byte streams: a reader that keeps up stops granting frames, and a sender
  whose frame credit is used up then sends no more data.
\<close>

section \<open>The frame credit\<close>

text \<open>
  A stream in the state of a reader that keeps up: nothing is buffered, nothing is pending, and the
  frame window is whole.
\<close>

definition drained :: "ByteStreamHandle \<Rightarrow> bool" where
  "drained h \<longleftrightarrow> st_receive_chunks h = [] \<and> st_reads h = [] \<and>
     st_remaining_frames h = st_receive_window_frames h \<and> st_receive_window_frames h \<noteq> 0 \<and>
     \<not> st_fin_received h \<and> st_state h \<noteq> SS_reset \<and>
     0 < st_max_pending_reads h \<and> \<not> (st_gateway_initiator h \<and> st_gateway_prelude_pending h)"

definition window_update_payload :: "ByteStreamHandle \<Rightarrow> u64 \<Rightarrow> u64 \<Rightarrow> u64 \<Rightarrow> bytes" where
  "window_update_payload h consumed octets frames =
     append_bytes 1 (st_id h) @ append_uint 2 consumed @ append_uint 3 octets @ append_uint 4 frames"

text \<open>The application asks for the next frame, and the frame arrives.\<close>

definition read_frame :: "'s SessionApi \<Rightarrow> nat \<Rightarrow> bytes \<times> nat \<Rightarrow> 's ByteStreamService \<Rightarrow> 's ByteStreamService" where
  "read_frame api r x s = accept_data api r (fst x) (async_read_some api r (length (fst x)) (snd x) None s)"

lemma update_reports:
  assumes api: "logs_frames api log"
    and "st_remaining_frames (hget r s) = st_receive_window_frames (hget r s)"
    "st_reported_consumed_frames (hget r s) = st_receive_window_frames (hget r s)"
  shows "\<exists>us h'. hget r (maybe_send_window_update api r s) = h' \<and>
    log (sv_session (maybe_send_window_update api r s)) = log (sv_session s) @ us \<and>
    (\<forall>u\<in>set us. \<exists>c b. fr_payload u = window_update_payload (hget r s) c b 0) \<and>
    h' = (hget r s)\<lparr>st_reported_consumed_bytes := st_reported_consumed_bytes h',
           st_remaining_bytes := st_remaining_bytes h'\<rparr>"
proof -
  let ?h = "hget r s"
  let ?d = "st_consumed_through_offset ?h - st_reported_consumed_bytes ?h"
  let ?p = "window_update_payload ?h (st_consumed_through_offset ?h) ?d 0"
  let ?t = "send_stream_frame api (st_channel_id ?h) ft_stream_window_update ?p FC_control s"
  show ?thesis
  proof (cases "st_remaining_bytes ?h \<noteq> 0 \<and> \<not> ?d \<ge> st_receive_window_bytes ?h div 4")
    case True
    then have "maybe_send_window_update api r s = s" by (simp add: maybe_send_window_update_def Let_def)
    then show ?thesis by (auto intro!: exI [of _ "[]"])
  next
    case sends: False
    note l = logs_send [OF api, of "st_channel_id ?h" ft_stream_window_update ?p FC_control s]
    show ?thesis
    proof (cases "fst ?t")
      case (Inl e)
      then have "maybe_send_window_update api r s = snd ?t" using sends assms(2,3)
        by (auto simp: maybe_send_window_update_def Let_def window_update_payload_def)
      with l Inl show ?thesis by (auto intro!: exI [of _ "[]"])
    next
      case (Inr u)
      from l Inr obtain f where "log (sv_session (snd ?t)) = log (sv_session s) @ [f]" "fr_payload f = ?p" by auto
      with sends Inr assms(2,3) show ?thesis unfolding window_update_payload_def
        by (intro exI [of _ "[f]"]) (auto simp: maybe_send_window_update_def Let_def window_update_payload_def)
    qed
  qed
qed

lemma dispatch_idle [simp]:
  "st_reads (hget r s) = [] \<Longrightarrow> try_dispatch_reads api r s = s"
  by (subst try_dispatch_reads.simps) (simp add: Let_def)

lemma dispatch_waits:
  "st_receive_chunks (hget r s) = [] \<Longrightarrow> \<not> st_fin_received (hget r s) \<Longrightarrow> try_dispatch_reads api r s = s"
  by (subst try_dispatch_reads.simps) (simp add: Let_def)

lemma read_frame_eq:
  assumes d: "drained (hget r s)" and data: "data \<noteq> []"
  shows "read_frame api r (data, k) s = maybe_send_window_update api r
    (emit [SE_read k data None] (hput r ((hget r s)\<lparr>
       st_remaining_bytes := st_remaining_bytes (hget r s) - of_nat (length data),
       st_next_receive_offset := st_next_receive_offset (hget r s) + of_nat (length data),
       st_consumed_through_offset := st_consumed_through_offset (hget r s) + of_nat (length data),
       st_receive_buffered_bytes := st_receive_buffered_bytes (hget r s)\<rparr>) s))"
proof -
  let ?h = "hget r s" and ?rd = "\<lparr>rd_size = length data, rd_handler = k, rd_deadline = None\<rparr>"
  let ?s1 = "hput r (?h\<lparr>st_reads := [?rd]\<rparr>) s"
  let ?h2 = "queue_data data (charge_data data (?h\<lparr>st_reads := [?rd]\<rparr>))"
  have s1: "async_read_some api r (length data) k None s = ?s1"
    using d data by (simp add: async_read_some_def drained_def Let_def dispatch_waits)
  have deliver: "deliver_chunk r (hput r ?h2 s) = emit [SE_read k data None] (hput r (?h\<lparr>
       st_remaining_bytes := st_remaining_bytes ?h - of_nat (length data),
       st_next_receive_offset := st_next_receive_offset ?h + of_nat (length data),
       st_consumed_through_offset := st_consumed_through_offset ?h + of_nat (length data),
       st_receive_buffered_bytes := st_receive_buffered_bytes ?h\<rparr>) s)" (is "_ = ?s2")
    using d data unfolding deliver_chunk_def complete_read_def Let_def queue_data_def charge_data_def
    by (cases ?h) (simp add: drained_def)
  have "try_dispatch_reads api r (hput r ?h2 s) = maybe_send_window_update api r ?s2"
    using d data deliver by (subst try_dispatch_reads.simps)
      (simp add: Let_def queue_data_def charge_data_def drained_def)
  moreover have "\<not> st_fin_received (hget r (maybe_send_window_update api r ?s2))"
    using d by (simp add: maybe_send_window_update_def Let_def drained_def split: sum.split)
  moreover have "take_prelude r data (hput r (charge_data data (hget r ?s1)) ?s1) =
      (Some data, hput r (charge_data data (hget r ?s1)) s)"
    using d by (simp add: take_prelude_def Let_def charge_data_def drained_def)
  ultimately show ?thesis unfolding read_frame_def s1 fst_conv snd_conv
    by (simp add: accept_data_def Let_def)
qed

lemma read_frame_drained:
  assumes api: "logs_frames api log" and d: "drained (hget r s)" and data: "fst x \<noteq> []"
    and rep: "st_reported_consumed_frames (hget r s) = st_receive_window_frames (hget r s)"
  shows "\<exists>us. log (sv_session (read_frame api r x s)) = log (sv_session s) @ us \<and>
    (\<forall>u\<in>set us. \<exists>c b. fr_payload u = window_update_payload (hget r s) c b 0) \<and>
    drained (hget r (read_frame api r x s)) \<and> st_id (hget r (read_frame api r x s)) = st_id (hget r s) \<and>
    st_reported_consumed_frames (hget r (read_frame api r x s)) =
      st_receive_window_frames (hget r (read_frame api r x s))"
proof -
  obtain data k where x: "x = (data, k)" by fastforce
  define s2 where "s2 = emit [SE_read k data None] (hput r ((hget r s)\<lparr>
       st_remaining_bytes := st_remaining_bytes (hget r s) - of_nat (length data),
       st_next_receive_offset := st_next_receive_offset (hget r s) + of_nat (length data),
       st_consumed_through_offset := st_consumed_through_offset (hget r s) + of_nat (length data),
       st_receive_buffered_bytes := st_receive_buffered_bytes (hget r s)\<rparr>) s)"
  have eq: "read_frame api r x s = maybe_send_window_update api r s2"
    unfolding s2_def x by (rule read_frame_eq) (use d data x in auto)
  have s2: "drained (hget r s2)" "st_reported_consumed_frames (hget r s2) = st_receive_window_frames (hget r s2)"
    "st_id (hget r s2) = st_id (hget r s)" "sv_session s2 = sv_session s"
    using d rep by (simp_all add: s2_def drained_def)
  then have "st_remaining_frames (hget r s2) = st_receive_window_frames (hget r s2)" by (simp add: drained_def)
  from update_reports [OF api this s2(2)] obtain us h' where
    h': "hget r (maybe_send_window_update api r s2) = h'"
    and us: "log (sv_session (maybe_send_window_update api r s2)) = log (sv_session s2) @ us"
      "\<forall>u\<in>set us. \<exists>c b. fr_payload u = window_update_payload (hget r s2) c b 0"
    and upd: "h' = (hget r s2)\<lparr>st_reported_consumed_bytes := st_reported_consumed_bytes h',
           st_remaining_bytes := st_remaining_bytes h'\<rparr>" by blast
  have "drained h'" "st_id h' = st_id (hget r s)" "st_reported_consumed_frames h' = st_receive_window_frames h'"
    using s2 by (subst upd, simp add: drained_def)+
  moreover have "window_update_payload (hget r s2) c b f = window_update_payload (hget r s) c b f" for c b f
    using s2(3) by (simp add: window_update_payload_def)
  ultimately show ?thesis using us s2(4) unfolding eq h' by auto
qed

lemma reads_grant_nothing:
  assumes "logs_frames api log" "drained (hget r s)"
    and "st_reported_consumed_frames (hget r s) = st_receive_window_frames (hget r s)"
    and "\<forall>x\<in>set xs. fst x \<noteq> []"
  shows "\<exists>us. log (sv_session (fold (read_frame api r) xs s)) = log (sv_session s) @ us \<and>
    (\<forall>u\<in>set us. \<exists>c b. fr_payload u = window_update_payload (hget r s) c b 0)"
  using assms(2-4)
proof (induction xs arbitrary: s)
  case (Cons x xs)
  from Cons.prems obtain us where us: "log (sv_session (read_frame api r x s)) = log (sv_session s) @ us"
    "\<forall>u\<in>set us. \<exists>c b. fr_payload u = window_update_payload (hget r s) c b 0"
    "drained (hget r (read_frame api r x s))" "st_id (hget r (read_frame api r x s)) = st_id (hget r s)"
    "st_reported_consumed_frames (hget r (read_frame api r x s)) =
      st_receive_window_frames (hget r (read_frame api r x s))"
    using read_frame_drained [OF assms(1), of s r x] by auto
  from Cons.IH [OF us(3,5)] Cons.prems(3) obtain vs where
    "log (sv_session (fold (read_frame api r) xs (read_frame api r x s))) = log (sv_session (read_frame api r x s)) @ vs"
    "\<forall>u\<in>set vs. \<exists>c b. fr_payload u = window_update_payload (hget r (read_frame api r x s)) c b 0" by auto
  moreover have "window_update_payload (hget r (read_frame api r x s)) c b f = window_update_payload (hget r s) c b f"
    for c b f using us(4) by (simp add: window_update_payload_def)
  ultimately show ?case using us(1,2) by (intro exI [of _ "us @ vs"]) auto
qed simp

section \<open>A sender without frame credit\<close>

text \<open>What can happen to the sender: an update arrives, or its application writes.\<close>

datatype SenderOp = Sender_update Frame | Sender_write bytes nat "u64 option" u64

fun sender_step :: "'s SessionApi \<Rightarrow> nat \<Rightarrow> SenderOp \<Rightarrow> 's ByteStreamService \<Rightarrow> 's ByteStreamService" where
  "sender_step api r (Sender_update u) S = handle_window_update api u S"
| "sender_step api r (Sender_write data handler deadline now) S = async_write api r data handler deadline now S"

definition data_frames :: "('s \<Rightarrow> Frame list) \<Rightarrow> 's ByteStreamService \<Rightarrow> Frame list" where
  "data_frames log S = filter (\<lambda>f. fr_type f = ft_stream_data) (log (sv_session S))"

definition stalled :: "('s \<Rightarrow> Frame list) \<Rightarrow> id_bytes \<Rightarrow> nat \<Rightarrow> Frame list \<Rightarrow> 's ByteStreamService \<Rightarrow> bool" where
  "stalled log sid r fs S \<longleftrightarrow> st_send_credit_frames (hget r S) = 0 \<and>
     (find_stream sid S = Some r \<or> find_stream sid S = None) \<and> data_frames log S = fs"

lemma stalled_upd [simp]:
  "stalled log sid r fs (emit es S) = stalled log sid r fs S"
  "st_send_credit_frames h = st_send_credit_frames (hget p S) \<Longrightarrow>
     stalled log sid r fs (hput p h S) = stalled log sid r fs S"
  by (simp add: stalled_def data_frames_def find_stream_def emit_def)
     (cases "p = r"; simp add: stalled_def data_frames_def find_stream_def)

lemma stalled_send:
  assumes "logs_frames api log" "type \<noteq> ft_stream_data"
  shows "stalled log sid r fs (snd (send_stream_frame api cid type payload k S)) = stalled log sid r fs S"
  using logs_send [OF assms(1), of cid type payload k S] assms(2)
  by (simp add: stalled_def data_frames_def find_stream_def split: sum.splits)

lemma stalled_finish:
  assumes "logs_frames api log" "stalled log sid r fs S"
  shows "stalled log sid r fs (finish_stream api p terminal S)"
proof -
  have "st_send_credit_frames (hget r (finish_stream api p terminal S)) = st_send_credit_frames (hget r S)"
    by (cases "p = r") (simp_all add: finish_stream_def Let_def emit_def)
  moreover have "find_stream sid (finish_stream api p terminal S) = find_stream sid S \<or>
      find_stream sid (finish_stream api p terminal S) = None"
    by (simp add: finish_stream_def Let_def emit_def find_stream_def map_of_om_del)
  ultimately show ?thesis using assms by (auto simp: stalled_def data_frames_def logs_finish)
qed

lemma stalled_reset:
  assumes "logs_frames api log" "stalled log sid r fs S"
  shows "stalled log sid r fs (handle_reset_frame_for api p reason S)"
  using assms by (auto simp: handle_reset_frame_for_def send_reset_def Let_def stalled_send intro!: stalled_finish)

lemma stalled_deadlines:
  assumes "logs_frames api log" "stalled log sid r fs S"
  shows "stalled log sid r fs (check_deadlines api now S)"
proof -
  have "stalled log sid r fs (fold (sweep_handle now) ps S)" for ps
    using assms(2) by (induction ps arbitrary: S) (simp_all add: sweep_handle_def Let_def)
  moreover have "stalled log sid r fs (fold (\<lambda>p t. if map_of (sv_streams t) (st_id (hget p t)) \<noteq> None
      then handle_reset_frame_for api p status_deadline_exceeded t else t) ps T)"
    if "stalled log sid r fs T" for ps T
    using that by (induction ps arbitrary: T) (simp_all add: stalled_reset [OF assms(1)])
  ultimately show ?thesis by (simp add: check_deadlines_def Let_def)
qed

lemma stalled_pump:
  assumes "logs_frames api log" "stalled log sid r fs S"
  shows "stalled log sid r fs (pump_writes api r S)"
proof -
  have step: "stalled log sid r fs T'" if T: "stalled log sid r fs T" and w: "write_round api r T = (go, T')" for T go T'
  proof -
    have "st_send_credit_frames (hget r T) = 0" using T by (simp add: stalled_def)
    then show ?thesis using T w
      by (auto simp: write_round_def Let_def complete_write_def send_fin_def stalled_send [OF assms(1)]
          split: list.splits if_splits intro!: stalled_finish [OF assms(1)])
  qed
  have "stalled log sid r fs (pump_loop api r S)"
    by (rule pump_keeps [where I = "stalled log sid r fs"]) (rule step, assumption+, rule assms(2))
  then show ?thesis using assms(2) by (simp add: pump_writes_def)
qed

lemma update_parsed:
  assumes "length sid = 16" "\<not> id_is_zero sid" "st_id h = sid"
  shows "parse_pb_stream_id (window_update_payload h c b n) = Inr sid"
    "read_all update_field (window_update_payload h c b n) ''proto''
       \<lparr>uf_consumed = None, uf_additional_bytes = None, uf_additional_frames = None\<rparr> =
     Inr \<lparr>uf_consumed = Some c, uf_additional_bytes = Some b, uf_additional_frames = Some n\<rparr>"
proof -
  have p: "window_update_payload h c b n =
      concat (map field_bytes [bytes_field 1 sid, uint_field 2 c, uint_field 3 b, uint_field 4 n])"
    by (simp add: window_update_payload_def assms(3))
  have "\<forall>f\<in>set [bytes_field 1 sid, uint_field 2 c, uint_field 3 b, uint_field 4 n]. field_wf f"
    using assms(1) by (simp add: field_wf_def)
  from read_all_encoded [OF this, of update_field "''proto''"
      "\<lparr>uf_consumed = None, uf_additional_bytes = None, uf_additional_frames = None\<rparr>"]
  show "read_all update_field (window_update_payload h c b n) ''proto''
       \<lparr>uf_consumed = None, uf_additional_bytes = None, uf_additional_frames = None\<rparr> =
     Inr \<lparr>uf_consumed = Some c, uf_additional_bytes = Some b, uf_additional_frames = Some n\<rparr>"
    unfolding p by (simp add: update_field_def)
  have "append_bytes 1 sid = [0x0A, 16] @ sid"
    using assms(1) by (simp add: append_bytes_def append_tag_def append_varint64.simps)
  then show "parse_pb_stream_id (window_update_payload h c b n) = Inr sid"
    using assms by (simp add: parse_pb_stream_id_def window_update_payload_def)
qed

lemma stalled_update:
  assumes api: "logs_frames api log" and s: "stalled log sid r fs S"
    and sid: "length sid = 16" "\<not> id_is_zero sid" "st_id h = sid"
    and u: "fr_payload u = window_update_payload h c b 0"
  shows "stalled log sid r fs (handle_window_update api u S)"
proof (cases "find_stream sid S")
  case None
  then show ?thesis using s update_parsed [OF sid] by (simp add: handle_window_update_def u)
next
  case (Some p)
  then have p: "p = r" "st_send_credit_frames (hget r S) = 0" using s by (auto simp: stalled_def)
  have "handle_window_update api u S = add_credit api r c b 0 S"
    using Some p update_parsed [OF sid] by (simp add: handle_window_update_def u)
  then show ?thesis using s p
    by (auto simp: add_credit_def Let_def intro!: stalled_reset [OF api] stalled_pump [OF api])
qed

lemma stalled_write:
  assumes api: "logs_frames api log" and s: "stalled log sid r fs S"
  shows "stalled log sid r fs (async_write api r data handler deadline now S)"
  using s by (auto simp: async_write_def Let_def intro!: stalled_deadlines [OF api] stalled_pump [OF api])

section \<open>Properties\<close>

text \<open>
  C23: the frame credit runs dry.  Consider a reader that keeps up, after a window update was sent
  when everything had been read, and the sender of its stream without frame credit.  However many
  frames are still on their way and are read, each in one read that was waiting for it, every window
  update the reader sends grants zero frames, although the whole frame window is free each time.
  Whatever of these updates reach the sender, in any order and number, and whatever its application
  writes, it never sends another DATA frame.  Either session may refuse frames.
\<close>

theorem drained_reader_starves_sender:
  fixes R :: "'t ByteStreamService" and S :: "'s ByteStreamService"
  assumes "logs_frames rapi rlog" "drained (hget q R)"
    and "st_reported_consumed_frames (hget q R) = st_receive_window_frames (hget q R)"
    and "\<forall>x\<in>set xs. fst x \<noteq> []"
    and "logs_frames api log" "find_stream (st_id (hget q R)) S = Some r"
    and "length (st_id (hget q R)) = 16" "\<not> id_is_zero (st_id (hget q R))"
    and "st_send_credit_frames (hget r S) = 0"
  shows "\<exists>us. rlog (sv_session (fold (read_frame rapi q) xs R)) = rlog (sv_session R) @ us \<and>
    (\<forall>u\<in>set us. \<exists>c b. fr_payload u = window_update_payload (hget q R) c b 0) \<and>
    (\<forall>ops. (\<forall>u. Sender_update u \<in> set ops \<longrightarrow> u \<in> set us) \<longrightarrow>
       data_frames log (fold (sender_step api r) ops S) = data_frames log S)"
proof -
  let ?sid = "st_id (hget q R)"
  obtain us where us: "rlog (sv_session (fold (read_frame rapi q) xs R)) = rlog (sv_session R) @ us"
    "\<forall>u\<in>set us. \<exists>c b. fr_payload u = window_update_payload (hget q R) c b 0"
    using reads_grant_nothing [OF assms(1-4)] by blast
  have "stalled log ?sid r (data_frames log S) (fold (sender_step api r) ops T)"
    if "\<forall>u. Sender_update u \<in> set ops \<longrightarrow> u \<in> set us" "stalled log ?sid r (data_frames log S) T" for ops T
    using that
  proof (induction ops arbitrary: T)
    case (Cons x ops)
    have "stalled log ?sid r (data_frames log S) (sender_step api r x T)"
    proof (cases x)
      case (Sender_update u)
      with Cons.prems(1) have "u \<in> set us" by simp
      with us(2) obtain c b where "fr_payload u = window_update_payload (hget q R) c b 0" by blast
      with Sender_update stalled_update [OF assms(5) Cons.prems(2) assms(7,8) refl] show ?thesis by simp
    qed (simp add: stalled_write [OF assms(5) Cons.prems(2)])
    with Cons show ?case by simp
  qed simp
  moreover have "stalled log ?sid r (data_frames log S) S" using assms(6,9) by (simp add: stalled_def)
  ultimately have "\<forall>ops. (\<forall>u. Sender_update u \<in> set ops \<longrightarrow> u \<in> set us) \<longrightarrow>
       data_frames log (fold (sender_step api r) ops S) = data_frames log S"
    unfolding stalled_def by blast
  with us show ?thesis by blast
qed

text \<open>
  A window of four octets and two frames: the first frame that is read grants two frames, and no
  later one grants any.
\<close>

definition small_window :: "Frame list ByteStreamService" where
  "small_window = hput 0 ((new_stream_handle default_stream_limits (replicate 16 7) 1 4 2)\<lparr>st_state := SS_open\<rparr>)
     (byte_stream_service [] default_stream_limits)"

lemma small_window_first:
  "hget 0 (read_frame recording 0 ([1], 3) small_window) =
     (hget 0 small_window)\<lparr>st_next_receive_offset := 1, st_consumed_through_offset := 1,
       st_reported_consumed_bytes := 1, st_reported_consumed_frames := 2\<rparr>"
  "map fr_payload (sv_session (read_frame recording 0 ([1], 3) small_window)) =
     [window_update_payload (hget 0 small_window) 1 1 2]"
proof -
  have d: "drained (hget 0 small_window)"
    by (simp add: drained_def small_window_def new_stream_handle_def default_stream_limits_def)
  show "hget 0 (read_frame recording 0 ([1], 3) small_window) =
     (hget 0 small_window)\<lparr>st_next_receive_offset := 1, st_consumed_through_offset := 1,
       st_reported_consumed_bytes := 1, st_reported_consumed_frames := 2\<rparr>"
    "map fr_payload (sv_session (read_frame recording 0 ([1], 3) small_window)) =
     [window_update_payload (hget 0 small_window) 1 1 2]"
    by (subst read_frame_eq [OF d], simp, simp add: maybe_send_window_update_def Let_def send_stream_frame_def
        recording_def small_window_def new_stream_handle_def window_update_payload_def byte_stream_service_def)+
qed

definition spent_sender :: "Frame list ByteStreamService" where
  "spent_sender = hput 0 ((new_stream_handle default_stream_limits (replicate 16 7) 1 8 2)\<lparr>st_state := SS_open\<rparr>)
     ((byte_stream_service [] default_stream_limits)\<lparr>sv_streams := [(replicate 16 7, 0)]\<rparr>)"

abbreviation (input) read_one :: "Frame list ByteStreamService" where
  "read_one \<equiv> read_frame recording 0 ([1], 3) small_window"

theorem drained_reader_starves_sender_witness:
  "\<exists>us. sv_session (fold (read_frame recording 0) [([2], 4), ([3, 4], 5), ([5], 6)] read_one) =
      sv_session read_one @ us \<and>
    (\<forall>u\<in>set us. \<exists>c b. fr_payload u = window_update_payload (hget 0 read_one) c b 0) \<and>
    (\<forall>ops. (\<forall>u. Sender_update u \<in> set ops \<longrightarrow> u \<in> set us) \<longrightarrow>
       data_frames (\<lambda>x. x) (fold (sender_step recording 0) ops spent_sender) = data_frames (\<lambda>x. x) spent_sender)"
proof (rule drained_reader_starves_sender [OF recording_logs _ _ _ recording_logs])
  show "drained (hget 0 read_one)"
    "st_reported_consumed_frames (hget 0 read_one) = st_receive_window_frames (hget 0 read_one)"
    "length (st_id (hget 0 read_one)) = 16" "\<not> id_is_zero (st_id (hget 0 read_one))"
    "find_stream (st_id (hget 0 read_one)) spent_sender = Some 0"
    unfolding small_window_first
    by (simp_all add: drained_def small_window_def spent_sender_def find_stream_def new_stream_handle_def
        default_stream_limits_def id_is_zero_iff)
  show "st_send_credit_frames (hget 0 spent_sender) = 0"
    by (simp add: spent_sender_def new_stream_handle_def)
qed simp

end
