(* ===== verification/Heyaki_Stream_Callbacks.thy ===== *)
theory Heyaki_Stream_Callbacks
  imports Heyaki_Stream_Window
begin

text \<open>
  The completions of reads and writes: every handler that an application gives to a stream is
  either still waiting on exactly one handle or was called exactly once.
\<close>

section \<open>Accounting\<close>

fun completes :: "nat \<Rightarrow> StreamEvent \<Rightarrow> bool" where
  "completes k (SE_read j data e) \<longleftrightarrow> j = k"
| "completes k (SE_write j n e) \<longleftrightarrow> j = k"
| "completes k _ \<longleftrightarrow> False"

definition completions :: "nat \<Rightarrow> StreamEvent list \<Rightarrow> nat" where
  "completions k es = length (filter (completes k) es)"

definition waiting :: "nat \<Rightarrow> ByteStreamHandle \<Rightarrow> nat" where
  "waiting k h = length (filter (\<lambda>rd. rd_handler rd = k) (st_reads h)) +
     length (filter (\<lambda>w. pw_handler w = k) (st_writes h))"

definition outstanding :: "nat \<Rightarrow> 's ByteStreamService \<Rightarrow> nat" where
  "outstanding k s = (\<Sum>r\<in>{..<sv_next_address s}. waiting k (hget r s))"

definition account :: "nat \<Rightarrow> 's ByteStreamService \<Rightarrow> nat" where
  "account k s = completions k (sv_events s) + outstanding k s"

lemma completions_simps [simp]:
  "completions k [] = 0"
  "completions k (e # es) = (if completes k e then 1 else 0) + completions k es"
  "completions k (es @ fs) = completions k es + completions k fs"
  by (simp_all add: completions_def)

lemma completions_map [simp]:
  "completions k (map (\<lambda>rd. SE_read (rd_handler rd) (f rd) (g rd)) rds) = length (filter (\<lambda>rd. rd_handler rd = k) rds)"
  "completions k (map (\<lambda>w. SE_write (pw_handler w) (m w) (n w)) ws) = length (filter (\<lambda>w. pw_handler w = k) ws)"
  by (simp_all add: completions_def filter_map comp_def)

lemma outstanding_hput:
  assumes "r < sv_next_address s"
  shows "outstanding k (hput r h s) + waiting k (hget r s) = outstanding k s + waiting k h"
proof -
  have "outstanding k s = waiting k (hget r s) + (\<Sum>q\<in>{..<sv_next_address s} - {r}. waiting k (hget q s))"
    unfolding outstanding_def using assms by (intro sum.remove) auto
  moreover have "outstanding k (hput r h s) = waiting k h + (\<Sum>q\<in>{..<sv_next_address s} - {r}. waiting k (hget q s))"
    unfolding outstanding_def hput_def using assms by (subst sum.remove [of _ r]) (auto intro!: sum.cong)
  ultimately show ?thesis by simp
qed

lemma account_hput:
  "r < sv_next_address s \<Longrightarrow> account k (hput r h s) + waiting k (hget r s) = account k s + waiting k h"
  using outstanding_hput [of r s k h] by (simp add: account_def)

lemma account_same [simp]:
  "account k (s\<lparr>sv_streams := a\<rparr>) = account k s"
  "account k (s\<lparr>sv_session := b\<rparr>) = account k s"
  "account k (s\<lparr>sv_owned_channels := c\<rparr>) = account k s"
  "account k (s\<lparr>sv_inbound_handler := i\<rparr>) = account k s"
  "account k (s\<lparr>sv_gateway_inbound_handler := i\<rparr>) = account k s"
  "account k (s\<lparr>sv_attached := i\<rparr>) = account k s"
  "account k (s\<lparr>sv_channel_id := q\<rparr>) = account k s"
  "account k (emit es s) = account k s + completions k es"
  by (simp_all add: account_def outstanding_def emit_def)

lemma next_address_same [simp]:
  "sv_next_address (hput r h s) = sv_next_address s"
  "sv_next_address (emit es s) = sv_next_address s"
  "sv_next_address (snd (send_stream_frame api c t p q s)) = sv_next_address s"
  "sv_next_address (send_reset api cid sid reason s) = sv_next_address s"
  "sv_next_address (snd (send_fin api r s)) = sv_next_address s"
  "sv_next_address (complete_write w m e s) = sv_next_address s"
  by (simp_all add: hput_def emit_def send_stream_frame_def split_beta send_reset_def send_fin_def complete_write_def)

text \<open>A part of an operation that neither submits a handler nor creates a handle.\<close>

definition settled :: "nat \<Rightarrow> 's ByteStreamService \<Rightarrow> 's ByteStreamService \<Rightarrow> bool" where
  "settled k s t \<longleftrightarrow> sv_next_address t = sv_next_address s \<and> account k t = account k s \<and>
     set (sv_streams t) \<subseteq> set (sv_streams s)"

named_theorems settled_intros

lemma settled_refl [simp]: "settled k s s"
  by (simp add: settled_def)

lemma settled_trans: "settled k s t \<Longrightarrow> settled k t u \<Longrightarrow> settled k s u"
  by (auto simp: settled_def)

lemma settled_address: "settled k s t \<Longrightarrow> sv_next_address t = sv_next_address s"
  by (simp add: settled_def)

lemma settled_send [simp]: "settled k s (snd (send_stream_frame api c t p q s))"
  by (simp add: settled_def) (simp add: send_stream_frame_def split_beta)

lemma settled_update:
  assumes "r < sv_next_address s" "completions k es + waiting k h = waiting k (hget r s)"
  shows "settled k s (emit es (hput r h s))"
  using assms account_hput [OF assms(1), of k h] by (simp add: settled_def)

lemma settled_hput: "r < sv_next_address s \<Longrightarrow> waiting k h = waiting k (hget r s) \<Longrightarrow> settled k s (hput r h s)"
  using account_hput [of r s k h] by (simp add: settled_def)

lemma settled_same:
  "settled k s (t\<lparr>sv_session := x\<rparr>) = settled k s t"
  "settled k s (t\<lparr>sv_owned_channels := y\<rparr>) = settled k s t"
  by (simp_all add: settled_def)

lemma finish_stream_settled:
  assumes "r < sv_next_address s" shows "settled k s (finish_stream api r x s)"
  using assms account_hput [OF assms, of k]
  unfolding finish_stream_def Let_def
  by (auto simp: settled_def waiting_def om_del_def)

section \<open>The operations\<close>

lemma reset_for_settled:
  assumes "r < sv_next_address s" shows "settled k s (handle_reset_frame_for api r x s)"
proof -
  have "settled k s (send_reset api cid sid x s)" for cid sid by (simp add: send_reset_def)
  then show ?thesis unfolding handle_reset_frame_for_def Let_def
    using assms by (auto intro!: settled_trans [OF _ finish_stream_settled] finish_stream_settled)
qed

lemma complete_read_settled:
  "r < sv_next_address s \<Longrightarrow> settled k s (complete_read r data e s)"
  by (auto simp: complete_read_def waiting_def intro!: settled_update split: list.split)

lemma update_settled:
  assumes "r < sv_next_address s" shows "settled k s (maybe_send_window_update api r s)"
  unfolding maybe_send_window_update_def Let_def
  by (auto split: sum.split simp: assms waiting_def intro!: settled_trans [OF settled_send settled_hput])

lemma deliver_settled:
  assumes "r < sv_next_address s" shows "settled k s (deliver_chunk r s)"
  unfolding deliver_chunk_def Let_def
  by (rule settled_trans [OF settled_hput complete_read_settled]) (auto simp: assms waiting_def)

lemma dispatch_settled:
  assumes "r < sv_next_address s" shows "settled k s (try_dispatch_reads api r s)"
proof -
  have "settled k s t'" if t: "settled k s t" and round: "dispatch_round api r t = Some t'" for t t'
  proof -
    have r: "r < sv_next_address t" using t assms by (simp add: settled_address)
    have "settled k t (maybe_send_window_update api r (deliver_chunk r t))"
      by (rule settled_trans [OF deliver_settled [OF r] update_settled])
         (simp add: settled_address [OF deliver_settled [OF r]] r)
    moreover have "settled k t (finish_stream api r SS_closed (complete_read r [] None t))"
      by (rule settled_trans [OF complete_read_settled [OF r] finish_stream_settled])
         (simp add: settled_address [OF complete_read_settled [OF r]] r)
    ultimately have "settled k t t'" using round complete_read_settled [OF r]
      by (auto simp: dispatch_round_def Let_def split: if_splits)
    with t show ?thesis by (rule settled_trans)
  qed
  then show ?thesis by (rule dispatch_keeps [where I = "settled k s"]) simp_all
qed

lemma write_round_settled:
  assumes r: "r < sv_next_address s" and round: "write_round api r s = (go, t)"
  shows "settled k s t"
proof (cases "st_writes (hget r s)")
  case Nil
  then show ?thesis using round by (simp add: write_round_def)
next
  case (Cons w ws)
  let ?h = "hget r s"
  have completed: "settled k s (hput r (?h\<lparr>st_writes := ws\<rparr>) (complete_write w n e s'))"
    if "settled k s s'" "sv_handles s' = sv_handles s" for n e s'
    using that Cons r unfolding complete_write_def hput_emit
    by (intro settled_trans [OF that(1)] settled_update) (auto simp: waiting_def settled_address)
  have fin: "settled k s (snd (send_fin api r s'))" if "settled k s s'" for s'
    unfolding send_fin_def by (rule settled_trans [OF that settled_send])
  have sent: "settled k s (hput r (charge_chunk c ?h) (snd (send_stream_frame api a b d e s)))" for a b c d e
    by (rule settled_trans [OF settled_send settled_hput]) (simp_all add: r Cons charge_chunk_def waiting_def)
  show ?thesis
    using round completed [of s] completed [of "snd (send_stream_frame api a b c d s)" for a b c d] fin sent r Cons
    unfolding write_round_def Let_def
    by (auto split: if_splits sum.splits simp: settled_address
        intro!: settled_trans [OF _ finish_stream_settled] settled_trans [OF _ reset_for_settled])
qed

lemma pump_settled:
  assumes "r < sv_next_address s" shows "settled k s (pump_writes api r s)"
proof -
  have "settled k s t'" if "settled k s t" "write_round api r t = (go, t')" for t go t'
    using that assms settled_trans [OF that(1) write_round_settled [OF _ that(2)]] by (simp add: settled_address)
  then have "settled k s (pump_loop api r s)" by (rule pump_keeps [where I = "settled k s"]) simp_all
  then show ?thesis by (simp add: pump_writes_def)
qed

text \<open>The addresses in the map are those of handles.\<close>

definition addresses_ok :: "'s ByteStreamService \<Rightarrow> bool" where
  "addresses_ok s \<longleftrightarrow> (\<forall>e\<in>set (sv_streams s). snd e < sv_next_address s)"

lemma addresses_same [simp]:
  "addresses_ok (s\<lparr>sv_session := b\<rparr>) = addresses_ok s"
  "addresses_ok (s\<lparr>sv_owned_channels := c\<rparr>) = addresses_ok s"
  "addresses_ok (s\<lparr>sv_inbound_handler := i\<rparr>) = addresses_ok s"
  "addresses_ok (s\<lparr>sv_gateway_inbound_handler := i\<rparr>) = addresses_ok s"
  "addresses_ok (s\<lparr>sv_attached := i\<rparr>) = addresses_ok s"
  "addresses_ok (s\<lparr>sv_channel_id := q\<rparr>) = addresses_ok s"
  by (simp_all add: addresses_ok_def)

lemma addresses_settled: "settled k s t \<Longrightarrow> addresses_ok s \<Longrightarrow> addresses_ok t"
  by (auto simp: settled_def addresses_ok_def)

lemma find_address: "addresses_ok s \<Longrightarrow> find_stream sid s = Some r \<Longrightarrow> r < sv_next_address s"
  by (auto simp: addresses_ok_def find_stream_def dest!: map_of_SomeD)

lemma fold_settled:
  assumes "\<And>x t. x \<in> set xs \<Longrightarrow> settled k s t \<Longrightarrow> settled k t (f x t)"
  shows "settled k s (fold f xs s)"
proof -
  have "settled k s (fold f xs t)" if "settled k s t" for t
    using assms that
  proof (induction xs arbitrary: t)
    case (Cons x xs)
    then have "settled k s (f x t)" using settled_trans [of k s t] by simp
    with Cons show ?case by simp
  qed simp
  then show ?thesis by simp
qed

lemma filter_handlers: "length (filter P xs) = length (filter P (filter Q xs)) + length (filter P (filter (\<lambda>x. \<not> Q x) xs))"
  by (induction xs) auto

lemma sweep_settled: "r < sv_next_address s \<Longrightarrow> settled k s (sweep_handle now r s)"
  unfolding sweep_handle_def Let_def
  by (intro settled_update)
     (auto simp: waiting_def filter_handlers [of "\<lambda>rd. rd_handler rd = k" _ "\<lambda>rd. expired now (rd_deadline rd)"]
        filter_handlers [of "\<lambda>w. pw_handler w = k" _ "\<lambda>w. expired now (pw_deadline w)"])

lemma check_deadlines_settled:
  assumes "addresses_ok s" shows "settled k s (check_deadlines api now s)"
proof -
  have r: "(i, r) \<in> set (sv_streams s) \<Longrightarrow> r < sv_next_address s" for i r
    using assms by (auto simp: addresses_ok_def)
  have sweep: "settled k s (fold (sweep_handle now) (map snd (sv_streams s)) s)" (is "settled k s ?s1")
    by (rule fold_settled) (auto simp: settled_address intro!: sweep_settled intro: r)
  show ?thesis unfolding check_deadlines_def Let_def
    by (rule settled_trans [OF sweep fold_settled])
       (auto simp: settled_address settled_address [OF sweep] intro!: reset_for_settled intro: r)
qed

lemma fail_handle_settled: "r < sv_next_address s \<Longrightarrow> settled k s (fail_handle e r s)"
  unfolding fail_handle_def Let_def by (intro settled_update) (auto simp: waiting_def)

lemma fail_all_settled:
  assumes "addresses_ok s" shows "settled k s (fail_all e s)"
proof -
  have r: "(i, r) \<in> set (sv_streams s) \<Longrightarrow> r < sv_next_address s" for i r
    using assms by (auto simp: addresses_ok_def)
  have "settled k s (fold (fail_handle e) (map snd (sv_streams s)) s)"
    by (rule fold_settled) (auto simp: settled_address intro!: fail_handle_settled intro: r)
  then show ?thesis by (simp add: fail_all_def settled_def)
qed

section \<open>Frames\<close>

lemma waiting_upd [simp]:
  "waiting k (h\<lparr>st_state := x1\<rparr>) = waiting k h"
  "waiting k (h\<lparr>st_gateway_prelude := x2\<rparr>) = waiting k h"
  "waiting k (h\<lparr>st_gateway_prelude_pending := x3\<rparr>) = waiting k h"
  "waiting k (h\<lparr>st_gateway_connected_fired := x4\<rparr>) = waiting k h"
  "waiting k (h\<lparr>st_gateway_connected_handler := x5\<rparr>) = waiting k h"
  "waiting k (h\<lparr>st_fin_sent := x6\<rparr>) = waiting k h"
  "waiting k (h\<lparr>st_fin_received := x7\<rparr>) = waiting k h"
  "waiting k (h\<lparr>st_final_receive_offset := x8\<rparr>) = waiting k h"
  "waiting k (h\<lparr>st_reset_reason := x9\<rparr>) = waiting k h"
  "waiting k (h\<lparr>st_send_credit_bytes := y1\<rparr>) = waiting k h"
  "waiting k (h\<lparr>st_send_credit_frames := y2\<rparr>) = waiting k h"
  "waiting k (h\<lparr>st_send_consumed_by_peer := y4\<rparr>) = waiting k h"
  "waiting k (h\<lparr>st_gateway := y5\<rparr>) = waiting k h"
  "waiting k (h\<lparr>st_gateway_initiator := y6\<rparr>) = waiting k h"
  "waiting k (h\<lparr>st_gateway_dial_deadline := y7\<rparr>) = waiting k h"
  "waiting k (charge_data data h) = waiting k h"
  "waiting k (queue_data data h) = waiting k h"
  "waiting k (new_stream_handle limits sid cid wb w) = 0"
  by (simp_all add: waiting_def charge_data_def queue_data_def new_stream_handle_def)

lemma take_prelude_settled:
  assumes "r < sv_next_address s" "take_prelude r data s = (x, t)" shows "settled k s t"
  using assms unfolding take_prelude_def Let_def
  by (auto split: if_splits sum.splits intro!: settled_update settled_hput)

lemma accept_data_settled:
  assumes r: "r < sv_next_address s" shows "settled k s (accept_data api r data s)"
proof -
  let ?s = "hput r (charge_data data (hget r s)) s"
  obtain x t where t: "take_prelude r data ?s = (x, t)" by fastforce
  have st: "settled k s t"
    by (rule settled_trans [OF settled_hput take_prelude_settled [OF _ t]]) (simp_all add: r)
  then have rt: "r < sv_next_address t" using r by (simp add: settled_address)
  let ?u = "\<lambda>d. try_dispatch_reads api r (hput r (queue_data d (hget r t)) t)"
  have u: "settled k s (?u d)" for d
    by (intro settled_trans [OF st] settled_trans [OF settled_hput dispatch_settled]) (simp_all add: rt)
  have "settled k s (finish_stream api r x (?u d))" for x d
    by (rule settled_trans [OF u finish_stream_settled]) (simp add: settled_address [OF u] r)
  moreover have "settled k s (handle_reset_frame_for api r x t)" for x
    by (rule settled_trans [OF st reset_for_settled [OF rt]])
  ultimately show ?thesis using u t
    by (simp add: accept_data_def end_if_drained_def Let_def split: option.split)
qed

lemma handle_data_settled:
  assumes "addresses_ok s" "handle_data api frame s = Some t" shows "settled k s t"
proof -
  have "\<forall>sid. parse_stream_id (fr_payload frame) = Inr sid \<longrightarrow> find_stream sid s = None \<Longrightarrow> t = s"
    using assms(2) by (auto simp: handle_data_def Let_def split: sum.splits option.splits)
  moreover have ?thesis if "parse_stream_id (fr_payload frame) = Inr sid" "find_stream sid s = Some r" for sid r
    using assms(2) that find_address [OF assms(1) that(2)] reset_for_settled [of r s k api] accept_data_settled [of r s k api]
    unfolding handle_data_def Let_def by (auto split: option.splits if_splits)
  ultimately show ?thesis by fastforce
qed

lemma window_update_settled:
  assumes "addresses_ok s" shows "settled k s (handle_window_update api frame s)"
proof -
  have "settled k s (add_credit api r a b c s)" if r: "r < sv_next_address s" for r a b c
  proof -
    have "settled k s (handle_reset_frame_for api r x (hput r h s))" if "waiting k h = waiting k (hget r s)" for h x
      by (rule settled_trans [OF settled_hput reset_for_settled]) (simp_all add: r that)
    moreover have "settled k s (pump_writes api r (hput r h s))" if "waiting k h = waiting k (hget r s)" for h
      by (rule settled_trans [OF settled_hput pump_settled]) (simp_all add: r that)
    ultimately show ?thesis unfolding add_credit_def Let_def using r by (simp add: reset_for_settled)
  qed
  then show ?thesis using find_address [OF assms] unfolding handle_window_update_def
    by (auto split: sum.split option.split)
qed

lemma fin_settled:
  assumes "addresses_ok s" shows "settled k s (handle_fin api frame s)"
proof -
  have d: "settled k s (try_dispatch_reads api r (hput r h s))"
    if "r < sv_next_address s" "waiting k h = waiting k (hget r s)" for r h
    by (rule settled_trans [OF settled_hput dispatch_settled]) (simp_all add: that)
  have "settled k s (finish_stream api r x (try_dispatch_reads api r (hput r h s)))"
    if "r < sv_next_address s" "waiting k h = waiting k (hget r s)" for r h x
    by (rule settled_trans [OF d finish_stream_settled]) (use that in \<open>simp_all add: settled_address [OF d]\<close>)
  moreover have "settled k s (handle_reset_frame_for api r x (hput r h s))"
    if "r < sv_next_address s" "waiting k h = waiting k (hget r s)" for r h x
    by (rule settled_trans [OF settled_hput reset_for_settled]) (simp_all add: that)
  ultimately show ?thesis using find_address [OF assms] d unfolding handle_fin_def Let_def end_if_drained_def
    by (auto split: sum.split option.split)
qed

lemma reset_settled:
  assumes "addresses_ok s" shows "settled k s (handle_reset api frame s)"
proof -
  have "settled k s (finish_stream api r x (hput r h s))"
    if "r < sv_next_address s" "waiting k h = waiting k (hget r s)" for r h x
    by (rule settled_trans [OF settled_hput finish_stream_settled]) (simp_all add: that)
  then show ?thesis using find_address [OF assms] unfolding handle_reset_def Let_def
    by (auto split: sum.split option.split)
qed

section \<open>New handles and submissions\<close>

text \<open>An operation that submits \<open>n\<close> handlers \<open>k\<close>.\<close>

definition submits :: "nat \<Rightarrow> nat \<Rightarrow> 's ByteStreamService \<Rightarrow> 's ByteStreamService \<Rightarrow> bool" where
  "submits k n s t \<longleftrightarrow> account k t = account k s + n \<and> (addresses_ok s \<longrightarrow> addresses_ok t)"

lemma submits_settled: "settled k s t \<Longrightarrow> submits k 0 s t"
  using addresses_settled [of k s t] by (simp add: submits_def settled_def)

lemma submits_refl [simp]: "submits k 0 s s"
  by (simp add: submits_def)

lemma submits_then: "submits k n s t \<Longrightarrow> settled k t u \<Longrightarrow> submits k n s u"
  using addresses_settled [of k t u] by (auto simp: submits_def settled_def)

lemma submits_trans0: "submits k 0 s t \<Longrightarrow> submits k 0 t u \<Longrightarrow> submits k 0 s u"
  by (auto simp: submits_def)

lemma submits_same [simp]:
  "submits k n s (t\<lparr>sv_session := x\<rparr>) = submits k n s t"
  "submits k n s (t\<lparr>sv_owned_channels := y\<rparr>) = submits k n s t"
  "submits k n (s\<lparr>sv_session := x\<rparr>) t = submits k n s t"
  "submits k n (s\<lparr>sv_owned_channels := y\<rparr>) t = submits k n s t"
  by (simp_all add: submits_def addresses_ok_def)

lemma submits_alloc:
  assumes "alloc_handle h s = (r, t)" "waiting k h = 0"
  shows "submits k 0 s t" "r < sv_next_address t" "hget r t = h"
proof -
  have "outstanding k t = outstanding k s + waiting k h"
    using assms(1) by (auto simp: alloc_handle_def outstanding_def hput_def lessThan_Suc intro!: sum.cong)
  then show "submits k 0 s t" using assms
    by (auto simp: submits_def account_def alloc_handle_def addresses_ok_def) (auto simp: hput_def less_Suc_eq)
  show "r < sv_next_address t" "hget r t = h" using assms(1) by (auto simp: alloc_handle_def)
qed

lemma set_om_put_subset: "set (om_put i r m) \<subseteq> insert (i, r) (set m)"
  by (auto simp: om_put_def dest: set_takeWhileD set_dropWhileD)

lemma submits_emplace: "r < sv_next_address s \<Longrightarrow> submits k 0 s (emplace_stream r s)"
  using set_om_put_subset [of "st_id (hget r s)" r "sv_streams s"]
  by (auto simp: submits_def emplace_stream_def addresses_ok_def)

lemma emplace_address [simp]: "sv_next_address (emplace_stream r s) = sv_next_address s"
  by (simp add: emplace_stream_def)

lemma grant_settled: "settled k s (grant_initial_credit api r s)"
  by (simp add: grant_initial_credit_def Let_def)

lemma accept_stream_submits:
  assumes "accept_stream api sid cid wb w g s = (x, t)"
  shows "submits k 0 s t \<and> (\<forall>r. x = Some r \<longrightarrow> r < sv_next_address t)"
proof -
  have new: "submits k 0 s (grant_initial_credit api r (emplace_stream r t1)) \<and>
      r < sv_next_address (grant_initial_credit api r (emplace_stream r t1))"
    if "alloc_handle h s1 = (r, t1)" "waiting k h = 0" "submits k 0 s s1" for h s1 r t1
  proof -
    note alloc = submits_alloc [OF that(1,2)]
    have "submits k 0 s (emplace_stream r t1)"
      by (rule submits_trans0 [OF submits_trans0 [OF that(3) alloc(1)] submits_emplace [OF alloc(2)]])
    then show ?thesis using submits_then [OF _ grant_settled] settled_address [OF grant_settled] alloc(2)
      by (metis emplace_address)
  qed
  show ?thesis using assms unfolding accept_stream_def Let_def
    by (auto split: if_splits sum.splits prod.splits dest!: new)
qed

lemma drop_unconsumed_settled: "r < sv_next_address s \<Longrightarrow> settled k s (drop_unconsumed api r x s)"
  unfolding drop_unconsumed_def Let_def send_reset_def
  by (rule settled_trans [OF _ settled_send])
     (use account_hput [of r s k "(hget r s)\<lparr>st_state := SS_reset\<rparr>"] in \<open>auto simp: settled_def om_del_def\<close>)

lemma send_reset_settled [simp]: "settled k s (send_reset api cid sid x s)"
  by (simp add: send_reset_def)

lemma emit_submits [simp]: "completions k es = 0 \<Longrightarrow> submits k n s (emit es t) = submits k n s t"
  by (simp add: submits_def addresses_ok_def)

lemma handle_open_submits:
  assumes "addresses_ok s" shows "submits k 0 s (handle_open api frame cid s)"
proof -
  have accepted: "submits k 0 s t \<and> submits k 0 s (drop_unconsumed api r x t)"
    if "accept_stream api sid cid wb w g s = (Some r, t)" for sid wb w g r t x
    using accept_stream_submits [OF that, of k] submits_then [OF _ drop_unconsumed_settled] by blast
  have refused: "submits k 0 s t" if "accept_stream api sid cid wb w g s = (None, t)" for sid wb w g t
    using accept_stream_submits [OF that, of k] by blast
  have plain: "submits k 0 s (handle_plain_open api sid cid wb w s)" for sid wb w
    unfolding handle_plain_open_def
    by (auto split: prod.split option.split simp: submits_settled dest: accepted refused)
  have gateway: "submits k 0 s (handle_gateway_open api sid cid wb w body s)" for sid wb w body
    unfolding handle_gateway_open_def Let_def
    by (auto split: prod.split option.split sum.split simp: submits_settled dest: accepted refused)
  show ?thesis unfolding handle_open_def using plain gateway find_address [OF assms]
    by (auto split: sum.split option.split intro!: submits_settled reset_for_settled)
qed

lemma sent_open_settled:
  "send_stream_open api r g s = (x, t) \<Longrightarrow> settled k s t"
proof -
  have "settled k s (snd (send_stream_open api r g s))"
    by (simp add: send_stream_open_def Let_def split: option.split sum.split)
  then show "send_stream_open api r g s = (x, t) \<Longrightarrow> settled k s t" by simp
qed

lemma open_stream_submits: "submits k 0 s (snd (open_stream api sid wb w s))"
proof -
  obtain r s1 where alloc: "alloc_handle (new_stream_handle (sv_limits s) sid (the (sv_channel_id s)) wb w) s = (r, s1)"
    by fastforce
  note a = submits_alloc [OF alloc, of k, simplified]
  have "submits k 0 s t \<and> submits k 0 s (emplace_stream r (hput r ((hget r t)\<lparr>st_state := SS_open\<rparr>) t))"
    if "send_stream_open api r None s1 = (x, t)" for x t
  proof -
    note st = sent_open_settled [OF that, of k]
    have r: "r < sv_next_address t" using st a(2) by (simp add: settled_address)
    have t: "submits k 0 s t" by (rule submits_then [OF a(1) st])
    moreover have "submits k 0 s (hput r ((hget r t)\<lparr>st_state := SS_open\<rparr>) t)"
      by (rule submits_then [OF t settled_hput]) (simp_all add: r)
    from submits_trans0 [OF this submits_emplace] r show ?thesis using t by simp
  qed
  then show ?thesis unfolding open_stream_def alloc Let_def by (auto split: prod.split sum.split)
qed

lemma open_gateway_stream_submits: "submits k 0 s (snd (open_gateway_stream api sid target wb w d j s))"
proof -
  have new: "submits k 0 s t \<and> submits k 0 s (emplace_stream r t)"
    if "alloc_handle h (s\<lparr>sv_session := a, sv_owned_channels := b\<rparr>) = (r, s2)" "waiting k h = 0"
      "send_stream_open api r g s2 = (x, t)" for h a b r s2 g x t
  proof -
    note al = submits_alloc [OF that(1,2), simplified] and st = sent_open_settled [OF that(3), of k]
    have t: "submits k 0 s t" by (rule submits_then [OF al(1) st])
    moreover have "r < sv_next_address t" using st al(2) by (simp add: settled_address)
    ultimately show ?thesis using submits_trans0 [OF t submits_emplace] by blast
  qed
  show ?thesis unfolding open_gateway_stream_def Let_def
    by (auto split: prod.split sum.split dest!: new)
qed

lemma submits_push:
  assumes "r < sv_next_address s" "waiting k h = waiting k (hget r s) + n"
  shows "submits k n s (hput r h s)"
  using account_hput [OF assms(1), of k h] assms by (simp add: submits_def addresses_ok_def)

lemma submits_event: "completions k es = n \<Longrightarrow> submits k n s (emit es s)"
  by (simp add: submits_def addresses_ok_def)

lemma read_submits:
  assumes "r < sv_next_address s"
  shows "submits k (if j = k then 1 else 0) s (async_read_some api r n j d s)"
  unfolding async_read_some_def Let_def
  by (auto intro!: submits_event submits_then [OF submits_push dispatch_settled] simp: assms waiting_def)

lemma write_submits:
  assumes r: "r < sv_next_address s" and a: "addresses_ok s"
  shows "submits k (if j = k then 1 else 0) s (async_write api r data j d now s)"
proof -
  have push: "submits k m s (check_deadlines api now (pump_writes api r (hput r h s)))"
    if "waiting k h = waiting k (hget r s) + m" for h m
  proof -
    have "submits k m s (pump_writes api r (hput r h s))" (is "submits _ _ _ ?t")
      by (rule submits_then [OF submits_push [OF r that] pump_settled]) (simp add: r)
    moreover from this a have "addresses_ok ?t" by (simp add: submits_def)
    ultimately show ?thesis by (intro submits_then [OF _ check_deadlines_settled])
  qed
  show ?thesis unfolding async_write_def Let_def
    by (auto intro!: submits_event push simp: waiting_def)
qed

lemma shutdown_settled:
  assumes r: "r < sv_next_address s" shows "settled k s (snd (shutdown_write api r s))"
proof (cases "st_writes (hget r s)" rule: rev_cases)
  case Nil
  let ?s = "hput r ((hget r s)\<lparr>st_fin_sent := True\<rparr>) s"
  have s1: "settled k s (snd (send_fin api r ?s))"
    unfolding send_fin_def by (rule settled_trans [OF settled_hput settled_send]) (simp_all add: r)
  have "settled k s (finish_stream api r x (snd (send_fin api r ?s)))" for x
    by (rule settled_trans [OF s1 finish_stream_settled]) (simp add: r)
  with s1 Nil show ?thesis unfolding shutdown_write_def Let_def
    by (cases "send_fin api r ?s") (auto split: sum.split)
next
  case (snoc ws w)
  then show ?thesis unfolding shutdown_write_def Let_def
    by (auto intro!: settled_hput simp: r waiting_def)
qed

section \<open>Sequences of calls\<close>

fun submitted :: "nat \<Rightarrow> StreamOp \<Rightarrow> 's ByteStreamService \<Rightarrow> nat" where
  "submitted k (Op_read r n j d) s = (if r < sv_next_address s \<and> j = k then 1 else 0)"
| "submitted k (Op_write r data j d now) s = (if r < sv_next_address s \<and> j = k then 1 else 0)"
| "submitted k _ s = 0"

primrec total_submitted :: "'s SessionApi \<Rightarrow> nat \<Rightarrow> StreamOp list \<Rightarrow> 's ByteStreamService \<Rightarrow> nat" where
  "total_submitted api k [] s = 0"
| "total_submitted api k (x # xs) s = submitted k x s +
     (case stream_call api x s of None \<Rightarrow> 0 | Some t \<Rightarrow> total_submitted api k xs t)"

lemma admit_submits:
  assumes "addresses_ok s" "admit_frame api now frame s = Some (x, t)" shows "submits k 0 s t"
proof -
  let ?s = "check_deadlines api now s"
  have s1: "settled k s ?s" by (rule check_deadlines_settled [OF assms(1)])
  then have a: "addresses_ok ?s" using assms(1) by (rule addresses_settled)
  have "submits k 0 s ?s" by (rule submits_settled [OF s1])
  moreover have "submits k 0 ?s t" using assms(2) a unfolding admit_frame_def Let_def
    by (auto split: if_splits intro: handle_open_submits submits_settled handle_data_settled
        window_update_settled fin_settled reset_settled)
  ultimately show ?thesis by (rule submits_trans0)
qed

lemma call_submits:
  assumes a: "addresses_ok s" and c: "stream_call api x s = Some t"
  shows "submits k (submitted k x s) s t"
proof (cases x)
  case (Op_read r n j d)
  then show ?thesis using c read_submits [of r s k j api n d] by (auto split: if_splits)
next
  case (Op_write r data j d now)
  then show ?thesis using c write_submits [of r s k j api data d now] a by (auto split: if_splits)
next
  case Op_attach
  then show ?thesis using c by (auto simp: attach_def submits_def split: sum.splits prod.splits)
next
  case (Op_set_inbound b)
  then show ?thesis using c by (auto simp: submits_def)
next
  case (Op_set_gateway_inbound b)
  then show ?thesis using c by (auto simp: submits_def)
next
  case (Op_frame now frame)
  then show ?thesis using c admit_submits [OF a, of api now frame] by auto
qed (use c a in \<open>auto simp: stream_reset_def split: if_splits
    intro: submits_settled shutdown_settled reset_for_settled check_deadlines_settled fail_all_settled
      open_stream_submits open_gateway_stream_submits\<close>)

lemma run_submits:
  assumes "addresses_ok s" "run (stream_step api) calls (Some s) = Some t"
  shows "account k t = account k s + total_submitted api k calls s"
  using assms
proof (induction calls arbitrary: s)
  case (Cons x xs)
  have dead: "run (stream_step api) ys None = None" for ys by (induction ys) (simp_all add: run_def stream_step_def)
  have step: "stream_step api x (Some s) = stream_call api x s" by (simp add: stream_step_def)
  obtain u where u: "stream_call api x s = Some u"
    using Cons.prems(2) dead by (cases "stream_call api x s") (auto simp: step)
  from call_submits [OF Cons.prems(1) u, of k] have "account k u = account k s + submitted k x s" "addresses_ok u"
    using Cons.prems(1) by (auto simp: submits_def)
  moreover have "run (stream_step api) xs (Some u) = Some t"
    using Cons.prems(2) u by (simp add: step)
  ultimately show ?case using Cons.IH [of u] u by simp
qed (simp add: run_def)

section \<open>Properties\<close>

text \<open>
  C6: completions.  After any calls of the application and any frames of the peer, every handler that
  was given with a read or a write was either called exactly once or still waits on exactly one
  stream: the calls made to a handler and the reads and writes waiting with it add up to the times
  it was submitted.  No error, reset, deadline, end of stream or loss of the session loses a
  completion or reports one twice.
\<close>

theorem stream_completions_exact:
  assumes "run (stream_step api) calls (Some (byte_stream_service sess limits)) = Some s"
  shows "completions k (sv_events s) + (\<Sum>r\<in>{..<sv_next_address s}. waiting k (hget r s)) =
    total_submitted api k calls (byte_stream_service sess limits)"
proof -
  have "addresses_ok (byte_stream_service sess limits)" "account k (byte_stream_service sess limits) = 0"
    by (simp_all add: addresses_ok_def account_def outstanding_def byte_stream_service_def)
  with run_submits [OF _ assms, of k] show ?thesis by (simp add: account_def outstanding_def)
qed

text \<open>A read that waits when the session is lost is completed once, with the error.\<close>

theorem stream_completions_exact_witness:
  "\<exists>s. run (stream_step recording) [Op_attach, Op_open (replicate 16 7) 4 2, Op_read 0 8 1 None,
        Op_fail_all (stream_error EC_cancelled ''session_lost'')]
      (Some (byte_stream_service [] default_stream_limits)) = Some s \<and>
    completions 1 (sv_events s) + (\<Sum>r\<in>{..<sv_next_address s}. waiting 1 (hget r s)) = 1"
proof -
  let ?s0 = "byte_stream_service [] default_stream_limits"
  let ?calls = "[Op_attach, Op_open (replicate 16 7) 4 2, Op_read 0 8 1 None,
        Op_fail_all (stream_error EC_cancelled ''session_lost'')]"
  obtain s where s: "run (stream_step recording) ?calls (Some ?s0) = Some s"
    by (simp add: run_def stream_step_def)
  have "total_submitted recording 1 ?calls ?s0 = 1"
    by (simp add: attach_def open_stream_def byte_stream_service_def default_stream_limits_def
        validate_byte_stream_limits_def recording_def alloc_handle_def send_stream_open_def send_stream_frame_def
        emplace_stream_def hput_def new_stream_handle_def Let_def)
  with stream_completions_exact [OF s, of 1] s show ?thesis by auto
qed

end
