(* ===== verification/Heyaki_Session.thy ===== *)
theory Heyaki_Session
  imports Heyaki_Byte_Stream Heyaki_Scheduler
begin

text \<open>
  The business side of a peer session, \<open>peer_session.cpp\<close>: the gate before authorization, logical
  channels over physical ones, the pump that drains the scheduler into the transport, and the
  dispatch of inbound business frames.

  The transport is an interface: each call gives a result and a new transport, and a physical
  channel is a number.  The completion of an open is a call of its own,
  \<open>physical_channel_opened\<close>.  Handlers are functions on the session, which they may call.  Of the
  control channel's protocol (hello, pairing, ping, restart) the model has what it does to this
  state: it takes a control channel, sends frames by \<open>enqueue_control_frame\<close>, moves the session to
  another phase and fails it; when it does so is left open.  The connection timeline is a
  component of its own.
\<close>

datatype PeerSessionState =
  PS_idle | PS_authenticating | PS_pairing_restricted | PS_authenticated | PS_active | PS_closed

datatype ChannelKind =
  CK_control | CK_pairing | CK_message | CK_rpc | CK_event | CK_file | CK_shell | CK_stream

datatype CloseReason =
  CR_local_shutdown | CR_peer_closed | CR_transport_failed | CR_signaling_lost | CR_timeout |
  CR_cancelled | CR_protocol_error

datatype ChannelPriority = CP_interactive | CP_standard | CP_bulk

text \<open>The calls on the transport; the last two components of an open are the size limits.\<close>

record 't TransportApi =
  ta_send :: "nat \<Rightarrow> bytes \<Rightarrow> 't \<Rightarrow> unit result \<times> 't"
  ta_open :: "ChannelDomain \<Rightarrow> ChannelPriority \<times> nat \<times> nat \<Rightarrow> 't \<Rightarrow> 't"
  ta_close_channel :: "nat \<Rightarrow> CloseReason \<Rightarrow> 't \<Rightarrow> 't"
  ta_close :: "CloseReason \<Rightarrow> 't \<Rightarrow> 't"

record 't PeerSession =
  ps_state :: PeerSessionState
  ps_basic_communication :: bool
  ps_initiator :: bool
  ps_initiator_owned :: "ChannelDomain set"
  ps_negotiated :: CapabilitySet
  ps_limits :: Limits
  ps_channels :: SessionChannelManager
  ps_control :: "nat option"
  ps_physical :: "ChannelDomain \<rightharpoonup> nat"
  ps_opening :: "ChannelDomain set"
  ps_channel_handlers :: "(u32, nat) omap"
  ps_domain_handlers :: "ChannelDomain \<rightharpoonup> nat"
  ps_rejected :: u64
  ps_violations :: u64
  ps_last_error :: "Error option"
  ps_transport :: 't
  ps_notified :: "PeerSessionState list"

text \<open>\<open>ps_notified\<close> records the state at each call of the observer.\<close>

definition notify :: "'t PeerSession \<Rightarrow> 't PeerSession" where
  "notify s = s\<lparr>ps_notified := ps_notified s @ [ps_state s]\<rparr>"

abbreviation (input) session_error :: "ErrorCode \<Rightarrow> string \<Rightarrow> Error" where
  "session_error code detail \<equiv> err code ''peer_session'' detail"

fun physical_domain_for_kind :: "ChannelKind \<Rightarrow> ChannelDomain option" where
  "physical_domain_for_kind CK_control = Some CD_control"
| "physical_domain_for_kind CK_message = Some CD_message"
| "physical_domain_for_kind CK_rpc = Some CD_rpc"
| "physical_domain_for_kind CK_event = Some CD_event"
| "physical_domain_for_kind CK_file = Some CD_file"
| "physical_domain_for_kind CK_shell = Some CD_shell"
| "physical_domain_for_kind CK_stream = Some CD_stream"
| "physical_domain_for_kind CK_pairing = None"

fun capability_for_domain :: "ChannelDomain \<Rightarrow> Capability" where
  "capability_for_domain CD_control = Cap_session"
| "capability_for_domain CD_message = Cap_message"
| "capability_for_domain CD_rpc = Cap_unary_rpc"
| "capability_for_domain CD_event = Cap_event"
| "capability_for_domain CD_file = Cap_file"
| "capability_for_domain CD_shell = Cap_shell"
| "capability_for_domain CD_stream = Cap_byte_stream"

definition authenticated :: "'t PeerSession \<Rightarrow> bool" where
  "authenticated s \<longleftrightarrow> ps_state s = PS_authenticated \<or> ps_state s = PS_active"

definition basic_domain_allowed :: "'t PeerSession \<Rightarrow> ChannelDomain \<Rightarrow> bool" where
  "basic_domain_allowed s domain \<longleftrightarrow>
    (if \<not> ps_basic_communication s \<or> authenticated s then False
     else domain = CD_message \<or> domain = CD_file)"

definition session_fail :: "'t TransportApi \<Rightarrow> Error \<Rightarrow> 't PeerSession \<Rightarrow> 't PeerSession" where
  "session_fail api e s =
    (let s1 = notify (s\<lparr>ps_last_error := Some e, ps_state := PS_closed\<rparr>)
     in s1\<lparr>ps_transport := ta_close api CR_protocol_error (ps_transport s1)\<rparr>)"

definition note_business_violation :: "'t TransportApi \<Rightarrow> nat \<Rightarrow> 't PeerSession \<Rightarrow> 't PeerSession" where
  "note_business_violation api channel s =
    (let s1 = notify (s\<lparr>ps_rejected := ps_rejected s + 1, ps_violations := ps_violations s + 1\<rparr>)
     in if ps_violations s1 \<ge> 2 then
          session_fail api (session_error EC_permission ''business_frames_not_authorized'') s1
        else s1\<lparr>ps_transport := ta_close_channel api channel CR_protocol_error (ps_transport s1)\<rparr>)"

section \<open>Physical channels and the pump\<close>

fun channel_options :: "ChannelDomain \<Rightarrow> ChannelPriority \<times> nat \<times> nat" where
  "channel_options CD_file = (CP_bulk, 1048576, 1048576)"
| "channel_options CD_stream = (CP_bulk, 1048576, 1048576)"
| "channel_options CD_shell = (CP_interactive, 131072, 262144)"
| "channel_options _ = (CP_standard, 262144, 1048576)"

definition ensure_physical_channel :: "'t TransportApi \<Rightarrow> ChannelDomain \<Rightarrow> 't PeerSession \<Rightarrow> 't PeerSession" where
  "ensure_physical_channel api domain s =
    (if domain = CD_control \<or> ps_physical s domain \<noteq> None then s
     else if domain \<in> ps_opening s then s
     else if \<not> ps_initiator s \<and> domain \<in> ps_initiator_owned s then s
     else s\<lparr>ps_opening := insert domain (ps_opening s),
            ps_transport := ta_open api domain (channel_options domain) (ps_transport s)\<rparr>)"

definition queue_total :: "SessionChannelManager \<Rightarrow> nat" where
  "queue_total m = sum_list (map (\<lambda>k. length (cm_queues m k)) frame_classes)"

text \<open>The physical channel of a queued frame; the outer \<open>None\<close>: its type belongs to no domain.\<close>

definition frame_physical :: "QueuedSendFrame \<Rightarrow> 't PeerSession \<Rightarrow> nat option option" where
  "frame_physical q s =
    (if qs_frame_class q = FC_control \<and> is_control_domain_frame_type (fr_type (qs_frame q)) then
       Some (ps_control s)
     else map_option (ps_physical s) (frame_type_domain (fr_type (qs_frame q))))"

text \<open>One turn of the pump; the flag says that the loop goes on, \<open>None\<close> is an undefined access.\<close>

definition pump_frame :: "'t TransportApi \<Rightarrow> QueuedSendFrame \<Rightarrow> 't PeerSession \<Rightarrow>
    (bool \<times> 't PeerSession) option" where
  "pump_frame api q s =
    (let closed = s\<lparr>ps_channels := close_channel (qs_channel_id q) (ps_channels s)\<rparr>;
         back = (\<lambda>t. map_option (\<lambda>m. (False, t\<lparr>ps_channels := m\<rparr>)) (return_to_send q (ps_channels t)))
     in case frame_physical q s of
          None \<Rightarrow> Some (True, closed)
        | Some None \<Rightarrow> back s
        | Some (Some channel) \<Rightarrow>
          case encode_frame (qs_frame q) (ps_limits s) of
            Inl e \<Rightarrow> Some (False, session_fail api e closed)
          | Inr octets \<Rightarrow>
            (case ta_send api channel octets (ps_transport s) of
               (Inr _, t) \<Rightarrow> Some (True, s\<lparr>ps_transport := t\<rparr>)
             | (Inl e, t) \<Rightarrow>
               if err_code e = EC_would_block then back (s\<lparr>ps_transport := t\<rparr>)
               else Some (False, session_fail api e (closed\<lparr>ps_transport := t\<rparr>))))"

lemma queue_total_next:
  assumes "next_to_send m = Some (Some q, m1)" shows "queue_total m1 < queue_total m"
proof -
  have s: "has_sendable_frames m" using assms next_to_send_idle [of m] by force
  from next_to_send_charged [OF s] obtain k where k: "ready_class (charged m) = Some k"
    "next_to_send m = map_option (apfst Some) (transmit k (charged m))" by blast
  with assms have t: "transmit k (charged m) = Some (q, m1)" by (cases "transmit k (charged m)") auto
  from transmit_effect [OF t] ready_classD [OF k(1)] show ?thesis
    by (cases k) (auto simp: queue_total_def frame_classes_def)
qed

lemma queue_total_close: "queue_total (close_channel cid m) \<le> queue_total m"
proof -
  have "length (cm_queues (close_channel cid m) k) \<le> length (cm_queues m k)" for k
    by (auto simp: close_channel_def Let_def split: option.split)
  then show ?thesis by (auto simp: queue_total_def frame_classes_def intro!: add_mono)
qed

lemma pump_frame_total:
  "pump_frame api q s = Some (True, t) \<Longrightarrow> queue_total (ps_channels t) \<le> queue_total (ps_channels s)"
  by (auto simp: pump_frame_def Let_def queue_total_close split: option.splits sum.splits prod.splits if_splits)

function pump :: "'t TransportApi \<Rightarrow> 't PeerSession \<Rightarrow> 't PeerSession option" where
  "pump api s =
    (if \<not> has_sendable_frames (ps_channels s) then Some s
     else case next_to_send (ps_channels s) of
       None \<Rightarrow> None
     | Some (None, m) \<Rightarrow> Some (s\<lparr>ps_channels := m\<rparr>)
     | Some (Some q, m) \<Rightarrow>
       (case pump_frame api q (s\<lparr>ps_channels := m\<rparr>) of
          None \<Rightarrow> None
        | Some (go, t) \<Rightarrow> if go then pump api t else Some t))"
  by auto
termination
proof (relation "measure (\<lambda>(api, s). queue_total (ps_channels s))")
  fix api :: "'t TransportApi" and s :: "'t PeerSession" and x y z m q v go t
  assume "next_to_send (ps_channels s) = Some x" "(z, m) = x" "z = Some q"
    "pump_frame api q (s\<lparr>ps_channels := m\<rparr>) = Some v" "(go, t) = v" go
  then show "((api, t), api, s) \<in> measure (\<lambda>(api, s). queue_total (ps_channels s))"
    using queue_total_next [of "ps_channels s" q m] pump_frame_total [of api q "s\<lparr>ps_channels := m\<rparr>" t] by auto
qed simp

declare pump.simps [simp del]

definition physical_channel_opened :: "'t TransportApi \<Rightarrow> ChannelDomain \<Rightarrow> nat result \<Rightarrow> 't PeerSession \<Rightarrow>
    't PeerSession option" where
  "physical_channel_opened api domain res s =
    (let s1 = s\<lparr>ps_opening := ps_opening s - {domain}\<rparr>
     in case res of Inl e \<Rightarrow> Some (session_fail api e s1)
        | Inr channel \<Rightarrow> pump api (s1\<lparr>ps_physical := (ps_physical s1)(domain \<mapsto> channel)\<rparr>))"

text \<open>The kind's domain is dereferenced before it is tested: \<open>None\<close> for a kind without one.\<close>

definition adopt_physical_channel :: "'t TransportApi \<Rightarrow> ChannelKind \<Rightarrow> nat \<Rightarrow> 't PeerSession \<Rightarrow>
    't PeerSession option" where
  "adopt_physical_channel api kind channel s =
    (case physical_domain_for_kind kind of None \<Rightarrow> None
     | Some domain \<Rightarrow>
       let replaceable = domain \<notin> ps_initiator_owned s in
       if domain = CD_control \<or> (\<not> replaceable \<and> ps_physical s domain \<noteq> None) then Some s
       else pump api (s\<lparr>ps_physical := (ps_physical s)(domain \<mapsto> channel)\<rparr>))"

section \<open>Logical channels\<close>

text \<open>\<open>emplace\<close> keeps a handler that is already there.\<close>

definition emplace_handler :: "u32 \<Rightarrow> nat \<Rightarrow> (u32, nat) omap \<Rightarrow> (u32, nat) omap" where
  "emplace_handler cid k m = (if map_of m cid = None then om_put cid k m else m)"

definition open_business_channel :: "'t TransportApi \<Rightarrow> ChannelDomain \<Rightarrow> QueueFullPolicy \<Rightarrow> nat \<Rightarrow> nat \<Rightarrow>
    nat \<Rightarrow> 't PeerSession \<Rightarrow> (u32 result \<times> 't PeerSession) option" where
  "open_business_channel api domain policy frame_capacity byte_capacity handler s =
    (let basic_domain = basic_domain_allowed s domain;
         refused = (Inl (session_error EC_pairing_required ''session_not_authorized''), s)
     in if \<not> authenticated s \<and> \<not> basic_domain then Some refused
        else if ps_state s = PS_pairing_restricted \<and> \<not> basic_domain then Some refused
        else if \<not> cap_has (ps_negotiated s) (capability_for_domain domain) then
          Some (Inl (session_error EC_protocol ''domain_capability_not_negotiated''), s)
        else case allocate_channel (ps_initiator s) domain policy frame_capacity byte_capacity (ps_channels s) of
            None \<Rightarrow> None
          | Some (Inl e, m) \<Rightarrow> Some (Inl e, s\<lparr>ps_channels := m\<rparr>)
          | Some (Inr cid, m) \<Rightarrow>
            let s1 = ensure_physical_channel api domain (s\<lparr>ps_channels := m,
                       ps_channel_handlers := emplace_handler cid handler (ps_channel_handlers s)\<rparr>)
            in Some (Inr cid, if ps_state s1 = PS_authenticated then notify (s1\<lparr>ps_state := PS_active\<rparr>) else s1))"

definition close_business_channel :: "u32 \<Rightarrow> 't PeerSession \<Rightarrow> 't PeerSession" where
  "close_business_channel cid s = s\<lparr>ps_channels := close_channel cid (ps_channels s),
     ps_channel_handlers := om_del cid (ps_channel_handlers s)\<rparr>"

definition fail_business_channel :: "'t TransportApi \<Rightarrow> u32 \<Rightarrow> CloseReason \<Rightarrow> 't PeerSession \<Rightarrow> 't PeerSession" where
  "fail_business_channel api cid reason s =
    (let domain = channel_domain (ps_channels s) cid;
         s1 = close_business_channel cid (s\<lparr>ps_rejected := ps_rejected s + 1\<rparr>)
     in notify (case domain of None \<Rightarrow> s1
        | Some d \<Rightarrow> (case ps_physical s1 d of None \<Rightarrow> s1
          | Some channel \<Rightarrow> s1\<lparr>ps_transport := ta_close_channel api channel reason (ps_transport s1),
                               ps_physical := (ps_physical s1)(d := None)\<rparr>)))"

definition adopt_business_channel :: "'t TransportApi \<Rightarrow> u32 \<Rightarrow> ChannelDomain \<Rightarrow> QueueFullPolicy \<Rightarrow> nat \<Rightarrow>
    nat \<Rightarrow> nat \<Rightarrow> 't PeerSession \<Rightarrow> u32 result \<times> 't PeerSession" where
  "adopt_business_channel api cid domain policy frame_capacity byte_capacity handler s =
    (if \<not> authenticated s \<and> \<not> basic_domain_allowed s domain then
       (Inl (session_error EC_pairing_required ''session_not_authorized''), s)
     else case open_channel cid domain policy frame_capacity byte_capacity (ps_channels s) of
         (Inl e, m) \<Rightarrow> (Inl e, s\<lparr>ps_channels := m\<rparr>)
       | (Inr _, m) \<Rightarrow>
         (Inr cid, ensure_physical_channel api domain (s\<lparr>ps_channels := m,
            ps_channel_handlers := emplace_handler cid handler (ps_channel_handlers s)\<rparr>)))"

abbreviation (input) has_business_channel :: "u32 \<Rightarrow> 't PeerSession \<Rightarrow> bool" where
  "has_business_channel cid s \<equiv> has_channel (ps_channels s) cid"

definition set_domain_handler :: "ChannelDomain \<Rightarrow> nat option \<Rightarrow> 't PeerSession \<Rightarrow> 't PeerSession" where
  "set_domain_handler domain handler s = s\<lparr>ps_domain_handlers := (ps_domain_handlers s)(domain := handler)\<rparr>"

text \<open>The gate for frames of a type.\<close>

definition frame_permitted :: "'t PeerSession \<Rightarrow> byte \<Rightarrow> bool" where
  "frame_permitted s type \<longleftrightarrow> authenticated s \<or>
    (case frame_type_domain type of None \<Rightarrow> False | Some domain \<Rightarrow> basic_domain_allowed s domain)"

text \<open>The random message identifier is an argument.\<close>

definition send_frame :: "'t TransportApi \<Rightarrow> id_bytes \<Rightarrow> u32 \<Rightarrow> FrameClass \<Rightarrow> Frame \<Rightarrow> 't PeerSession \<Rightarrow>
    (unit result \<times> 't PeerSession) option" where
  "send_frame api mid cid klass frame s =
    (if \<not> frame_permitted s (fr_type frame) then
       Some (Inl (session_error EC_pairing_required ''session_not_authorized''), s)
     else
       let f = frame\<lparr>fr_message_id := (if id_is_zero (fr_message_id frame) then mid else fr_message_id frame),
                     fr_channel_id := (if fr_channel_id frame = 0 then cid else fr_channel_id frame)\<rparr>;
           s1 = ensure_physical_channel api
                  (case frame_type_domain (fr_type f) of None \<Rightarrow> CD_message | Some d \<Rightarrow> d) s
       in case enqueue cid klass f (ps_channels s1) of
            None \<Rightarrow> None
          | Some (Inl e, m) \<Rightarrow> Some (Inl e, s1\<lparr>ps_channels := m\<rparr>)
          | Some (Inr _, m) \<Rightarrow> map_option (Pair (Inr ())) (pump api (s1\<lparr>ps_channels := m\<rparr>)))"

section \<open>Control frames\<close>

text \<open>
  The hello of the peer, or the completion of the local open, makes a channel the control channel.
\<close>

definition control_ready :: "nat \<Rightarrow> 't PeerSession \<Rightarrow> 't PeerSession" where
  "control_ready channel s = s\<lparr>ps_control := Some channel, ps_physical := (ps_physical s)(CD_control \<mapsto> channel)\<rparr>"

definition enqueue_control_frame :: "'t TransportApi \<Rightarrow> id_bytes \<Rightarrow> byte \<Rightarrow> byte \<Rightarrow> bytes \<Rightarrow> 't PeerSession \<Rightarrow>
    (unit result \<times> 't PeerSession) option" where
  "enqueue_control_frame api mid type flags payload s =
    (if ps_control s = None then
       Some (Inl (session_error EC_permission ''control_channel_not_ready''), s)
     else
       let f = \<lparr>fr_type = type, fr_flags = flags, fr_channel_id = 0, fr_message_id = mid, fr_payload = payload\<rparr>
       in case encode_frame f (ps_limits s) of
            Inl e \<Rightarrow> Some (Inl e, s)
          | Inr _ \<Rightarrow>
            (case enqueue 0 FC_control f (ps_channels s) of
               None \<Rightarrow> None
             | Some (Inl e, m) \<Rightarrow> Some (Inl e, s\<lparr>ps_channels := m\<rparr>)
             | Some (Inr _, m) \<Rightarrow> map_option (Pair (Inr ())) (pump api (s\<lparr>ps_channels := m\<rparr>))))"

section \<open>Inbound business frames\<close>

text \<open>The application's handlers of a channel's and of a domain's frames.\<close>

record 't SessionHandlers =
  sh_frame :: "nat \<Rightarrow> Frame \<Rightarrow> 't PeerSession \<Rightarrow> 't PeerSession"
  sh_domain :: "nat \<Rightarrow> Frame \<Rightarrow> 't PeerSession \<Rightarrow> unit result \<times> 't PeerSession"

definition activate :: "'t PeerSession \<Rightarrow> 't PeerSession" where
  "activate s = (if ps_state s = PS_authenticated then s\<lparr>ps_state := PS_active\<rparr> else s)"

definition handle_business_frame :: "'t TransportApi \<Rightarrow> 't SessionHandlers \<Rightarrow> nat \<Rightarrow> Frame \<Rightarrow>
    't PeerSession \<Rightarrow> 't PeerSession" where
  "handle_business_frame api handlers channel frame s =
    (let reject = (\<lambda>s. notify (s\<lparr>ps_rejected := ps_rejected s + 1\<rparr>));
         close = (\<lambda>s. s\<lparr>ps_transport := ta_close_channel api channel CR_protocol_error (ps_transport s)\<rparr>)
     in if \<not> frame_permitted s (fr_type frame) then note_business_violation api channel s
        else if unknown_frame_action frame = UFA_close_channel then
          close (reject (close_business_channel (fr_channel_id frame) s))
        else if unknown_frame_action frame = UFA_skip then notify s
        else case map_of (ps_channel_handlers s) (fr_channel_id frame) of
            Some k \<Rightarrow> notify (sh_frame handlers k frame (activate s))
          | None \<Rightarrow>
            (case Option.bind (frame_type_domain (fr_type frame)) (ps_domain_handlers s) of
               None \<Rightarrow> reject s
             | Some k \<Rightarrow>
               (case sh_domain handlers k frame s of
                  (Inl e, s1) \<Rightarrow> close (reject s1)
                | (Inr _, s1) \<Rightarrow> notify (activate s1))))"

text \<open>A message of the transport on a channel other than the control channel.\<close>

definition handle_business_message :: "'t TransportApi \<Rightarrow> 't SessionHandlers \<Rightarrow> nat \<Rightarrow> bytes \<Rightarrow> 't PeerSession \<Rightarrow>
    't PeerSession" where
  "handle_business_message api handlers channel payload s =
    (case parse_frame payload (ps_limits s) of
       FParsed consumed frame \<Rightarrow>
         if consumed \<noteq> length payload then note_business_violation api channel s
         else handle_business_frame api handlers channel frame s
     | _ \<Rightarrow> note_business_violation api channel s)"

text \<open>The result of recording the closure in the connection timeline is an argument.\<close>

definition session_close :: "'t TransportApi \<Rightarrow> unit result \<Rightarrow> CloseReason \<Rightarrow> 't PeerSession \<Rightarrow> 't PeerSession" where
  "session_close api recorded reason s =
    (if ps_state s = PS_closed then s
     else let s1 = s\<lparr>ps_state := PS_closed\<rparr>;
              s2 = (case recorded of Inl e \<Rightarrow> s1\<lparr>ps_last_error := Some e\<rparr> | Inr _ \<Rightarrow> s1);
              s3 = notify s2
          in s3\<lparr>ps_transport := ta_close api reason (ps_transport s3)\<rparr>)"

section \<open>The pump\<close>

text \<open>Every queued frame has a size, so that the scheduler's accounting is defined.\<close>

definition sizes_ok :: "SessionChannelManager \<Rightarrow> bool" where
  "sizes_ok m \<longleftrightarrow> (\<forall>k. \<forall>q\<in>set (cm_queues m k). qs_frame_class q = k \<and>
     frame_wire_size (cm_limits m) (qs_frame q) \<noteq> None)"

lemma sizes_okD:
  "sizes_ok m \<Longrightarrow> q \<in> set (cm_queues m k) \<Longrightarrow>
     qs_frame_class q = k \<and> frame_wire_size (cm_limits m) (qs_frame q) \<noteq> None"
  unfolding sizes_ok_def by blast

lemma notify_limits [simp]: "cm_limits (notify_capacity cid m) = cm_limits m"
proof (induction cid m rule: notify_capacity.induct)
  case (1 cid m)
  then show ?case by (subst notify_capacity.simps) (auto simp: Let_def complete_waiter_def split: option.split list.split)
qed

lemma credit_limits [simp]: "cm_limits (credit_channel cid sz m) = cm_limits m"
  by (simp add: credit_channel_def Let_def split: option.splits)

lemma next_sized:
  assumes "sizes_ok m" "has_sendable_frames m"
  shows "\<exists>q m1. next_to_send m = Some (Some q, m1) \<and> sizes_ok m1 \<and> cm_limits m1 = cm_limits m \<and>
    frame_wire_size (cm_limits m) (qs_frame q) \<noteq> None \<and>
    cm_queues m = (cm_queues m1)(qs_frame_class q := q # cm_queues m1 (qs_frame_class q))"
proof -
  from next_to_send_charged [OF assms(2)] obtain k where k: "ready_class (charged m) = Some k"
    "next_to_send m = map_option (apfst Some) (transmit k (charged m))" by blast
  have ne: "cm_queues m k \<noteq> []" using ready_classD [OF k(1)] by simp
  let ?q = "hd (cm_queues m k)"
  have q: "qs_frame_class ?q = k" "frame_wire_size (cm_limits m) (qs_frame ?q) \<noteq> None"
    using sizes_okD [OF assms(1), of ?q k] ne by auto
  then have "\<exists>m1. transmit k (charged m) = Some (?q, m1)"
    by (cases "k = FC_control") (auto simp: transmit_def Let_def)
  then obtain m1 where m1: "transmit k (charged m) = Some (?q, m1)" ..
  have lim: "cm_limits m1 = cm_limits m"
    using m1 by (auto simp: transmit_def Let_def split: option.splits if_splits)
  from transmit_effect [OF m1] have qs: "cm_queues m1 = (cm_queues m)(k := tl (cm_queues m k))" by simp
  have "sizes_ok m1" using assms(1) lim qs ne unfolding sizes_ok_def
    by (auto dest: list.set_sel(2) split: if_splits)
  moreover have "cm_queues m = (cm_queues m1)(k := ?q # cm_queues m1 k)" using qs ne by auto
  ultimately show ?thesis using k(2) m1 lim q by auto
qed

lemma sizes_ok_close:
  assumes "sizes_ok m" shows "sizes_ok (close_channel cid m)"
proof -
  have "q \<in> set (cm_queues (close_channel cid m) k) \<Longrightarrow> q \<in> set (cm_queues m k)" for k q
    using close_channel_effect [of cid m k] by blast
  with sizes_okD [OF assms] show ?thesis unfolding sizes_ok_def close_channel_limits by blast
qed

lemma fail_same [simp]:
  "ps_state (session_fail api e s) = PS_closed" "ps_channels (session_fail api e s) = ps_channels s"
  by (simp_all add: session_fail_def notify_def Let_def)

text \<open>The frame that the pump leaves at the front of its queue.\<close>

definition blocked :: "'t TransportApi \<Rightarrow> QueuedSendFrame \<Rightarrow> 't PeerSession \<Rightarrow> bool" where
  "blocked api q t \<longleftrightarrow> (\<exists>rest. cm_queues (ps_channels t) (qs_frame_class q) = q # rest) \<and>
    (frame_physical q t = Some None \<or>
     (\<exists>channel octets e before. frame_physical q t = Some (Some channel) \<and>
        encode_frame (qs_frame q) (ps_limits t) = Inr octets \<and>
        ta_send api channel octets before = (Inl e, ps_transport t) \<and> err_code e = EC_would_block))"

lemma frame_physical_same [simp]:
  "frame_physical q (s\<lparr>ps_channels := m\<rparr>) = frame_physical q s"
  "frame_physical q (s\<lparr>ps_transport := x\<rparr>) = frame_physical q s"
  by (simp_all add: frame_physical_def)

lemma pump_frame_sized:
  assumes "sizes_ok (ps_channels s)" "frame_wire_size (cm_limits (ps_channels s)) (qs_frame q) \<noteq> None"
  shows "\<exists>go t. pump_frame api q s = Some (go, t) \<and> sizes_ok (ps_channels t) \<and>
    (go \<or> ps_state t = PS_closed \<or> blocked api q t)"
proof -
  obtain m where m: "return_to_send q (ps_channels s) = Some m"
    using assms(2) by (auto simp: return_to_send_def Let_def)
  from return_effect [OF m] have qs: "cm_queues m = (cm_queues (ps_channels s))(qs_frame_class q :=
      q # cm_queues (ps_channels s) (qs_frame_class q))" by simp
  have "cm_limits m = cm_limits (ps_channels s)"
    using m by (auto simp: return_to_send_def Let_def split: option.splits if_splits)
  then have "sizes_ok m" using assms qs by (auto simp: sizes_ok_def)
  then show ?thesis using assms(1) m qs sizes_ok_close [OF assms(1)]
    unfolding pump_frame_def Let_def
    by (auto split: option.split sum.split prod.split simp: blocked_def)
qed

lemma pump_ends:
  assumes "sizes_ok (ps_channels s)"
  shows "\<exists>t. pump api s = Some t \<and> sizes_ok (ps_channels t) \<and>
    (\<not> has_sendable_frames (ps_channels t) \<or> ps_state t = PS_closed \<or> (\<exists>q. blocked api q t))"
  using assms
proof (induction "queue_total (ps_channels s)" arbitrary: s rule: less_induct)
  case less
  show ?case
  proof (cases "has_sendable_frames (ps_channels s)")
    case False
    then show ?thesis using less.prems by (subst pump.simps) simp
  next
    case True
    from next_sized [OF less.prems True] obtain q m where n: "next_to_send (ps_channels s) = Some (Some q, m)"
      "sizes_ok m" "frame_wire_size (cm_limits m) (qs_frame q) \<noteq> None" by auto
    let ?s = "s\<lparr>ps_channels := m\<rparr>"
    from pump_frame_sized [of ?s q api] n obtain go t where t: "pump_frame api q ?s = Some (go, t)"
      "sizes_ok (ps_channels t)" "go \<or> ps_state t = PS_closed \<or> blocked api q t" by auto
    show ?thesis
    proof (cases go)
      case False
      then show ?thesis using True n t by (subst pump.simps) auto
    next
      case True
      then have "queue_total (ps_channels t) < queue_total (ps_channels s)"
        using queue_total_next [OF n(1)] pump_frame_total [of api q ?s t] t(1) by simp
      moreover have "pump api s = pump api t"
        using True \<open>has_sendable_frames (ps_channels s)\<close> n t by (subst pump.simps) simp
      ultimately show ?thesis using less.hyps [OF _ t(2)] by simp
    qed
  qed
qed

section \<open>Sequences of calls\<close>

datatype SessionOp =
    SO_open ChannelDomain QueueFullPolicy nat nat nat
  | SO_adopt u32 ChannelDomain QueueFullPolicy nat nat nat
  | SO_close_channel u32
  | SO_fail_channel u32 CloseReason
  | SO_send id_bytes u32 FrameClass Frame
  | SO_handler ChannelDomain "nat option"
  | SO_message nat bytes
  | SO_opened ChannelDomain "nat result"
  | SO_channel ChannelKind nat
  | SO_pump
  | SO_close "unit result" CloseReason
  | SO_control id_bytes byte byte bytes
  | SO_control_ready nat
  | SO_phase PeerSessionState
  | SO_fail Error

fun session_call :: "'t TransportApi \<Rightarrow> 't SessionHandlers \<Rightarrow> SessionOp \<Rightarrow> 't PeerSession \<Rightarrow>
    't PeerSession option" where
  "session_call api hs (SO_open d p m n k) s = map_option snd (open_business_channel api d p m n k s)"
| "session_call api hs (SO_adopt cid d p m n k) s = Some (snd (adopt_business_channel api cid d p m n k s))"
| "session_call api hs (SO_close_channel cid) s = Some (close_business_channel cid s)"
| "session_call api hs (SO_fail_channel cid reason) s = Some (fail_business_channel api cid reason s)"
| "session_call api hs (SO_send mid cid klass f) s = map_option snd (send_frame api mid cid klass f s)"
| "session_call api hs (SO_handler d k) s = Some (set_domain_handler d k s)"
| "session_call api hs (SO_message channel payload) s = Some (handle_business_message api hs channel payload s)"
| "session_call api hs (SO_opened d res) s = physical_channel_opened api d res s"
| "session_call api hs (SO_channel kind channel) s = adopt_physical_channel api kind channel s"
| "session_call api hs SO_pump s = pump api s"
| "session_call api hs (SO_close recorded reason) s = Some (session_close api recorded reason s)"
| "session_call api hs (SO_control mid type flags payload) s =
     map_option snd (enqueue_control_frame api mid type flags payload s)"
| "session_call api hs (SO_control_ready channel) s = Some (control_ready channel s)"
| "session_call api hs (SO_phase state) s = Some (notify (s\<lparr>ps_state := state\<rparr>))"
| "session_call api hs (SO_fail e) s = Some (session_fail api e s)"

definition session_step :: "'t TransportApi \<Rightarrow> 't SessionHandlers \<Rightarrow> SessionOp \<Rightarrow> 't PeerSession option \<Rightarrow>
    't PeerSession option" where
  "session_step api hs x s = Option.bind s (session_call api hs x)"

text \<open>
  A session before authorization: no policy is in force, and only control frames are queued.  The
  channels that may be the control channel are a set.
\<close>

definition control_queued :: "SessionChannelManager \<Rightarrow> bool" where
  "control_queued m \<longleftrightarrow> (\<forall>k. \<forall>q\<in>set (cm_queues m k). qs_frame_class q = FC_control \<and>
     is_control_domain_frame_type (fr_type (qs_frame q)))"

definition unauthorized :: "nat set \<Rightarrow> 't PeerSession \<Rightarrow> bool" where
  "unauthorized C s \<longleftrightarrow> \<not> authenticated s \<and> \<not> ps_basic_communication s \<and>
     control_queued (ps_channels s) \<and> set_option (ps_control s) \<subseteq> C"

text \<open>
  What the control protocol does before it authorizes the session: the frames are the hello and the
  pairing frames, and the session is moved to any phase but the authorized ones.
\<close>

fun before_authorization :: "nat set \<Rightarrow> SessionOp \<Rightarrow> bool" where
  "before_authorization C (SO_control mid type flags payload) \<longleftrightarrow>
     type \<in> {ft_session_hello, ft_pairing_request, ft_pairing_result, ft_pairing_approval_request}"
| "before_authorization C (SO_control_ready channel) \<longleftrightarrow> channel \<in> C"
| "before_authorization C (SO_phase state) \<longleftrightarrow> state \<noteq> PS_authenticated \<and> state \<noteq> PS_active"
| "before_authorization C _ \<longleftrightarrow> True"

text \<open>The encoding of a control frame.\<close>

definition control_octets :: "bytes \<Rightarrow> bool" where
  "control_octets octets \<longleftrightarrow>
    (\<exists>f l. encode_frame f l = Inr octets \<and> is_control_domain_frame_type (fr_type f))"

text \<open>A transport that does something else, \<open>f\<close>, with all but control frames on control channels.\<close>

definition guarded :: "nat set \<Rightarrow> (nat \<Rightarrow> bytes \<Rightarrow> 't \<Rightarrow> unit result \<times> 't) \<Rightarrow> 't TransportApi \<Rightarrow> 't TransportApi" where
  "guarded C f api = api\<lparr>ta_send := (\<lambda>channel octets t.
     if channel \<in> C \<and> control_octets octets then ta_send api channel octets t else f channel octets t)\<rparr>"

lemma guarded_simps [simp]:
  "ta_open (guarded C f api) = ta_open api" "ta_close_channel (guarded C f api) = ta_close_channel api"
  "ta_close (guarded C f api) = ta_close api" "session_fail (guarded C f api) = session_fail api"
  by (simp_all add: guarded_def session_fail_def fun_eq_iff)

lemma unauthorized_upd [simp]:
  "unauthorized C (s\<lparr>ps_channel_handlers := a\<rparr>) = unauthorized C s"
  "unauthorized C (s\<lparr>ps_rejected := b\<rparr>) = unauthorized C s"
  "unauthorized C (s\<lparr>ps_violations := b\<rparr>) = unauthorized C s"
  "unauthorized C (s\<lparr>ps_transport := c\<rparr>) = unauthorized C s"
  "unauthorized C (s\<lparr>ps_physical := d\<rparr>) = unauthorized C s"
  "unauthorized C (s\<lparr>ps_opening := e\<rparr>) = unauthorized C s"
  "unauthorized C (s\<lparr>ps_domain_handlers := g\<rparr>) = unauthorized C s"
  "unauthorized C (s\<lparr>ps_last_error := h\<rparr>) = unauthorized C s"
  "unauthorized C (notify s) = unauthorized C s"
  by (simp_all add: unauthorized_def authenticated_def notify_def)

lemma unauthorized_channels:
  "unauthorized C s \<Longrightarrow> control_queued m \<Longrightarrow> unauthorized C (s\<lparr>ps_channels := m\<rparr>)"
  by (simp add: unauthorized_def authenticated_def)

lemma unauthorized_queued: "unauthorized C s \<Longrightarrow> control_queued (ps_channels s)"
  by (simp add: unauthorized_def)

lemma control_queued_subset:
  "control_queued m \<Longrightarrow> (\<And>k. set (cm_queues m' k) \<subseteq> set (cm_queues m k)) \<Longrightarrow> control_queued m'"
  unfolding control_queued_def by blast

lemma control_queued_close: "control_queued m \<Longrightarrow> control_queued (close_channel cid m)"
  using close_channel_effect [of cid m] by (auto intro: control_queued_subset)

lemma unauthorized_closed:
  "unauthorized C s \<Longrightarrow> unauthorized C (s\<lparr>ps_channels := close_channel cid (ps_channels s)\<rparr>)"
  by (blast intro: unauthorized_channels control_queued_close unauthorized_queued)

lemma unauthorized_gate:
  assumes "unauthorized C s"
  shows "\<not> authenticated s" "\<not> basic_domain_allowed s d" "\<not> frame_permitted s type"
  using assms by (auto simp: unauthorized_def basic_domain_allowed_def frame_permitted_def split: option.split)

lemma unauthorized_end: "unauthorized C s \<Longrightarrow> unauthorized C (s\<lparr>ps_state := PS_closed\<rparr>)"
  by (simp add: unauthorized_def authenticated_def)

lemma unauthorized_fail: "unauthorized C s \<Longrightarrow> unauthorized C (session_fail api e s)"
  by (simp add: session_fail_def Let_def unauthorized_end)

lemma control_next:
  assumes "control_queued m" "next_to_send m = Some (Some q, m1)"
  shows "control_queued m1" "qs_frame_class q = FC_control" "is_control_domain_frame_type (fr_type (qs_frame q))"
proof -
  have s: "has_sendable_frames m" using assms next_to_send_idle [of m] by force
  from next_to_send_charged [OF s] obtain k where k: "ready_class (charged m) = Some k"
    "next_to_send m = map_option (apfst Some) (transmit k (charged m))" by blast
  with assms have t: "transmit k (charged m) = Some (q, m1)" by (cases "transmit k (charged m)") auto
  have ne: "cm_queues m k \<noteq> []" using ready_classD [OF k(1)] by simp
  from transmit_effect [OF t] have e: "q = hd (cm_queues m k)" "cm_queues m1 = (cm_queues m)(k := tl (cm_queues m k))"
    by simp_all
  have "set (cm_queues m1 j) \<subseteq> set (cm_queues m j)" for j using e(2) ne by (auto dest: list.set_sel(2))
  then show "control_queued m1" by (rule control_queued_subset [OF assms(1)])
  show "qs_frame_class q = FC_control" "is_control_domain_frame_type (fr_type (qs_frame q))"
    using assms(1) hd_in_set [OF ne] e(1) unfolding control_queued_def by auto
qed

lemma control_pump_frame:
  assumes u: "unauthorized C s" and q: "qs_frame_class q = FC_control" "is_control_domain_frame_type (fr_type (qs_frame q))"
  shows "pump_frame (guarded C f api) q s = pump_frame api q s \<and>
    (\<forall>go t. pump_frame api q s = Some (go, t) \<longrightarrow> unauthorized C t)"
proof -
  have ret: "unauthorized C (s\<lparr>ps_transport := x, ps_channels := m\<rparr>) \<and> unauthorized C (s\<lparr>ps_channels := m\<rparr>)"
    if "return_to_send q (ps_channels s) = Some m" for m x
  proof (intro conjI unauthorized_channels)
    show "unauthorized C s" "unauthorized C (s\<lparr>ps_transport := x\<rparr>)" using u by simp_all
    show "control_queued m" "control_queued m" using return_effect [OF that] unauthorized_queued [OF u] q
      by (auto simp: control_queued_def)
  qed
  have send: "ta_send (guarded C f api) channel octets t = ta_send api channel octets t"
    if "ps_control s = Some channel" "encode_frame (qs_frame q) l = Inr octets" for channel octets l t
    using that u q(2) by (auto simp: guarded_def unauthorized_def control_octets_def)
  show ?thesis using u q unauthorized_closed [OF u] ret send
    unfolding pump_frame_def Let_def frame_physical_def
    by (auto split: option.splits sum.splits prod.splits if_splits simp: unauthorized_fail)
qed

lemma control_pump:
  assumes "unauthorized C s"
  shows "pump (guarded C f api) s = pump api s \<and> (\<forall>t. pump api s = Some t \<longrightarrow> unauthorized C t)"
  using assms
proof (induction "queue_total (ps_channels s)" arbitrary: s rule: less_induct)
  case less
  note q = unauthorized_queued [OF less.prems]
  show ?case
  proof (cases "has_sendable_frames (ps_channels s)")
    case False
    then show ?thesis using less.prems by (simp add: pump.simps [of _ s])
  next
    case True
    show ?thesis
    proof (cases "next_to_send (ps_channels s)")
      case None
      then show ?thesis using True by (simp add: pump.simps [of _ s])
    next
      case (Some x)
      then obtain c m where x: "next_to_send (ps_channels s) = Some (c, m)" by (cases x) simp
      show ?thesis
      proof (cases c)
        case None
        obtain k where "next_to_send (ps_channels s) = map_option (apfst Some) (transmit k (charged (ps_channels s)))"
          using next_to_send_charged [OF True] by blast
        with None x have False by (cases "transmit k (charged (ps_channels s))") auto
        then show ?thesis ..
      next
        case (Some y)
        let ?s = "s\<lparr>ps_channels := m\<rparr>"
        note n = control_next [OF q x [unfolded Some]]
        note f = control_pump_frame [OF unauthorized_channels [OF less.prems n(1)] n(2,3), of f api]
        show ?thesis
        proof (cases "pump_frame api y ?s")
          case None
          then show ?thesis using True x Some f by (simp add: pump.simps [of _ s])
        next
          case p: (Some z)
          obtain go t where z: "z = (go, t)" by (cases z)
          have t: "unauthorized C t" using f p z by blast
          have less: "queue_total (ps_channels t) < queue_total (ps_channels s)" if go
            using queue_total_next [OF x [unfolded Some]] pump_frame_total [of api y ?s t] p z that by simp
          show ?thesis using True x Some p z f t less.hyps [OF less t] by (simp add: pump.simps [of _ s])
        qed
      qed
    qed
  qed
qed

lemmas control_pump_same = control_pump [THEN conjunct1]
lemmas control_pump_keeps = control_pump [THEN conjunct2, rule_format]

lemma control_enqueue:
  assumes u: "unauthorized C s" and t: "is_control_domain_frame_type type"
  shows "enqueue_control_frame (guarded C f api) mid type flags payload s =
      enqueue_control_frame api mid type flags payload s \<and>
    (\<forall>r t. enqueue_control_frame api mid type flags payload s = Some (r, t) \<longrightarrow> unauthorized C t)"
proof -
  let ?f = "\<lparr>fr_type = type, fr_flags = flags, fr_channel_id = 0, fr_message_id = mid, fr_payload = payload\<rparr>"
  have "unauthorized C (s\<lparr>ps_channels := m\<rparr>)" if "enqueue 0 FC_control ?f (ps_channels s) = Some (r, m)" for r m
  proof (rule unauthorized_channels [OF u])
    show "control_queued m" using that unauthorized_queued [OF u] t
      by (auto simp: enqueue_def enqueue_control_def push_back_def Let_def control_queued_def
          split: if_splits option.splits)
  qed
  note m = this control_pump [OF this, of _ _ f api]
  show ?thesis unfolding enqueue_control_frame_def Let_def
    using u m by (auto split: option.splits sum.splits)
qed

lemma unauthorized_call:
  assumes u: "unauthorized C s" and x: "before_authorization C x"
  shows "session_call (guarded C f api) hs' x s = session_call api hs x s \<and>
    (\<forall>t. session_call api hs x s = Some t \<longrightarrow> unauthorized C t)"
proof (cases x)
  case (SO_message channel payload)
  then show ?thesis using u unauthorized_gate [OF u]
    by (simp add: handle_business_message_def handle_business_frame_def note_business_violation_def Let_def unauthorized_fail
        split: FrameParseResult.split)
next
  case (SO_fail_channel cid reason)
  then show ?thesis using unauthorized_closed [of C "s\<lparr>ps_rejected := ps_rejected s + 1\<rparr>" cid] u
    by (auto simp: fail_business_channel_def close_business_channel_def Let_def split: option.split)
next
  case (SO_opened d res)
  then show ?thesis using u
    by (auto simp: physical_channel_opened_def unauthorized_fail Let_def control_pump_same split: sum.split
        dest!: control_pump_keeps [rotated])
next
  case (SO_channel kind channel)
  then show ?thesis using u
    by (auto simp: adopt_physical_channel_def Let_def control_pump_same split: option.split
        dest!: control_pump_keeps [rotated])
next
  case (SO_control mid type flags payload)
  then have "is_control_domain_frame_type type" using x by (auto simp: is_control_domain_frame_type_def)
  from control_enqueue [OF u this, of f api mid flags payload] SO_control show ?thesis by auto
next
  case (SO_control_ready channel)
  then show ?thesis using u x by (simp add: control_ready_def unauthorized_def authenticated_def)
next
  case (SO_phase state)
  then show ?thesis using u x by (auto simp: unauthorized_def authenticated_def notify_def)
qed (use u unauthorized_gate [OF u] unauthorized_closed [OF u] control_pump [OF u, of f api] in
    \<open>auto simp: open_business_channel_def adopt_business_channel_def close_business_channel_def send_frame_def
       set_domain_handler_def session_close_def Let_def unauthorized_end unauthorized_fail
       split: option.splits sum.splits if_splits\<close>)

text \<open>A transport that records what is sent, and a fresh session on it.\<close>

definition log_transport :: "bytes list TransportApi" where
  "log_transport = \<lparr>ta_send = (\<lambda>channel octets t. (Inr (), t @ [octets])), ta_open = (\<lambda>d opts t. t),
     ta_close_channel = (\<lambda>channel reason t. t), ta_close = (\<lambda>reason t. t)\<rparr>"

definition fresh_session :: "PeerSessionState \<Rightarrow> bytes list PeerSession" where
  "fresh_session state = \<lparr>ps_state = state, ps_basic_communication = False, ps_initiator = True,
     ps_initiator_owned = {}, ps_negotiated = \<lparr>cap_bits = known_capability_bits\<rparr>, ps_limits = default_limits,
     ps_channels = channel_manager default_channel_budget default_limits, ps_control = Some 0,
     ps_physical = Map.empty, ps_opening = {}, ps_channel_handlers = [], ps_domain_handlers = Map.empty,
     ps_rejected = 0, ps_violations = 0, ps_last_error = None, ps_transport = [], ps_notified = []\<rparr>"

definition no_handlers :: "bytes list SessionHandlers" where
  "no_handlers = \<lparr>sh_frame = (\<lambda>k f s. s), sh_domain = (\<lambda>k f s. (Inr (), s))\<rparr>"

definition waiting_session :: "bytes list PeerSession" where
  "waiting_session = (fresh_session PS_active)\<lparr>ps_channels :=
     (channel_manager default_channel_budget default_limits)\<lparr>cm_queues := (\<lambda>_. [])(FC_bulk :=
       [\<lparr>qs_channel_id = 1, qs_frame_class = FC_bulk, qs_frame = sample_frame ft_stream_data 1\<rparr>])\<rparr>\<rparr>"

section \<open>Properties\<close>

text \<open>
  C21: the pump.  Draining the scheduler into the transport always ends and never makes an undefined
  access when the queued frames have sizes.  It stops only when no frame is left, when the session
  was failed and closed, or when the next frame cannot be sent now (its physical channel is not
  open yet, or the transport answered that it would block), and then that frame is back at the
  front of its queue.
\<close>

theorem session_pump_ends:
  assumes "sizes_ok (ps_channels s)"
  shows "\<exists>t. pump api s = Some t \<and> sizes_ok (ps_channels t) \<and>
    (\<not> has_sendable_frames (ps_channels t) \<or> ps_state t = PS_closed \<or> (\<exists>q. blocked api q t))"
  using assms by (rule pump_ends)

theorem session_pump_ends_witness:
  "\<exists>t. pump log_transport waiting_session = Some t \<and> sizes_ok (ps_channels t) \<and>
    (\<not> has_sendable_frames (ps_channels t) \<or> ps_state t = PS_closed \<or> (\<exists>q. blocked log_transport q t))"
proof (rule session_pump_ends)
  show "sizes_ok (ps_channels waiting_session)"
    by (simp add: sizes_ok_def waiting_session_def channel_manager_def sample_frame_size)
qed

text \<open>
  C8: silence before authorization.  While a session is neither authorized nor under the opt-in
  policy, whatever calls its services make, whatever messages arrive on business channels, whatever channels the
  transport opens and whatever hello and pairing frames its control protocol sends in between, only
  encoded control frames are handed to the transport, and only on a control channel, and no handler
  of the application runs: the outcome depends neither on what sending anything else would do nor
  on the handlers.  The session stays unauthorized, and only control frames are queued.
\<close>

theorem unauthorized_session_silent:
  assumes "unauthorized C s" "list_all (before_authorization C) xs"
  shows "run (session_step (guarded C f api) hs') xs (Some s) = run (session_step api hs) xs (Some s) \<and>
    (\<forall>t. run (session_step api hs) xs (Some s) = Some t \<longrightarrow> unauthorized C t)"
  using assms
proof (induction xs arbitrary: s)
  case (Cons x xs)
  have dead: "run (session_step a h) ys None = None" for a and h :: "'a SessionHandlers" and ys
    by (induction ys) (simp_all add: session_step_def)
  have "before_authorization C x" using Cons.prems(2) by simp
  note c = unauthorized_call [OF Cons.prems(1) this, where api = api and f = f and hs = hs and hs' = hs']
  show ?case
  proof (cases "session_call api hs x s")
    case None
    then show ?thesis using c dead by (simp add: session_step_def [of _ _ x])
  next
    case (Some u)
    then show ?thesis using c Cons.IH [of u] Cons.prems(2) by (simp add: session_step_def [of _ _ x])
  qed
qed simp

text \<open>A restricted session that is asked to open a stream, gets a malformed message and sends a pairing request.\<close>

abbreviation (input) sample_calls :: "SessionOp list" where
  "sample_calls \<equiv> [SO_open CD_stream QP_reject 8 1024 0, SO_message 3 [1, 2],
     SO_control (replicate 16 1) ft_pairing_request 0 [7], SO_pump]"

theorem unauthorized_session_silent_witness:
  "run (session_step (guarded {0} (\<lambda>channel octets t. (Inr (), [])) log_transport) no_handlers) sample_calls
       (Some (fresh_session PS_pairing_restricted)) =
     run (session_step log_transport no_handlers) sample_calls (Some (fresh_session PS_pairing_restricted))"
proof -
  have "unauthorized {0} (fresh_session PS_pairing_restricted)"
    by (simp add: unauthorized_def authenticated_def fresh_session_def channel_manager_def control_queued_def)
  moreover have "list_all (before_authorization {0}) sample_calls" by simp
  ultimately show ?thesis by (rule unauthorized_session_silent [THEN conjunct1])
qed

text \<open>
  Adopting a physical channel.  When the queued frames have sizes, taking over a channel that the
  transport reports goes wrong exactly for the kind \<open>pairing\<close>, which has no domain: its empty domain
  is dereferenced before it is tested.
\<close>

theorem adopt_physical_undefined:
  assumes "sizes_ok (ps_channels s)"
  shows "adopt_physical_channel api kind channel s = None \<longleftrightarrow> kind = CK_pairing"
proof -
  have "pump api (s\<lparr>ps_physical := (ps_physical s)(d \<mapsto> channel)\<rparr>) \<noteq> None" for d
    using pump_ends [of "s\<lparr>ps_physical := (ps_physical s)(d \<mapsto> channel)\<rparr>" api] assms by auto
  then show ?thesis by (cases kind) (simp_all add: adopt_physical_channel_def Let_def)
qed

theorem adopt_physical_undefined_witness:
  "adopt_physical_channel log_transport CK_pairing 7 (fresh_session PS_active) = None"
  by (subst adopt_physical_undefined) (simp_all add: sizes_ok_def fresh_session_def channel_manager_def)

end
