(* ===== verification/Heyaki_Timeline.thy ===== *)
theory Heyaki_Timeline
  imports Heyaki_Core
begin

text \<open>
  The timeline of a connection attempt, \<open>connection_attempt.hpp\<close> and \<open>connection_attempt.cpp\<close>, and
  how a peer session checks and uses it: a bounded history of legal stage transitions.
\<close>

datatype ConnectionStage =
  CS_idle | CS_resolving_endpoint | CS_signaling | CS_gathering | CS_checking |
  CS_transport_connected | CS_authenticating | CS_authenticated | CS_closed

fun connection_stage_name :: "ConnectionStage \<Rightarrow> string" where
  "connection_stage_name CS_idle = ''idle''"
| "connection_stage_name CS_resolving_endpoint = ''resolving_endpoint''"
| "connection_stage_name CS_signaling = ''signaling''"
| "connection_stage_name CS_gathering = ''gathering''"
| "connection_stage_name CS_checking = ''checking''"
| "connection_stage_name CS_transport_connected = ''transport_connected''"
| "connection_stage_name CS_authenticating = ''authenticating''"
| "connection_stage_name CS_authenticated = ''authenticated''"
| "connection_stage_name CS_closed = ''closed''"

record ConnectionTransition =
  ct_from :: ConnectionStage
  ct_to :: ConnectionStage
  ct_timestamp :: time_point
  ct_source :: string
  ct_reason :: string

record ConnectionAttemptTimeline =
  tl_capacity :: nat
  tl_stage :: ConnectionStage
  tl_transitions :: "ConnectionTransition list"

definition new_timeline :: "nat \<Rightarrow> ConnectionAttemptTimeline" where
  "new_timeline capacity = \<lparr>tl_capacity = capacity, tl_stage = CS_idle, tl_transitions = []\<rparr>"

abbreviation (input) timeline_error :: "ErrorCode \<Rightarrow> string \<Rightarrow> Error" where
  "timeline_error code detail \<equiv> err code ''connection_timeline'' detail"

definition legal_transition :: "ConnectionStage \<Rightarrow> ConnectionStage \<Rightarrow> bool" where
  "legal_transition from to =
    (if to = CS_closed \<and> from \<noteq> CS_closed then True
     else case from of
       CS_idle \<Rightarrow> to = CS_resolving_endpoint
     | CS_resolving_endpoint \<Rightarrow> to = CS_signaling
     | CS_signaling \<Rightarrow> to = CS_gathering \<or> to = CS_checking \<or> to = CS_transport_connected
     | CS_gathering \<Rightarrow> to = CS_checking \<or> to = CS_transport_connected
     | CS_checking \<Rightarrow> to = CS_transport_connected
     | CS_transport_connected \<Rightarrow> to = CS_authenticating
     | CS_authenticating \<Rightarrow> to = CS_authenticated
     | CS_authenticated \<Rightarrow> False
     | CS_closed \<Rightarrow> False)"

definition transition :: "ConnectionStage \<Rightarrow> string \<Rightarrow> string \<Rightarrow> time_point \<Rightarrow> ConnectionAttemptTimeline \<Rightarrow>
    unit result \<times> ConnectionAttemptTimeline" where
  "transition next_stage source reason timestamp t =
    (if tl_capacity t = 0 \<or> source = [] \<or> length source > 64 \<or> reason = [] \<or> length reason > 128 then
       (Inl (timeline_error EC_configuration ''transition_metadata_invalid''), t)
     else if \<not> legal_transition (tl_stage t) next_stage then
       (Inl (timeline_error EC_protocol ''connection_transition_invalid''), t)
     else if length (tl_transitions t) \<ge> tl_capacity t then
       (Inl (timeline_error EC_resource_exhausted ''transition_history_full''), t)
     else (Inr (), t\<lparr>tl_transitions := tl_transitions t @ [\<lparr>ct_from = tl_stage t, ct_to = next_stage,
             ct_timestamp = timestamp, ct_source = source, ct_reason = reason\<rparr>],
           tl_stage := next_stage\<rparr>))"

text \<open>
  The check of a session's optional timeline.  The free room is a difference of \<open>std::size_t\<close>
  values, which wraps.
\<close>

definition validate_timeline_for_peer_session :: "ConnectionAttemptTimeline option \<Rightarrow> unit result" where
  "validate_timeline_for_peer_session timeline =
    (case timeline of None \<Rightarrow> Inr ()
     | Some t \<Rightarrow>
       let required_capacity = (case tl_stage t of
               CS_signaling \<Rightarrow> Some 6 | CS_gathering \<Rightarrow> Some 5 | CS_checking \<Rightarrow> Some 4
             | CS_transport_connected \<Rightarrow> Some 3 | _ \<Rightarrow> None)
       in case required_capacity of
            None \<Rightarrow> Inl (err EC_configuration ''peer_session'' ''connection_timeline_not_ready'')
          | Some (required :: nat) \<Rightarrow>
            if (2 ^ 64 + tl_capacity t - length (tl_transitions t)) mod 2 ^ 64 < required then
              Inl (err EC_configuration ''peer_session'' ''connection_timeline_capacity_insufficient'')
            else Inr ())"

text \<open>\<open>PeerSession::record\<close>; the clock's value is an argument.\<close>

definition record_stage :: "ConnectionStage \<Rightarrow> string \<Rightarrow> string \<Rightarrow> time_point \<Rightarrow> ConnectionAttemptTimeline option \<Rightarrow>
    unit result \<times> ConnectionAttemptTimeline option" where
  "record_stage stage source reason timestamp timeline =
    (case timeline of None \<Rightarrow> (Inr (), None)
     | Some t \<Rightarrow>
       if tl_stage t = stage \<or> tl_stage t = CS_closed then (Inr (), Some t)
       else apsnd Some (transition stage source reason timestamp t))"

section \<open>Progress\<close>

text \<open>The accepted transitions as a step relation.\<close>

inductive timeline_step :: "ConnectionAttemptTimeline \<Rightarrow> ConnectionAttemptTimeline \<Rightarrow> bool" where
  "transition next_stage source reason timestamp t = (Inr (), t') \<Longrightarrow> timeline_step t t'"

inductive_cases timeline_stepE: "timeline_step t t'"

inductive timeline_reaches :: "ConnectionAttemptTimeline \<Rightarrow> ConnectionAttemptTimeline \<Rightarrow> bool" where
  timeline_start: "timeline_reaches t t"
| timeline_next: "timeline_reaches t u \<Longrightarrow> timeline_step u v \<Longrightarrow> timeline_reaches t v"

fun stage_rank :: "ConnectionStage \<Rightarrow> nat" where
  "stage_rank CS_idle = 0"
| "stage_rank CS_resolving_endpoint = 1"
| "stage_rank CS_signaling = 2"
| "stage_rank CS_gathering = 3"
| "stage_rank CS_checking = 4"
| "stage_rank CS_transport_connected = 5"
| "stage_rank CS_authenticating = 6"
| "stage_rank CS_authenticated = 7"
| "stage_rank CS_closed = 8"

lemma legal_rank: "legal_transition a b \<Longrightarrow> stage_rank a < stage_rank b"
  by (cases a; cases b) (simp_all add: legal_transition_def)

lemma rank_bound: "stage_rank a \<le> 8"
  by (cases a) simp_all

lemma transition_ok:
  assumes "transition n source reason timestamp t = (Inr (), t')"
  shows "legal_transition (tl_stage t) n" "tl_stage t' = n" "tl_capacity t' = tl_capacity t"
    "length (tl_transitions t) < tl_capacity t"
    "tl_transitions t' = tl_transitions t @ [\<lparr>ct_from = tl_stage t, ct_to = n,
       ct_timestamp = timestamp, ct_source = source, ct_reason = reason\<rparr>]"
  using assms by (auto simp: transition_def split: if_splits)

text \<open>A history is a chain of legal transitions from one stage to another.\<close>

fun legal_chain :: "ConnectionStage \<Rightarrow> ConnectionTransition list \<Rightarrow> ConnectionStage \<Rightarrow> bool" where
  "legal_chain a [] b \<longleftrightarrow> a = b"
| "legal_chain a (x # xs) b \<longleftrightarrow> ct_from x = a \<and> legal_transition a (ct_to x) \<and> legal_chain (ct_to x) xs b"

lemma legal_chain_append: "legal_chain a (xs @ ys) c \<longleftrightarrow> (\<exists>b. legal_chain a xs b \<and> legal_chain b ys c)"
  by (induction xs arbitrary: a) auto

lemma legal_chain_length: "legal_chain a xs b \<Longrightarrow> length xs + stage_rank a \<le> stage_rank b"
proof (induction xs arbitrary: a)
  case (Cons x xs)
  then show ?case using legal_rank [of a "ct_to x"] by fastforce
qed simp

lemma reaches_chain:
  "timeline_reaches t u \<Longrightarrow> tl_capacity u = tl_capacity t \<and>
     (\<exists>xs. tl_transitions u = tl_transitions t @ xs \<and> legal_chain (tl_stage t) xs (tl_stage u)) \<and>
     (length (tl_transitions t) \<le> tl_capacity t \<longrightarrow> length (tl_transitions u) \<le> tl_capacity u)"
proof (induction rule: timeline_reaches.induct)
  case (timeline_next t u v)
  from timeline_next.hyps(2) obtain n source reason timestamp where
    s: "transition n source reason timestamp u = (Inr (), v)" by (auto elim: timeline_stepE)
  show ?case using timeline_next.IH transition_ok [OF s] by (auto simp: legal_chain_append)
qed simp

section \<open>Properties\<close>

text \<open>
  History of a connection.  Whatever transitions are accepted from a new timeline, the history is
  a chain of legal transitions from \<open>idle\<close> to the current stage, within the capacity, and never
  longer than eight.
\<close>

theorem timeline_history:
  assumes "timeline_reaches (new_timeline capacity) t"
  shows "legal_chain CS_idle (tl_transitions t) (tl_stage t) \<and>
    length (tl_transitions t) \<le> capacity \<and> length (tl_transitions t) \<le> 8"
proof -
  have c: "legal_chain CS_idle (tl_transitions t) (tl_stage t)" "length (tl_transitions t) \<le> capacity"
    using reaches_chain [OF assms] by (auto simp: new_timeline_def)
  with legal_chain_length [OF c(1)] rank_bound [of "tl_stage t"] show ?thesis by simp
qed

definition signaling_timeline :: ConnectionAttemptTimeline where
  "signaling_timeline = snd (transition CS_signaling ''node'' ''offer'' 2
     (snd (transition CS_resolving_endpoint ''node'' ''dial'' 1 (new_timeline 8))))"

lemma signaling_reached: "timeline_reaches (new_timeline 8) signaling_timeline"
proof -
  have "timeline_step (new_timeline 8) (snd (transition CS_resolving_endpoint ''node'' ''dial'' 1 (new_timeline 8)))"
    by (rule timeline_step.intros [of CS_resolving_endpoint "''node''" "''dial''" 1])
       (simp add: transition_def new_timeline_def legal_transition_def)
  moreover have "timeline_step (snd (transition CS_resolving_endpoint ''node'' ''dial'' 1 (new_timeline 8))) signaling_timeline"
    by (rule timeline_step.intros [of CS_signaling "''node''" "''offer''" 2])
       (simp add: signaling_timeline_def transition_def new_timeline_def legal_transition_def)
  ultimately show ?thesis by (blast intro: timeline_reaches.intros)
qed

theorem timeline_history_witness:
  "legal_chain CS_idle (tl_transitions signaling_timeline) (tl_stage signaling_timeline) \<and>
    length (tl_transitions signaling_timeline) = 2"
  using timeline_history [OF signaling_reached]
  by (simp add: signaling_timeline_def transition_def new_timeline_def legal_transition_def)

text \<open>
  Room for a session.  A timeline that a peer session accepted never refuses one of the session's
  transitions for want of room: whatever transitions were recorded since, a further legal one with
  valid source and reason is accepted.
\<close>

theorem session_timeline_has_room:
  assumes "timeline_reaches (new_timeline capacity) t" "capacity < 2 ^ 64"
    and "validate_timeline_for_peer_session (Some t) = Inr ()"
    and "timeline_reaches t u" "legal_transition (tl_stage u) next_stage"
    and "source \<noteq> []" "length source \<le> 64" "reason \<noteq> []" "length reason \<le> 128"
  shows "fst (transition next_stage source reason timestamp u) = Inr ()"
proof -
  have cap: "tl_capacity t = capacity" "length (tl_transitions t) \<le> capacity"
    using reaches_chain [OF assms(1)] by (simp_all add: new_timeline_def)
  have "(2 ^ 64 + tl_capacity t - length (tl_transitions t)) mod 2 ^ 64 = capacity - length (tl_transitions t)"
  proof -
    have "2 ^ 64 + tl_capacity t - length (tl_transitions t) = (capacity - length (tl_transitions t)) + 2 ^ 64"
      using cap by simp
    then show ?thesis using assms(2) by (simp add: mod_add_self2)
  qed
  then have room: "8 - stage_rank (tl_stage t) \<le> capacity - length (tl_transitions t)" "stage_rank (tl_stage t) < 8"
    using assms(3) by (cases "tl_stage t"; simp add: validate_timeline_for_peer_session_def split: if_splits)+
  obtain xs where xs: "tl_transitions u = tl_transitions t @ xs" "legal_chain (tl_stage t) xs (tl_stage u)"
    "tl_capacity u = capacity" using reaches_chain [OF assms(4)] cap by auto
  have "length xs + stage_rank (tl_stage t) < 8"
    using legal_chain_length [OF xs(2)] legal_rank [OF assms(5)] rank_bound [of next_stage] by linarith
  then have "length (tl_transitions u) < tl_capacity u" using xs room cap by simp
  then show ?thesis using assms(5-9) by (auto simp: transition_def)
qed

theorem session_timeline_has_room_witness:
  "fst (transition CS_gathering ''transport'' ''ice_gathering'' 3 signaling_timeline) = Inr ()"
  by (rule session_timeline_has_room [OF signaling_reached])
     (simp_all add: timeline_start,
      simp_all add: signaling_timeline_def transition_def new_timeline_def legal_transition_def
        validate_timeline_for_peer_session_def)

end
