(* ===== verification/Heyaki_Lan_Presence.thy ===== *)
theory Heyaki_Lan_Presence
  imports Heyaki_Signing
begin

text \<open>
  What the endpoint directory checks before it stores anything: the LAN configuration
  (\<open>validate_lan_configuration\<close> of \<open>profile_store.cpp\<close>) and the signed LAN presence
  (\<open>validate_lan_presence\<close> of \<open>lan_protocol.cpp\<close> with the identity checks of \<open>identity.cpp\<close>).
  The functions of libsodium are parameters, collected in one record.
\<close>

section \<open>Identity checks\<close>

text \<open>
  The calls into libsodium: the return code of \<open>sodium_init\<close>, SHA-256, with \<^term>\<open>None\<close> for a
  nonzero return code, and whether the detached Ed25519 verification of a signature, a message and
  a public key returns zero.
\<close>

record Sodium =
  sodium_init :: int
  crypto_hash_sha256 :: "bytes \<Rightarrow> bytes option"
  crypto_sign_verify_detached :: "bytes \<Rightarrow> bytes \<Rightarrow> bytes \<Rightarrow> bool"

definition initialize_crypto :: "Sodium \<Rightarrow> unit result" where
  "initialize_crypto sodium =
    (if sodium_init sodium < 0 then Inl (err EC_internal ''crypto'' ''sodium_init_failed'') else Inr ())"

definition derive_device_id :: "Sodium \<Rightarrow> bytes \<Rightarrow> id_bytes result" where
  "derive_device_id sodium public_key =
    (if length public_key \<noteq> 32 then Inl (err EC_identity ''identity'' ''invalid_public_key_length'')
     else case crypto_hash_sha256 sodium public_key of
         None \<Rightarrow> Inl (err EC_internal ''identity'' ''sha256_failed'')
       | Some digest \<Rightarrow> Inr digest)"

definition verify_identity_signature :: "Sodium \<Rightarrow> bytes \<Rightarrow> bytes \<Rightarrow> bytes \<Rightarrow> unit result" where
  "verify_identity_signature sodium public_key message signature =
    (case initialize_crypto sodium of
       Inl e \<Rightarrow> Inl e
     | Inr _ \<Rightarrow>
       if length public_key \<noteq> 32 \<or> length signature \<noteq> 64 then
         Inl (err EC_authentication ''identity'' ''invalid_signature_shape'')
       else if \<not> crypto_sign_verify_detached sodium signature message public_key then
         Inl (err EC_authentication ''identity'' ''signature_verification_failed'')
       else Inr ())"

section \<open>The presence\<close>

record LanPresence =
  lp_protocol_version :: ProtocolVersion
  lp_supported :: CapabilitySet
  lp_required :: CapabilitySet
  lp_device_id :: id_bytes
  lp_identity_public_key :: bytes
  lp_endpoint_id :: id_bytes
  lp_boot_nonce :: bytes
  lp_sequence :: u64
  lp_tls_signaling_port :: u16
  lp_lease :: milliseconds
  lp_signature :: bytes

abbreviation (input) min_lan_presence_lease_milliseconds :: milliseconds where
  "min_lan_presence_lease_milliseconds \<equiv> 1000"

abbreviation (input) max_lan_presence_lease_milliseconds :: milliseconds where
  "max_lan_presence_lease_milliseconds \<equiv> 120000"

abbreviation (input) lan_supported_minor_floor :: u32 where
  "lan_supported_minor_floor \<equiv> 1"

abbreviation (input) lan_protocol_error :: "ErrorCode \<Rightarrow> string \<Rightarrow> Error" where
  "lan_protocol_error code detail \<equiv> err code ''lan_discovery'' detail"

definition canonical_lan_presence :: "LanPresence \<Rightarrow> bytes result" where
  "canonical_lan_presence p = canonicalize_for_signature SD_lan_presence
    [\<lparr>cf_number = 1, cf_value = canonical_uint32 (ver_major (lp_protocol_version p))\<rparr>,
     \<lparr>cf_number = 2, cf_value = canonical_uint32 (ver_minor (lp_protocol_version p))\<rparr>,
     \<lparr>cf_number = 3, cf_value = canonical_uint64 (cap_bits (lp_supported p))\<rparr>,
     \<lparr>cf_number = 4, cf_value = canonical_uint64 (cap_bits (lp_required p))\<rparr>,
     \<lparr>cf_number = 5, cf_value = canonical_bytes (lp_device_id p)\<rparr>,
     \<lparr>cf_number = 6, cf_value = lp_identity_public_key p\<rparr>,
     \<lparr>cf_number = 7, cf_value = canonical_bytes (lp_endpoint_id p)\<rparr>,
     \<lparr>cf_number = 8, cf_value = lp_boot_nonce p\<rparr>,
     \<lparr>cf_number = 9, cf_value = canonical_uint64 (lp_sequence p)\<rparr>,
     \<lparr>cf_number = 10, cf_value = canonical_uint16 (lp_tls_signaling_port p)\<rparr>,
     \<lparr>cf_number = 11, cf_value = canonical_uint32 (of_int (lp_lease p))\<rparr>]"

definition validate_lan_presence :: "Sodium \<Rightarrow> LanPresence \<Rightarrow> unit result" where
  "validate_lan_presence sodium p =
    (let discovery_bit = capability_bit Cap_lan_discovery_v1;
         signaling_bit = capability_bit Cap_lan_signaling_v1;
         supported = cap_bits (lp_supported p);
         required = cap_bits (lp_required p)
     in if ver_major (lp_protocol_version p) \<noteq> ver_major current_protocol_version \<or>
           ver_minor (lp_protocol_version p) < lan_supported_minor_floor \<or>
           supported AND (discovery_bit OR signaling_bit) \<noteq> discovery_bit OR signaling_bit \<or>
           required AND NOT supported \<noteq> 0 \<or>
           required AND NOT known_capability_bits \<noteq> 0 \<or>
           id_is_zero (lp_device_id p) \<or> id_is_zero (lp_endpoint_id p) \<or>
           list_all (\<lambda>b. b = 0) (lp_boot_nonce p) \<or> lp_sequence p = 0 \<or>
           lp_tls_signaling_port p = 0 \<or>
           lp_lease p < min_lan_presence_lease_milliseconds \<or>
           lp_lease p > max_lan_presence_lease_milliseconds then
          Inl (lan_protocol_error EC_protocol ''presence_fields_invalid'')
        else if derive_device_id sodium (lp_identity_public_key p) \<noteq> Inr (lp_device_id p) then
          Inl (lan_protocol_error EC_authentication ''presence_device_id_mismatch'')
        else case canonical_lan_presence p of
            Inl e \<Rightarrow> Inl e
          | Inr canonical \<Rightarrow>
            (case verify_identity_signature sodium (lp_identity_public_key p) canonical (lp_signature p) of
               Inl _ \<Rightarrow> Inl (lan_protocol_error EC_authentication ''presence_signature_invalid'')
             | Inr _ \<Rightarrow> Inr ()))"

section \<open>The configuration\<close>

datatype ConnectivityMode = CM_automatic | CM_lan_only | CM_relay_only

record LanConfiguration =
  connectivity_mode :: ConnectivityMode
  lan_enabled :: bool
  discoverable :: bool
  auto_connect_trusted :: bool
  interface_preferences :: "string list"
  interface_capacity :: nat
  directory_capacity :: nat
  trusted_directory_reserve :: nat
  per_interface_directory_capacity :: nat
  per_source_presence_capacity :: nat
  unknown_identity_capacity :: nat
  replay_capacity :: nat
  diagnostic_capacity :: nat
  provisional_connection_capacity :: nat
  per_source_provisional_capacity :: nat
  provisional_accept_rate_per_second :: nat
  per_source_provisional_rate :: nat
  pending_signaling_capacity :: nat
  auto_connect_capacity :: nat
  announcement_rate_per_second :: nat
  per_source_announcement_rate :: nat
  announcement_interval :: milliseconds
  presence_lease :: milliseconds
  announcement_jitter :: milliseconds
  interface_refresh_interval :: milliseconds
  handshake_timeout :: milliseconds
  hello_timeout :: milliseconds
  route_preference_delay :: milliseconds
  shutdown_timeout :: milliseconds

definition default_lan_configuration :: LanConfiguration where
  "default_lan_configuration =
    \<lparr>connectivity_mode = CM_automatic, lan_enabled = True, discoverable = True,
     auto_connect_trusted = False, interface_preferences = [], interface_capacity = 32,
     directory_capacity = 4096, trusted_directory_reserve = 128,
     per_interface_directory_capacity = 1024, per_source_presence_capacity = 64,
     unknown_identity_capacity = 512, replay_capacity = 8192, diagnostic_capacity = 1024,
     provisional_connection_capacity = 64, per_source_provisional_capacity = 8,
     provisional_accept_rate_per_second = 64, per_source_provisional_rate = 16,
     pending_signaling_capacity = 128, auto_connect_capacity = 16,
     announcement_rate_per_second = 32, per_source_announcement_rate = 8,
     announcement_interval = 5000, presence_lease = 15000, announcement_jitter = 500,
     interface_refresh_interval = 5000, handshake_timeout = 5000, hello_timeout = 3000,
     route_preference_delay = 250, shutdown_timeout = 2000\<rparr>"

definition valid_interface_preference :: "string \<Rightarrow> bool" where
  "valid_interface_preference v \<longleftrightarrow>
    (if v = [] \<or> length v > 128 \<or> hd v = CHR '' '' \<or> last v = CHR '' '' then False
     else list_all (\<lambda>c. 0x20 \<le> (of_char c :: nat) \<and> (of_char c :: nat) \<le> 0x7e) v)"

definition validate_lan_configuration :: "LanConfiguration \<Rightarrow> unit result" where
  "validate_lan_configuration c =
    (let capacities = [interface_capacity c, directory_capacity c, trusted_directory_reserve c,
           per_interface_directory_capacity c, per_source_presence_capacity c,
           unknown_identity_capacity c, replay_capacity c, diagnostic_capacity c,
           provisional_connection_capacity c, per_source_provisional_capacity c,
           provisional_accept_rate_per_second c, per_source_provisional_rate c,
           pending_signaling_capacity c, auto_connect_capacity c,
           announcement_rate_per_second c, per_source_announcement_rate c];
         capacities_valid = list_all (\<lambda>v. v > 0 \<and> v \<le> 1024 * 1024) capacities;
         relationships_valid =
           (length (interface_preferences c) \<le> interface_capacity c \<and>
            trusted_directory_reserve c \<le> directory_capacity c \<and>
            per_interface_directory_capacity c \<le> directory_capacity c \<and>
            per_source_presence_capacity c \<le> directory_capacity c \<and>
            unknown_identity_capacity c \<le> directory_capacity c \<and>
            per_source_provisional_capacity c \<le> provisional_connection_capacity c \<and>
            per_source_provisional_rate c \<le> provisional_accept_rate_per_second c \<and>
            auto_connect_capacity c \<le> pending_signaling_capacity c \<and>
            per_source_announcement_rate c \<le> announcement_rate_per_second c);
         durations_valid =
           (announcement_interval c > 0 \<and> announcement_interval c \<le> 120000 \<and>
            presence_lease c \<ge> 1000 \<and> presence_lease c \<le> 120000 \<and>
            announcement_interval c < presence_lease c \<and>
            announcement_jitter c \<ge> 0 \<and> announcement_jitter c \<le> announcement_interval c \<and>
            interface_refresh_interval c > 0 \<and> interface_refresh_interval c \<le> 120000 \<and>
            handshake_timeout c > 0 \<and> handshake_timeout c \<le> 60000 \<and>
            hello_timeout c > 0 \<and> hello_timeout c \<le> handshake_timeout c \<and>
            route_preference_delay c \<ge> 0 \<and> route_preference_delay c \<le> 60000 \<and>
            shutdown_timeout c > 0 \<and> shutdown_timeout c \<le> 60000);
         interfaces_valid = (list_all valid_interface_preference (interface_preferences c) \<and>
           distinct (interface_preferences c))
     in if \<not> capacities_valid \<or> \<not> relationships_valid \<or> \<not> durations_valid \<or>
           \<not> interfaces_valid \<or> (connectivity_mode c = CM_lan_only \<and> \<not> lan_enabled c) then
          Inl (err EC_configuration ''profile'' ''invalid_lan_configuration'')
        else Inr ())"

lemma validated_presence:
  assumes "validate_lan_presence sodium p = Inr ()"
  shows "lp_sequence p \<noteq> 0" "1000 \<le> lp_lease p" "lp_lease p \<le> 120000"
  using assms by (auto simp: validate_lan_presence_def Let_def split: if_splits)

lemma validated_configuration:
  assumes "validate_lan_configuration c = Inr ()"
  shows "0 < directory_capacity c" "0 < diagnostic_capacity c" "0 < replay_capacity c"
    "trusted_directory_reserve c \<le> directory_capacity c"
  using assms by (auto simp: validate_lan_configuration_def Let_def split: if_splits)

lemma default_configuration_valid: "validate_lan_configuration default_lan_configuration = Inr ()"
  by (simp add: validate_lan_configuration_def default_lan_configuration_def)

end
