(* ===== verification/Heyaki_Lan_Directory.thy ===== *)
theory Heyaki_Lan_Directory
  imports Heyaki_Lan_Presence
begin

text \<open>
  The endpoint directory, \<open>lan_directory.hpp\<close> and \<open>lan_directory.cpp\<close>: the table of endpoints a
  node learned from LAN presences and from its relays, with replay protection, rate limits,
  capacities and expiry.  A directory exists only through \<open>create\<close>, which validates the
  configuration, so no capacity is zero and the reserve is at most the capacity.
\<close>

section \<open>Data\<close>

type_synonym DeviceEndpointKey = "id_bytes \<times> id_bytes"

datatype DirectoryObservationOutcome = DO_inserted | DO_updated | DO_duplicate

record DirectoryObservation =
  ob_outcome :: DirectoryObservationOutcome
  ob_key :: DeviceEndpointKey

record LanEndpointSnapshot =
  ls_identity_public_key :: bytes
  ls_address :: string
  ls_interface_name :: string
  ls_tls_signaling_port :: u16
  ls_boot_nonce :: bytes
  ls_sequence :: u64
  ls_ttl :: milliseconds

record RelayEndpointSnapshot =
  rs_identity_public_key :: bytes
  rs_relay_url :: string
  rs_ttl :: milliseconds

record EndpointDirectoryEntrySnapshot =
  sn_key :: DeviceEndpointKey
  sn_trusted :: bool
  sn_lan :: "LanEndpointSnapshot option"
  sn_relay :: "RelayEndpointSnapshot option"

record EndpointDirectoryDiagnostics =
  dd_accepted :: u64
  dd_updated :: u64
  dd_duplicate :: u64
  dd_replay_rejected :: u64
  dd_conflict_rejected :: u64
  dd_capacity_rejected :: u64
  dd_rate_rejected :: u64
  dd_expired :: u64
  dd_current_entries :: nat
  dd_peak_entries :: nat
  dd_replay_entries :: nat
  dd_source_rate_entries :: nat
  dd_diagnostic_history_size :: nat

record EndpointDirectoryEvent =
  ev_observed_at :: time_point
  ev_code :: ErrorCode
  ev_safe_detail :: string

record LanHint =
  lh_identity_public_key :: bytes
  lh_address :: string
  lh_interface_name :: string
  lh_port :: u16
  lh_boot_nonce :: bytes
  lh_sequence :: u64
  lh_expires_at :: time_point
  lh_observed_at :: time_point

record RelayHint =
  rh_identity_public_key :: bytes
  rh_relay_url :: string
  rh_expires_at :: time_point
  rh_observed_at :: time_point

record DirectoryEntry =
  de_trusted :: bool
  de_lan :: "LanHint option"
  de_relay :: "RelayHint option"
  de_last_update :: time_point

text \<open>The array of four retired boot nonces with its count is the list of those in use.\<close>

record ReplayState =
  rp_current_boot :: bytes
  rp_last_sequence :: u64
  rp_last_signature :: bytes
  rp_retired_boots :: "bytes list"
  rp_retain_until :: time_point

record SourceRate =
  sr_window_start :: time_point
  sr_count :: nat
  sr_last_seen :: time_point

record EndpointDirectory =
  ed_configuration :: LanConfiguration
  ed_entries :: "(DeviceEndpointKey, DirectoryEntry) omap"
  ed_replay :: "(DeviceEndpointKey, ReplayState) omap"
  ed_source_rates :: "(string, SourceRate) omap"
  ed_events :: "EndpointDirectoryEvent list"
  ed_metrics :: EndpointDirectoryDiagnostics
  ed_global_rate_window :: time_point
  ed_global_rate_count :: nat

section \<open>Helpers\<close>

definition valid_directory_text :: "string \<Rightarrow> nat \<Rightarrow> bool" where
  "valid_directory_text v maximum \<longleftrightarrow>
    v \<noteq> [] \<and> length v \<le> maximum \<and>
    list_all (\<lambda>c. 0x20 \<le> (of_char c :: nat) \<and> (of_char c :: nat) \<le> 0x7e) v"

abbreviation (input) directory_error :: "ErrorCode \<Rightarrow> string \<Rightarrow> Error" where
  "directory_error code detail \<equiv> err code ''endpoint_directory'' detail"

text \<open>\<open>duration_cast\<close> to milliseconds truncates; the operand is positive here.\<close>

definition remaining_ttl :: "time_point \<Rightarrow> time_point \<Rightarrow> milliseconds" where
  "remaining_ttl expires_at now = (if expires_at \<le> now then 0 else (expires_at - now) div 1000000)"

definition record_event :: "ErrorCode \<Rightarrow> string \<Rightarrow> time_point \<Rightarrow> EndpointDirectory \<Rightarrow> EndpointDirectory" where
  "record_event code detail now d =
    (let kept = if length (ed_events d) = diagnostic_capacity (ed_configuration d)
                then tl (ed_events d) else ed_events d
     in d\<lparr>ed_events := kept @ [\<lparr>ev_observed_at = now, ev_code = code, ev_safe_detail = detail\<rparr>]\<rparr>)"

definition lan_count_for_source :: "string \<Rightarrow> EndpointDirectory \<Rightarrow> nat" where
  "lan_count_for_source address d = length (filter (\<lambda>(_, e).
     case de_lan e of None \<Rightarrow> False | Some hint \<Rightarrow> lh_address hint = address) (ed_entries d))"

definition lan_count_for_interface :: "string \<Rightarrow> EndpointDirectory \<Rightarrow> nat" where
  "lan_count_for_interface name d = length (filter (\<lambda>(_, e).
     case de_lan e of None \<Rightarrow> False | Some hint \<Rightarrow> lh_interface_name hint = name) (ed_entries d))"

definition unknown_count :: "EndpointDirectory \<Rightarrow> nat" where
  "unknown_count d = length (filter (\<lambda>(_, e). \<not> de_trusted e) (ed_entries d))"

abbreviation (input) one_second :: int where "one_second \<equiv> 1000000000"

definition purge_rate_state :: "time_point \<Rightarrow> EndpointDirectory \<Rightarrow> EndpointDirectory" where
  "purge_rate_state now d =
    d\<lparr>ed_source_rates := filter (\<lambda>(_, s). \<not> sr_last_seen s + 2 * one_second \<le> now) (ed_source_rates d)\<rparr>"

text \<open>The second half of \<open>admit_rate\<close>: the window of one source.\<close>

definition admit_source :: "string \<Rightarrow> SourceRate \<Rightarrow> time_point \<Rightarrow> EndpointDirectory \<Rightarrow> bool \<times> EndpointDirectory" where
  "admit_source source s0 now d =
    (let s1 = if sr_window_start s0 + one_second \<le> now
              then s0\<lparr>sr_window_start := now, sr_count := 0\<rparr> else s0;
         s2 = s1\<lparr>sr_last_seen := now\<rparr>
     in if sr_count s2 \<ge> per_source_announcement_rate (ed_configuration d) then
          (False, d\<lparr>ed_source_rates := om_put source s2 (ed_source_rates d)\<rparr>)
        else (True, d\<lparr>ed_source_rates := om_put source (s2\<lparr>sr_count := sr_count s2 + 1\<rparr>) (ed_source_rates d),
                ed_global_rate_count := ed_global_rate_count d + 1\<rparr>))"

definition admit_rate :: "string \<Rightarrow> time_point \<Rightarrow> EndpointDirectory \<Rightarrow> bool \<times> EndpointDirectory" where
  "admit_rate source now d =
    (let d1 = if ed_global_rate_window d + one_second \<le> now
              then d\<lparr>ed_global_rate_window := now, ed_global_rate_count := 0\<rparr> else d
     in if ed_global_rate_count d1 \<ge> announcement_rate_per_second (ed_configuration d1) then (False, d1)
        else let d2 = purge_rate_state now d1
        in case map_of (ed_source_rates d2) source of
            Some s \<Rightarrow> admit_source source s now d2
          | None \<Rightarrow>
            if length (ed_source_rates d2) \<ge> per_source_presence_capacity (ed_configuration d2) then (False, d2)
            else admit_source source \<lparr>sr_window_start = now, sr_count = 0, sr_last_seen = now\<rparr> now d2)"

definition is_retired_boot :: "ReplayState \<Rightarrow> bytes \<Rightarrow> bool" where
  "is_retired_boot r boot \<longleftrightarrow> boot \<in> set (rp_retired_boots r)"

definition retire_current_boot :: "ReplayState \<Rightarrow> ReplayState option" where
  "retire_current_boot r =
    (if length (rp_retired_boots r) = 4 then None
     else Some (r\<lparr>rp_retired_boots := rp_retired_boots r @ [rp_current_boot r]\<rparr>))"

text \<open>\<open>std::min_element\<close>, and the eviction loop alike, find the first element with the least key.\<close>

fun first_min :: "('a \<Rightarrow> 'b::linorder) \<Rightarrow> 'a list \<Rightarrow> 'a option" where
  "first_min f [] = None"
| "first_min f (x # xs) =
    (case first_min f xs of None \<Rightarrow> Some x | Some y \<Rightarrow> if f y < f x then Some y else Some x)"

definition evict_untrusted_lan_only :: "EndpointDirectory \<Rightarrow> EndpointDirectory option" where
  "evict_untrusted_lan_only d =
    (case first_min (\<lambda>(_, e). de_last_update e)
            (filter (\<lambda>(_, e). \<not> (de_trusted e \<or> de_relay e \<noteq> None)) (ed_entries d)) of
       None \<Rightarrow> None
     | Some (key, _) \<Rightarrow> Some (d\<lparr>ed_entries := om_del key (ed_entries d)\<rparr>))"

definition create_directory :: "LanConfiguration \<Rightarrow> time_point \<Rightarrow> EndpointDirectory result" where
  "create_directory configuration now =
    (case validate_lan_configuration configuration of
       Inl e \<Rightarrow> Inl e
     | Inr _ \<Rightarrow> Inr \<lparr>ed_configuration = configuration, ed_entries = [], ed_replay = [],
         ed_source_rates = [], ed_events = [],
         ed_metrics = \<lparr>dd_accepted = 0, dd_updated = 0, dd_duplicate = 0, dd_replay_rejected = 0,
           dd_conflict_rejected = 0, dd_capacity_rejected = 0, dd_rate_rejected = 0, dd_expired = 0,
           dd_current_entries = 0, dd_peak_entries = 0, dd_replay_entries = 0,
           dd_source_rate_entries = 0, dd_diagnostic_history_size = 0\<rparr>,
         ed_global_rate_window = now, ed_global_rate_count = 0\<rparr>)"

section \<open>Observing a presence\<close>

text \<open>A refusal bumps one counter, records an event and returns the error of the same name.\<close>

abbreviation (input) bump :: "((u64 \<Rightarrow> u64) \<Rightarrow> EndpointDirectoryDiagnostics \<Rightarrow> EndpointDirectoryDiagnostics) \<Rightarrow>
    EndpointDirectory \<Rightarrow> EndpointDirectory" where
  "bump counter d \<equiv> ed_metrics_update (counter (\<lambda>n. n + 1)) d"

definition refuse :: "((u64 \<Rightarrow> u64) \<Rightarrow> EndpointDirectoryDiagnostics \<Rightarrow> EndpointDirectoryDiagnostics) \<Rightarrow>
    ErrorCode \<Rightarrow> string \<Rightarrow> time_point \<Rightarrow> EndpointDirectory \<Rightarrow> 'a result \<times> EndpointDirectory" where
  "refuse counter code detail now d =
    (Inl (directory_error code detail), record_event code detail now (bump counter d))"

text \<open>
  The steps of \<open>observe_lan\<close> return either the early result (\<open>Inl\<close>) or what the next step needs
  (\<open>Inr\<close>).  First the replay state of the key is found or made.
\<close>

definition find_replay :: "DeviceEndpointKey \<Rightarrow> LanPresence \<Rightarrow> time_point \<Rightarrow> EndpointDirectory \<Rightarrow>
    (DirectoryObservation result \<times> EndpointDirectory) + (ReplayState \<times> EndpointDirectory)" where
  "find_replay key p now d =
    (let fresh = \<lparr>rp_current_boot = lp_boot_nonce p, rp_last_sequence = 0,
           rp_last_signature = replicate 64 0, rp_retired_boots = [],
           rp_retain_until = now + ms_to_ns (lp_lease p * 2)\<rparr>;
         emplace = (\<lambda>m. Inr (fresh, d\<lparr>ed_replay := om_put key fresh m\<rparr>))
     in case map_of (ed_replay d) key of
         Some r \<Rightarrow> Inr (r, d)
       | None \<Rightarrow>
         if length (ed_replay d) \<ge> replay_capacity (ed_configuration d) then
           (case first_min (\<lambda>(_, r). rp_retain_until r) (ed_replay d) of
              Some (oldest, r) \<Rightarrow>
                if rp_retain_until r \<le> now then emplace (om_del oldest (ed_replay d))
                else Inl (refuse dd_capacity_rejected_update EC_resource_exhausted ''replay_capacity_full'' now d)
            | None \<Rightarrow> Inl (refuse dd_capacity_rejected_update EC_resource_exhausted ''replay_capacity_full'' now d))
         else emplace (ed_replay d))"

text \<open>Then the boot nonce and the sequence are compared with it.\<close>

definition check_replay :: "DeviceEndpointKey \<Rightarrow> LanPresence \<Rightarrow> time_point \<Rightarrow> ReplayState \<Rightarrow> EndpointDirectory \<Rightarrow>
    (DirectoryObservation result \<times> EndpointDirectory) + (ReplayState \<times> EndpointDirectory)" where
  "check_replay key p now r d =
    (if rp_current_boot r = lp_boot_nonce p then
       if lp_sequence p < rp_last_sequence r then
         Inl (refuse dd_replay_rejected_update EC_protocol ''presence_sequence_replay'' now d)
       else if lp_sequence p = rp_last_sequence r \<and> rp_last_sequence r \<noteq> 0 then
         if lp_signature p = rp_last_signature r then
           Inl (Inr \<lparr>ob_outcome = DO_duplicate, ob_key = key\<rparr>,
             record_event EC_would_block ''presence_duplicate'' now (bump dd_duplicate_update d))
         else Inl (refuse dd_conflict_rejected_update EC_protocol ''presence_sequence_conflict'' now d)
       else Inr (r, d)
     else if is_retired_boot r (lp_boot_nonce p) then
       Inl (refuse dd_replay_rejected_update EC_protocol ''presence_boot_replay'' now d)
     else case retire_current_boot r of
         None \<Rightarrow> Inl (refuse dd_capacity_rejected_update EC_resource_exhausted ''presence_boot_history_full'' now d)
       | Some r1 \<Rightarrow>
         let r2 = r1\<lparr>rp_current_boot := lp_boot_nonce p, rp_last_sequence := 0,
                     rp_last_signature := replicate 64 0\<rparr>
         in Inr (r2, d\<lparr>ed_replay := om_put key r2 (ed_replay d)\<rparr>))"

text \<open>Then a new entry must fit; \<open>Inr\<close> carries the entry to write and whether it is new.\<close>

definition find_entry :: "DeviceEndpointKey \<Rightarrow> LanPresence \<Rightarrow> string \<Rightarrow> string \<Rightarrow> bool \<Rightarrow> time_point \<Rightarrow> EndpointDirectory \<Rightarrow>
    (DirectoryObservation result \<times> EndpointDirectory) + (bool \<times> DirectoryEntry \<times> EndpointDirectory)" where
  "find_entry key p source_address interface_name trusted now d =
    (let c = ed_configuration d;
         found = map_of (ed_entries d) key;
         new_lan_hint = (case found of None \<Rightarrow> True | Some e \<Rightarrow> de_lan e = None);
         full = (\<lambda>detail. Inl (refuse dd_capacity_rejected_update EC_resource_exhausted detail now d));
         empty_entry = \<lparr>de_trusted = False, de_lan = None, de_relay = None, de_last_update = 0\<rparr>
     in if (case found of None \<Rightarrow> False | Some e \<Rightarrow>
             (case de_relay e of None \<Rightarrow> False
              | Some hint \<Rightarrow> rh_identity_public_key hint \<noteq> lp_identity_public_key p)) then
          Inl (refuse dd_conflict_rejected_update EC_authentication ''endpoint_identity_conflict'' now d)
        else if new_lan_hint \<and> lan_count_for_source source_address d \<ge> per_source_presence_capacity c then
          full ''source_presence_capacity_full''
        else if new_lan_hint \<and> lan_count_for_interface interface_name d \<ge> per_interface_directory_capacity c then
          full ''interface_directory_capacity_full''
        else case found of
            Some e \<Rightarrow> Inr (False, e, d)
          | None \<Rightarrow>
            let untrusted_limit = directory_capacity c - trusted_directory_reserve c
            in if \<not> trusted \<and> (length (ed_entries d) \<ge> untrusted_limit \<or>
                                unknown_count d \<ge> unknown_identity_capacity c) then
                 full ''untrusted_directory_capacity_full''
               else if length (ed_entries d) \<ge> directory_capacity c then
                 if \<not> trusted then full ''directory_capacity_full''
                 else (case evict_untrusted_lan_only d of
                         None \<Rightarrow> full ''directory_capacity_full''
                       | Some d1 \<Rightarrow> Inr (True, empty_entry, d1))
               else Inr (True, empty_entry, d))"

definition accept_presence :: "DeviceEndpointKey \<Rightarrow> LanPresence \<Rightarrow> string \<Rightarrow> string \<Rightarrow> bool \<Rightarrow> time_point \<Rightarrow>
    ReplayState \<Rightarrow> bool \<Rightarrow> DirectoryEntry \<Rightarrow> EndpointDirectory \<Rightarrow>
    DirectoryObservation result \<times> EndpointDirectory" where
  "accept_presence key p source_address interface_name trusted now r new_entry e d =
    (let e1 = e\<lparr>de_trusted := de_trusted e \<or> trusted,
           de_lan := Some \<lparr>lh_identity_public_key = lp_identity_public_key p,
             lh_address = source_address, lh_interface_name = interface_name,
             lh_port = lp_tls_signaling_port p, lh_boot_nonce = lp_boot_nonce p,
             lh_sequence = lp_sequence p, lh_expires_at = now + ms_to_ns (lp_lease p),
             lh_observed_at = now\<rparr>,
           de_last_update := now\<rparr>;
         r1 = r\<lparr>rp_last_sequence := lp_sequence p, rp_last_signature := lp_signature p,
                rp_retain_until := now + ms_to_ns (lp_lease p * 2)\<rparr>;
         d1 = d\<lparr>ed_entries := om_put key e1 (ed_entries d), ed_replay := om_put key r1 (ed_replay d)\<rparr>;
         d2 = (if new_entry then bump dd_accepted_update d1 else bump dd_updated_update d1);
         m = ed_metrics d2;
         d3 = d2\<lparr>ed_metrics := m\<lparr>dd_current_entries := length (ed_entries d2),
                dd_peak_entries := max (dd_peak_entries m) (length (ed_entries d2)),
                dd_replay_entries := length (ed_replay d2),
                dd_source_rate_entries := length (ed_source_rates d2)\<rparr>\<rparr>
     in (Inr \<lparr>ob_outcome = if new_entry then DO_inserted else DO_updated, ob_key = key\<rparr>,
         record_event EC_internal (if new_entry then ''presence_accepted'' else ''presence_updated'') now d3))"

definition observe_lan :: "Sodium \<Rightarrow> LanPresence \<Rightarrow> string \<Rightarrow> string \<Rightarrow> bool \<Rightarrow> time_point \<Rightarrow> EndpointDirectory \<Rightarrow>
    DirectoryObservation result \<times> EndpointDirectory" where
  "observe_lan sodium p source_address interface_name trusted now d =
    (if \<not> valid_directory_text source_address 64 \<or> \<not> valid_directory_text interface_name 128 then
       (Inl (directory_error EC_configuration ''invalid_observation_context''), d)
     else case validate_lan_presence sodium p of
         Inl e \<Rightarrow> (Inl e, d)
       | Inr _ \<Rightarrow>
         (case admit_rate source_address now d of
            (False, d1) \<Rightarrow> refuse dd_rate_rejected_update EC_resource_exhausted ''presence_rate_limited'' now d1
          | (True, d1) \<Rightarrow>
            let key = (lp_device_id p, lp_endpoint_id p)
            in case find_replay key p now d1 of
                Inl out \<Rightarrow> out
              | Inr (r, d2) \<Rightarrow>
                (case check_replay key p now r d2 of
                   Inl out \<Rightarrow> out
                 | Inr (r1, d3) \<Rightarrow>
                   (case find_entry key p source_address interface_name trusted now d3 of
                      Inl out \<Rightarrow> out
                    | Inr (new_entry, e, d4) \<Rightarrow>
                      accept_presence key p source_address interface_name trusted now r1 new_entry e d4))))"

section \<open>Relay hints, trust, expiry and reading\<close>

definition upsert_relay :: "DeviceEndpointKey \<Rightarrow> bytes \<Rightarrow> string \<Rightarrow> bool \<Rightarrow> milliseconds \<Rightarrow> time_point \<Rightarrow>
    EndpointDirectory \<Rightarrow> unit result \<times> EndpointDirectory" where
  "upsert_relay key identity_public_key relay_url trusted lease now d =
    (if id_is_zero (fst key) \<or> id_is_zero (snd key) \<or> \<not> valid_directory_text relay_url 2048 \<or>
        lease \<le> 0 \<or> lease > 24 * 3600 * 1000 then
       (Inl (directory_error EC_configuration ''invalid_relay_hint''), d)
     else
       let full = length (ed_entries d) \<ge> directory_capacity (ed_configuration d);
           fresh = \<lparr>de_trusted = False, de_lan = None, de_relay = None, de_last_update = 0\<rparr>;
           slot = (case map_of (ed_entries d) key of
               Some e \<Rightarrow> Some (e, d)
             | None \<Rightarrow>
               if \<not> full then Some (fresh, d)
               else if \<not> trusted then None
               else map_option (Pair fresh) (evict_untrusted_lan_only d))
       in case slot of
           None \<Rightarrow> (Inl (directory_error EC_resource_exhausted ''directory_capacity_full''),
                    bump dd_capacity_rejected_update d)
         | Some (e, d1) \<Rightarrow>
           if (case de_lan e of None \<Rightarrow> False | Some h \<Rightarrow> lh_identity_public_key h \<noteq> identity_public_key) \<or>
              (case de_relay e of None \<Rightarrow> False | Some h \<Rightarrow> rh_identity_public_key h \<noteq> identity_public_key) then
             refuse dd_conflict_rejected_update EC_authentication ''endpoint_identity_conflict'' now d1
           else
             let e1 = e\<lparr>de_trusted := de_trusted e \<or> trusted,
                   de_relay := Some \<lparr>rh_identity_public_key = identity_public_key, rh_relay_url = relay_url,
                     rh_expires_at = now + ms_to_ns lease, rh_observed_at = now\<rparr>,
                   de_last_update := now\<rparr>;
                 entries = om_put key e1 (ed_entries d1);
                 m = ed_metrics d1
             in (Inr (), d1\<lparr>ed_entries := entries,
                   ed_metrics := m\<lparr>dd_current_entries := length entries,
                     dd_peak_entries := max (dd_peak_entries m) (length entries)\<rparr>\<rparr>))"

definition set_trusted :: "DeviceEndpointKey \<Rightarrow> bool \<Rightarrow> EndpointDirectory \<Rightarrow> unit result \<times> EndpointDirectory" where
  "set_trusted key trusted d =
    (case map_of (ed_entries d) key of
       None \<Rightarrow> (Inl (directory_error EC_endpoint_offline ''endpoint_not_in_directory''), d)
     | Some e \<Rightarrow> (Inr (), d\<lparr>ed_entries := om_put key (e\<lparr>de_trusted := trusted\<rparr>) (ed_entries d)\<rparr>))"

definition lan_expired :: "time_point \<Rightarrow> DirectoryEntry \<Rightarrow> bool" where
  "lan_expired now e \<longleftrightarrow> (case de_lan e of None \<Rightarrow> False | Some h \<Rightarrow> lh_expires_at h \<le> now)"

definition relay_expired :: "time_point \<Rightarrow> DirectoryEntry \<Rightarrow> bool" where
  "relay_expired now e \<longleftrightarrow> (case de_relay e of None \<Rightarrow> False | Some h \<Rightarrow> rh_expires_at h \<le> now)"

definition expire_entry :: "time_point \<Rightarrow> DirectoryEntry \<Rightarrow> DirectoryEntry" where
  "expire_entry now e =
    (let e1 = (if lan_expired now e then e\<lparr>de_lan := None\<rparr> else e)
     in if relay_expired now e then e1\<lparr>de_relay := None\<rparr> else e1)"

definition expire :: "time_point \<Rightarrow> EndpointDirectory \<Rightarrow> EndpointDirectory" where
  "expire now d =
    (let entries = filter (\<lambda>(_, e). \<not> (de_lan e = None \<and> de_relay e = None))
           (map (map_prod id (expire_entry now)) (ed_entries d));
         expired = length (filter (lan_expired now \<circ> snd) (ed_entries d)) +
           length (filter (relay_expired now \<circ> snd) (ed_entries d));
         d1 = purge_rate_state now (d\<lparr>ed_entries := entries,
           ed_replay := filter (\<lambda>(_, r). \<not> rp_retain_until r \<le> now) (ed_replay d)\<rparr>);
         m = ed_metrics d1
     in d1\<lparr>ed_metrics := m\<lparr>dd_expired := dd_expired m + of_nat expired,
           dd_current_entries := length (ed_entries d1), dd_replay_entries := length (ed_replay d1),
           dd_source_rate_entries := length (ed_source_rates d1)\<rparr>\<rparr>)"

definition snapshot_entry :: "time_point \<Rightarrow> DeviceEndpointKey \<times> DirectoryEntry \<Rightarrow> EndpointDirectoryEntrySnapshot" where
  "snapshot_entry now = (\<lambda>(key, e).
    \<lparr>sn_key = key, sn_trusted = de_trusted e,
     sn_lan = (case de_lan e of None \<Rightarrow> None | Some h \<Rightarrow>
       if lh_expires_at h > now then
         Some \<lparr>ls_identity_public_key = lh_identity_public_key h, ls_address = lh_address h,
           ls_interface_name = lh_interface_name h, ls_tls_signaling_port = lh_port h,
           ls_boot_nonce = lh_boot_nonce h, ls_sequence = lh_sequence h,
           ls_ttl = remaining_ttl (lh_expires_at h) now\<rparr>
       else None),
     sn_relay = (case de_relay e of None \<Rightarrow> None | Some h \<Rightarrow>
       if rh_expires_at h > now then
         Some \<lparr>rs_identity_public_key = rh_identity_public_key h, rs_relay_url = rh_relay_url h,
           rs_ttl = remaining_ttl (rh_expires_at h) now\<rparr>
       else None)\<rparr>)"

definition directory_snapshot :: "time_point \<Rightarrow> EndpointDirectory \<Rightarrow> EndpointDirectoryEntrySnapshot list" where
  "directory_snapshot now d =
    filter (\<lambda>s. sn_lan s \<noteq> None \<or> sn_relay s \<noteq> None) (map (snapshot_entry now) (ed_entries d))"

definition directory_diagnostics :: "EndpointDirectory \<Rightarrow> EndpointDirectoryDiagnostics" where
  "directory_diagnostics d = (ed_metrics d)
    \<lparr>dd_current_entries := length (ed_entries d), dd_replay_entries := length (ed_replay d),
     dd_source_rate_entries := length (ed_source_rates d),
     dd_diagnostic_history_size := length (ed_events d)\<rparr>"

datatype DirectoryOp =
    Dir_observe LanPresence string string bool time_point
  | Dir_upsert DeviceEndpointKey bytes string bool milliseconds time_point
  | Dir_set_trusted DeviceEndpointKey bool
  | Dir_expire time_point

fun directory_step :: "Sodium \<Rightarrow> DirectoryOp \<Rightarrow> EndpointDirectory \<Rightarrow> EndpointDirectory" where
  "directory_step sodium (Dir_observe p address name trusted now) d =
     snd (observe_lan sodium p address name trusted now d)"
| "directory_step sodium (Dir_upsert key public_key url trusted lease now) d =
     snd (upsert_relay key public_key url trusted lease now d)"
| "directory_step sodium (Dir_set_trusted key trusted) d = snd (set_trusted key trusted d)"
| "directory_step sodium (Dir_expire now) d = expire now d"

end
