(* ===== verification/Heyaki_Lan_Tables.thy ===== *)
theory Heyaki_Lan_Tables
  imports Heyaki_Lan_Directory
begin

text \<open>
  The invariant of the endpoint directory: every table is bounded and ordered, the rate counters
  are within their limits, and an entry with two hints has one identity.
\<close>

section \<open>The invariant\<close>

definition entry_ok :: "DirectoryEntry \<Rightarrow> bool" where
  "entry_ok e \<longleftrightarrow> (de_lan e \<noteq> None \<or> de_relay e \<noteq> None) \<and>
    (\<forall>h g. de_lan e = Some h \<longrightarrow> de_relay e = Some g \<longrightarrow>
       lh_identity_public_key h = rh_identity_public_key g)"

definition entries_wf :: "LanConfiguration \<Rightarrow> (DeviceEndpointKey, DirectoryEntry) omap \<Rightarrow> bool" where
  "entries_wf c m \<longleftrightarrow> om_wf m \<and> length m \<le> directory_capacity c \<and> list_all (\<lambda>x. entry_ok (snd x)) m"

definition replay_ok :: "ReplayState \<Rightarrow> bool" where
  "replay_ok r \<longleftrightarrow> length (rp_retired_boots r) \<le> 4 \<and> rp_current_boot r \<notin> set (rp_retired_boots r)"

definition replay_wf :: "LanConfiguration \<Rightarrow> (DeviceEndpointKey, ReplayState) omap \<Rightarrow> bool" where
  "replay_wf c m \<longleftrightarrow> om_wf m \<and> length m \<le> replay_capacity c \<and> list_all (\<lambda>x. replay_ok (snd x)) m"

definition rates_wf :: "LanConfiguration \<Rightarrow> (string, SourceRate) omap \<Rightarrow> bool" where
  "rates_wf c m \<longleftrightarrow> om_wf m \<and> length m \<le> per_source_presence_capacity c \<and>
    list_all (\<lambda>x. sr_count (snd x) \<le> per_source_announcement_rate c) m"

definition directory_wf :: "EndpointDirectory \<Rightarrow> bool" where
  "directory_wf d \<longleftrightarrow> (let c = ed_configuration d in
     validate_lan_configuration c = Inr () \<and> entries_wf c (ed_entries d) \<and> replay_wf c (ed_replay d) \<and>
     rates_wf c (ed_source_rates d) \<and> length (ed_events d) \<le> diagnostic_capacity c \<and>
     dd_peak_entries (ed_metrics d) \<le> directory_capacity c \<and>
     ed_global_rate_count d \<le> announcement_rate_per_second c)"

lemma entries_wf_put:
  "entries_wf c m \<Longrightarrow> entry_ok e \<Longrightarrow> map_of m k \<noteq> None \<or> length m < directory_capacity c \<Longrightarrow>
   entries_wf c (om_put k e m)"
  by (auto simp: entries_wf_def list_all_om_put length_om_put)

lemma replay_wf_put:
  "replay_wf c m \<Longrightarrow> replay_ok r \<Longrightarrow> map_of m k \<noteq> None \<or> length m < replay_capacity c \<Longrightarrow>
   replay_wf c (om_put k r m)"
  by (auto simp: replay_wf_def list_all_om_put length_om_put)

lemma rates_wf_put:
  "rates_wf c m \<Longrightarrow> sr_count s \<le> per_source_announcement_rate c \<Longrightarrow>
   map_of m k \<noteq> None \<or> length m < per_source_presence_capacity c \<Longrightarrow> rates_wf c (om_put k s m)"
  by (auto simp: rates_wf_def list_all_om_put length_om_put)

lemma om_put_length_bound:
  "om_wf m \<Longrightarrow> length m \<le> n \<Longrightarrow> map_of m k \<noteq> None \<or> length m < n \<Longrightarrow> length (om_put k v m) \<le> n"
  by (auto simp: length_om_put)

lemma wf_filter:
  "entries_wf c m \<Longrightarrow> entries_wf c (filter P m)"
  "replay_wf c r \<Longrightarrow> replay_wf c (filter Q r)"
  "rates_wf c s \<Longrightarrow> rates_wf c (filter R s)"
  unfolding entries_wf_def replay_wf_def rates_wf_def
  by (auto simp: list_all_filter intro: le_trans [OF length_filter_le])

lemma entries_wf_map:
  assumes "entries_wf c m" "\<And>e. entry_ok e \<Longrightarrow> P e \<Longrightarrow> entry_ok (f e)"
  shows "entries_wf c (map (map_prod id f) (filter (\<lambda>x. P (snd x)) m))"
  using wf_filter(1) [OF assms(1), of "\<lambda>x. P (snd x)"] assms(2) unfolding entries_wf_def
  by (auto simp: list_all_iff)

lemma first_min_mem: "first_min f xs = Some x \<Longrightarrow> x \<in> set xs"
  by (induction xs arbitrary: x) (auto split: option.splits if_splits)

lemma first_min_None [simp]: "first_min f xs = None \<longleftrightarrow> xs = []"
  by (cases xs) (auto split: option.splits)

lemma entry_okD: "entries_wf c m \<Longrightarrow> map_of m k = Some e \<Longrightarrow> entry_ok e"
  by (fastforce simp: entries_wf_def list_all_iff dest: map_of_SomeD)

lemma replay_okD: "replay_wf c m \<Longrightarrow> map_of m k = Some r \<Longrightarrow> replay_ok r"
  by (fastforce simp: replay_wf_def list_all_iff dest: map_of_SomeD)

lemma wf_record: "directory_wf d \<Longrightarrow> directory_wf (record_event code detail now d)"
  using validated_configuration(2) [of "ed_configuration d"]
  by (auto simp: directory_wf_def record_event_def Let_def)

lemma record_event_tables [simp]:
  "ed_configuration (record_event code detail now d) = ed_configuration d"
  "ed_entries (record_event code detail now d) = ed_entries d"
  "ed_replay (record_event code detail now d) = ed_replay d"
  "ed_source_rates (record_event code detail now d) = ed_source_rates d"
  "ed_metrics (record_event code detail now d) = ed_metrics d"
  by (simp_all add: record_event_def Let_def)

text \<open>The counters, apart from the peak, are no part of the invariant.\<close>

lemma wf_metrics:
  "dd_peak_entries m \<le> directory_capacity (ed_configuration d) \<Longrightarrow> directory_wf d \<Longrightarrow>
   directory_wf (d\<lparr>ed_metrics := m\<rparr>)"
  by (simp add: directory_wf_def Let_def)

lemma wf_bump:
  assumes "\<And>m. dd_peak_entries (counter (\<lambda>n. n + 1) m) = dd_peak_entries m" "directory_wf d"
  shows "directory_wf (ed_metrics_update (counter (\<lambda>n. n + 1)) d)"
  using assms by (simp add: directory_wf_def Let_def)

lemma wf_refuse:
  assumes "\<And>m. dd_peak_entries (counter (\<lambda>n. n + 1) m) = dd_peak_entries m" "directory_wf d"
  shows "directory_wf (snd (refuse counter code detail now d))"
  using assms by (simp add: refuse_def wf_record wf_bump)

lemma refuse_error: "fst (refuse counter code detail now d) = Inl (directory_error code detail)"
  by (simp add: refuse_def)

lemma refuse_tables [simp]:
  "ed_replay (snd (refuse counter code detail now d)) = ed_replay d"
  "ed_entries (snd (refuse counter code detail now d)) = ed_entries d"
  by (simp_all add: refuse_def)

section \<open>Every operation keeps the invariant\<close>

lemma wf_purge: "directory_wf d \<Longrightarrow> directory_wf (purge_rate_state now d)"
  by (simp add: directory_wf_def purge_rate_state_def Let_def wf_filter)

lemma wf_admit_source:
  assumes "directory_wf d" "ed_global_rate_count d < announcement_rate_per_second (ed_configuration d)"
    and "sr_count s \<le> per_source_announcement_rate (ed_configuration d)"
    and "map_of (ed_source_rates d) source \<noteq> None \<or>
      length (ed_source_rates d) < per_source_presence_capacity (ed_configuration d)"
  shows "directory_wf (snd (admit_source source s now d))"
  using assms by (auto simp: admit_source_def directory_wf_def Let_def intro!: rates_wf_put)

lemma rate_count_bound: "rates_wf c m \<Longrightarrow> map_of m k = Some s \<Longrightarrow> sr_count s \<le> per_source_announcement_rate c"
  by (fastforce simp: rates_wf_def list_all_iff dest: map_of_SomeD)

lemma purge_tables [simp]:
  "ed_configuration (purge_rate_state now d) = ed_configuration d"
  "ed_entries (purge_rate_state now d) = ed_entries d"
  "ed_replay (purge_rate_state now d) = ed_replay d"
  "ed_global_rate_count (purge_rate_state now d) = ed_global_rate_count d"
  by (simp_all add: purge_rate_state_def)

lemma wf_admit_rate:
  assumes "directory_wf d"
  shows "directory_wf (snd (admit_rate source now d))"
proof -
  define d1 where "d1 = (if ed_global_rate_window d + 1000000000 \<le> now
    then d\<lparr>ed_global_rate_window := now, ed_global_rate_count := 0\<rparr> else d)"
  have d1: "directory_wf d1" using assms by (auto simp: d1_def directory_wf_def Let_def)
  then have d2: "directory_wf (purge_rate_state now d1)" by (rule wf_purge)
  then have r: "rates_wf (ed_configuration d1) (ed_source_rates (purge_rate_state now d1))"
    by (simp add: directory_wf_def Let_def)
  show ?thesis unfolding admit_rate_def d1_def [symmetric] Let_def
    using d1 d2 rate_count_bound [OF r] by (auto split: option.splits intro!: wf_admit_source)
qed

lemma admit_source_tables [simp]:
  "ed_configuration (snd (admit_source source s now d)) = ed_configuration d"
  "ed_entries (snd (admit_source source s now d)) = ed_entries d"
  "ed_replay (snd (admit_source source s now d)) = ed_replay d"
  by (simp_all add: admit_source_def Let_def)

lemma admit_tables [simp]:
  "ed_configuration (snd (admit_rate source now d)) = ed_configuration d"
  "ed_entries (snd (admit_rate source now d)) = ed_entries d"
  "ed_replay (snd (admit_rate source now d)) = ed_replay d"
  by (simp_all add: admit_rate_def Let_def split: option.split)

lemma wf_put_replay:
  "directory_wf d \<Longrightarrow> replay_wf (ed_configuration d) m \<Longrightarrow> directory_wf (d\<lparr>ed_replay := m\<rparr>)"
  by (simp add: directory_wf_def Let_def)

lemma wf_put_entries:
  "directory_wf d \<Longrightarrow> entries_wf (ed_configuration d) m \<Longrightarrow> directory_wf (d\<lparr>ed_entries := m\<rparr>)"
  by (simp add: directory_wf_def Let_def)

lemma wf_tables:
  assumes "directory_wf d"
  shows "entries_wf (ed_configuration d) (ed_entries d)" "replay_wf (ed_configuration d) (ed_replay d)"
    "validate_lan_configuration (ed_configuration d) = Inr ()"
  using assms by (simp_all add: directory_wf_def Let_def)

lemma om_del_shorter: "(k, v) \<in> set m \<Longrightarrow> length (om_del k m) < length m"
  unfolding om_del_def by (rule length_filter_less [of "(k, v)"]) auto

lemma replay_wf_replace:
  assumes "replay_wf c m" "(k', r') \<in> set m" "replay_ok r"
  shows "replay_wf c (om_put k r (om_del k' m))"
proof (rule replay_wf_put)
  show "map_of (om_del k' m) k \<noteq> None \<or> length (om_del k' m) < replay_capacity c"
    using assms(1) om_del_shorter [OF assms(2)] by (simp add: replay_wf_def)
  show "replay_wf c (om_del k' m)" unfolding om_del_def using assms(1) by (rule wf_filter)
qed (rule assms(3))

lemma wf_find_replay:
  assumes "directory_wf d"
  shows "case find_replay key p now d of
      Inl out \<Rightarrow> directory_wf (snd out) \<and> (\<exists>e. fst out = Inl e)
    | Inr (r, d') \<Rightarrow> directory_wf d' \<and> map_of (ed_replay d') key = Some r \<and> replay_ok r"
  using assms wf_tables(2) [OF assms] replay_okD [OF wf_tables(2) [OF assms]]
  by (auto simp: find_replay_def Let_def refuse_error replay_ok_def split: option.splits
      intro!: wf_refuse wf_put_replay
      intro: replay_wf_put replay_wf_replace dest!: first_min_mem)

lemma wf_check_replay:
  assumes "directory_wf d" "map_of (ed_replay d) key = Some r"
  shows "case check_replay key p now r d of
      Inl out \<Rightarrow> directory_wf (snd out) \<and> ed_replay (snd out) = ed_replay d
    | Inr (r', d') \<Rightarrow> directory_wf d' \<and> ed_replay d' = om_put key r' (ed_replay d) \<and> replay_ok r' \<and>
        ed_entries d' = ed_entries d"
  using assms replay_okD [OF wf_tables(2) [OF assms(1)] assms(2)] wf_tables(2) [OF assms(1)]
  by (auto simp: check_replay_def Let_def retire_current_boot_def is_retired_boot_def replay_ok_def
      om_put_same replay_wf_def [of _ "ed_replay d"]
      split: option.splits if_splits intro!: wf_refuse wf_record wf_bump wf_put_replay replay_wf_put)

lemma evict_some:
  assumes "evict_untrusted_lan_only d = Some d'" "directory_wf d"
  shows "directory_wf d'" "length (ed_entries d') < length (ed_entries d)"
    "map_of (ed_entries d) k = None \<Longrightarrow> map_of (ed_entries d') k = None"
    "ed_replay d' = ed_replay d" "ed_configuration d' = ed_configuration d"
proof -
  obtain k0 e0 where k0: "(k0, e0) \<in> set (ed_entries d)" "d' = d\<lparr>ed_entries := om_del k0 (ed_entries d)\<rparr>"
    using assms(1) by (auto simp: evict_untrusted_lan_only_def split: option.splits dest!: first_min_mem)
  show "length (ed_entries d') < length (ed_entries d)" using k0 by (simp add: om_del_shorter)
  show "directory_wf d'" unfolding k0(2)
    using assms(2) wf_filter(1) [OF wf_tables(1) [OF assms(2)]] by (auto simp: om_del_def intro!: wf_put_entries)
  show "map_of (ed_entries d') k = None" if "map_of (ed_entries d) k = None"
    using that k0(2) by (simp add: map_of_om_del)
  show "ed_replay d' = ed_replay d" "ed_configuration d' = ed_configuration d" using k0(2) by simp_all
qed

abbreviation (input) empty_entry :: DirectoryEntry where
  "empty_entry \<equiv> \<lparr>de_trusted = False, de_lan = None, de_relay = None, de_last_update = 0\<rparr>"

lemma find_entry_new:
  assumes "map_of (ed_entries d) key = None" "find_entry key p address name trusted now d = Inr (new, e, d')"
  shows "new \<and> e = empty_entry \<and>
    (d' = d \<and> length (ed_entries d) < directory_capacity (ed_configuration d) \<or>
     evict_untrusted_lan_only d = Some d')"
  using assms by (auto simp: find_entry_def Let_def split: option.splits if_splits)

lemma find_entry_old:
  assumes "map_of (ed_entries d) key = Some e0" "find_entry key p address name trusted now d = Inr (new, e, d')"
  shows "\<not> new \<and> e = e0 \<and> d' = d \<and>
    (\<forall>g. de_relay e = Some g \<longrightarrow> rh_identity_public_key g = lp_identity_public_key p)"
  using assms by (auto simp: find_entry_def Let_def split: option.splits if_splits)

lemma find_entry_refused:
  assumes "find_entry key p address name trusted now d = Inl out"
  shows "(\<exists>detail. out = refuse dd_capacity_rejected_update EC_resource_exhausted detail now d) \<or>
    out = refuse dd_conflict_rejected_update EC_authentication ''endpoint_identity_conflict'' now d"
  using assms by (simp add: find_entry_def Let_def split: option.splits if_splits) blast+

lemma wf_find_entry:
  assumes "directory_wf d" "find_entry key p address name trusted now d = Inr (new, e, d')"
  shows "directory_wf d'" "ed_replay d' = ed_replay d"
    "map_of (ed_entries d') key \<noteq> None \<or> length (ed_entries d') < directory_capacity (ed_configuration d')"
    "\<forall>g. de_relay e = Some g \<longrightarrow> rh_identity_public_key g = lp_identity_public_key p"
proof -
  have c: "length (ed_entries d) \<le> directory_capacity (ed_configuration d)"
    using wf_tables(1) [OF assms(1)] by (simp add: entries_wf_def)
  have "directory_wf d' \<and> ed_replay d' = ed_replay d \<and>
    (map_of (ed_entries d') key \<noteq> None \<or> length (ed_entries d') < directory_capacity (ed_configuration d')) \<and>
    (\<forall>g. de_relay e = Some g \<longrightarrow> rh_identity_public_key g = lp_identity_public_key p)"
  proof (cases "map_of (ed_entries d) key")
    case None
    from find_entry_new [OF None assms(2)] show ?thesis
    proof (elim conjE disjE)
      assume e: "e = empty_entry" and v: "evict_untrusted_lan_only d = Some d'"
      show ?thesis using e c evict_some(1,2,4,5) [OF v assms(1)] by simp
    qed (use assms(1) in simp)
  next
    case (Some e0)
    from find_entry_old [OF Some assms(2)] Some assms(1) show ?thesis by simp
  qed
  then show "directory_wf d'" "ed_replay d' = ed_replay d"
    "map_of (ed_entries d') key \<noteq> None \<or> length (ed_entries d') < directory_capacity (ed_configuration d')"
    "\<forall>g. de_relay e = Some g \<longrightarrow> rh_identity_public_key g = lp_identity_public_key p" by blast+
qed

lemma wf_accept:
  assumes "directory_wf d" "replay_ok r" "map_of (ed_replay d) key = Some r"
    and "map_of (ed_entries d) key \<noteq> None \<or> length (ed_entries d) < directory_capacity (ed_configuration d)"
    and "\<forall>g. de_relay e = Some g \<longrightarrow> rh_identity_public_key g = lp_identity_public_key p"
  shows "directory_wf (snd (accept_presence key p address name trusted now r new e d))"
proof -
  have *: "\<And>x. entry_ok x \<Longrightarrow> entries_wf (ed_configuration d) (om_put key x (ed_entries d))"
    "\<And>x. replay_ok x \<Longrightarrow> replay_wf (ed_configuration d) (om_put key x (ed_replay d))"
    using assms wf_tables [OF assms(1)] by (auto intro: entries_wf_put replay_wf_put)
  have "\<And>x. length (om_put key x (ed_entries d)) \<le> directory_capacity (ed_configuration d)"
    using wf_tables(1) [OF assms(1)] assms(4) by (auto simp: entries_wf_def intro!: om_put_length_bound)
  then show ?thesis unfolding accept_presence_def Let_def snd_conv using assms
    by (intro wf_record) (auto simp: directory_wf_def Let_def entry_ok_def replay_ok_def intro!: *)
qed

text \<open>What follows the admission by rate, in terms of the states between the steps.\<close>

definition observe_admitted :: "DeviceEndpointKey \<Rightarrow> LanPresence \<Rightarrow> string \<Rightarrow> string \<Rightarrow> bool \<Rightarrow> time_point \<Rightarrow>
    EndpointDirectory \<Rightarrow> DirectoryObservation result \<times> EndpointDirectory" where
  "observe_admitted key p address name trusted now d =
    (case find_replay key p now d of
       Inl out \<Rightarrow> out
     | Inr (r, d2) \<Rightarrow>
       (case check_replay key p now r d2 of
          Inl out \<Rightarrow> out
        | Inr (r1, d3) \<Rightarrow>
          (case find_entry key p address name trusted now d3 of
             Inl out \<Rightarrow> out
           | Inr (new_entry, e, d4) \<Rightarrow>
             accept_presence key p address name trusted now r1 new_entry e d4)))"

lemma observe_admitted_eq:
  "observe_lan sodium p address name trusted now d =
    (if \<not> valid_directory_text address 64 \<or> \<not> valid_directory_text name 128 then
       (Inl (directory_error EC_configuration ''invalid_observation_context''), d)
     else case validate_lan_presence sodium p of
         Inl e \<Rightarrow> (Inl e, d)
       | Inr _ \<Rightarrow>
         if fst (admit_rate address now d) then
           observe_admitted (lp_device_id p, lp_endpoint_id p) p address name trusted now (snd (admit_rate address now d))
         else refuse dd_rate_rejected_update EC_resource_exhausted ''presence_rate_limited'' now
                (snd (admit_rate address now d)))"
  by (simp add: observe_lan_def observe_admitted_def Let_def split_beta split: sum.split)

lemma observe_cases:
  obtains (unreplayed) "find_replay key p now d = Inl (observe_admitted key p address name trusted now d)"
    | (checked) r d2 where "find_replay key p now d = Inr (r, d2)"
        "check_replay key p now r d2 = Inl (observe_admitted key p address name trusted now d)"
    | (refused) r d2 r1 d3 where "find_replay key p now d = Inr (r, d2)" "check_replay key p now r d2 = Inr (r1, d3)"
        "find_entry key p address name trusted now d3 = Inl (observe_admitted key p address name trusted now d)"
    | (accepted) r d2 r1 d3 new e d4 where "find_replay key p now d = Inr (r, d2)"
        "check_replay key p now r d2 = Inr (r1, d3)"
        "find_entry key p address name trusted now d3 = Inr (new, e, d4)"
        "observe_admitted key p address name trusted now d = accept_presence key p address name trusted now r1 new e d4"
proof (cases "find_replay key p now d")
  case Inl
  with unreplayed show ?thesis by (simp add: observe_admitted_def)
next
  case (Inr x)
  obtain r d2 where x: "x = (r, d2)" by (cases x)
  show ?thesis
  proof (cases "check_replay key p now r d2")
    case Inl
    with checked Inr x \<open>find_replay key p now d = Inr x\<close> show ?thesis by (simp add: observe_admitted_def)
  next
    case y: (Inr y)
    obtain r1 d3 where yy: "y = (r1, d3)" by (cases y)
    show ?thesis
    proof (cases "find_entry key p address name trusted now d3")
      case Inl
      with refused \<open>find_replay key p now d = Inr x\<close> x y yy show ?thesis by (simp add: observe_admitted_def)
    next
      case (Inr z)
      obtain new e d4 where "z = (new, e, d4)" by (cases z)
      with accepted Inr \<open>find_replay key p now d = Inr x\<close> x y yy show ?thesis by (simp add: observe_admitted_def)
    qed
  qed
qed

lemma wf_observe_admitted:
  assumes d: "directory_wf d"
  shows "directory_wf (snd (observe_admitted key p address name trusted now d))"
proof (cases rule: observe_cases [where key = key and p = p and now = now and d = d and
    address = address and name = name and trusted = trusted])
  case unreplayed
  then show ?thesis using wf_find_replay [OF d, of key p now] by simp
next
  case (checked r d2)
  then show ?thesis using wf_find_replay [OF d, of key p now] wf_check_replay [of d2 key r p now] by simp
next
  case (refused r d2 r1 d3)
  then have "directory_wf d3" using wf_find_replay [OF d, of key p now] wf_check_replay [of d2 key r p now] by simp
  with find_entry_refused [OF refused(3)] show ?thesis by (auto intro!: wf_refuse)
next
  case (accepted r d2 r1 d3 new e d4)
  have d2: "directory_wf d2" "map_of (ed_replay d2) key = Some r"
    using accepted wf_find_replay [OF d, of key p now] by simp_all
  then have d3: "directory_wf d3" "ed_replay d3 = om_put key r1 (ed_replay d2)" "replay_ok r1"
    using accepted wf_check_replay [OF d2, of p now] by simp_all
  note d4 = wf_find_entry [OF d3(1) accepted(3)]
  show ?thesis unfolding accepted(4) by (rule wf_accept) (use d3 d4 in simp_all)
qed

lemma wf_observe:
  "directory_wf d \<Longrightarrow> directory_wf (snd (observe_lan sodium p address name trusted now d))"
  using wf_admit_rate [of d address now] unfolding observe_admitted_eq
  by (auto split: sum.splits intro!: wf_refuse wf_observe_admitted)

text \<open>The two halves of \<open>upsert_relay\<close>: the entry to write, and the writing.\<close>

definition relay_slot :: "DeviceEndpointKey \<Rightarrow> bool \<Rightarrow> EndpointDirectory \<Rightarrow> (DirectoryEntry \<times> EndpointDirectory) option" where
  "relay_slot key trusted d =
    (case map_of (ed_entries d) key of
       Some e \<Rightarrow> Some (e, d)
     | None \<Rightarrow>
       if \<not> length (ed_entries d) \<ge> directory_capacity (ed_configuration d) then Some (empty_entry, d)
       else if \<not> trusted then None
       else map_option (Pair empty_entry) (evict_untrusted_lan_only d))"

definition write_relay :: "DeviceEndpointKey \<Rightarrow> bytes \<Rightarrow> string \<Rightarrow> bool \<Rightarrow> milliseconds \<Rightarrow> time_point \<Rightarrow>
    DirectoryEntry \<Rightarrow> EndpointDirectory \<Rightarrow> unit result \<times> EndpointDirectory" where
  "write_relay key identity_public_key relay_url trusted lease now e d1 =
    (if (case de_lan e of None \<Rightarrow> False | Some h \<Rightarrow> lh_identity_public_key h \<noteq> identity_public_key) \<or>
        (case de_relay e of None \<Rightarrow> False | Some h \<Rightarrow> rh_identity_public_key h \<noteq> identity_public_key) then
       refuse dd_conflict_rejected_update EC_authentication ''endpoint_identity_conflict'' now d1
     else
       let e1 = e\<lparr>de_trusted := de_trusted e \<or> trusted,
             de_relay := Some \<lparr>rh_identity_public_key = identity_public_key, rh_relay_url = relay_url,
               rh_expires_at = now + ms_to_ns lease, rh_observed_at = now\<rparr>,
             de_last_update := now\<rparr>;
           entries = om_put key e1 (ed_entries d1);
           m = ed_metrics d1
       in (Inr (), d1\<lparr>ed_entries := entries,
             ed_metrics := m\<lparr>dd_current_entries := length entries,
               dd_peak_entries := max (dd_peak_entries m) (length entries)\<rparr>\<rparr>))"

lemma upsert_eq:
  "upsert_relay key identity_public_key relay_url trusted lease now d =
    (if id_is_zero (fst key) \<or> id_is_zero (snd key) \<or> \<not> valid_directory_text relay_url 2048 \<or>
        lease \<le> 0 \<or> lease > 24 * 3600 * 1000 then
       (Inl (directory_error EC_configuration ''invalid_relay_hint''), d)
     else case relay_slot key trusted d of
         None \<Rightarrow> (Inl (directory_error EC_resource_exhausted ''directory_capacity_full''),
                  ed_metrics_update (dd_capacity_rejected_update (\<lambda>n. n + 1)) d)
       | Some (e, d1) \<Rightarrow> write_relay key identity_public_key relay_url trusted lease now e d1)"
  unfolding upsert_relay_def relay_slot_def write_relay_def Let_def ..

lemma relay_slotD:
  assumes "directory_wf d" "relay_slot key trusted d = Some (e, d1)"
  shows "directory_wf d1" "ed_replay d1 = ed_replay d"
    "map_of (ed_entries d1) key \<noteq> None \<or> length (ed_entries d1) < directory_capacity (ed_configuration d1)"
proof -
  have c: "length (ed_entries d) \<le> directory_capacity (ed_configuration d)"
    using wf_tables(1) [OF assms(1)] by (simp add: entries_wf_def)
  consider "d1 = d" "map_of (ed_entries d) key = Some e"
    | "d1 = d" "length (ed_entries d) < directory_capacity (ed_configuration d)"
    | "evict_untrusted_lan_only d = Some d1"
    using assms(2) by (auto simp: relay_slot_def split: option.splits if_splits)
  then have "directory_wf d1 \<and> ed_replay d1 = ed_replay d \<and>
    (map_of (ed_entries d1) key \<noteq> None \<or> length (ed_entries d1) < directory_capacity (ed_configuration d1))"
  proof cases
    case 3
    from evict_some(1,2,4,5) [OF 3 assms(1)] c show ?thesis by simp
  qed (use assms(1) in simp_all)
  then show "directory_wf d1" "ed_replay d1 = ed_replay d"
    "map_of (ed_entries d1) key \<noteq> None \<or> length (ed_entries d1) < directory_capacity (ed_configuration d1)"
    by blast+
qed

lemma wf_write_relay:
  assumes "directory_wf d"
    "map_of (ed_entries d) key \<noteq> None \<or> length (ed_entries d) < directory_capacity (ed_configuration d)"
  shows "directory_wf (snd (write_relay key public_key url trusted lease now e d))"
proof (cases "(case de_lan e of None \<Rightarrow> False | Some h \<Rightarrow> lh_identity_public_key h \<noteq> public_key) \<or>
        (case de_relay e of None \<Rightarrow> False | Some h \<Rightarrow> rh_identity_public_key h \<noteq> public_key)")
  case True
  then show ?thesis using assms(1) by (simp add: write_relay_def wf_refuse)
next
  case False
  define x where "x = e\<lparr>de_trusted := de_trusted e \<or> trusted,
             de_relay := Some \<lparr>rh_identity_public_key = public_key, rh_relay_url = url,
               rh_expires_at = now + ms_to_ns lease, rh_observed_at = now\<rparr>, de_last_update := now\<rparr>"
  have x: "entry_ok x" using False by (auto simp: x_def entry_ok_def split: option.splits)
  have "entries_wf (ed_configuration d) (om_put key x (ed_entries d))"
    using wf_tables(1) [OF assms(1)] x assms(2) by (rule entries_wf_put)
  then have "entries_wf (ed_configuration d) (om_put key x (ed_entries d)) \<and>
      length (om_put key x (ed_entries d)) \<le> directory_capacity (ed_configuration d)"
    by (simp add: entries_wf_def)
  then show ?thesis using False assms(1) unfolding write_relay_def Let_def x_def [symmetric]
    by (simp add: directory_wf_def Let_def)
qed

lemma wf_upsert:
  assumes "directory_wf d"
  shows "directory_wf (snd (upsert_relay key public_key url trusted lease now d))"
proof (cases "relay_slot key trusted d")
  case None
  then show ?thesis using assms by (simp add: upsert_eq wf_bump)
next
  case (Some x)
  then obtain e d1 where s: "relay_slot key trusted d = Some (e, d1)" by (cases x) simp
  show ?thesis using s assms wf_write_relay [OF relay_slotD(1,3) [OF assms s], of public_key url trusted lease now e]
    by (simp add: upsert_eq)
qed

lemma wf_set_trusted: "directory_wf d \<Longrightarrow> directory_wf (snd (set_trusted key trusted d))"
  using entry_okD [OF wf_tables(1), of d key] wf_tables(1) [of d]
  by (auto simp: set_trusted_def entry_ok_def split: option.splits intro!: wf_put_entries entries_wf_put)

lemma expire_entry_hints [simp]:
  "de_lan (expire_entry now e) = (if lan_expired now e then None else de_lan e)"
  "de_relay (expire_entry now e) = (if relay_expired now e then None else de_relay e)"
  by (simp_all add: expire_entry_def Let_def)

lemma wf_expire:
  assumes "directory_wf d"
  shows "directory_wf (expire now d)"
proof -
  let ?entries = "filter (\<lambda>(_, e). \<not> (de_lan e = None \<and> de_relay e = None))
    (map (map_prod id (expire_entry now)) (ed_entries d))"
  have "entries_wf (ed_configuration d) ?entries"
    using wf_tables(1) [OF assms] unfolding entries_wf_def
    by (auto simp: list_all_iff entry_ok_def split: if_splits intro!: le_trans [OF length_filter_le])
  then have "directory_wf (purge_rate_state now (d\<lparr>ed_entries := ?entries,
      ed_replay := filter (\<lambda>(_, r). \<not> rp_retain_until r \<le> now) (ed_replay d)\<rparr>))"
    (is "directory_wf ?d")
    using assms by (intro wf_purge) (simp add: directory_wf_def Let_def wf_filter(2))
  then show ?thesis unfolding expire_def Let_def
    by (intro wf_metrics) (auto simp: directory_wf_def Let_def)
qed

lemma wf_created: "create_directory c now = Inr d \<Longrightarrow> directory_wf d"
  by (auto simp: create_directory_def directory_wf_def entries_wf_def replay_wf_def rates_wf_def
      split: sum.splits)

lemma wf_directory_step: "directory_wf d \<Longrightarrow> directory_wf (directory_step sodium op d)"
  by (cases op) (simp_all add: wf_observe wf_upsert wf_set_trusted wf_expire)

interpretation directory_machine: invariant_machine
  "\<lambda>d. \<exists>c now. create_directory c now = Inr d" "directory_step sodium" directory_wf
  for sodium
  by unfold_locales (auto intro: wf_created wf_directory_step)

end
