(* ===== verification/Heyaki_Lan_Replay.thy ===== *)
theory Heyaki_Lan_Replay
  imports Heyaki_Lan_Tables
begin

text \<open>
  The replay protection of the endpoint directory over whole runs: once a presence was accepted,
  the directory refuses every presence of the same endpoint and boot whose sequence is not newer,
  for as long as its replay state is kept.
\<close>

section \<open>What the replay table remembers\<close>

text \<open>
  The replay state of \<open>key\<close> remembers a boot with a sequence until a time: the boot is retired, or
  it is the current one and the last sequence is at least that sequence.
\<close>

definition remembers :: "bytes \<Rightarrow> u64 \<Rightarrow> time_point \<Rightarrow> ReplayState \<Rightarrow> bool" where
  "remembers boot n until r \<longleftrightarrow> until \<le> rp_retain_until r \<and>
    (boot \<in> set (rp_retired_boots r) \<and> rp_current_boot r \<noteq> boot \<or>
     rp_current_boot r = boot \<and> n \<le> rp_last_sequence r)"

definition covered :: "DeviceEndpointKey \<Rightarrow> bytes \<Rightarrow> u64 \<Rightarrow> time_point \<Rightarrow> EndpointDirectory \<Rightarrow> bool" where
  "covered key boot n until d \<longleftrightarrow>
    (case map_of (ed_replay d) key of None \<Rightarrow> False | Some r \<Rightarrow> remembers boot n until r)"

lemma covered_replay: "ed_replay d = ed_replay d' \<Longrightarrow> covered key boot n until d = covered key boot n until d'"
  by (simp add: covered_def)

lemma covered_put:
  "om_wf m \<Longrightarrow> covered key boot n until (d\<lparr>ed_replay := om_put key' r m\<rparr>) \<longleftrightarrow>
   (if key' = key then remembers boot n until r else covered key boot n until (d\<lparr>ed_replay := m\<rparr>))"
  by (simp add: covered_def om_simps)

lemma replay_om: "directory_wf d \<Longrightarrow> om_wf (ed_replay d)"
  using wf_tables(2) [of d] by (simp add: replay_wf_def)

lemma covered_find_replay:
  assumes "directory_wf d" "covered key boot n until d" "now < until"
  shows "case find_replay key' p now d of
      Inl out \<Rightarrow> covered key boot n until (snd out)
    | Inr (r, d') \<Rightarrow> covered key boot n until d'"
  using assms replay_om [OF assms(1)]
  by (auto simp: find_replay_def Let_def covered_def remembers_def om_simps om_mem_iff
      split: option.splits dest!: first_min_mem)

lemma covered_check_replay:
  assumes "directory_wf d" "covered key boot n until d" "map_of (ed_replay d) key' = Some r"
  shows "case check_replay key' p now r d of
      Inl out \<Rightarrow> covered key boot n until (snd out)
    | Inr (r', d') \<Rightarrow> covered key boot n until d'"
  using assms replay_om [OF assms(1)]
  by (auto simp: check_replay_def Let_def covered_def remembers_def om_simps retire_current_boot_def
      is_retired_boot_def split: option.splits)

text \<open>A presence that passes the check is newer than what is remembered.\<close>

lemma check_replay_newer:
  assumes "check_replay key p now r d = Inr (r', d')" "remembers (lp_boot_nonce p) n until r"
  shows "n \<le> lp_sequence p \<and> r' = r \<and> (lp_sequence p = n \<longrightarrow> n = 0)"
  using assms by (auto simp: check_replay_def remembers_def Let_def is_retired_boot_def split: if_splits option.splits)

lemma check_replay_current:
  assumes "check_replay key p now r d = Inr (r', d')"
  shows "rp_current_boot r' = lp_boot_nonce p" "rp_last_sequence r' \<le> lp_sequence p"
  using assms by (auto simp: check_replay_def Let_def split: if_splits option.splits)

lemma find_replay_found:
  assumes "covered key boot n until d"
  obtains r where "find_replay key p now d = Inr (r, d)" "map_of (ed_replay d) key = Some r" "remembers boot n until r"
  using assms that by (auto simp: covered_def find_replay_def split: option.splits)

lemma covered_refuse [simp]:
  "covered key boot n until (snd (refuse counter code detail now d)) = covered key boot n until d"
  by (rule covered_replay) simp

lemma covered_accept:
  assumes "om_wf (ed_replay d)" "covered key boot n until d" "map_of (ed_replay d) key' = Some r"
    and "rp_current_boot r = lp_boot_nonce p" "rp_last_sequence r \<le> lp_sequence p"
    and "key' = key \<Longrightarrow> until \<le> now + ms_to_ns (lp_lease p * 2)"
  shows "covered key boot n until (snd (accept_presence key' p address name trusted now r new e d))"
  using assms by (auto simp: accept_presence_def Let_def covered_def remembers_def om_simps split: option.splits)

lemma accept_covers:
  assumes "om_wf (ed_replay d)" "rp_current_boot r = lp_boot_nonce p"
  shows "covered key (lp_boot_nonce p) (lp_sequence p) (now + ms_to_ns (lp_lease p * 2))
    (snd (accept_presence key p address name trusted now r new e d))"
  using assms by (simp add: accept_presence_def Let_def covered_def remembers_def om_simps)

text \<open>The states between the steps, with what each keeps of the replay table.\<close>

lemma checked_states:
  assumes "directory_wf d" "find_replay key p now d = Inr (r, d2)" "check_replay key p now r d2 = Inr (r1, d3)"
  shows "directory_wf d2" "map_of (ed_replay d2) key = Some r" "directory_wf d3" "map_of (ed_replay d3) key = Some r1"
proof -
  show d2: "directory_wf d2" "map_of (ed_replay d2) key = Some r"
    using wf_find_replay [OF assms(1), of key p now] assms(2) by simp_all
  show "directory_wf d3" "map_of (ed_replay d3) key = Some r1"
    using wf_check_replay [OF d2, of p now] assms(3) by simp_all
qed

lemma covered_observe_admitted:
  assumes "directory_wf d" "covered key boot n until d" "now < until"
    and "key' = key \<Longrightarrow> until \<le> now + ms_to_ns (lp_lease p * 2)"
  shows "covered key boot n until (snd (observe_admitted key' p address name trusted now d))"
proof (cases rule: observe_cases [where key = key' and p = p and now = now and d = d and
    address = address and name = name and trusted = trusted])
  case unreplayed
  then show ?thesis using covered_find_replay [OF assms(1-3), of key' p] by simp
next
  case (checked r d2)
  then show ?thesis using covered_find_replay [OF assms(1-3), of key' p] wf_find_replay [OF assms(1), of key' p now]
      covered_check_replay [of d2 key boot n until key' r p now] by simp
next
  case (refused r d2 r1 d3)
  then have "covered key boot n until d3"
    using covered_find_replay [OF assms(1-3), of key' p] checked_states [OF assms(1) refused(1,2)]
      covered_check_replay [of d2 key boot n until key' r p now] by simp
  with find_entry_refused [OF refused(3)] show ?thesis by auto
next
  case (accepted r d2 r1 d3 new e d4)
  note states = checked_states [OF assms(1) accepted(1,2)]
  have "covered key boot n until d3"
    using covered_find_replay [OF assms(1-3), of key' p] accepted(1,2) states
      covered_check_replay [of d2 key boot n until key' r p now] by simp
  moreover have r: "ed_replay d4 = ed_replay d3" by (rule wf_find_entry [OF states(3) accepted(3)])
  ultimately show ?thesis unfolding accepted(4)
    using states replay_om [OF states(3)] check_replay_current [OF accepted(2)] assms(4)
    by (intro covered_accept) (simp_all add: covered_replay [OF r])
qed

lemma covered_observe:
  assumes "directory_wf d" "covered key boot n until d" "now < until"
    and "(lp_device_id p, lp_endpoint_id p) = key \<Longrightarrow> until \<le> now + ms_to_ns (lp_lease p * 2)"
  shows "covered key boot n until (snd (observe_lan sodium p address name trusted now d))"
proof -
  have *: "covered key boot n until (snd (admit_rate address now d)) = covered key boot n until d"
    by (rule covered_replay) simp
  show ?thesis unfolding observe_admitted_eq
    using assms * wf_admit_rate [OF assms(1), of address now]
    by (auto split: sum.split intro!: covered_observe_admitted)
qed

lemma covered_expire:
  "directory_wf d \<Longrightarrow> covered key boot n until d \<Longrightarrow> now < until \<Longrightarrow> covered key boot n until (expire now d)"
  by (auto simp: covered_def expire_def Let_def om_simps remembers_def replay_om split: option.splits)

lemma replay_upsert:
  "directory_wf d \<Longrightarrow> ed_replay (snd (upsert_relay key public_key url trusted lease now d)) = ed_replay d"
  by (auto simp: upsert_eq write_relay_def Let_def relay_slotD split: option.split)

lemma replay_set_trusted: "ed_replay (snd (set_trusted key trusted d)) = ed_replay d"
  by (simp add: set_trusted_def split: option.split)

text \<open>
  The calls of one window: those that drop replay states come before its end, and a presence of
  the same endpoint is not observed before its start and has a lease of at least half its length.
\<close>

fun within_window :: "DeviceEndpointKey \<Rightarrow> milliseconds \<Rightarrow> time_point \<Rightarrow> DirectoryOp \<Rightarrow> bool" where
  "within_window key lease start (Dir_observe p address name trusted now) \<longleftrightarrow>
     now < start + ms_to_ns (lease * 2) \<and>
     ((lp_device_id p, lp_endpoint_id p) = key \<longrightarrow> start \<le> now \<and> lease \<le> lp_lease p)"
| "within_window key lease start (Dir_upsert key' public_key url trusted lease' now) \<longleftrightarrow> True"
| "within_window key lease start (Dir_set_trusted key' trusted) \<longleftrightarrow> True"
| "within_window key lease start (Dir_expire now) \<longleftrightarrow> now < start + ms_to_ns (lease * 2)"

definition covers :: "DeviceEndpointKey \<Rightarrow> bytes \<Rightarrow> u64 \<Rightarrow> time_point \<Rightarrow> EndpointDirectory \<Rightarrow> bool" where
  "covers key boot n until d \<longleftrightarrow> directory_wf d \<and> covered key boot n until d"

lemma covers_step:
  assumes "within_window key lease start op" "covers key boot n (start + ms_to_ns (lease * 2)) d"
  shows "covers key boot n (start + ms_to_ns (lease * 2)) (directory_step sodium op d)"
proof -
  have wf: "directory_wf d" and c: "covered key boot n (start + ms_to_ns (lease * 2)) d"
    using assms(2) by (simp_all add: covers_def)
  have "covered key boot n (start + ms_to_ns (lease * 2)) (directory_step sodium op d)"
  proof (cases op)
    case (Dir_observe p address name trusted now)
    have "start + ms_to_ns (lease * 2) \<le> now + ms_to_ns (lp_lease p * 2)"
      if "(lp_device_id p, lp_endpoint_id p) = key"
      using that assms(1) Dir_observe by simp
    then show ?thesis using wf c assms(1) Dir_observe by (simp add: covered_observe)
  next
    case Dir_expire
    then show ?thesis using wf c assms(1) by (simp add: covered_expire)
  qed (use c in \<open>simp_all add: covered_def replay_upsert [OF wf] replay_set_trusted\<close>)
  then show ?thesis using wf by (simp add: covers_def wf_directory_step)
qed

interpretation covers_machine: guarded_machine
  "covers key boot n (start + ms_to_ns (lease * 2))" "within_window key lease start" "directory_step sodium"
  "covers key boot n (start + ms_to_ns (lease * 2))"
  for key boot n start lease sodium
  by unfold_locales (assumption | rule covers_step)+

section \<open>Acceptance and refusal\<close>

lemma find_replay_kept: "find_replay key p now d = Inr (r, d') \<Longrightarrow> ed_entries d' = ed_entries d"
  by (auto simp: find_replay_def Let_def split: option.splits if_splits prod.splits)

lemma check_replay_refused:
  assumes "check_replay key p now r d = Inl out"
  shows "ed_entries (snd out) = ed_entries d" "\<And>ob. fst out = Inr ob \<Longrightarrow> ob_outcome ob = DO_duplicate"
  using assms by (auto simp: check_replay_def Let_def refuse_error split: if_splits option.splits)

lemma accepted_covers:
  assumes "directory_wf d" "observe_lan sodium p address name trusted now d = (Inr ob, d')"
    "ob_outcome ob \<noteq> DO_duplicate"
  shows "covers (lp_device_id p, lp_endpoint_id p) (lp_boot_nonce p) (lp_sequence p)
    (now + ms_to_ns (lp_lease p * 2)) d'"
proof -
  let ?key = "(lp_device_id p, lp_endpoint_id p)" and ?d = "snd (admit_rate address now d)"
  have o: "observe_admitted ?key p address name trusted now ?d = (Inr ob, d')"
    using assms(2) by (auto simp: observe_admitted_eq refuse_def split: if_splits sum.splits)
  have d: "directory_wf ?d" by (rule wf_admit_rate [OF assms(1)])
  have "covered ?key (lp_boot_nonce p) (lp_sequence p) (now + ms_to_ns (lp_lease p * 2)) d'"
  proof (cases rule: observe_cases [where key = ?key and p = p and now = now and d = ?d and
      address = address and name = name and trusted = trusted])
    case unreplayed
    then show ?thesis using wf_find_replay [OF d, of ?key p now] o by simp
  next
    case (checked r d2)
    then show ?thesis using check_replay_refused(2) [OF checked(2), of ob] o assms(3) by simp
  next
    case (refused r d2 r1 d3)
    then show ?thesis using find_entry_refused [OF refused(3)] o by (auto simp: refuse_def)
  next
    case (accepted r d2 r1 d3 new e d4)
    note states = checked_states [OF d accepted(1,2)]
    have "ed_replay d4 = ed_replay d3" by (rule wf_find_entry [OF states(3) accepted(3)])
    then have "om_wf (ed_replay d4)" using replay_om [OF states(3)] by simp
    from accept_covers [OF this check_replay_current(1) [OF accepted(2)]] show ?thesis
      using accepted(4) o by (metis snd_conv)
  qed
  moreover have "directory_wf d'" using wf_observe [OF assms(1), of sodium p address name trusted now] assms(2) by simp
  ultimately show ?thesis by (simp add: covers_def)
qed

lemma covered_refuses:
  assumes "covered (lp_device_id p, lp_endpoint_id p) (lp_boot_nonce p) n until d" "lp_sequence p \<le> n"
  shows "ed_entries (snd (observe_lan sodium p address name trusted now d)) = ed_entries d \<and>
    (\<forall>ob. fst (observe_lan sodium p address name trusted now d) = Inr ob \<longrightarrow> ob_outcome ob = DO_duplicate)"
proof (cases "validate_lan_presence sodium p")
  case Inl
  then show ?thesis by (simp add: observe_admitted_eq)
next
  case (Inr u)
  let ?key = "(lp_device_id p, lp_endpoint_id p)" and ?d = "snd (admit_rate address now d)"
  have "covered ?key (lp_boot_nonce p) n until ?d" using assms(1) by (simp add: covered_def)
  then obtain r where r: "find_replay ?key p now ?d = Inr (r, ?d)" "remembers (lp_boot_nonce p) n until r"
    by (rule find_replay_found)
  have "check_replay ?key p now r ?d \<noteq> Inr x" for x
  proof
    assume "check_replay ?key p now r ?d = Inr x"
    then have "n \<le> lp_sequence p \<and> (lp_sequence p = n \<longrightarrow> n = 0)"
      using check_replay_newer [OF _ r(2)] by (cases x) blast
    moreover have "lp_sequence p \<noteq> 0" using validated_presence(1) [of sodium p] Inr by simp
    ultimately show False using assms(2) antisym by blast
  qed
  then obtain out where out: "check_replay ?key p now r ?d = Inl out" by (cases "check_replay ?key p now r ?d") auto
  then have "observe_admitted ?key p address name trusted now ?d = out" by (simp add: observe_admitted_def r(1))
  with check_replay_refused [OF out] Inr show ?thesis
    by (simp add: observe_admitted_eq refuse_error)
qed

section \<open>A sample\<close>

text \<open>A libsodium whose hash is the constant 1, and that accepts every signature.\<close>

definition sample_sodium :: Sodium where
  "sample_sodium = \<lparr>sodium_init = 0, crypto_hash_sha256 = (\<lambda>_. Some (replicate 32 1)),
     crypto_sign_verify_detached = (\<lambda>_ _ _. True)\<rparr>"

definition sample_presence :: "u64 \<Rightarrow> LanPresence" where
  "sample_presence n =
    \<lparr>lp_protocol_version = current_protocol_version, lp_supported = \<lparr>cap_bits = 0xC00\<rparr>,
     lp_required = \<lparr>cap_bits = 0\<rparr>, lp_device_id = replicate 32 1, lp_identity_public_key = replicate 32 2,
     lp_endpoint_id = replicate 16 3, lp_boot_nonce = replicate 32 4, lp_sequence = n,
     lp_tls_signaling_port = 443, lp_lease = 15000, lp_signature = replicate 64 5\<rparr>"

lemma sample_fields [simp]:
  "lp_protocol_version (sample_presence n) = \<lparr>ver_major = 1, ver_minor = 3\<rparr>"
  "cap_bits (lp_supported (sample_presence n)) = 0xC00" "cap_bits (lp_required (sample_presence n)) = 0"
  "lp_device_id (sample_presence n) = replicate 32 1" "lp_identity_public_key (sample_presence n) = replicate 32 2"
  "lp_endpoint_id (sample_presence n) = replicate 16 3" "lp_boot_nonce (sample_presence n) = replicate 32 4"
  "lp_sequence (sample_presence n) = n" "lp_tls_signaling_port (sample_presence n) = 443"
  "lp_lease (sample_presence n) = 15000" "lp_signature (sample_presence n) = replicate 64 5"
  by (simp_all add: sample_presence_def current_protocol_version_def)

lemma sample_canonical: "\<exists>b. canonical_lan_presence (sample_presence n) = Inr b"
  by (simp add: canonical_lan_presence_def canonicalize_for_signature_def matches_rules_def
      lan_presence_rules_def follows_rule_def max_canonical_signing_bytes_def Let_def word_le_nat_alt
      canonical_bytes_def canonical_uint16_def canonical_uint32_def canonical_uint64_def)

lemma sample_valid: "n \<noteq> 0 \<Longrightarrow> validate_lan_presence sample_sodium (sample_presence n) = Inr ()"
  using sample_canonical [of n]
  by (auto simp: validate_lan_presence_def Let_def sample_sodium_def derive_device_id_def
      verify_identity_signature_def initialize_crypto_def current_protocol_version_def id_is_zero_iff
      list_all_iff word_less_nat_alt)

definition sample_directory :: EndpointDirectory where
  "sample_directory = (case create_directory default_lan_configuration 0 of Inr d \<Rightarrow> d)"

lemma sample_created: "create_directory default_lan_configuration 0 = Inr sample_directory"
  by (simp add: sample_directory_def create_directory_def default_configuration_valid)

lemma sample_directory_fields [simp]:
  "ed_configuration sample_directory = default_lan_configuration" "ed_entries sample_directory = []"
  "ed_replay sample_directory = []" "ed_source_rates sample_directory = []"
  "ed_global_rate_window sample_directory = 0" "ed_global_rate_count sample_directory = 0"
  by (simp_all add: sample_directory_def create_directory_def default_configuration_valid)

lemma sample_observed:
  "fst (observe_lan sample_sodium (sample_presence 7) ''10.0.0.2'' ''eth0'' True 0 sample_directory) =
    Inr \<lparr>ob_outcome = DO_inserted, ob_key = (replicate 32 1, replicate 16 3)\<rparr>"
  by (simp add: sample_valid observe_lan_def valid_directory_text_def admit_rate_def Let_def default_lan_configuration_def purge_rate_state_def
      admit_source_def find_replay_def check_replay_def find_entry_def lan_count_for_source_def
      lan_count_for_interface_def accept_presence_def)

section \<open>Properties\<close>

text \<open>
  C30: once an accepted presence of an endpoint is in the directory, no presence of the same
  endpoint and boot with the same or an older sequence is inserted or changes an entry, whatever
  calls come in between, as long as those that can drop replay states stay within twice the
  shortest lease the endpoint announced: it is refused or answered as a duplicate.
\<close>

theorem presence_replay_refused:
  assumes "create_directory c t0 = Inr d0"
    and "observe_lan sodium p address name trusted t1 (run (directory_step sodium) xs d0) = (Inr ob, d1)"
    and "ob_outcome ob \<noteq> DO_duplicate"
    and "lease \<le> lp_lease p"
    and "list_all (within_window (lp_device_id p, lp_endpoint_id p) lease t1) ys"
    and "lp_device_id q = lp_device_id p" "lp_endpoint_id q = lp_endpoint_id p"
      "lp_boot_nonce q = lp_boot_nonce p" "lp_sequence q \<le> lp_sequence p"
  shows "case observe_lan sodium q address' name' trusted' t2 (run (directory_step sodium) ys d1) of (result, d2) \<Rightarrow>
    ed_entries d2 = ed_entries (run (directory_step sodium) ys d1) \<and>
    (\<forall>ob'. result = Inr ob' \<longrightarrow> ob_outcome ob' = DO_duplicate)"
proof -
  let ?key = "(lp_device_id p, lp_endpoint_id p)"
  have "directory_wf (run (directory_step sodium) xs d0)"
    using assms(1) by (intro directory_machine.inv_reachable) blast
  from accepted_covers [OF this assms(2,3)]
  have "covers ?key (lp_boot_nonce p) (lp_sequence p) (t1 + ms_to_ns (lease * 2)) d1"
    using assms(4) by (auto simp: covers_def covered_def remembers_def split: option.splits)
  from covers_machine.guarded_run [OF assms(5) this]
  have "covered (lp_device_id q, lp_endpoint_id q) (lp_boot_nonce q) (lp_sequence p) (t1 + ms_to_ns (lease * 2))
      (run (directory_step sodium) ys d1)"
    using assms(6-8) by (simp add: covers_def)
  from covered_refuses [OF this assms(9)] show ?thesis by (simp add: split_beta)
qed

theorem presence_replay_refused_witness:
  "\<exists>d1. observe_lan sample_sodium (sample_presence 7) ''10.0.0.2'' ''eth0'' True 0 sample_directory =
      (Inr \<lparr>ob_outcome = DO_inserted, ob_key = (replicate 32 1, replicate 16 3)\<rparr>, d1) \<and>
    ed_entries (snd (observe_lan sample_sodium (sample_presence 5) ''10.0.0.3'' ''eth0'' True 2000000
      (expire 1000000 d1))) = ed_entries (expire 1000000 d1)"
proof -
  obtain d1 where o: "observe_lan sample_sodium (sample_presence 7) ''10.0.0.2'' ''eth0'' True 0 sample_directory =
      (Inr \<lparr>ob_outcome = DO_inserted, ob_key = (replicate 32 1, replicate 16 3)\<rparr>, d1)"
    using sample_observed by (metis prod.collapse)
  have "case observe_lan sample_sodium (sample_presence 5) ''10.0.0.3'' ''eth0'' True 2000000
      (run (directory_step sample_sodium) [Dir_expire 1000000] d1) of (result, d2) \<Rightarrow>
    ed_entries d2 = ed_entries (run (directory_step sample_sodium) [Dir_expire 1000000] d1) \<and>
    (\<forall>ob'. result = Inr ob' \<longrightarrow> ob_outcome ob' = DO_duplicate)"
    by (rule presence_replay_refused [OF sample_created, of sample_sodium "sample_presence 7" "''10.0.0.2''"
          "''eth0''" True 0 "[]" "\<lparr>ob_outcome = DO_inserted, ob_key = (replicate 32 1, replicate 16 3)\<rparr>" d1 15000]) (simp_all add: o word_le_nat_alt)
  with o show ?thesis by (auto simp: split_beta)
qed

end
