(* ===== verification/Spec2Isabelle.thy ===== *)
theory Spec2Isabelle
  imports Heyaki_Prelude
    Heyaki_Core Heyaki_Ids Heyaki_Varint Heyaki_Wire Heyaki_Frame_Stream Heyaki_Proto_Codec Heyaki_Message
    Heyaki_Relay_Ttl Heyaki_Relay_Rate Heyaki_Relay_Lease Heyaki_Relay_Throttle
    Heyaki_Signing Heyaki_Replay
    Heyaki_Channels Heyaki_Channel_Budgets Heyaki_Scheduler Heyaki_Capacity_Waits
    Heyaki_Message_Codec Heyaki_Event Heyaki_Rpc
    Heyaki_Gateway Heyaki_Gateway_Literals Heyaki_Gateway_Policy
    Heyaki_Byte_Stream Heyaki_Stream_Window Heyaki_Stream_Transfer Heyaki_Stream_Credit Heyaki_Stream_Callbacks
    Heyaki_Session Heyaki_Timeline
    Heyaki_Lan_Presence Heyaki_Lan_Directory Heyaki_Lan_Tables Heyaki_Lan_Replay
begin

text \<open>
  Verification of heyaki, a C++ library for authenticated peer-to-peer sessions with a relay.

  \<^bold>\<open>The program.\<close>  Two nodes find each other by LAN presences or through a relay, exchange signed
  offers and answers, and open a session over WebRTC.  A session multiplexes logical channels of
  control, interactive, standard and bulk frames; on these run messages, events, unary RPC, byte
  streams, files, shells and a gateway.  The relay keeps short-lived tables of leases and pending
  requests, behind a rate limiter and a throttle.  Paths below are relative to the source root.

  \<^bold>\<open>Conventions.\<close>  A C++ struct is a record, an enumeration a datatype (with a further constructor
  where the code lets any integer in), \<open>Result<T>\<close> is \<^typ>\<open>'a result\<close> with the error on the left,
  fixed-width integers are words, \<open>std::size_t\<close> is \<^typ>\<open>nat\<close> with the wrap-around written out where
  an operation can reach it, \<open>std::map\<close> is a list ordered by key, a time point is an integer number of
  nanoseconds.  A member function is a function from the object's state to its result and the new
  state.  An indexing beyond the end, or a call through a null pointer, gives \<^const>\<open>None\<close> or an
  outcome named \<open>undefined\<close>.  Clocks, random octets, hashes, signatures, the transport and the
  callbacks of applications are arguments.

  \<^bold>\<open>Theories.\<close>
  \<^item> \<open>Heyaki_Prelude\<close>: types, ordered maps, and the locales \<open>canonical_codec\<close>, \<open>invariant_machine\<close>
    and \<open>guarded_machine\<close>, in which codecs and invariants of whole runs are treated once; they are
    interpreted on the components' own operations.
  \<^item> \<open>Heyaki_Core\<close>: \<open>src/core/error.cpp\<close>, \<open>limits.cpp\<close>, \<open>protocol.cpp\<close>, \<open>operation.cpp\<close>,
    \<open>security.cpp\<close> with their headers.  Negotiation grants exactly the capabilities both sides
    have and the negotiated version knows.
  \<^item> \<open>Heyaki_Ids\<close>: \<open>ids.cpp\<close>, the base32 text of identifiers, a bijection with its canonical texts.
  \<^item> \<open>Heyaki_Varint\<close>, \<open>Heyaki_Wire\<close>, \<open>Heyaki_Frame_Stream\<close>: \<open>wire.cpp\<close> and \<open>frame_stream.cpp\<close>.
    The three copies of the varint code interpret one locale.  \<open>parse_frame\<close> accepts exactly what
    \<open>encode_frame\<close> produces; the stream decoder delivers, for any split of the input into chunks,
    the frames that the one-shot parser sees, up to the out-of-bounds read that occurs when its
    buffer is exactly a length prefix.
  \<^item> \<open>Heyaki_Proto_Codec\<close>, \<open>Heyaki_Message\<close>, \<open>Heyaki_Message_Codec\<close>, \<open>Heyaki_Event\<close>, \<open>Heyaki_Rpc\<close>:
    \<open>proto_codec.hpp\<close> and the codecs \<open>message_protocol.cpp\<close>, \<open>event_protocol.cpp\<close>,
    \<open>rpc_protocol.cpp\<close>, with the service registry.  The locale \<open>message_codec\<close> is the contract of
    these codecs: encoding followed by parsing gives the value back, and what is parsed satisfies
    the rules of the encoder.
  \<^item> \<open>Heyaki_Relay_Ttl\<close>, \<open>Heyaki_Relay_Rate\<close>, \<open>Heyaki_Relay_Lease\<close>, \<open>Heyaki_Relay_Throttle\<close>: the
    tables of \<open>src/relay\<close>.  The TTL table refines a finite map with deadlines (locale
    \<open>ttl_contract\<close>); the limiter admits at most burst plus rate times elapsed time and recovers;
    the lease indexes stay consistent; the backoff of the throttle is exact.
  \<^item> \<open>Heyaki_Signing\<close>, \<open>Heyaki_Replay\<close>: \<open>signing.cpp\<close> and \<open>signaling_replay_cache.cpp\<close>.  Canonical
    octets determine domain and fields; the UTF-8 check and the scope lists are exact; an object is
    accepted once within its retention.
  \<^item> \<open>Heyaki_Channels\<close>, \<open>Heyaki_Channel_Budgets\<close>, \<open>Heyaki_Scheduler\<close>, \<open>Heyaki_Capacity_Waits\<close>:
    \<open>src/client/session_channels.cpp\<close>.  Counters equal the contents of the queues and stay within
    the budgets, no class starves, every capacity wait completes exactly once.
  \<^item> \<open>Heyaki_Gateway\<close>, \<open>Heyaki_Gateway_Literals\<close>, \<open>Heyaki_Gateway_Policy\<close>: \<open>gateway_protocol.cpp\<close>.
    IP literals and their canonical text, CIDR matching as arithmetic on addresses, and when the
    admission engine allows a connection.
  \<^item> \<open>Heyaki_Byte_Stream\<close> and the four \<open>Heyaki_Stream_\<close> theories: \<open>src/client/byte_stream.cpp\<close>.
    Receive windows are conserved; the octets written are the octets read, in order; every handler
    is called once or still waits; a reader that keeps up grants no further frames, so that the
    sender stops when the initial frame credit is used up; a short DATA frame is read out of bounds.
  \<^item> \<open>Heyaki_Session\<close>, \<open>Heyaki_Timeline\<close>: the business side of \<open>src/client/peer_session.cpp\<close> and
    \<open>connection_attempt.cpp\<close>.  Nothing but control frames reaches the transport before
    authorization, the pump ends, and a timeline is a bounded chain of legal transitions.
  \<^item> \<open>Heyaki_Lan_Presence\<close>, \<open>Heyaki_Lan_Directory\<close>, \<open>Heyaki_Lan_Tables\<close>, \<open>Heyaki_Lan_Replay\<close>:
    \<open>lan_directory.cpp\<close>, \<open>validate_lan_presence\<close> of \<open>lan_protocol.cpp\<close>, the checks of
    \<open>identity.cpp\<close> and \<open>validate_lan_configuration\<close> of \<open>profile_store.cpp\<close>.  Every table is bounded,
    an entry has one identity, and an accepted presence cannot be replayed.

  \<^bold>\<open>Loops and bounds.\<close>  Loops over containers are recursions on lists; the other loops are total
  functions with a termination measure, such as the session pump, \<open>pump_writes\<close>,
  \<open>try_dispatch_reads\<close>, \<open>next_to_send\<close> and \<open>notify_capacity\<close>.  Only \<open>allocate_loop\<close> of
  \<open>Heyaki_Channels\<close> has fuel: \<open>max_open_channels + 2\<close> rounds, which \<open>allocate_loop_ends\<close> shows to
  be enough for every validated configuration.  That counters of waiters stay below \<open>2\<^sup>6\<^sup>4\<close> is a
  hypothesis where a wrap would matter.

  \<^bold>\<open>Not modelled.\<close>  The node, the runtime and the applications (threads, sockets, timers); the
  WebRTC transport, whose interface is an argument of the session; the control protocol of a
  session (hello, pairing, ping, restart), whose effects on the business side are free operations;
  the message, event, RPC, gateway, file, shell and pairing services on top of the codecs; the
  session, signaling, pairing, file, shell and relay control codecs and the LAN datagram bodies, of
  the same form as those modelled; profile store, relay database and secret backends (state outside
  the program); libsodium and OpenSSL, which are parameters; logs and metrics.
\<close>

end
